(* ===== verification/Prelude.thy ===== *)
theory Prelude
  imports Main "HOL-Library.Word"
begin

text \<open>
  Shared ground of the development: the machine types of the target
  (x86-64, the Windows data model the build file selects: pointers and
  \<^verbatim>\<open>size_t\<close> have 64 bits, \<^verbatim>\<open>int\<close> and \<^verbatim>\<open>long\<close> have 32), the result type of
  code that may stop the loader, and the generic facts on words, lists and
  results that the component theories use.
\<close>

unbundle bit_operations_syntax

section \<open>Types\<close>

type_synonym u8 = "8 word"
type_synonym u16 = "16 word"
type_synonym u32 = "32 word"
type_synonym u64 = "64 word"

text \<open>An address is a 64-bit word; memory is byte addressed and flat.\<close>

type_synonym addr = "64 word"
type_synonym mem = "64 word \<Rightarrow> 8 word"

section \<open>Automation collections\<close>

named_theorems mem_simps "reading back what was stored"
named_theorems run_simps "unfolding of the sequencing combinators"

section \<open>Code that may stop the loader\<close>

text \<open>
  A C function of the loader either returns or ends the run: the macro
  \<^verbatim>\<open>EFIERR\<close> leaves through \<^verbatim>\<open>BootServices->Exit\<close> and \<^verbatim>\<open>efi_panic\<close> prints and
  spins. A step takes the state and gives \<open>Inl\<close> (why it stopped, the state
  at that point) or \<open>Inr\<close> (the returned value, the new state).
\<close>

type_synonym ('h, 's, 'a) step = "'s \<Rightarrow> 'h \<times> 's + 'a \<times> 's"

definition ret :: "'a \<Rightarrow> ('h, 's, 'a) step" where
  "ret x s = Inr (x, s)"

definition stop :: "'h \<Rightarrow> ('h, 's, 'a) step" where
  "stop h s = Inl (h, s)"

definition andthen :: "('h, 's, 'a) step \<Rightarrow> ('a \<Rightarrow> ('h, 's, 'b) step) \<Rightarrow> ('h, 's, 'b) step" where
  "andthen m f s = (case m s of Inl e \<Rightarrow> Inl e | Inr (x, s') \<Rightarrow> f x s')"

definition modify :: "('s \<Rightarrow> 's) \<Rightarrow> ('h, 's, unit) step" where
  "modify f s = Inr ((), f s)"

definition gets :: "('s \<Rightarrow> 'a) \<Rightarrow> ('h, 's, 'a) step" where
  "gets f s = Inr (f s, s)"

text \<open>The C loop \<^verbatim>\<open>for(i = 0; i < n; i++) body(i)\<close>, from \<open>i\<close> on, \<open>n\<close> rounds left.\<close>

fun for_from :: "nat \<Rightarrow> nat \<Rightarrow> (nat \<Rightarrow> ('h, 's, unit) step) \<Rightarrow> ('h, 's, unit) step" where
  "for_from i 0 body = ret ()"
| "for_from i (Suc n) body = andthen (body i) (\<lambda>_. for_from (Suc i) n body)"

text \<open>The C loop over the elements of an array.\<close>

fun for_each :: "('a \<Rightarrow> ('h, 's, unit) step) \<Rightarrow> 'a list \<Rightarrow> ('h, 's, unit) step" where
  "for_each body [] = ret ()"
| "for_each body (x # xs) = andthen (body x) (\<lambda>_. for_each body xs)"

lemma ret_run [run_simps, simp]: "ret x s = Inr (x, s)"
  by (simp add: ret_def)

lemma stop_run [run_simps, simp]: "stop h s = Inl (h, s)"
  by (simp add: stop_def)

lemma modify_run [run_simps, simp]: "modify f s = Inr ((), f s)"
  by (simp add: modify_def)

lemma gets_run [run_simps, simp]: "gets f s = Inr (f s, s)"
  by (simp add: gets_def)

lemma andthen_Inl [run_simps]: "m s = Inl e \<Longrightarrow> andthen m f s = Inl e"
  by (simp add: andthen_def)

lemma andthen_Inr [run_simps]: "m s = Inr (x, s') \<Longrightarrow> andthen m f s = f x s'"
  by (simp add: andthen_def)

lemma andthen_ret [simp]: "andthen (ret x) f s = f x s"
  by (simp add: andthen_def)

lemma andthen_gets [simp]: "andthen (gets g) f s = f (g s) s"
  by (simp add: andthen_def)

lemma andthen_modify [simp]: "andthen (modify g) f s = f () (g s)"
  by (simp add: andthen_def)

lemma andthen_stop [simp]: "andthen (stop h) f s = Inl (h, s)"
  by (simp add: andthen_def)

lemma andthen_assoc: "andthen (andthen m f) g = andthen m (\<lambda>x. andthen (f x) g)"
  by (rule ext) (auto simp: andthen_def split: sum.splits)

lemma andthen_InrE:
  assumes "andthen m f s = Inr (y, t)"
  obtains x s' where "m s = Inr (x, s')" and "f x s' = Inr (y, t)"
  using assms by (auto simp: andthen_def split: sum.splits prod.splits)

text \<open>A step that keeps a property of the state whenever it returns.\<close>

definition keeps :: "('s \<Rightarrow> bool) \<Rightarrow> ('h, 's, 'a) step \<Rightarrow> bool" where
  "keeps Q m \<longleftrightarrow> (\<forall>s x t. m s = Inr (x, t) \<longrightarrow> Q s \<longrightarrow> Q t)"

named_theorems keeps_intros "a property of the state is kept"

lemma keepsI: "(\<And>s x t. m s = Inr (x, t) \<Longrightarrow> Q s \<Longrightarrow> Q t) \<Longrightarrow> keeps Q m"
  by (simp add: keeps_def)

lemma keepsD: "keeps Q m \<Longrightarrow> m s = Inr (x, t) \<Longrightarrow> Q s \<Longrightarrow> Q t"
  by (simp add: keeps_def)

lemma keeps_andthen [keeps_intros]: "keeps Q m \<Longrightarrow> (\<And>x. keeps Q (f x)) \<Longrightarrow> keeps Q (andthen m f)"
  by (rule keepsI) (auto elim!: andthen_InrE dest: keepsD)

lemma keeps_basic [keeps_intros]: "keeps Q (ret x)" "keeps Q (stop h)" "keeps Q (gets g)"
  by (simp_all add: keeps_def)

lemma keeps_modify [keeps_intros]: "(\<And>s. Q s \<Longrightarrow> Q (f s)) \<Longrightarrow> keeps Q (modify f)"
  by (simp add: keeps_def)

lemma keeps_if [keeps_intros]: "(b \<Longrightarrow> keeps Q m) \<Longrightarrow> (\<not> b \<Longrightarrow> keeps Q k) \<Longrightarrow> keeps Q (if b then m else k)"
  by simp

lemma keeps_prod [keeps_intros]: "(\<And>x y. p = (x, y) \<Longrightarrow> keeps Q (f x y)) \<Longrightarrow> keeps Q (case p of (x, y) \<Rightarrow> f x y)"
  by (cases p) simp

text \<open>The rule for loops: an invariant indexed by the rounds already done.\<close>

lemma for_from_inv:
  assumes run: "for_from i n body s = Inr (u, t)"
    and start: "I i s"
    and step: "\<And>k s s' v. i \<le> k \<Longrightarrow> k < i + n \<Longrightarrow> I k s \<Longrightarrow> body k s = Inr (v, s') \<Longrightarrow> I (Suc k) s'"
  shows "I (i + n) t"
  using run start step
proof (induction n arbitrary: i s)
  case 0
  then show ?case by simp
next
  case (Suc n)
  from Suc.prems(1) obtain v s' where b: "body i s = Inr (v, s')"
    and rest: "for_from (Suc i) n body s' = Inr (u, t)"
    by (auto elim: andthen_InrE)
  have "I (Suc i) s'" using Suc.prems(3) [OF _ _ Suc.prems(2) b] by simp
  with rest have "I (Suc i + n) t"
    by (rule Suc.IH) (use Suc.prems(3) in force)
  then show ?case by simp
qed

lemma for_from_total:
  assumes "I i s"
    and "\<And>k s. i \<le> k \<Longrightarrow> k < i + n \<Longrightarrow> I k s \<Longrightarrow> \<exists>s'. body k s = Inr ((), s') \<and> I (Suc k) s'"
  shows "\<exists>t. for_from i n body s = Inr ((), t) \<and> I (i + n) t"
  using assms
proof (induction n arbitrary: i s)
  case 0
  then show ?case by simp
next
  case (Suc n)
  obtain s' where b: "body i s = Inr ((), s')" and I: "I (Suc i) s'"
    using Suc.prems(2) [OF _ _ Suc.prems(1)] by auto
  have "\<exists>t. for_from (Suc i) n body s' = Inr ((), t) \<and> I (Suc i + n) t"
    using I by (rule Suc.IH) (use Suc.prems(2) in force)
  with b show ?case by (auto simp: andthen_Inr)
qed

section \<open>Loops without a bound\<close>

text \<open>
  \<^verbatim>\<open>do { x = body(); } while(again(x));\<close>, where the body may stop the loader; \<open>None\<close>
  when it goes on for ever, which \<open>repeat_run\<close> makes the outcome \<open>hung\<close>.
\<close>

partial_function (option) do_while :: "('h, 's, 'a) step \<Rightarrow> ('a \<Rightarrow> bool) \<Rightarrow> 's \<Rightarrow> ('h \<times> 's + 'a \<times> 's) option" where
  "do_while body again s =
     (case body s of
        Inl e \<Rightarrow> Some (Inl e)
      | Inr (x, s') \<Rightarrow> if again x then do_while body again s' else Some (Inr (x, s')))"

definition repeat_run :: "'h \<Rightarrow> ('h, 's, 'a) step \<Rightarrow> ('a \<Rightarrow> bool) \<Rightarrow> ('h, 's, 'a) step" where
  "repeat_run hung body again s = (case do_while body again s of None \<Rightarrow> Inl (hung, s) | Some r \<Rightarrow> r)"

text \<open>The state after \<open>n\<close> rounds that all ask for another one, and what the round that does not gives.\<close>

primrec rounds :: "('h, 's, 'a) step \<Rightarrow> ('a \<Rightarrow> bool) \<Rightarrow> nat \<Rightarrow> 's \<Rightarrow> 's option" where
  "rounds body again 0 s = Some s"
| "rounds body again (Suc n) s =
     (case body s of Inl e \<Rightarrow> None | Inr (x, s') \<Rightarrow> if again x then rounds body again n s' else None)"

definition is_last :: "('a \<Rightarrow> bool) \<Rightarrow> ('h \<times> 's + 'a \<times> 's) \<Rightarrow> bool" where
  "is_last again r \<longleftrightarrow> (case r of Inl e \<Rightarrow> True | Inr (x, s) \<Rightarrow> \<not> again x)"

lemma do_while_last: "is_last again (body s) \<Longrightarrow> do_while body again s = Some (body s)"
  by (subst do_while.simps) (auto simp: is_last_def split: sum.splits prod.splits)

lemma do_while_again: "body s = Inr (x, s') \<Longrightarrow> again x \<Longrightarrow> do_while body again s = do_while body again s'"
  by (subst do_while.simps) simp

lemma do_while_rounds: "rounds body again n s = Some s' \<Longrightarrow> do_while body again s = do_while body again s'"
proof (induction n arbitrary: s)
  case (Suc n)
  then show ?case by (auto simp: do_while_again split: sum.splits prod.splits if_splits)
qed simp

lemma do_while_found:
  "do_while body again s = Some r \<Longrightarrow> \<exists>n s'. rounds body again n s = Some s' \<and> body s' = r \<and> is_last again r"
proof (induction rule: do_while.raw_induct [rotated, consumes 1, case_names step])
  case (step loop body again s r)
  show ?case
  proof (cases "is_last again (body s)")
    case True
    then have "body s = r" using step(2) by (auto simp: is_last_def split: sum.splits prod.splits)
    then show ?thesis using True by (intro exI [of _ 0]) simp
  next
    case False
    then obtain x s1 where b: "body s = Inr (x, s1)" "again x" by (auto simp: is_last_def split: sum.splits prod.splits)
    then obtain n s' where "rounds body again n s1 = Some s'" "body s' = r" "is_last again r" using step by fastforce
    then show ?thesis using b by (intro exI [of _ "Suc n"]) simp
  qed
qed

text \<open>A loop ends exactly when some round is the last one.\<close>

lemma do_while_iff:
  "do_while body again s = Some r \<longleftrightarrow> (\<exists>n s'. rounds body again n s = Some s' \<and> body s' = r \<and> is_last again r)"
  by (metis do_while_found do_while_rounds do_while_last)

lemma do_while_inv:
  assumes "do_while body again s = Some (Inr (x, t))" and "keeps Q body" and "Q s"
  shows "Q t"
proof -
  obtain n s' where n: "rounds body again n s = Some s'" "body s' = Inr (x, t)" using do_while_found [OF assms(1)] by blast
  have "Q s'" using n(1) assms(3)
    by (induction n arbitrary: s) (auto split: sum.splits prod.splits if_splits dest: keepsD [OF assms(2)])
  then show ?thesis using n(2) assms(2) by (blast dest: keepsD)
qed

lemma keeps_repeat_run [keeps_intros]: "keeps Q body \<Longrightarrow> keeps Q (repeat_run hung body again)"
  by (rule keepsI) (auto simp: repeat_run_def split: option.splits dest: do_while_inv)

lemma repeat_run_last:
  assumes "rounds body again n s = Some s'" and "is_last again (body s')"
  shows "repeat_run hung body again s = body s'"
  using do_while_rounds [OF assms(1)] do_while_last [of again body s'] assms(2) by (simp add: repeat_run_def)

section \<open>Words\<close>

lemma unat_of_nat64: "i < 2 ^ 64 \<Longrightarrow> unat (of_nat i :: u64) = i"
  by (simp add: unat_of_nat take_bit_nat_eq_self)

lemma unat_of_nat16: "k < 65536 \<Longrightarrow> unat (of_nat k :: u16) = k"
  by (simp add: unat_of_nat take_bit_nat_eq_self)

lemma of_nat64_inj: "i < 2 ^ 64 \<Longrightarrow> j < 2 ^ 64 \<Longrightarrow> (of_nat i :: u64) = of_nat j \<longleftrightarrow> i = j"
  by (metis unat_of_nat64)

lemma unat_add_of_nat:
  fixes d :: u64
  assumes "unat d + j < 2 ^ 64"
  shows "unat (d + of_nat j) = unat d + j"
  using assms by (simp add: unat_word_ariths unat_of_nat64)

lemma unat_lt64: "unat (x :: u64) < 2 ^ 64"
  using unsigned_less [of x, where ?'a = nat] by simp

lemma unat_neg64:
  fixes d :: u64
  assumes "d \<noteq> 0"
  shows "unat (- d) = 2 ^ 64 - unat d"
proof -
  have "0 < unat d" using assms by (simp add: unat_gt_0)
  then show ?thesis using unat_sub_if_size [of 0 d] by (simp add: word_size)
qed

lemma word_nth_ext: "(\<And>n. n < LENGTH('a::len) \<Longrightarrow> bit x n = bit y n) \<Longrightarrow> x = (y :: 'a word)"
  by (rule bit_word_eqI)

lemma small_bits: "unat (a :: u64) < 2 ^ k \<Longrightarrow> k \<le> n \<Longrightarrow> \<not> bit a n"
proof -
  assume "unat a < 2 ^ k" and n: "k \<le> n"
  then have "take_bit k (unat a) = unat a" by (simp add: take_bit_nat_eq_self_iff)
  then have "\<not> bit (unat a) n" using n by (metis bit_take_bit_iff not_less)
  then show "\<not> bit a n" by (simp add: bit_unsigned_iff bit_word.rep_eq)
qed

lemma bit_lt: "unat (a :: u64) < 2 ^ k \<Longrightarrow> bit a n \<Longrightarrow> n < k"
  using small_bits [of a k n] by (meson not_le)

text \<open>Clearing the low bits of a word that a mask otherwise covers.\<close>

lemma unat_and_high:
  fixes x :: u64
  assumes "unat x < 2 ^ (k + n)"
  shows "unat (x AND push_bit k (mask n)) = 2 ^ k * (unat x div 2 ^ k)"
proof -
  have "x AND push_bit k (mask n) = push_bit k (drop_bit k x)"
  proof (rule bit_word_eqI)
    fix i assume "i < LENGTH(64)"
    then show "bit (x AND push_bit k (mask n)) i = bit (push_bit k (drop_bit k x)) i"
      using bit_lt [OF assms, of i]
      unfolding bit_and_iff bit_push_bit_iff bit_drop_bit_eq bit_mask_iff by auto
  qed
  moreover have "push_bit k (drop_bit k x) + take_bit k x = x" by (rule bits_ident)
  ultimately have "x AND push_bit k (mask n) = x - take_bit k x" by (metis add_diff_cancel)
  moreover have "unat (take_bit k x) = unat x mod 2 ^ k"
    unfolding unsigned_take_bit_eq by (rule take_bit_eq_mod)
  ultimately have "unat (x AND push_bit k (mask n)) = unat x - unat x mod 2 ^ k"
    by (simp add: unat_sub_if_size)
  then show ?thesis by (simp add: minus_mod_eq_mult_div)
qed

end
