(* ===== verification/Memory.thy ===== *)
theory Memory
  imports Prelude
begin

text \<open>
  The flat byte memory the C code works on: runs of bytes, regions and their
  separation, and the little-endian integers the code loads and stores
  through \<^verbatim>\<open>uint16_t *\<close>, \<^verbatim>\<open>uint32_t *\<close> and \<^verbatim>\<open>uint64_t *\<close> pointers. Pointer
  arithmetic wraps at 64 bits, as the address type does.
\<close>

section \<open>Runs of bytes\<close>

definition load_bytes :: "mem \<Rightarrow> addr \<Rightarrow> nat \<Rightarrow> u8 list" where
  "load_bytes m a n = map (\<lambda>i. m (a + of_nat i)) [0..<n]"

definition store_bytes :: "mem \<Rightarrow> addr \<Rightarrow> u8 list \<Rightarrow> mem" where
  "store_bytes m a bs =
     (\<lambda>x. if unat (x - a) < length bs then bs ! unat (x - a) else m x)"

text \<open>The addresses of \<open>n\<close> bytes from \<open>a\<close> on.\<close>

definition region :: "addr \<Rightarrow> nat \<Rightarrow> addr set" where
  "region a n = {x. unat (x - a) < n}"

lemma length_load_bytes [simp]: "length (load_bytes m a n) = n"
  by (simp add: load_bytes_def)

lemma nth_load_bytes [simp]: "i < n \<Longrightarrow> load_bytes m a n ! i = m (a + of_nat i)"
  by (simp add: load_bytes_def)

lemma load_bytes_0 [simp]: "load_bytes m a 0 = []"
  by (simp add: load_bytes_def)

lemma load_bytes_Suc: "load_bytes m a (Suc n) = m a # load_bytes m (a + 1) n"
proof (rule nth_equalityI)
  show "length (load_bytes m a (Suc n)) = length (m a # load_bytes m (a + 1) n)" by simp
next
  fix i assume "i < length (load_bytes m a (Suc n))"
  then show "load_bytes m a (Suc n) ! i = (m a # load_bytes m (a + 1) n) ! i"
    by (cases i) (auto simp: add.assoc)
qed

lemma load_bytes_add: "load_bytes m a (n + k) = load_bytes m a n @ load_bytes m (a + of_nat n) k"
  by (rule nth_equalityI) (auto simp: nth_append add.assoc simp flip: of_nat_add)

lemma take_load_bytes: "take k (load_bytes m a n) = load_bytes m a (min k n)"
  by (rule nth_equalityI) auto

lemma drop_load_bytes: "drop k (load_bytes m a n) = load_bytes m (a + of_nat k) (n - k)"
  by (rule nth_equalityI) (auto simp: add.assoc simp flip: of_nat_add)

lemma load_part: "k + j \<le> n \<Longrightarrow> load_bytes m (a + of_nat k) j = take j (drop k (load_bytes m a n))"
  by (simp add: drop_load_bytes take_load_bytes min_absorb1)

lemma in_region: "i < n \<Longrightarrow> a + of_nat i \<in> region a n"
proof -
  assume "i < n"
  have "unat (of_nat i :: u64) \<le> i" by (simp add: unat_of_nat take_bit_nat_less_eq_self)
  with \<open>i < n\<close> show ?thesis by (simp add: region_def)
qed

lemma region_0 [simp]: "region a 0 = {}"
  by (simp add: region_def)

lemma base_in_region [simp]: "0 < n \<Longrightarrow> a \<in> region a n"
  by (simp add: region_def)

lemma region_mono: "n \<le> k \<Longrightarrow> region a n \<subseteq> region a k"
  by (auto simp: region_def)

lemma regionE:
  assumes "x \<in> region a n"
  obtains i where "i < n" and "i < 2 ^ 64" and "x = a + of_nat i"
proof
  show "unat (x - a) < n" using assms by (simp add: region_def)
  show "unat (x - a) < 2 ^ 64" by (rule unat_lt64)
  show "x = a + of_nat (unat (x - a))" by simp
qed

lemma subregion:
  assumes "k + j \<le> n"
  shows "region (a + of_nat k) j \<subseteq> region a n"
proof
  fix x assume "x \<in> region (a + of_nat k) j"
  then obtain i where "i < j" and x: "x = a + of_nat k + of_nat i" by (rule regionE)
  then have "x = a + of_nat (k + i)" and "k + i < n" using assms by (simp_all add: add.assoc)
  then show "x \<in> region a n" by (simp only: in_region)
qed

text \<open>Two runs do not meet when each starts far enough behind the other.\<close>

lemma region_disjI:
  assumes "n \<le> unat (b - a)" and "k \<le> unat (a - b)"
  shows "region a n \<inter> region b k = {}"
proof (rule equals0I)
  fix x assume "x \<in> region a n \<inter> region b k"
  then have xa: "unat (x - a) < n" and xb: "unat (x - b) < k" by (auto simp: region_def)
  show False
  proof (cases "a = b")
    case True
    with assms xa show False by simp
  next
    case False
    then have ne: "a - b \<noteq> 0" by simp
    have lt: "\<not> unat (a - b) \<le> unat (x - b)" using xb assms(2) by simp
    have "unat (x - a) = unat ((x - b) - (a - b))" by simp
    also have "\<dots> = unat (x - b) + 2 ^ 64 - unat (a - b)"
      using lt by (simp only: unat_sub_if_size [of "x - b"] if_False word_size) simp
    finally have "unat (x - a) = unat (x - b) + 2 ^ 64 - unat (a - b)" .
    moreover have "unat (b - a) = 2 ^ 64 - unat (a - b)"
      using unat_neg64 [OF ne] by simp
    ultimately show False using xa assms(1) by linarith
  qed
qed

lemma offsets_apart:
  assumes "i + n \<le> j" and "j + k \<le> 2 ^ 63"
  shows "region (a + of_nat i) n \<inter> region (a + of_nat j) k = {}"
proof (cases "n = 0")
  case False
  then have "unat (of_nat j - of_nat i :: u64) = j - i" "unat (of_nat i - of_nat j :: u64) = i + 2 ^ 64 - j"
    using assms by (simp_all add: unat_sub_if_size word_size unat_of_nat64)
  then show ?thesis using assms False by (intro region_disjI) auto
qed simp

lemma store_outside [mem_simps]: "x \<notin> region a (length bs) \<Longrightarrow> store_bytes m a bs x = m x"
  by (simp add: store_bytes_def region_def)

lemma store_outside_le: "x \<notin> region a n \<Longrightarrow> length bs \<le> n \<Longrightarrow> store_bytes m a bs x = m x"
  by (simp add: store_bytes_def region_def)


lemma store_inside: "i < length bs \<Longrightarrow> length bs \<le> 2 ^ 64 \<Longrightarrow> store_bytes m a bs (a + of_nat i) = bs ! i"
  by (simp add: store_bytes_def unat_of_nat64)

lemma store_Nil [simp]: "store_bytes m a [] = m"
  by (simp add: store_bytes_def)

lemma load_store_same [mem_simps]:
  "length bs \<le> 2 ^ 64 \<Longrightarrow> n = length bs \<Longrightarrow> load_bytes (store_bytes m a bs) a n = bs"
  by (rule nth_equalityI) (auto simp: store_inside)

lemma load_store_disj [mem_simps]:
  assumes "region b n \<inter> region a (length bs) = {}"
  shows "load_bytes (store_bytes m a bs) b n = load_bytes m b n"
  using assms by (intro nth_equalityI) (auto simp: store_outside in_region disjoint_iff)

lemma load_store_disj_le:
  assumes "region b n \<inter> region a k = {}" and "length bs \<le> k"
  shows "load_bytes (store_bytes m a bs) b n = load_bytes m b n"
  using assms region_mono [OF assms(2), of a] by (intro load_store_disj) blast

lemma load_cong: "(\<And>x. x \<in> region a n \<Longrightarrow> m x = m' x) \<Longrightarrow> load_bytes m a n = load_bytes m' a n"
  by (rule nth_equalityI) (auto simp: in_region)

lemma store_load_same: "store_bytes m a (load_bytes m a n) = m"
  by (rule ext) (simp add: store_bytes_def)

lemma store_comm:
  assumes "region a (length bs) \<inter> region b (length cs) = {}"
  shows "store_bytes (store_bytes m a bs) b cs = store_bytes (store_bytes m b cs) a bs"
proof (rule ext)
  fix x
  show "store_bytes (store_bytes m a bs) b cs x = store_bytes (store_bytes m b cs) a bs x"
    using assms by (auto simp: store_bytes_def region_def)
qed

text \<open>Runs that lie pairwise apart.\<close>

fun apart :: "(addr \<times> nat) list \<Rightarrow> bool" where
  "apart [] \<longleftrightarrow> True"
| "apart ((a, n) # rs) \<longleftrightarrow> list_all (\<lambda>(b, k). region a n \<inter> region b k = {} \<and> region b k \<inter> region a n = {}) rs \<and> apart rs"

text \<open>For runs at known places: each one ends before the next one starts.\<close>

fun ascending :: "nat \<Rightarrow> (addr \<times> nat) list \<Rightarrow> bool" where
  "ascending lo [] \<longleftrightarrow> lo \<le> 2 ^ 64"
| "ascending lo ((a, n) # rs) \<longleftrightarrow> lo \<le> unat a \<and> ascending (unat a + n) rs"

lemma ascending_mono: "ascending lo rs \<Longrightarrow> lo' \<le> lo \<Longrightarrow> ascending lo' rs"
  by (cases "(lo, rs)" rule: ascending.cases) auto

lemma ascending_bounds: "ascending lo rs \<Longrightarrow> (b, k) \<in> set rs \<Longrightarrow> lo \<le> unat b \<and> unat b + k \<le> 2 ^ 64"
proof (induction lo rs rule: ascending.induct)
  case (2 lo a n rs)
  have up: "lo' \<le> 2 ^ 64" if "ascending lo' rs" for lo' rs
    using that by (induction lo' rs rule: ascending.induct) auto
  from 2 show ?case using up [of "unat a + n" rs] by auto
qed simp

lemma region_below: "unat a + n \<le> 2 ^ 64 \<Longrightarrow> region a n = {x. unat a \<le> unat x \<and> unat x < unat a + n}"
proof (rule set_eqI)
  fix x assume lim: "unat a + n \<le> 2 ^ 64"
  show "(x \<in> region a n) = (x \<in> {x. unat a \<le> unat x \<and> unat x < unat a + n})"
  proof
    assume "x \<in> region a n"
    then obtain i where "i < n" and "x = a + of_nat i" by (rule regionE)
    then show "x \<in> {x. unat a \<le> unat x \<and> unat x < unat a + n}"
      using lim unat_add_of_nat [of a i] by simp
  next
    assume "x \<in> {x. unat a \<le> unat x \<and> unat x < unat a + n}"
    then show "x \<in> region a n" by (auto simp: region_def unat_sub_if_size)
  qed
qed

lemma apart_ascending: "ascending lo rs \<Longrightarrow> apart rs"
proof (induction rs arbitrary: lo)
  case (Cons r rs)
  obtain a n where r: "r = (a, n)" by (cases r)
  with Cons.prems have asc: "ascending (unat a + n) rs" by simp
  moreover have "region a n \<inter> region b k = {}" if "(b, k) \<in> set rs" for b k
    using ascending_bounds [OF asc that] by (auto simp: region_below)
  ultimately show ?case using Cons.IH r by (fastforce simp: list_all_iff)
qed simp

text \<open>Storing inside a run rewrites a slice of it.\<close>

lemma load_store_slice:
  assumes fits: "k + length bs \<le> n" and n: "n \<le> 2 ^ 64"
  shows "load_bytes (store_bytes m (a + of_nat k) bs) a n =
           load_bytes m a k @ bs @ load_bytes m (a + of_nat (k + length bs)) (n - (k + length bs))"
proof (rule nth_equalityI)
  show "length (load_bytes (store_bytes m (a + of_nat k) bs) a n) =
      length (load_bytes m a k @ bs @ load_bytes m (a + of_nat (k + length bs)) (n - (k + length bs)))"
    using fits by simp
next
  fix i assume "i < length (load_bytes (store_bytes m (a + of_nat k) bs) a n)"
  then have i: "i < n" by simp
  have d: "a + of_nat i - (a + of_nat k) = (of_nat i - of_nat k :: u64)" by simp
  show "load_bytes (store_bytes m (a + of_nat k) bs) a n ! i =
      (load_bytes m a k @ bs @ load_bytes m (a + of_nat (k + length bs)) (n - (k + length bs))) ! i"
  proof (cases "i < k")
    case True
    have "k < 2 ^ 64 \<or> bs = []" and "i < 2 ^ 64" using i n fits by (cases bs; simp)+
    then have "bs \<noteq> [] \<Longrightarrow> unat (of_nat i - of_nat k :: u64) = i + 2 ^ 64 - k"
      using True by (simp only: unat_sub_if_size word_size) (simp add: unat_of_nat64)
    then have "\<not> unat (of_nat i - of_nat k :: u64) < length bs"
      using n fits True by (cases "bs = []") auto
    then show ?thesis using True i by (simp add: nth_append store_bytes_def d)
  next
    case False
    then have u: "unat (of_nat i - of_nat k :: u64) = i - k"
      using i n by (simp add: unat_sub_if_size word_size unat_of_nat64)
    show ?thesis
    proof (cases "i < k + length bs")
      case True
      then have "i - k < length bs" using False by linarith
      with False u i show ?thesis by (simp add: nth_append store_bytes_def d)
    next
      case more: False
      then have "\<not> i - k < length bs" and "i - k - length bs < n - (k + length bs)"
        using False i by auto
      moreover have "a + of_nat (k + length bs) + of_nat (i - k - length bs) = a + of_nat i"
        using more False by (simp add: add.assoc flip: of_nat_add)
      ultimately show ?thesis using False u i by (simp add: nth_append store_bytes_def d)
    qed
  qed
qed

lemma loaded_part: "load_bytes m a n = F \<Longrightarrow> k + j \<le> n \<Longrightarrow> load_bytes m (a + of_nat k) j = take j (drop k F)"
  using load_part [of k j n m a] by simp

lemma loaded_byte: "load_bytes m a n = F \<Longrightarrow> k < n \<Longrightarrow> m (a + of_nat k) = F ! k"
  by (metis nth_load_bytes)

lemma upd_store: "m(a := x) = store_bytes m a [x]"
proof (rule ext)
  fix y show "(m(a := x)) y = store_bytes m a [x] y"
    using store_inside [of 0 "[x]" m a] by (cases "y = a") (simp_all add: store_bytes_def unat_eq_zero)
qed

section \<open>Little-endian integers\<close>

fun le_nat :: "u8 list \<Rightarrow> nat" where
  "le_nat [] = 0"
| "le_nat (b # bs) = unat b + 256 * le_nat bs"

definition le_word :: "u8 list \<Rightarrow> 'a::len word" where
  "le_word bs = of_nat (le_nat bs)"

fun le_bytes :: "nat \<Rightarrow> 'a::len word \<Rightarrow> u8 list" where
  "le_bytes 0 v = []"
| "le_bytes (Suc n) v = ucast v # le_bytes n (drop_bit 8 v)"

lemma length_le_bytes [simp]: "length (le_bytes n v) = n"
  by (induction n v rule: le_bytes.induct) auto

lemma le_nat_less: "le_nat bs < 256 ^ length bs"
proof (induction bs)
  case (Cons b bs)
  have "unat b < 256" using unsigned_less [of b, where ?'a = nat] by simp
  with Cons show ?case by simp
qed simp

lemma unat_ucast_byte: "unat (ucast (v :: 'a::len word) :: u8) = unat v mod 256"
  by (simp add: unsigned_ucast_eq take_bit_eq_mod)

lemma unat_drop_byte: "unat (drop_bit 8 (v :: 'a::len word)) = unat v div 256"
  unfolding unat_drop_bit_eq by (simp add: drop_bit_eq_div)

lemma le_nat_le_bytes: "le_nat (le_bytes n v) = unat v mod 256 ^ n"
proof (induction n v rule: le_bytes.induct)
  case (2 n v)
  have "unat v mod 256 ^ Suc n = 256 * (unat v div 256 mod 256 ^ n) + unat v mod 256"
    by (simp add: mod_mult2_eq)
  with 2 show ?case by (simp add: unat_ucast_byte unat_drop_byte)
qed simp

lemma le_word_le_bytes:
  assumes "LENGTH('a::len) \<le> 8 * n"
  shows "le_word (le_bytes n v) = (v :: 'a word)"
proof -
  have "(2::nat) ^ LENGTH('a) \<le> 2 ^ (8 * n)" using assms by (rule power_increasing) simp
  then have "unat v < 256 ^ n"
    using less_le_trans [OF unsigned_less [of v, where ?'a = nat]] by (simp add: power_mult)
  then show ?thesis by (simp add: le_word_def le_nat_le_bytes)
qed

lemma byte_less: "unat (b :: u8) < 256"
  using unsigned_less [of b, where ?'a = nat] by simp

lemma le_bytes_numeral: "le_bytes (numeral k) v = ucast v # le_bytes (pred_numeral k) (drop_bit 8 v)"
  unfolding numeral_eq_Suc [of k] by simp

lemma le_nat_inj: "length xs = length ys \<Longrightarrow> le_nat xs = le_nat ys \<Longrightarrow> xs = ys"
proof (induction xs ys rule: list_induct2)
  case (Cons x xs y ys)
  have x: "unat x < 256" and y: "unat y < 256"
    using unsigned_less [of x, where ?'a = nat] unsigned_less [of y, where ?'a = nat] by simp_all
  have "(unat x + 256 * le_nat xs) mod 256 = (unat y + 256 * le_nat ys) mod 256"
    and "(unat x + 256 * le_nat xs) div 256 = (unat y + 256 * le_nat ys) div 256"
    using Cons.prems by simp_all
  with x y have "unat x = unat y" and "le_nat xs = le_nat ys" by simp_all
  with Cons.IH show ?case by (simp add: word_unat_eq_iff)
qed simp

text \<open>
  One interface for the three widths: an integer of \<open>w\<close> bytes is read from
  the bytes it was stored as, and a store elsewhere leaves it alone.
\<close>

locale mem_cell =
  fixes rd :: "mem \<Rightarrow> addr \<Rightarrow> 'v"
    and wr :: "mem \<Rightarrow> addr \<Rightarrow> 'v \<Rightarrow> mem"
    and enc :: "'v \<Rightarrow> u8 list"
    and dec :: "u8 list \<Rightarrow> 'v"
    and w :: nat
  assumes rd_dec: "rd m a = dec (load_bytes m a w)"
    and wr_enc: "wr m a v = store_bytes m a (enc v)"
    and enc_len: "length (enc v) = w"
    and dec_enc: "dec (enc v) = v"
    and width: "w \<le> 2 ^ 64"
begin

lemma rd_wr_same: "rd (wr m a v) a = v"
proof -
  have "load_bytes (store_bytes m a (enc v)) a w = enc v"
    by (rule load_store_same) (simp_all only: enc_len width)
  then show ?thesis unfolding rd_dec wr_enc by (simp only: dec_enc)
qed

lemma rd_wr_disj: "region b w \<inter> region a w = {} \<Longrightarrow> rd (wr m a v) b = rd m b"
  by (simp add: rd_dec wr_enc load_store_disj enc_len)

lemma rd_store_disj: "region b w \<inter> region a (length bs) = {} \<Longrightarrow> rd (store_bytes m a bs) b = rd m b"
  by (simp add: rd_dec load_store_disj)

lemma wr_outside: "x \<notin> region a w \<Longrightarrow> wr m a v x = m x"
  by (simp add: wr_enc store_outside enc_len)

lemma load_wr_disj: "region b n \<inter> region a w = {} \<Longrightarrow> load_bytes (wr m a v) b n = load_bytes m b n"
  by (simp add: wr_enc load_store_disj enc_len)

lemma rd_cong: "(\<And>x. x \<in> region a w \<Longrightarrow> m x = m' x) \<Longrightarrow> rd m a = rd m' a"
  unfolding rd_dec by (metis load_cong)

end

definition rd16 :: "mem \<Rightarrow> addr \<Rightarrow> u16" where
  "rd16 m a = le_word (load_bytes m a 2)"

definition wr16 :: "mem \<Rightarrow> addr \<Rightarrow> u16 \<Rightarrow> mem" where
  "wr16 m a v = store_bytes m a (le_bytes 2 v)"

definition rd32 :: "mem \<Rightarrow> addr \<Rightarrow> u32" where
  "rd32 m a = le_word (load_bytes m a 4)"

definition wr32 :: "mem \<Rightarrow> addr \<Rightarrow> u32 \<Rightarrow> mem" where
  "wr32 m a v = store_bytes m a (le_bytes 4 v)"

definition rd64 :: "mem \<Rightarrow> addr \<Rightarrow> u64" where
  "rd64 m a = le_word (load_bytes m a 8)"

definition wr64 :: "mem \<Rightarrow> addr \<Rightarrow> u64 \<Rightarrow> mem" where
  "wr64 m a v = store_bytes m a (le_bytes 8 v)"

interpretation c16: mem_cell rd16 wr16 "le_bytes 2" le_word 2
  by unfold_locales (simp_all add: rd16_def wr16_def le_word_le_bytes)

interpretation c32: mem_cell rd32 wr32 "le_bytes 4" le_word 4
  by unfold_locales (simp_all add: rd32_def wr32_def le_word_le_bytes)

interpretation c64: mem_cell rd64 wr64 "le_bytes 8" le_word 8
  by unfold_locales (simp_all add: rd64_def wr64_def le_word_le_bytes)

lemmas cell_same = c16.rd_wr_same c32.rd_wr_same c64.rd_wr_same
lemmas cell_disj = c16.rd_wr_disj c32.rd_wr_disj c64.rd_wr_disj
declare cell_same [mem_simps] cell_disj [mem_simps]

section \<open>Aligned blocks\<close>

definition aligned :: "nat \<Rightarrow> addr \<Rightarrow> bool" where
  "aligned k a \<longleftrightarrow> unat a mod 2 ^ k = 0"

text \<open>An aligned block of \<open>2 ^ k\<close> bytes is the set of addresses with its block number.\<close>

lemma aligned_no_wrap:
  assumes "aligned k a" and "k \<le> 64" and "i < 2 ^ k"
  shows "unat a + i < 2 ^ 64"
proof -
  have e: "(2::nat) ^ 64 = 2 ^ k * 2 ^ (64 - k)" using assms(2) by (simp flip: power_add)
  obtain q where q: "unat a = 2 ^ k * q" using assms(1) by (auto simp: aligned_def)
  have "2 ^ k * q < 2 ^ k * 2 ^ (64 - k)" using unat_lt64 [of a] by (simp only: q e)
  then have "Suc q \<le> 2 ^ (64 - k)" by simp
  then have "2 ^ k * Suc q \<le> 2 ^ k * 2 ^ (64 - k)" by (rule mult_le_mono2)
  then show ?thesis using assms(3) q e by simp
qed

lemma aligned_region:
  assumes "aligned k a" and "k \<le> 64"
  shows "region a (2 ^ k) = {x. unat x div 2 ^ k = unat a div 2 ^ k}"
proof (rule set_eqI)
  fix x
  have "x \<in> region a (2 ^ k) \<longleftrightarrow> unat x div 2 ^ k = unat a div 2 ^ k"
  proof
    assume "x \<in> region a (2 ^ k)"
    then obtain i where i: "i < 2 ^ k" and x: "x = a + of_nat i" by (rule regionE)
    have "unat x = unat a + i" using aligned_no_wrap [OF assms i] x by (simp add: unat_add_of_nat)
    then show "unat x div 2 ^ k = unat a div 2 ^ k" using assms(1) i by (auto simp: aligned_def)
  next
    assume e: "unat x div 2 ^ k = unat a div 2 ^ k"
    have xx: "unat x = unat a div 2 ^ k * 2 ^ k + unat x mod 2 ^ k" using e by (metis div_mult_mod_eq)
    have "unat a = unat a div 2 ^ k * 2 ^ k" using assms(1) by (auto simp: aligned_def)
    with xx have "unat x = unat a + unat x mod 2 ^ k" by simp
    then have "unat (x - a) = unat x mod 2 ^ k" by (simp add: unat_sub_if_size)
    then show "x \<in> region a (2 ^ k)" by (simp add: region_def)
  qed
  then show "(x \<in> region a (2 ^ k)) = (x \<in> {x. unat x div 2 ^ k = unat a div 2 ^ k})" by simp
qed

lemma aligned_eq_iff:
  assumes "aligned k a" and "aligned k b"
  shows "unat a div 2 ^ k = unat b div 2 ^ k \<longleftrightarrow> a = b"
proof
  assume e: "unat a div 2 ^ k = unat b div 2 ^ k"
  have "unat a = unat a div 2 ^ k * 2 ^ k" and "unat b = unat b div 2 ^ k * 2 ^ k"
    using assms by (auto simp: aligned_def)
  with e have "unat a = unat b" by simp
  then show "a = b" by (simp add: word_unat_eq_iff)
qed simp

lemma aligned_disj:
  assumes "aligned k a" and "aligned k b" and "k \<le> 64" and "a \<noteq> b"
  shows "region a (2 ^ k) \<inter> region b (2 ^ k) = {}"
  using assms by (auto simp: aligned_region aligned_eq_iff)

lemma rd64_wr64_aligned:
  assumes "aligned 3 a" and "aligned 3 b"
  shows "rd64 (wr64 m a v) b = (if a = b then v else rd64 m b)"
proof (cases "a = b")
  case False
  then have "region b 8 \<inter> region a 8 = {}" using aligned_disj [OF assms(2,1)] by simp
  with False show ?thesis by (simp add: c64.rd_wr_disj)
qed (simp add: c64.rd_wr_same)

end
