(* ===== verification/CString.thy ===== *)
theory CString
  imports Memory
begin

text \<open>
  The string routines of the freestanding C library (\<^verbatim>\<open>lib/string/*.c\<close>) and
  \<^verbatim>\<open>efi_strlen\<close> of \<^verbatim>\<open>print.c\<close>. Each loop \<^verbatim>\<open>while(n --> 0)\<close> runs \<open>n\<close> rounds,
  so it recurses on the count; the loops that look for a terminator may run
  forever on a memory without one, so they are partial.
\<close>

section \<open>memcpy, memset, memcmp, strncmp\<close>

fun memcpy :: "mem \<Rightarrow> addr \<Rightarrow> addr \<Rightarrow> nat \<Rightarrow> mem" where
  "memcpy m dst src 0 = m"
| "memcpy m dst src (Suc n) = memcpy (m(dst := m src)) (dst + 1) (src + 1) n"

fun memset :: "mem \<Rightarrow> addr \<Rightarrow> u32 \<Rightarrow> nat \<Rightarrow> mem" where
  "memset m s c 0 = m"
| "memset m s c (Suc n) = memset (m(s := ucast c)) (s + 1) c n"

text \<open>The result is a difference of two unsigned chars promoted to \<^verbatim>\<open>int\<close>.\<close>

fun memcmp :: "mem \<Rightarrow> addr \<Rightarrow> addr \<Rightarrow> nat \<Rightarrow> int" where
  "memcmp m s1 s2 0 = 0"
| "memcmp m s1 s2 (Suc n) =
     (if m s1 \<noteq> m s2 then int (unat (m s1)) - int (unat (m s2))
      else memcmp m (s1 + 1) (s2 + 1) n)"

fun strncmp :: "mem \<Rightarrow> addr \<Rightarrow> addr \<Rightarrow> nat \<Rightarrow> int" where
  "strncmp m s1 s2 0 = 0"
| "strncmp m s1 s2 (Suc n) =
     (if m s1 \<noteq> m s2 then int (unat (m s1)) - int (unat (m s2))
      else if m s1 = 0 then 0
      else strncmp m (s1 + 1) (s2 + 1) n)"

section \<open>strlen and efi\_strlen\<close>

partial_function (option) strlen_loop :: "mem \<Rightarrow> addr \<Rightarrow> u64 \<Rightarrow> u64 option" where
  "strlen_loop m str r = (if m str = 0 then Some r else strlen_loop m (str + 1) (r + 1))"

definition strlen :: "mem \<Rightarrow> addr \<Rightarrow> u64 option" where
  "strlen m str = strlen_loop m str 0"

partial_function (option) efi_strlen_loop :: "mem \<Rightarrow> addr \<Rightarrow> u64 \<Rightarrow> u64 option" where
  "efi_strlen_loop m str r =
     (if rd16 m str = 0 then Some r else efi_strlen_loop m (str + 2) (r + 1))"

definition efi_strlen :: "mem \<Rightarrow> addr \<Rightarrow> u64 option" where
  "efi_strlen m str = efi_strlen_loop m str 0"

section \<open>What the copying routines do\<close>

lemma memset_store: "n \<le> 2 ^ 64 \<Longrightarrow> memset m s c n = store_bytes m s (replicate n (ucast c))"
proof (induction n arbitrary: m s)
  case (Suc n)
  have n: "n \<le> 2 ^ 64" using Suc.prems by simp
  show ?case
  proof (rule ext)
    fix x
    show "memset m s c (Suc n) x = store_bytes m s (replicate (Suc n) (ucast c)) x"
    proof (cases "x = s")
      case True
      have "unat (- 1 :: u64) = 2 ^ 64 - 1" using unat_neg64 [of 1] by simp
      then have "\<not> unat (s - (s + 1)) < n" using Suc.prems by simp
      then show ?thesis using True by (simp add: Suc.IH [OF n]) (simp add: store_bytes_def)
    next
      case False
      then have "x - s \<noteq> 0" by simp
      then have "unat (x - s) = Suc (unat (x - s - 1))"
        by (metis unat_minus_one unat_gt_0 Suc_pred diff_Suc_1)
      moreover have "x - (s + 1) = x - s - 1" by simp
      ultimately have "unat (x - s) = Suc (unat (x - (s + 1)))" by (simp only:)
      then show ?thesis using False by (auto simp: Suc.IH [OF n] store_bytes_def)
    qed
  qed
qed simp

text \<open>
  \<open>memcpy\<close> copies upward byte by byte. When the two runs do not meet, the
  whole source run arrives; the separation is what the \<^verbatim>\<open>restrict\<close> of its
  prototype asks for.
\<close>


lemma store_store_append:
  assumes "length bs + length cs \<le> 2 ^ 64"
  shows "store_bytes (store_bytes m a bs) (a + of_nat (length bs)) cs = store_bytes m a (bs @ cs)"
proof (rule ext)
  fix x
  show "store_bytes (store_bytes m a bs) (a + of_nat (length bs)) cs x = store_bytes m a (bs @ cs) x"
  proof (cases "cs = []")
    case False
    then have l: "length bs < 2 ^ 64" using assms by (cases cs) auto
    have xa: "x - (a + of_nat (length bs)) = (x - a) - of_nat (length bs)" by simp
    have u: "unat ((x - a) - of_nat (length bs)) =
        (if length bs \<le> unat (x - a) then unat (x - a) - length bs
         else unat (x - a) + 2 ^ 64 - length bs)"
      using unat_sub_if_size [of "x - a" "of_nat (length bs)"] l by (simp only: word_size unat_of_nat64) simp
    show ?thesis using assms l
      by (simp only: store_bytes_def xa u) (auto simp: nth_append)
  qed simp
qed

lemma memcpy_store:
  assumes "region src n \<inter> region dst n = {}" and "n \<le> 2 ^ 64"
  shows "memcpy m dst src n = store_bytes m dst (load_bytes m src n)"
  using assms
proof (induction n arbitrary: m dst src)
  case (Suc n)
  have sub: "region (src + 1) n \<subseteq> region src (Suc n)" "region (dst + 1) n \<subseteq> region dst (Suc n)"
    using subregion [of 1 n "Suc n"] by auto
  have "region (src + 1) n \<inter> region (dst + 1) n = {}" using sub Suc.prems(1) by blast
  then have IH: "memcpy (m(dst := m src)) (dst + 1) (src + 1) n =
      store_bytes (m(dst := m src)) (dst + 1) (load_bytes (m(dst := m src)) (src + 1) n)"
    using Suc.prems(2) by (intro Suc.IH) auto
  have "dst \<notin> region (src + 1) n" using sub Suc.prems(1) by auto
  then have "load_bytes (m(dst := m src)) (src + 1) n = load_bytes m (src + 1) n"
    by (intro load_cong) auto
  then show ?case
    using IH store_store_append [of "[m src]" "load_bytes m (src + 1) n" m dst] Suc.prems(2)
    by (simp add: load_bytes_Suc upd_store)
qed simp

text \<open>A structure filled in from its first byte on is one growing run.\<close>

lemma store_next:
  "q = p + of_nat (length bs) \<Longrightarrow> length bs + length cs \<le> 2 ^ 64 \<Longrightarrow>
     store_bytes (store_bytes m p bs) q cs = store_bytes m p (bs @ cs)"
  by (simp add: store_store_append)

lemma store_slice:
  assumes "k + length bs \<le> length F" and "length F \<le> 2 ^ 64"
  shows "store_bytes (store_bytes m p F) (p + of_nat k) bs = store_bytes m p (take k F @ bs @ drop (k + length bs) F)"
proof (rule ext)
  fix x
  show "store_bytes (store_bytes m p F) (p + of_nat k) bs x = store_bytes m p (take k F @ bs @ drop (k + length bs) F) x"
  proof (cases "bs = []")
    case False
    then have k: "k < 2 ^ 64" using assms by (cases bs) auto
    have xa: "x - (p + of_nat k) = (x - p) - of_nat k" by simp
    have u: "unat ((x - p) - of_nat k) = (if k \<le> unat (x - p) then unat (x - p) - k else unat (x - p) + 2 ^ 64 - k)"
      using unat_sub_if_size [of "x - p" "of_nat k"] k by (simp only: word_size unat_of_nat64) simp
    show ?thesis using assms k
      by (simp only: store_bytes_def xa u) (auto simp: nth_append)
  qed simp
qed

lemma copy_next:
  assumes sep: "region src n \<inter> region p k = {}" and fits: "length bs + n \<le> k" and k: "k \<le> 2 ^ 64"
    and q: "q = p + of_nat (length bs)"
  shows "memcpy (store_bytes m p bs) q src n = store_bytes m p (bs @ load_bytes m src n)"
proof -
  have "region q n \<subseteq> region p k" unfolding q using fits by (rule subregion)
  then have "region src n \<inter> region q n = {}" using sep by blast
  then have "memcpy (store_bytes m p bs) q src n = store_bytes (store_bytes m p bs) q (load_bytes (store_bytes m p bs) src n)"
    using fits k by (intro memcpy_store) simp_all
  moreover have "region p (length bs) \<subseteq> region p k" using fits by (intro region_mono) simp
  then have "load_bytes (store_bytes m p bs) src n = load_bytes m src n"
    using sep by (intro load_store_disj) blast
  ultimately show ?thesis using fits k q by (simp add: store_next)
qed

section \<open>What the comparing routines decide\<close>

lemma memcmp_eq_0: "memcmp m a b n = 0 \<longleftrightarrow> load_bytes m a n = load_bytes m b n"
proof (induction n arbitrary: a b)
  case (Suc n)
  then show ?case by (auto simp: load_bytes_Suc word_uint_eq_iff)
qed simp

text \<open>The sign of the result is that of the first difference, as for \<^verbatim>\<open>memcmp\<close> of C.\<close>

lemma memcmp_first_diff:
  assumes "k < n" and "\<And>i. i < k \<Longrightarrow> m (a + of_nat i) = m (b + of_nat i)"
    and "m (a + of_nat k) \<noteq> m (b + of_nat k)"
  shows "memcmp m a b n = int (unat (m (a + of_nat k))) - int (unat (m (b + of_nat k)))"
  using assms
proof (induction k arbitrary: a b n)
  case 0
  then show ?case by (cases n) auto
next
  case (Suc k)
  obtain n' where n: "n = Suc n'" and k: "k < n'" using Suc.prems(1) by (cases n) auto
  have eq: "m a = m b" using Suc.prems(2) [of 0] by simp
  have "memcmp m (a + 1) (b + 1) n' =
      int (unat (m (a + 1 + of_nat k))) - int (unat (m (b + 1 + of_nat k)))"
  proof (rule Suc.IH [OF k])
    show "m (a + 1 + of_nat i) = m (b + 1 + of_nat i)" if "i < k" for i
      using Suc.prems(2) [of "Suc i"] that by (simp add: add.assoc)
    show "m (a + 1 + of_nat k) \<noteq> m (b + 1 + of_nat k)"
      using Suc.prems(3) by (simp add: add.assoc)
  qed
  then show ?case using n eq by (simp add: add.assoc)
qed

text \<open>
  A C string at \<open>a\<close>: the characters before the first zero byte.
\<close>

definition cstring_at :: "mem \<Rightarrow> addr \<Rightarrow> u8 list \<Rightarrow> bool" where
  "cstring_at m a cs \<longleftrightarrow>
     load_bytes m a (length cs) = cs \<and> 0 \<notin> set cs \<and> m (a + of_nat (length cs)) = 0"

lemma cstring_at_Nil [simp]: "cstring_at m a [] \<longleftrightarrow> m a = 0"
  by (simp add: cstring_at_def)

lemma cstring_at_Cons [simp]:
  "cstring_at m a (c # cs) \<longleftrightarrow> m a = c \<and> c \<noteq> 0 \<and> cstring_at m (a + 1) cs"
  by (auto simp: cstring_at_def load_bytes_Suc add.assoc)

lemma cstring_at_cong:
  assumes "cstring_at m a cs" and "\<And>x. x \<in> region a (length cs + 1) \<Longrightarrow> m' x = m x"
  shows "cstring_at m' a cs"
proof -
  have "load_bytes m' a (length cs) = load_bytes m a (length cs)"
    using assms(2) region_mono [of "length cs" "length cs + 1" a] by (intro load_cong) auto
  moreover have "m' (a + of_nat (length cs)) = m (a + of_nat (length cs))"
    by (intro assms(2) in_region) simp
  ultimately show ?thesis using assms(1) by (simp add: cstring_at_def)
qed

lemma cstring_at_unique: "cstring_at m a cs \<Longrightarrow> cstring_at m a ds \<Longrightarrow> cs = ds"
proof (induction cs arbitrary: a ds)
  case Nil
  then show ?case by (cases ds) auto
next
  case (Cons c cs)
  then show ?case by (cases ds) auto
qed

text \<open>\<open>strlen\<close> returns on every terminated string, and returns its length.\<close>

lemma strlen_loop_cstring:
  "cstring_at m a cs \<Longrightarrow> strlen_loop m a r = Some (r + of_nat (length cs))"
proof (induction cs arbitrary: a r)
  case Nil
  then show ?case by (simp add: strlen_loop.simps)
next
  case (Cons c cs)
  then show ?case by (simp add: strlen_loop.simps [of m a r] add.assoc)
qed

lemma strlen_cstring: "cstring_at m a cs \<Longrightarrow> strlen m a = Some (of_nat (length cs))"
  by (simp add: strlen_def strlen_loop_cstring)

text \<open>
  On two C strings, \<open>strncmp\<close> gives 0 exactly when they agree on the first
  \<open>n\<close> characters, the shorter one counting its terminator.
\<close>

lemma strncmp_cstrings:
  "cstring_at m a cs \<Longrightarrow> cstring_at m b ds \<Longrightarrow>
     strncmp m a b n = 0 \<longleftrightarrow> take n cs = take n ds"
proof (induction n arbitrary: a b cs ds)
  case (Suc n)
  show ?case
  proof (cases cs)
    case Nil
    with Suc.prems show ?thesis by (cases ds) (auto simp: uint_0_iff)
  next
    case C: (Cons c cs')
    show ?thesis
    proof (cases ds)
      case Nil
      with Suc.prems C show ?thesis by (auto simp: uint_0_iff)
    next
      case (Cons d ds')
      with C Suc.prems Suc.IH show ?thesis by (auto simp: word_uint_eq_iff)
    qed
  qed
qed simp

end
