(* ===== verification/Printf.thy ===== *)
theory Printf
  imports CString
begin

text \<open>
  The formatted printer of the loader's C library (\<^verbatim>\<open>lib/vcbprintf.c\<close>). The
  format is the C string without its terminator; the variable arguments are
  the 8-byte slots of the target's calling convention, \<^verbatim>\<open>%s\<close> reads its string
  from memory; every write to the outside is a call of the callback. The local
  arrays \<^verbatim>\<open>buf[21]\<close> and \<^verbatim>\<open>prefix[3]\<close> keep their sizes: a write past their end
  stops the run.
\<close>

section \<open>Data\<close>

datatype len_mod =
    LENGTH_SHORT_SHORT | LENGTH_SHORT | LENGTH_DEFAULT | LENGTH_LONG | LENGTH_LONG_LONG
  | LENGTH_LONG_DOUBLE | LENGTH_INTMAX_T | LENGTH_SIZE_T | LENGTH_PTRDIFF_T

record fmt_flags =
  flag_hash :: bool
  flag_minus :: bool
  flag_plus :: bool
  flag_space :: bool
  flag_zero :: bool

text \<open>Why a run of \<^verbatim>\<open>vcbprintf\<close> does not reach its last line.\<close>

datatype pf_stop =
    Short_Write          \<comment> \<open>the callback took fewer characters: \<^verbatim>\<open>return -1\<close>\<close>
  | Buf_Overrun          \<comment> \<open>write past \<^verbatim>\<open>buf[20]\<close>\<close>
  | Prefix_Overrun       \<comment> \<open>write past \<^verbatim>\<open>prefix[2]\<close>\<close>
  | No_Argument          \<comment> \<open>\<^verbatim>\<open>va_arg\<close> past the arguments given\<close>
  | No_Terminator        \<comment> \<open>\<^verbatim>\<open>strlen\<close> of a string without one\<close>

type_synonym 'c callback = "'c \<Rightarrow> string \<Rightarrow> u64 \<Rightarrow> u64 \<times> 'c"
type_synonym ('c, 'a) pf = "(pf_stop, 'c \<times> u64 list, 'a) step"

definition callback_placeholder :: "'c callback" where
  "callback_placeholder ctx str len = (len, ctx)"

section \<open>Output and arguments\<close>

text \<open>\<^verbatim>\<open>if(callback(ctx, string, length) != length) return -1;\<close>\<close>

definition emit :: "'c callback \<Rightarrow> string \<Rightarrow> ('c, unit) pf" where
  "emit cb str = (\<lambda>(c, args).
     case cb c str (of_nat (length str)) of
       (k, c') \<Rightarrow> if k \<noteq> of_nat (length str) then Inl (Short_Write, (c', args)) else Inr ((), (c', args)))"

text \<open>\<^verbatim>\<open>for(size_t i = 0; i < n; i++) if(callback(ctx, "x", 1) != 1) return -1;\<close>\<close>

definition emit_times :: "'c callback \<Rightarrow> u64 \<Rightarrow> string \<Rightarrow> ('c, unit) pf" where
  "emit_times cb n str = for_from 0 (unat n) (\<lambda>_. emit cb str)"

definition va_slot :: "('c, u64) pf" where
  "va_slot = (\<lambda>(c, args). case args of
       [] \<Rightarrow> Inl (No_Argument, (c, args))
     | a # rest \<Rightarrow> Inr (a, (c, rest)))"

text \<open>\<^verbatim>\<open>int\<close>, and so \<^verbatim>\<open>long\<close>, are the low half of a slot.\<close>

definition slot_int :: "u64 \<Rightarrow> u64" where
  "slot_int a = scast (ucast a :: u32)"

definition slot_uint :: "u64 \<Rightarrow> u64" where
  "slot_uint a = ucast (ucast a :: u32)"

fun va_signed :: "len_mod \<Rightarrow> u64 \<Rightarrow> u64 option" where
  "va_signed LENGTH_SHORT_SHORT a = Some (slot_int a)"
| "va_signed LENGTH_SHORT a = Some (slot_int a)"
| "va_signed LENGTH_DEFAULT a = Some (slot_int a)"
| "va_signed LENGTH_LONG a = Some (slot_int a)"
| "va_signed LENGTH_LONG_LONG a = Some a"
| "va_signed LENGTH_INTMAX_T a = Some a"
| "va_signed LENGTH_SIZE_T a = Some a"
| "va_signed LENGTH_PTRDIFF_T a = Some a"
| "va_signed LENGTH_LONG_DOUBLE a = None"

fun va_unsigned :: "len_mod \<Rightarrow> u64 \<Rightarrow> u64 option" where
  "va_unsigned LENGTH_SHORT_SHORT a = Some (slot_uint a)"
| "va_unsigned LENGTH_SHORT a = Some (slot_uint a)"
| "va_unsigned LENGTH_DEFAULT a = Some (slot_uint a)"
| "va_unsigned LENGTH_LONG a = Some (slot_uint a)"
| "va_unsigned LENGTH_LONG_LONG a = Some a"
| "va_unsigned LENGTH_INTMAX_T a = Some a"
| "va_unsigned LENGTH_SIZE_T a = Some a"
| "va_unsigned LENGTH_PTRDIFF_T a = Some a"
| "va_unsigned LENGTH_LONG_DOUBLE a = None"

section \<open>Reading a conversion\<close>

fun read_flags :: "fmt_flags \<Rightarrow> string \<Rightarrow> fmt_flags \<times> string" where
  "read_flags fl [] = (fl, [])"
| "read_flags fl (c # cs) =
     (if c = CHR ''#'' then read_flags (fl\<lparr>flag_hash := True\<rparr>) cs
      else if c = CHR ''-'' then read_flags (fl\<lparr>flag_minus := True\<rparr>) cs
      else if c = CHR ''+'' then read_flags (fl\<lparr>flag_plus := True\<rparr>) cs
      else if c = CHR '' '' then read_flags (fl\<lparr>flag_space := True\<rparr>) cs
      else if c = CHR ''0'' then read_flags (fl\<lparr>flag_zero := True\<rparr>) cs
      else (fl, c # cs))"

definition no_flags :: fmt_flags where
  "no_flags = \<lparr>flag_hash = False, flag_minus = False, flag_plus = False, flag_space = False, flag_zero = False\<rparr>"

definition is_digit :: "char \<Rightarrow> bool" where
  "is_digit c \<longleftrightarrow> 48 \<le> (of_char c :: nat) \<and> (of_char c :: nat) \<le> 57"

fun read_number :: "u64 \<Rightarrow> string \<Rightarrow> u64 \<times> string" where
  "read_number n [] = (n, [])"
| "read_number n (c # cs) =
     (if is_digit c then read_number (n * 10 + (of_char c - 48)) cs else (n, c # cs))"

text \<open>The width may be replaced by an argument; the precision is \<^verbatim>\<open>(size_t) -1\<close> when absent.\<close>

definition wants_width_arg :: "string \<Rightarrow> bool" where
  "wants_width_arg cs = (case cs of [] \<Rightarrow> False | c # _ \<Rightarrow> c = CHR ''*'')"

definition read_precision :: "string \<Rightarrow> u64 \<times> string" where
  "read_precision cs = (case cs of
       [] \<Rightarrow> (- 1, [])
     | c # rest \<Rightarrow> if c = CHR ''.'' then read_number 0 rest else (- 1, cs))"

definition length_modifiers :: "(string \<times> len_mod \<times> nat) list" where
  "length_modifiers =
    [(''hh'', LENGTH_SHORT_SHORT, 2),
     (''h'', LENGTH_SHORT, 1),
     ('''', LENGTH_DEFAULT, 0),
     (''l'', LENGTH_LONG, 1),
     (''ll'', LENGTH_LONG_LONG, 2),
     (''L'', LENGTH_LONG_DOUBLE, 1),
     (''j'', LENGTH_INTMAX_T, 1),
     (''z'', LENGTH_SIZE_T, 1),
     (''t'', LENGTH_PTRDIFF_T, 1)]"

text \<open>The scan over the table; \<^verbatim>\<open>strncmp(format, name, n) != 0\<close> is a differing prefix.\<close>

fun scan_modifiers :: "(string \<times> len_mod \<times> nat) list \<Rightarrow> string \<Rightarrow> len_mod \<Rightarrow> nat \<Rightarrow> len_mod \<times> nat" where
  "scan_modifiers [] cs l k = (l, k)"
| "scan_modifiers ((name, m, n) # tab) cs l k =
     (if n < k then scan_modifiers tab cs l k
      else if take n cs \<noteq> name then scan_modifiers tab cs l k
      else scan_modifiers tab cs m n)"

definition read_length :: "string \<Rightarrow> len_mod \<times> string" where
  "read_length cs = (case scan_modifiers length_modifiers cs LENGTH_DEFAULT 0 of (l, k) \<Rightarrow> (l, drop k cs))"

section \<open>Integers\<close>

fun digit_count :: "nat \<Rightarrow> nat \<Rightarrow> nat" where
  "digit_count base v = (if 2 \<le> base \<and> base \<le> v then Suc (digit_count base (v div base)) else 1)"

declare digit_count.simps [simp del]

definition conv_table :: "char \<Rightarrow> string" where
  "conv_table specifier = (if specifier = CHR ''X'' then ''0123456789ABCDEF'' else ''0123456789abcdef'')"

fun fill_digits :: "string \<Rightarrow> nat \<Rightarrow> nat \<Rightarrow> nat \<Rightarrow> string" where
  "fill_digits conv base 0 v = []"
| "fill_digits conv base (Suc n) v = fill_digits conv base n (v div base) @ [conv ! (v mod base)]"

definition conv_base :: "char \<Rightarrow> nat" where
  "conv_base specifier =
     (if specifier = CHR ''X'' \<or> specifier = CHR ''x'' then 16
      else if specifier = CHR ''o'' then 8 else 10)"

definition int_prefix :: "fmt_flags \<Rightarrow> bool \<Rightarrow> char \<Rightarrow> string" where
  "int_prefix fl negative specifier =
     (if negative then ''-'' else if flag_plus fl then ''+'' else if flag_space fl then '' '' else '''') @
     (if flag_hash fl \<and> (specifier = CHR ''x'' \<or> specifier = CHR ''X'') then [CHR ''0'', specifier]
      else if flag_hash fl \<and> specifier = CHR ''o'' then ''0'' else '''')"

text \<open>
  The printing half of the integer case; \<open>value\<close> and \<open>negative\<close> are known. The
  terminating zero goes to \<^verbatim>\<open>prefix[prefix_len]\<close> and \<^verbatim>\<open>buf[buf_length]\<close>.
\<close>

definition print_int ::
    "'c callback \<Rightarrow> fmt_flags \<Rightarrow> u64 \<Rightarrow> u64 \<Rightarrow> char \<Rightarrow> bool \<Rightarrow> u64 \<Rightarrow> ('c, u64) pf" where
  "print_int cb fl width precision specifier negative val =
     (let prefix = int_prefix fl negative specifier;
          prefix_len = of_nat (length prefix);
          base = conv_base specifier;
          n = digit_count base (unat val);
          buf_length = of_nat n;
          printed_width = (if precision \<noteq> - 1 \<and> buf_length < precision then precision else buf_length);
          pad = (if width < printed_width + prefix_len then 0 else width - (printed_width + prefix_len));
          buf = fill_digits (conv_table specifier) base n (unat val)
      in if 3 \<le> length prefix then stop Prefix_Overrun
         else if 21 \<le> n then stop Buf_Overrun
         else
           andthen (if \<not> flag_zero fl then emit_times cb pad '' '' else ret ()) (\<lambda>_.
           andthen (emit cb prefix) (\<lambda>_.
           andthen (if flag_zero fl \<and> \<not> flag_minus fl then emit_times cb pad ''0'' else ret ()) (\<lambda>_.
           andthen (if buf_length < printed_width then emit_times cb (printed_width - buf_length) ''0'' else ret ()) (\<lambda>_.
           andthen (emit cb buf) (\<lambda>_.
           andthen (if flag_minus fl then emit_times cb pad '' '' else ret ()) (\<lambda>_.
           ret buf_length)))))))"

text \<open>
  The integer case. \<open>None\<close> from the argument readers is the length modifier
  \<^verbatim>\<open>L\<close>, which the main loop has already sent to \<^verbatim>\<open>unknown_conversion\<close>.
\<close>

definition conv_int ::
    "'c callback \<Rightarrow> fmt_flags \<Rightarrow> u64 \<Rightarrow> u64 \<Rightarrow> len_mod \<Rightarrow> char \<Rightarrow> ('c, u64) pf" where
  "conv_int cb fl width precision l specifier =
     andthen va_slot (\<lambda>a.
       if specifier = CHR ''p'' then print_int cb fl width precision (CHR ''x'') False a
       else if specifier = CHR ''i'' \<or> specifier = CHR ''d'' then
         (case va_signed l a of
            None \<Rightarrow> ret 0
          | Some sv \<Rightarrow> print_int cb fl width precision specifier (sint sv < 0) (if sint sv < 0 then - sv else sv))
       else
         (case va_unsigned l a of
            None \<Rightarrow> ret 0
          | Some v \<Rightarrow> print_int cb fl width precision specifier False v))"

section \<open>The main loop\<close>

definition int_specifiers :: string where
  "int_specifiers = ''diopuxX''"

text \<open>Conversions the \<^verbatim>\<open>switch\<close> knows; the others go to \<^verbatim>\<open>unknown_conversion\<close>.\<close>

definition known_conversion :: "len_mod \<Rightarrow> char \<Rightarrow> bool" where
  "known_conversion l c \<longleftrightarrow>
     c = CHR ''%'' \<or> c = CHR ''s'' \<or> c = CHR ''c'' \<or>
     (c \<in> set int_specifiers \<and> (c = CHR ''p'' \<or> l \<noteq> LENGTH_LONG_DOUBLE))"

definition conv_string :: "mem \<Rightarrow> 'c callback \<Rightarrow> u64 \<Rightarrow> ('c, u64) pf" where
  "conv_string m cb precision =
     andthen va_slot (\<lambda>p.
       case strlen m p of
         None \<Rightarrow> stop No_Terminator
       | Some n \<Rightarrow>
           (let len = (if precision < n then precision else n)
            in andthen (emit cb (map (\<lambda>b. char_of (unat b)) (load_bytes m p (unat len)))) (\<lambda>_. ret len)))"

definition convert ::
    "mem \<Rightarrow> 'c callback \<Rightarrow> fmt_flags \<Rightarrow> u64 \<Rightarrow> u64 \<Rightarrow> len_mod \<Rightarrow> char \<Rightarrow> ('c, u64) pf" where
  "convert m cb fl width precision l c =
     (if c = CHR ''%'' then andthen (emit cb [c]) (\<lambda>_. ret 0)
      else if c = CHR ''s'' then conv_string m cb precision
      else if c = CHR ''c'' then
        andthen va_slot (\<lambda>a. andthen (emit cb [char_of (unat (ucast a :: u8))]) (\<lambda>_. ret 1))
      else conv_int cb fl width precision l c)"

text \<open>The literal run from the first character on, up to the next \<^verbatim>\<open>%\<close>.\<close>

fun literal_run :: "string \<Rightarrow> string" where
  "literal_run [] = []"
| "literal_run (c # cs) = c # takeWhile (\<lambda>d. d \<noteq> CHR ''%'') cs"

definition skip_literal :: "string \<Rightarrow> string" where
  "skip_literal fmt = drop (length (literal_run fmt)) fmt"

text \<open>
  Where \<^verbatim>\<open>normal_print\<close> starts, when the loop goes there directly: at a character
  other than \<^verbatim>\<open>%\<close>, at the second \<^verbatim>\<open>%\<close> of \<^verbatim>\<open>%%\<close>, and at every \<^verbatim>\<open>%\<close> once a
  conversion was bad.
\<close>

definition literal_start :: "char \<Rightarrow> string \<Rightarrow> bool \<Rightarrow> string option" where
  "literal_start c cs bad =
     (if c \<noteq> CHR ''%'' then Some (c # cs)
      else if cs \<noteq> [] \<and> hd cs = CHR ''%'' then Some cs
      else if bad then Some (c # cs)
      else None)"

text \<open>
  A conversion read off the characters after the \<^verbatim>\<open>%\<close>: flags, written width,
  whether the width comes from an argument, precision, length modifier and the
  rest, which starts with the conversion character.
\<close>

definition read_conversion :: "string \<Rightarrow> fmt_flags \<times> u64 \<times> bool \<times> u64 \<times> len_mod \<times> string" where
  "read_conversion cs =
     (let (fl, r1) = read_flags no_flags cs;
          (w, r2) = read_number 0 r1;
          star = wants_width_arg r2;
          r3 = (if star then tl r2 else r2);
          (p, r4) = read_precision r3;
          (l, r5) = read_length r4
      in (fl, w, star, p, l, r5))"

lemma read_flags_len: "length (snd (read_flags fl cs)) \<le> length cs"
  by (induction fl cs rule: read_flags.induct) auto

lemma read_number_len: "length (snd (read_number n cs)) \<le> length cs"
  by (induction n cs rule: read_number.induct) auto

lemma read_precision_len: "length (snd (read_precision cs)) \<le> length cs"
  using read_number_len by (auto simp: read_precision_def le_SucI split: list.splits)

lemma read_length_len: "length (snd (read_length cs)) \<le> length cs"
  by (auto simp: read_length_def split: prod.splits)

lemma read_conversion_len:
  assumes "read_conversion cs = (fl, w, star, p, l, rest)"
  shows "length rest \<le> length cs"
proof -
  obtain fl1 r1 where 1: "read_flags no_flags cs = (fl1, r1)" by force
  obtain w1 r2 where 2: "read_number 0 r1 = (w1, r2)" by force
  let ?r3 = "if wants_width_arg r2 then tl r2 else r2"
  obtain p1 r4 where 4: "read_precision ?r3 = (p1, r4)" by force
  obtain l1 r5 where 5: "read_length r4 = (l1, r5)" by force
  have "length r1 \<le> length cs" using read_flags_len [of no_flags cs] 1 by simp
  moreover have "length r2 \<le> length r1" using read_number_len [of 0 r1] 2 by simp
  moreover have "length ?r3 \<le> length r2" by simp
  moreover have "length r4 \<le> length ?r3" using read_precision_len [of ?r3] 4 by simp
  moreover have "length r5 \<le> length r4" using read_length_len [of r4] 5 by simp
  moreover have "rest = r5" using assms 1 2 4 5 by (simp add: read_conversion_def Let_def)
  ultimately show ?thesis by (meson le_trans)
qed

lemma skip_literal_len: "fmt \<noteq> [] \<Longrightarrow> length (skip_literal fmt) < length fmt"
  by (cases fmt) (auto simp: skip_literal_def length_takeWhile_le)

lemma skip_literal_Cons: "length (skip_literal (c # cs)) < Suc (length cs)"
  using skip_literal_len [of "c # cs"] by simp

lemma literal_start_len:
  "literal_start c cs bad = Some fmt \<Longrightarrow> length (skip_literal fmt) < Suc (length cs)"
  using skip_literal_len [of fmt] by (auto simp: literal_start_def split: if_splits)

function vcbprintf_loop :: "mem \<Rightarrow> 'c callback \<Rightarrow> string \<Rightarrow> u64 \<Rightarrow> bool \<Rightarrow> ('c, u64) pf" where
  "vcbprintf_loop m cb [] written bad = ret written"
| "vcbprintf_loop m cb (c # cs) written bad =
     (case literal_start c cs bad of
        Some fmt \<Rightarrow>
          andthen (emit cb (literal_run fmt)) (\<lambda>_.
          vcbprintf_loop m cb (skip_literal fmt) (written + of_nat (length (literal_run fmt))) bad)
      | None \<Rightarrow>
          (case read_conversion cs of (fl, w, star, p, l, rest) \<Rightarrow>
             andthen (if star then andthen va_slot (\<lambda>a. ret (slot_int a)) else ret w) (\<lambda>width.
             if rest = [] \<or> \<not> known_conversion l (hd rest)
             then andthen (emit cb (literal_run (c # cs))) (\<lambda>_.
                  vcbprintf_loop m cb (skip_literal (c # cs))
                    (written + of_nat (length (literal_run (c # cs)))) True)
             else andthen (convert m cb fl width p l (hd rest)) (\<lambda>k.
                  vcbprintf_loop m cb (tl rest) (written + k) bad))))"
  by pat_completeness auto
termination
proof (relation "measure (\<lambda>(m, cb, fmt, written, bad). length fmt)", goal_cases)
  case 1
  show ?case by simp
next
  case 2
  then show ?case by (simp add: skip_literal_Cons)
next
  case 3
  then show ?case by (auto dest!: read_conversion_len [OF sym] simp: neq_Nil_conv)
next
  case 4
  then show ?case by (simp add: literal_start_len)
qed

text \<open>
  The function: \<open>None\<close> stands for a null format or a null callback. A callback
  that falls short makes it return \<^verbatim>\<open>-1\<close>.
\<close>

definition vcbprintf ::
    "mem \<Rightarrow> 'c callback option \<Rightarrow> string option \<Rightarrow> ('c, int) pf" where
  "vcbprintf m callback format s =
     (let cb = (case callback of None \<Rightarrow> callback_placeholder | Some f \<Rightarrow> f)
      in case format of
           None \<Rightarrow> Inr (0, s)
         | Some fmt \<Rightarrow>
             (case vcbprintf_loop m cb fmt 0 False s of
                Inl (Short_Write, s') \<Rightarrow> Inr (- 1, s')
              | Inl (fault, s') \<Rightarrow> Inl (fault, s')
              | Inr (written, s') \<Rightarrow>
                  Inr (if 2 ^ 31 - 1 < unat written then - 1 else int (unat written), s')))"

section \<open>Digits\<close>

text \<open>The value a run of digits stands for, most significant first.\<close>

fun find_index :: "string \<Rightarrow> char \<Rightarrow> nat option" where
  "find_index [] c = None"
| "find_index (d # ds) c = (if d = c then Some 0 else map_option Suc (find_index ds c))"

fun digits_value :: "string \<Rightarrow> nat \<Rightarrow> nat \<Rightarrow> string \<Rightarrow> nat option" where
  "digits_value conv base acc [] = Some acc"
| "digits_value conv base acc (c # cs) =
     (case find_index conv c of
        None \<Rightarrow> None
      | Some d \<Rightarrow> digits_value conv base (acc * base + d) cs)"

lemma find_index_nth: "distinct ds \<Longrightarrow> i < length ds \<Longrightarrow> find_index ds (ds ! i) = Some i"
proof (induction ds arbitrary: i)
  case (Cons d ds)
  then show ?case by (cases i) auto
qed simp

lemma digits_value_append:
  "digits_value conv base acc (xs @ ys) =
     Option.bind (digits_value conv base acc xs) (\<lambda>a. digits_value conv base a ys)"
  by (induction xs arbitrary: acc) (auto split: option.splits)

lemma fill_digits_value:
  assumes "distinct conv" and "base \<le> length conv" and "0 < base"
  shows "digits_value conv base acc (fill_digits conv base n v) = Some (acc * base ^ n + v mod base ^ n)"
proof (induction n arbitrary: v)
  case 0
  show ?case by simp
next
  case (Suc n)
  have "find_index conv (conv ! (v mod base)) = Some (v mod base)"
    using assms by (intro find_index_nth) (auto intro: less_le_trans [OF mod_less_divisor])
  moreover have "v mod base ^ Suc n = base * (v div base mod base ^ n) + v mod base"
    by (simp add: mod_mult2_eq)
  ultimately show ?case
    by (simp add: digits_value_append Suc.IH algebra_simps)
qed

lemma length_fill_digits [simp]: "length (fill_digits conv base n v) = n"
  by (induction conv base n v rule: fill_digits.induct) auto

lemma digit_count_pos: "0 < digit_count base v"
  by (subst digit_count.simps) simp

lemma digit_count_bound:
  assumes "2 \<le> base"
  shows "v < base ^ digit_count base v"
  using assms
proof (induction base v rule: digit_count.induct)
  case (1 base v)
  show ?case
  proof (cases "2 \<le> base \<and> base \<le> v")
    case True
    with "1.IH" have "v div base < base ^ digit_count base (v div base)" by blast
    then have "v < base * base ^ digit_count base (v div base)"
      using True by (simp add: div_less_iff_less_mult mult.commute)
    then show ?thesis using True by (simp add: digit_count.simps [of base v])
  next
    case False
    with "1.prems" show ?thesis by (auto simp: digit_count.simps [of base v])
  qed
qed

lemma digit_count_least:
  assumes "2 \<le> base" and "v < base ^ k" and "0 < k"
  shows "digit_count base v \<le> k"
  using assms
proof (induction base v arbitrary: k rule: digit_count.induct)
  case (1 base v)
  show ?case
  proof (cases "2 \<le> base \<and> base \<le> v")
    case True
    then have "k \<noteq> 1" using "1.prems" by auto
    then obtain j where k: "k = Suc j" and j: "0 < j" using "1.prems"(3) by (cases k) auto
    have "v div base < base ^ j"
      using "1.prems"(2) True by (simp add: k div_less_iff_less_mult mult.commute)
    then have "digit_count base (v div base) \<le> j" using "1.IH" True j by blast
    then show ?thesis using True by (simp add: k digit_count.simps [of base v])
  next
    case False
    then show ?thesis using "1.prems"(3) by (auto simp: digit_count.simps [of base v])
  qed
qed

section \<open>What an integer conversion prints\<close>

lemma conv_table_props: "distinct (conv_table c)" "length (conv_table c) = 16"
  by (simp_all add: conv_table_def)

lemma conv_base_props: "2 \<le> conv_base c" "conv_base c \<le> 16"
  by (simp_all add: conv_base_def)

definition int_digits :: "char \<Rightarrow> u64 \<Rightarrow> string" where
  "int_digits c v =
     fill_digits (conv_table c) (conv_base c) (digit_count (conv_base c) (unat v)) (unat v)"

lemma length_int_digits: "length (int_digits c v) = digit_count (conv_base c) (unat v)"
  by (simp add: int_digits_def)

lemma int_digits_value: "digits_value (conv_table c) (conv_base c) 0 (int_digits c v) = Some (unat v)"
  using fill_digits_value [of "conv_table c" "conv_base c" 0] conv_table_props [of c] conv_base_props [of c]
    digit_count_bound [of "conv_base c" "unat v"] by (simp add: int_digits_def)

lemma int_digits_max: "length (int_digits c v) \<le> (if c = CHR ''o'' then 22 else 20)"
proof -
  have v: "unat v < 2 ^ 64" by (rule unat_lt64)
  have "unat v < conv_base c ^ (if c = CHR ''o'' then 22 else 20)"
    using v by (auto simp: conv_base_def)
  then show ?thesis
    unfolding length_int_digits by (intro digit_count_least conv_base_props) auto
qed

lemma octal_overrun: "21 \<le> length (int_digits (CHR ''o'') v) \<longleftrightarrow> 2 ^ 60 \<le> unat v"
proof -
  have b: "conv_base (CHR ''o'') = 8" by (simp add: conv_base_def)
  have "digit_count 8 (unat v) \<le> 20 \<longleftrightarrow> unat v < 8 ^ 20"
  proof
    assume "digit_count 8 (unat v) \<le> 20"
    then have "(8::nat) ^ digit_count 8 (unat v) \<le> 8 ^ 20" by (intro power_increasing) auto
    then show "unat v < 8 ^ 20" using digit_count_bound [of 8 "unat v"] by (meson less_le_trans numeral_le_iff semiring_norm)
  next
    assume "unat v < 8 ^ 20"
    then show "digit_count 8 (unat v) \<le> 20" by (intro digit_count_least) auto
  qed
  then show ?thesis by (simp add: length_int_digits b not_less_eq_eq not_le) (auto simp: not_le not_less)
qed

lemma unat_of_char8: "char_of (unat (of_char c :: u8)) = c"
proof -
  have "unat (of_nat (of_char c) :: u8) = of_char c"
    using nat_of_char_less_256 [of c] by (simp only: unat_of_nat take_bit_nat_eq_self) simp
  then show ?thesis by (simp add: of_nat_of_char)
qed

lemma read_conversion_plain:
  assumes "ch \<notin> set ''#-+ 0*.hlLjzt''" and "\<not> is_digit ch"
  shows "read_conversion (ch # rest) = (no_flags, 0, False, - 1, LENGTH_DEFAULT, ch # rest)"
proof -
  have 1: "read_flags no_flags (ch # rest) = (no_flags, ch # rest)" using assms by simp
  have 2: "read_number 0 (ch # rest) = (0, ch # rest)" using assms by simp
  have 3: "read_precision (ch # rest) = (- 1, ch # rest)" using assms by (simp add: read_precision_def)
  have 4: "read_length (ch # rest) = (LENGTH_DEFAULT, ch # rest)"
    using assms by (simp add: read_length_def length_modifiers_def)
  have 5: "wants_width_arg (ch # rest) = False" using assms by (simp add: wants_width_arg_def)
  show ?thesis unfolding read_conversion_def Let_def 1 2 prod.case 5 if_False 3 4 by simp
qed

lemmas plain_s = read_conversion_plain [of "CHR ''s''", simplified is_digit_def, simplified]
lemmas plain_d = read_conversion_plain [of "CHR ''d''", simplified is_digit_def, simplified]

lemma known_plain:
  "known_conversion LENGTH_DEFAULT (CHR ''s'')" "known_conversion LENGTH_DEFAULT (CHR ''d'')"
  by (simp_all add: known_conversion_def int_specifiers_def)

lemma slot_int_small:
  assumes "k < 2 ^ 31"
  shows "slot_int (of_nat k) = of_nat k" "\<not> sint (of_nat k :: u64) < 0"
proof -
  have "bit (of_nat k :: u64) n \<longleftrightarrow> n < 31 \<and> bit k n" for n
  proof -
    have "take_bit 31 k = k" using assms by (simp add: take_bit_nat_eq_self)
    then have "bit k n \<longleftrightarrow> n < 31 \<and> bit k n" by (metis bit_take_bit_iff)
    then show ?thesis by (auto simp: bit_of_nat_iff)
  qed
  note b = this
  show "slot_int (of_nat k) = of_nat k"
    unfolding slot_int_def by (rule bit_word_eqI) (auto simp: bit_signed_iff bit_unsigned_iff b)
  show "\<not> sint (of_nat k :: u64) < 0"
    using bit_last_iff [of "of_nat k :: u64"] by (simp add: b)
qed

text \<open>Running a list of strings through the callback.\<close>

definition say :: "'c callback \<Rightarrow> string list \<Rightarrow> 'c \<Rightarrow> 'c" where
  "say cb strs c = fold (\<lambda>s c. snd (cb c s (of_nat (length s)))) strs c"

lemma say_Nil [simp]: "say cb [] c = c"
  by (simp add: say_def)

lemma say_append: "say cb (xs @ ys) c = say cb ys (say cb xs c)"
  by (simp add: say_def)

lemma say_Cons: "say cb (x # xs) c = say cb xs (snd (cb c x (of_nat (length x))))"
  by (simp add: say_def)

text \<open>The strings an integer conversion hands to the callback.\<close>

definition int_calls :: "fmt_flags \<Rightarrow> u64 \<Rightarrow> u64 \<Rightarrow> char \<Rightarrow> bool \<Rightarrow> u64 \<Rightarrow> string list" where
  "int_calls fl width precision c negative v =
     (let prefix = int_prefix fl negative c;
          n = of_nat (length (int_digits c v)) :: u64;
          printed = (if precision \<noteq> - 1 \<and> n < precision then precision else n);
          pad = unat (if width < printed + of_nat (length prefix) then 0
                      else width - (printed + of_nat (length prefix)))
      in (if flag_zero fl then [] else replicate pad '' '') @ [prefix] @
         (if flag_zero fl \<and> \<not> flag_minus fl then replicate pad ''0'' else []) @
         replicate (unat (printed - n)) ''0'' @ [int_digits c v] @
         (if flag_minus fl then replicate pad '' '' else []))"

text \<open>A part of the printer that never gives up with \<^verbatim>\<open>-1\<close>.\<close>

definition never_short :: "('c, 'a) pf \<Rightarrow> bool" where
  "never_short m \<longleftrightarrow> (\<forall>s t. m s \<noteq> Inl (Short_Write, t))"

lemma never_short_andthen [intro]:
  "never_short m \<Longrightarrow> (\<And>x. never_short (f x)) \<Longrightarrow> never_short (andthen m f)"
  by (auto simp: never_short_def andthen_def split: sum.splits)

lemma never_short_base [intro, simp]:
  "never_short (ret x)" "never_short va_slot" "h \<noteq> Short_Write \<Longrightarrow> never_short (stop h)"
  by (auto simp: never_short_def va_slot_def split: list.splits prod.splits)

lemma never_short_if [intro]: "never_short m \<Longrightarrow> never_short k \<Longrightarrow> never_short (if b then m else k)"
  by simp

text \<open>
  The contract of a callback: it takes everything it is given. Under it a
  conversion never stops half way, and its output is the fold of its calls.
\<close>

locale full_callback =
  fixes cb :: "'c callback"
  assumes takes_all: "fst (cb c str len) = len"
begin

lemma emit_say: "emit cb str (c, args) = Inr ((), (say cb [str] c, args))"
  using takes_all [of c str "of_nat (length str)"]
  by (auto simp: emit_def say_def split: prod.splits)

lemma andthen_emit: "andthen (emit cb str) f (c, args) = f () (say cb [str] c, args)"
  by (simp add: andthen_def emit_say)

lemma emit_for_say: "for_from i k (\<lambda>_. emit cb str) (c, args) = Inr ((), (say cb (replicate k str) c, args))"
  by (induction k arbitrary: i c) (auto simp: andthen_emit say_Cons)

lemma emit_times_say: "emit_times cb n str (c, args) = Inr ((), (say cb (replicate (unat n) str) c, args))"
  by (simp add: emit_times_def emit_for_say)

lemma andthen_when:
  "andthen (if b then emit_times cb n str else ret ()) f (c, args) =
     f () (say cb (if b then replicate (unat n) str else []) c, args)"
  by (simp add: andthen_def emit_times_say)

lemma print_int_say:
  assumes "length (int_prefix fl negative spec) < 3" and "length (int_digits spec v) < 21"
  shows "print_int cb fl width precision spec negative v (c, args) =
     Inr (of_nat (length (int_digits spec v)),
          (say cb (int_calls fl width precision spec negative v) c, args))"
  using assms
  by (simp add: print_int_def Let_def length_int_digits andthen_when andthen_emit int_calls_def
      say_append say_Cons flip: int_digits_def)

lemma loop_literal:
  assumes "CHR ''%'' \<notin> set fmt"
  shows "vcbprintf_loop m cb fmt written bad (c, args) =
     Inr (written + of_nat (length fmt), (say cb (if fmt = [] then [] else [fmt]) c, args))"
proof (cases fmt)
  case (Cons d ds)
  have "takeWhile (\<lambda>d. d \<noteq> CHR ''%'') ds = ds" using assms Cons by (auto simp: takeWhile_eq_all_conv)
  then have run: "literal_run (d # ds) = d # ds" by simp
  have skip: "skip_literal (d # ds) = []" unfolding skip_literal_def run by simp
  have start: "literal_start d ds bad = Some (d # ds)" using assms Cons by (auto simp: literal_start_def)
  show ?thesis
    unfolding Cons vcbprintf_loop.simps start option.case run skip andthen_emit by simp
qed simp

text \<open>One round of the loop: over a literal run, over \<^verbatim>\<open>%s\<close>, and over an integer.\<close>

lemma loop_run:
  assumes "CHR ''%'' \<notin> set lit" and "lit \<noteq> []"
  shows "vcbprintf_loop m cb (lit @ CHR ''%'' # cs) written bad (c, args) =
     vcbprintf_loop m cb (CHR ''%'' # cs) (written + of_nat (length lit)) bad (say cb [lit] c, args)"
proof (cases lit)
  case (Cons d ds)
  have "takeWhile (\<lambda>d. d \<noteq> CHR ''%'') (ds @ CHR ''%'' # cs) = ds"
    using assms Cons by (subst takeWhile_append2) auto
  then have run: "literal_run (d # ds @ CHR ''%'' # cs) = d # ds" by simp
  have skip: "skip_literal (d # ds @ CHR ''%'' # cs) = CHR ''%'' # cs"
    unfolding skip_literal_def run by simp
  have start: "literal_start d (ds @ CHR ''%'' # cs) bad = Some (d # ds @ CHR ''%'' # cs)"
    using assms Cons by (auto simp: literal_start_def)
  show ?thesis
    unfolding Cons append_Cons
    by (subst vcbprintf_loop.simps) (simp only: start option.case run skip andthen_emit)
qed (use assms in simp)

lemma loop_conversion:
  assumes "read_conversion cs = (fl, w, False, p, l, ch # rest)" and "known_conversion l ch"
    and "cs \<noteq> [] \<Longrightarrow> hd cs \<noteq> CHR ''%''"
    and "convert m cb fl w p l ch (c, args) = Inr (k, s')"
  shows "vcbprintf_loop m cb (CHR ''%'' # cs) written False (c, args) =
     vcbprintf_loop m cb rest (written + k) False s'"
proof -
  have start: "literal_start (CHR ''%'') cs False = None"
    using assms(3) by (auto simp: literal_start_def)
  show ?thesis
    by (subst vcbprintf_loop.simps) (simp add: start assms(1,2) andthen_def assms(4))
qed

lemma loop_run_conversion:
  assumes "CHR ''%'' \<notin> set lit" and "lit \<noteq> []"
    and "read_conversion cs = (fl, w, False, p, l, ch # rest)" and "known_conversion l ch"
    and "cs \<noteq> [] \<Longrightarrow> hd cs \<noteq> CHR ''%''"
    and "convert m cb fl w p l ch (say cb [lit] c, args) = Inr (k, s')"
  shows "vcbprintf_loop m cb (lit @ CHR ''%'' # cs) written False (c, args) =
     vcbprintf_loop m cb rest (written + of_nat (length lit) + k) False s'"
  by (subst loop_run [OF assms(1,2)]) (rule loop_conversion [OF assms(3-6)])

lemma convert_string:
  assumes "cstring_at m p (map of_char str)" and "length str < 2 ^ 64"
  shows "convert m cb fl w (- 1) l (CHR ''s'') (c, p # args) =
     Inr (of_nat (length str), (say cb [str] c, args))"
proof -
  have "load_bytes m p (length str) = map of_char str"
    using assms(1) by (simp add: cstring_at_def)
  moreover have "\<not> (- 1 :: u64) < of_nat (length str)" by (simp add: not_less)
  moreover have "map (\<lambda>b. char_of (unat b)) (map (of_char :: char \<Rightarrow> u8) str) = str"
    by (simp add: comp_def map_idI unat_of_char8)
  ultimately show ?thesis
    using strlen_cstring [OF assms(1)] assms(2)
    by (simp add: convert_def conv_string_def va_slot_def andthen_def Let_def emit_say unat_of_nat64
        del: map_map)
qed

lemma convert_int_plain:
  assumes "k < 2 ^ 31"
  shows "convert m cb no_flags 0 (- 1) LENGTH_DEFAULT (CHR ''d'') (c, of_nat k # args) =
      Inr (of_nat (length (int_digits (CHR ''d'') (of_nat k))),
           (say cb ['''', int_digits (CHR ''d'') (of_nat k)] c, args))"
proof -
  have "convert m cb no_flags 0 (- 1) LENGTH_DEFAULT (CHR ''d'') (c, of_nat k # args) =
      print_int cb no_flags 0 (- 1) (CHR ''d'') False (of_nat k) (c, args)"
    using slot_int_small [OF assms] by (simp add: convert_def conv_int_def va_slot_def andthen_def)
  also have "\<dots> = Inr (of_nat (length (int_digits (CHR ''d'') (of_nat k))),
      (say cb (int_calls no_flags 0 (- 1) (CHR ''d'') False (of_nat k)) c, args))"
    by (rule print_int_say) (use int_digits_max [of "CHR ''d''" "of_nat k"] in
        \<open>auto simp: int_prefix_def no_flags_def\<close>)
  also have "int_calls no_flags 0 (- 1) (CHR ''d'') False (of_nat k) =
      ['''', int_digits (CHR ''d'') (of_nat k)]"
    by (simp add: int_calls_def no_flags_def int_prefix_def Let_def word_gt_0)
  finally show ?thesis .
qed

lemma never_short_emit [intro]: "never_short (emit cb str)" "never_short (emit_times cb n str)"
  by (auto simp: never_short_def emit_say emit_times_say)

lemma never_short_print_int [intro]: "never_short (print_int cb fl width precision spec negative v)"
  unfolding print_int_def Let_def by (intro never_short_if never_short_andthen) auto

lemma never_short_convert [intro]: "never_short (convert m cb fl width p l ch)"
proof -
  have "never_short (conv_string m cb p)"
    unfolding conv_string_def Let_def by (rule never_short_andthen) (auto split: option.splits)
  moreover have "never_short (conv_int cb fl width p l ch)"
    unfolding conv_int_def by (rule never_short_andthen) (auto split: option.splits)
  ultimately show ?thesis
    unfolding convert_def by (intro never_short_if never_short_andthen) auto
qed

lemma never_short_loop: "never_short (vcbprintf_loop m cb fmt written bad)"
proof (induction fmt arbitrary: written bad rule: length_induct)
  case (1 fmt)
  show ?case
  proof (cases fmt)
    case (Cons ch cs)
    note IH = "1.IH" [rule_format, unfolded Cons, simplified]
    show ?thesis
    proof (cases "literal_start ch cs bad")
      case (Some lit)
      then have "length (skip_literal lit) < Suc (length cs)" by (rule literal_start_len)
      then show ?thesis unfolding Cons vcbprintf_loop.simps Some option.case
        by (intro never_short_andthen never_short_emit IH)
    next
      case None
      obtain fl w star p l rest where r: "read_conversion cs = (fl, w, star, p, l, rest)"
        by (metis prod_cases6)
      have "length (tl rest) < Suc (length cs)" using read_conversion_len [OF r] by simp
      then show ?thesis
        unfolding Cons vcbprintf_loop.simps None r option.case prod.case
        by (intro never_short_andthen never_short_if never_short_base never_short_emit
            never_short_convert IH skip_literal_Cons)
    qed
  qed (simp add: never_short_def)
qed

end

interpretation placeholder: full_callback callback_placeholder
  by unfold_locales (simp add: callback_placeholder_def)

section \<open>Properties\<close>

text \<open>The precision as a number of digits: none was written is zero digits.\<close>

definition min_digits :: "u64 \<Rightarrow> nat" where
  "min_digits precision = (if precision = - 1 then 0 else unat precision)"

text \<open>The strings before the padding is added: zeros up to the precision, then the digits.\<close>

definition int_body :: "u64 \<Rightarrow> char \<Rightarrow> u64 \<Rightarrow> string" where
  "int_body precision c v =
     replicate (min_digits precision - length (int_digits c v)) (CHR ''0'') @ int_digits c v"

definition field_pad :: "fmt_flags \<Rightarrow> u64 \<Rightarrow> u64 \<Rightarrow> char \<Rightarrow> bool \<Rightarrow> u64 \<Rightarrow> nat" where
  "field_pad fl width precision c negative v =
     unat width - (length (int_prefix fl negative c) + length (int_body precision c v))"

lemma int_digits_pos: "0 < length (int_digits c v)"
  by (simp add: length_int_digits digit_count_pos)

lemma length_int_body: "length (int_body precision c v) = max (min_digits precision) (length (int_digits c v))"
  by (simp add: int_body_def)

lemma int_prefix_length: "length (int_prefix fl negative c) \<le> 3"
  by (simp add: int_prefix_def)

lemma concat_replicate_single: "concat (replicate n [x]) = replicate n x"
  by (induction n) auto

lemma int_calls_text:
  assumes "min_digits precision < 2 ^ 63"
  shows "concat (int_calls fl width precision c negative v) =
     (let pad = field_pad fl width precision c negative v
      in (if flag_zero fl then [] else replicate pad (CHR '' '')) @ int_prefix fl negative c @
         (if flag_zero fl \<and> \<not> flag_minus fl then replicate pad (CHR ''0'') else []) @
         int_body precision c v @ (if flag_minus fl then replicate pad (CHR '' '') else []))"
proof -
  define n :: u64 where "n = of_nat (length (int_digits c v))"
  define pr :: u64 where "pr = (if precision \<noteq> - 1 \<and> n < precision then precision else n)"
  define pl :: u64 where "pl = of_nat (length (int_prefix fl negative c))"
  have d: "length (int_digits c v) \<le> 22" using int_digits_max [of c v] by (auto split: if_splits)
  then have n: "unat n = length (int_digits c v)" by (simp add: n_def unat_of_nat64)
  have pl: "unat pl = length (int_prefix fl negative c)"
    using int_prefix_length [of fl negative c] by (simp add: pl_def unat_of_nat64)
  have pr: "unat pr = length (int_body precision c v)"
    using n by (auto simp: pr_def length_int_body min_digits_def word_less_nat_alt)
  have bound: "unat pr < 2 ^ 63" using d assms by (simp add: pr length_int_body)
  have sum: "unat (pr + pl) = length (int_prefix fl negative c) + length (int_body precision c v)"
    using bound pl pr int_prefix_length [of fl negative c] by (subst unat_word_ariths) simp
  have pad: "unat (if width < pr + pl then 0 else width - (pr + pl)) = field_pad fl width precision c negative v"
    using sum by (auto simp: field_pad_def word_less_nat_alt unat_sub_if_size)
  have zeros: "unat (pr - n) = min_digits precision - length (int_digits c v)"
    using n pr by (auto simp: length_int_body unat_sub_if_size)
  show ?thesis
    unfolding int_calls_def Let_def n_def [symmetric] pr_def [symmetric] pl_def [symmetric] pad zeros
    by (simp add: concat_replicate_single int_body_def)
qed

definition prefix_fits :: "fmt_flags \<Rightarrow> bool \<Rightarrow> char \<Rightarrow> bool" where
  "prefix_fits fl negative spec \<longleftrightarrow>
     \<not> (flag_hash fl \<and> spec \<in> {CHR ''x'', CHR ''X''} \<and> (negative \<or> flag_plus fl \<or> flag_space fl))"

definition buf_fits :: "char \<Rightarrow> u64 \<Rightarrow> bool" where
  "buf_fits spec v \<longleftrightarrow> spec \<noteq> CHR ''o'' \<or> unat v < 2 ^ 60"

lemma prefix_fits_iff: "prefix_fits fl negative spec \<longleftrightarrow> length (int_prefix fl negative spec) < 3"
  by (auto simp: prefix_fits_def int_prefix_def)

lemma buf_fits_iff: "buf_fits spec v \<longleftrightarrow> length (int_digits spec v) < 21"
proof (cases "spec = CHR ''o''")
  case True
  then show ?thesis using octal_overrun [of v] by (simp add: buf_fits_def not_less flip: not_le)
next
  case False
  then show ?thesis using int_digits_max [of spec v] by (simp add: buf_fits_def)
qed

lemma full_callbackI: "(\<And>c str len. fst (cb c str len) = len) \<Longrightarrow> full_callback cb"
  by (simp add: full_callback_def)

lemmas print_int_fits = full_callback.print_int_say
  [OF full_callbackI, OF _ iffD1 [OF prefix_fits_iff] iffD1 [OF buf_fits_iff]]

text \<open>
  C17: An integer conversion without \<^verbatim>\<open>-\<close>, through a callback that takes everything
  it is given, succeeds when its local arrays suffice. What it prints is one
  field: padding, prefix and at least the wanted number of digits, in at least
  \<open>width\<close> columns; reading the digits back gives the value, and none of them is
  superfluous. The count it adds to the result is that of the digits alone.
\<close>

theorem print_int_field:
  assumes "\<And>c str len. fst (cb c str len) = len"
    and "prefix_fits fl negative spec" and "buf_fits spec v"
    and "min_digits precision < 2 ^ 63" and "\<not> flag_minus fl"
  shows "\<exists>calls digits pad. print_int cb fl width precision spec negative v (c, args) =
        Inr (of_nat (length digits), (say cb calls c, args)) \<and>
      concat calls = (if flag_zero fl then int_prefix fl negative spec @ replicate pad (CHR ''0'')
                      else replicate pad (CHR '' '') @ int_prefix fl negative spec) @
        replicate (min_digits precision - length digits) (CHR ''0'') @ digits \<and>
      length (concat calls) = max (unat width)
        (length (int_prefix fl negative spec) + max (min_digits precision) (length digits)) \<and>
      digits_value (conv_table spec) (conv_base spec) 0 digits = Some (unat v) \<and>
      (\<forall>k. 0 < k \<longrightarrow> unat v < conv_base spec ^ k \<longrightarrow> length digits \<le> k)"
  (is "\<exists>calls digits pad. ?run calls digits \<and> ?text calls digits pad \<and> ?len calls digits \<and>
      ?val digits \<and> ?least digits")
proof (intro exI conjI)
  let ?calls = "int_calls fl width precision spec negative v"
  let ?digits = "int_digits spec v"
  let ?pad = "field_pad fl width precision spec negative v"
  show "?run ?calls ?digits" using assms by (intro print_int_fits)
  show field: "?text ?calls ?digits ?pad"
    using assms by (simp add: int_calls_text Let_def int_body_def)
  show "?len ?calls ?digits"
    unfolding field by (auto simp: field_pad_def length_int_body)
  show "?val ?digits" by (rule int_digits_value)
  show "?least ?digits"
    unfolding length_int_digits by (auto intro: digit_count_least conv_base_props)
qed

theorem print_int_field_witness:
  "\<exists>calls digits pad. print_int (\<lambda>c str len. (len, c @ str)) no_flags 6 (- 1) (CHR ''d'') True 2026 ([], []) =
        Inr (of_nat (length digits), (say (\<lambda>c str len. (len, c @ str)) calls [], [])) \<and>
     length (concat calls) = 6 \<and> digits_value (conv_table (CHR ''d'')) 10 0 digits = Some 2026"
proof -
  have "length (int_digits (CHR ''d'') 2026) = 4"
    by (simp add: length_int_digits conv_base_def digit_count.simps)
  then show ?thesis
    using print_int_field [of "\<lambda>c str len. (len, c @ str)" no_flags True "CHR ''d''" 2026 "- 1" 6 "[]" "[]"]
    by (fastforce simp: prefix_fits_def buf_fits_def no_flags_def min_digits_def int_prefix_def conv_base_def)
qed

text \<open>
  C18: The local arrays of an integer conversion overflow on exactly these
  inputs: \<^verbatim>\<open>prefix[3]\<close> for \<^verbatim>\<open>%#x\<close> together with a sign, \<^verbatim>\<open>+\<close> or space, \<^verbatim>\<open>buf[21]\<close>
  for \<^verbatim>\<open>%o\<close> of a value of at least \<^verbatim>\<open>2^60\<close> (a 64-bit value has up to 22 octal
  digits and the terminator needs one more byte). Everything else is printed.
\<close>

theorem print_int_overrun:
  assumes "\<And>c str len. fst (cb c str len) = len"
  shows "(\<not> prefix_fits fl negative spec \<longrightarrow>
        print_int cb fl width precision spec negative v s = Inl (Prefix_Overrun, s)) \<and>
     (prefix_fits fl negative spec \<and> \<not> buf_fits spec v \<longrightarrow>
        print_int cb fl width precision spec negative v s = Inl (Buf_Overrun, s)) \<and>
     (prefix_fits fl negative spec \<and> buf_fits spec v \<longrightarrow>
        (\<exists>c. print_int cb fl width precision spec negative v s =
           Inr (of_nat (length (int_digits spec v)), (c, snd s))))"
proof (intro conjI impI)
  assume "\<not> prefix_fits fl negative spec"
  then show "print_int cb fl width precision spec negative v s = Inl (Prefix_Overrun, s)"
    by (simp add: prefix_fits_iff print_int_def Let_def)
next
  assume "prefix_fits fl negative spec \<and> \<not> buf_fits spec v"
  then show "print_int cb fl width precision spec negative v s = Inl (Buf_Overrun, s)"
    by (simp add: prefix_fits_iff buf_fits_iff length_int_digits print_int_def Let_def)
next
  assume "prefix_fits fl negative spec \<and> buf_fits spec v"
  then show "\<exists>c. print_int cb fl width precision spec negative v s =
      Inr (of_nat (length (int_digits spec v)), (c, snd s))"
    using print_int_fits [where cb = cb and c = "fst s" and args = "snd s", OF assms] by simp
qed

theorem print_int_overrun_witness:
  "print_int callback_placeholder no_flags 0 (- 1) (CHR ''o'') False 0x8000000000000000 ((), []) =
     Inl (Buf_Overrun, ((), [])) \<and>
   print_int callback_placeholder (no_flags\<lparr>flag_hash := True, flag_plus := True\<rparr>) 0 (- 1)
     (CHR ''x'') False 1 ((), []) = Inl (Prefix_Overrun, ((), []))"
proof -
  have full: "fst ((callback_placeholder :: unit callback) c str len) = len" for c str len
    by (rule placeholder.takes_all)
  note claim = print_int_overrun [where cb = "callback_placeholder :: unit callback" and s = "((), [])" and
      width = 0 and precision = "- 1", OF full]
  show ?thesis
    using claim [of "no_flags\<lparr>flag_hash := True, flag_plus := True\<rparr>" False "CHR ''x''" 1]
      claim [of no_flags False "CHR ''o''" "0x8000000000000000"]
    by (simp add: prefix_fits_def buf_fits_def no_flags_def)
qed

text \<open>
  With \<^verbatim>\<open>-\<close> and no \<^verbatim>\<open>0\<close> flag the padding is printed twice, on the left and on the
  right, where a left-aligned field has it on the right only.
\<close>

theorem print_int_minus_pads_twice:
  assumes "\<And>c str len. fst (cb c str len) = len"
    and "prefix_fits fl negative spec" and "buf_fits spec v"
    and "min_digits precision < 2 ^ 63" and "flag_minus fl" and "\<not> flag_zero fl"
  shows "\<exists>calls pad. print_int cb fl width precision spec negative v (c, args) =
        Inr (of_nat (length (int_digits spec v)), (say cb calls c, args)) \<and>
      pad = unat width - (length (int_prefix fl negative spec) + length (int_body precision spec v)) \<and>
      concat calls = replicate pad (CHR '' '') @ int_prefix fl negative spec @ int_body precision spec v @
        replicate pad (CHR '' '')"
proof (intro exI conjI)
  let ?calls = "int_calls fl width precision spec negative v"
  show "print_int cb fl width precision spec negative v (c, args) =
        Inr (of_nat (length (int_digits spec v)), (say cb ?calls c, args))"
    using assms by (intro print_int_fits)
  show "concat ?calls = replicate (field_pad fl width precision spec negative v) (CHR '' '') @
      int_prefix fl negative spec @ int_body precision spec v @
      replicate (field_pad fl width precision spec negative v) (CHR '' '')"
    using assms by (simp add: int_calls_text Let_def)
qed (simp add: field_pad_def)

theorem print_int_minus_pads_twice_witness:
  "\<exists>calls pad. print_int (\<lambda>c str len. (len, c @ str)) (no_flags\<lparr>flag_minus := True\<rparr>) 4 (- 1) (CHR ''d'') False 7 ([], []) =
        Inr (of_nat (length (int_digits (CHR ''d'') 7)), (say (\<lambda>c str len. (len, c @ str)) calls [], [])) \<and>
     pad = 3 \<and> concat calls = ''   7   ''"
proof -
  have d: "int_digits (CHR ''d'') 7 = ''7''"
    by (simp add: int_digits_def conv_base_def conv_table_def digit_count.simps)
  have r: "replicate 3 x = [x, x, x]" for x :: char by (simp add: numeral_eq_Suc)
  show ?thesis
    using print_int_minus_pads_twice [of "\<lambda>c str len. (len, c @ str)" "no_flags\<lparr>flag_minus := True\<rparr>" False
        "CHR ''d''" 7 "- 1" 4 "[]" "[]"]
    by (simp add: prefix_fits_def buf_fits_def no_flags_def min_digits_def int_prefix_def int_body_def d r)
qed

end
