(* ===== verification/Firmware.thy ===== *)
theory Firmware
  imports Memory
begin

text \<open>
  The firmware as the loader sees it. The UEFI headers and the firmware are
  not part of the repository, so the services the code calls are the fields of
  a parameter \<open>env\<close> over an unknown firmware state \<open>'w\<close>; what a theorem relies
  on is a hypothesis on those fields.
\<close>

section \<open>Status codes\<close>

text \<open>
  The codes the sources name. \<open>EFI_SUCCESS\<close> is the code \<^verbatim>\<open>0\<close> that the C code
  tests with \<^verbatim>\<open>if(status)\<close> and that ends the table of \<^verbatim>\<open>uefi/error.c\<close>; every
  other value a service can return is \<open>EFI_OTHER\<close>.
\<close>

datatype efi_status =
    EFI_SUCCESS | EFI_LOAD_ERROR | EFI_INVALID_PARAMETER | EFI_UNSUPPORTED
  | EFI_BAD_BUFFER_SIZE | EFI_BUFFER_TOO_SMALL | EFI_NOT_READY | EFI_DEVICE_ERROR
  | EFI_WRITE_PROTECTED | EFI_OUT_OF_RESOURCES | EFI_VOLUME_CORRUPTED | EFI_VOLUME_FULL
  | EFI_NO_MEDIA | EFI_MEDIA_CHANGED | EFI_NOT_FOUND | EFI_ACCESS_DENIED
  | EFI_NO_RESPONSE | EFI_NO_MAPPING | EFI_TIMEOUT | EFI_NOT_STARTED
  | EFI_ALREADY_STARTED | EFI_ABORTED | EFI_ICMP_ERROR | EFI_TFTP_ERROR
  | EFI_PROTOCOL_ERROR | EFI_INCOMPATIBLE_VERSION | EFI_SECURITY_VIOLATION | EFI_CRC_ERROR
  | EFI_END_OF_MEDIA | EFI_END_OF_FILE | EFI_INVALID_LANGUAGE | EFI_COMPROMISED_DATA
  | EFI_IP_ADDRESS_CONFLICT | EFI_HTTP_ERROR | EFI_OTHER nat

section \<open>The firmware interface\<close>

text \<open>
  One field per service, grouped by protocol. A service takes the firmware
  state and its inputs and gives the status, the values it writes through its
  out-pointers and the new firmware state; services that fill a caller's buffer
  give the bytes. Handles, protocol interfaces and events are addresses; a
  protocol is named, as in \<^verbatim>\<open>uefi/guid.c\<close>, since the identifiers themselves are
  in the firmware's headers.
\<close>

datatype protocol =
    BlockIoProtocol | DevicePathProtocol | DevicePathToTextProtocol | DiskIoProtocol
  | DriverBindingProtocol | FileInfoGuid | FileSystemInfoGuid | GraphicsOutputProtocol
  | LoadedImageProtocol | ManagedNetworkProtocol | PciRootBridgeIoProtocol
  | SimpleFileSystemProtocol | SimpleNetworkProtocol | SimpleTextInputProtocol
  | SimpleTextOutputProtocol | UsbIoProtocol

text \<open>
  The network interface. \<open>Receive\<close> gives the packet and the size it stores;
  \<open>GetStatus\<close> the buffer whose transmission has ended, or zero.
\<close>

record 'w snp_services =
  Transmit :: "'w \<Rightarrow> addr \<Rightarrow> addr \<Rightarrow> u8 list \<Rightarrow> efi_status \<times> 'w"
  GetStatus :: "'w \<Rightarrow> addr \<Rightarrow> (efi_status \<times> addr) \<times> 'w"
  Receive :: "'w \<Rightarrow> addr \<Rightarrow> u64 \<Rightarrow> (efi_status \<times> u8 list \<times> u64) \<times> 'w"
  Start :: "'w \<Rightarrow> addr \<Rightarrow> efi_status \<times> 'w"
  Initialize :: "'w \<Rightarrow> addr \<Rightarrow> efi_status \<times> 'w"
  Shutdown :: "'w \<Rightarrow> addr \<Rightarrow> efi_status \<times> 'w"
  Stop :: "'w \<Rightarrow> addr \<Rightarrow> efi_status \<times> 'w"
  ReceiveFilters :: "'w \<Rightarrow> addr \<Rightarrow> u64 \<Rightarrow> u8 list \<Rightarrow> efi_status \<times> 'w"
  MaxMCastFilterCount :: "'w \<Rightarrow> addr \<Rightarrow> u32"
  MediaPresent :: "'w \<Rightarrow> addr \<Rightarrow> bool"
  CurrentAddress :: "'w \<Rightarrow> addr \<Rightarrow> addr"

datatype efi_timer_delay = TimerCancel | TimerRelative

record 'w event_services =
  CreateEvent :: "'w \<Rightarrow> (efi_status \<times> addr) \<times> 'w"
  CloseEvent :: "'w \<Rightarrow> addr \<Rightarrow> efi_status \<times> 'w"
  CheckEvent :: "'w \<Rightarrow> addr \<Rightarrow> efi_status \<times> 'w"
  SetTimer :: "'w \<Rightarrow> addr \<Rightarrow> efi_timer_delay \<Rightarrow> u64 \<Rightarrow> efi_status \<times> 'w"

text \<open>Handles; \<open>LocateHandle\<close> gives the handles it stores in a buffer of the given size.\<close>

record 'w handle_services =
  HandleProtocol :: "'w \<Rightarrow> addr \<Rightarrow> protocol \<Rightarrow> (efi_status \<times> addr) \<times> 'w"
  OpenProtocol :: "'w \<Rightarrow> addr \<Rightarrow> protocol \<Rightarrow> (efi_status \<times> addr) \<times> 'w"
  CloseProtocol :: "'w \<Rightarrow> addr \<Rightarrow> protocol \<Rightarrow> efi_status \<times> 'w"
  LocateHandle :: "'w \<Rightarrow> protocol \<Rightarrow> u64 \<Rightarrow> (efi_status \<times> addr list) \<times> 'w"
  LocateProtocol :: "'w \<Rightarrow> protocol \<Rightarrow> (efi_status \<times> addr) \<times> 'w"
  ConvertDevicePathToText :: "'w \<Rightarrow> addr \<Rightarrow> addr \<Rightarrow> addr \<times> 'w"
  LoadedImage_DeviceHandle :: "'w \<Rightarrow> addr \<Rightarrow> addr"

datatype file_mode = MODE_READ | MODE_CREATE_READ_WRITE

text \<open>Volumes and files; \<open>File_Write\<close> gives the size it stores back.\<close>

record 'w volume_services =
  OpenVolume :: "'w \<Rightarrow> addr \<Rightarrow> (efi_status \<times> addr) \<times> 'w"
  File_Open :: "'w \<Rightarrow> addr \<Rightarrow> u16 list \<Rightarrow> file_mode \<Rightarrow> (efi_status \<times> addr) \<times> 'w"
  File_Write :: "'w \<Rightarrow> addr \<Rightarrow> u8 list \<Rightarrow> (efi_status \<times> u64) \<times> 'w"
  File_Close :: "'w \<Rightarrow> addr \<Rightarrow> efi_status \<times> 'w"

datatype efi_reset_type = EfiResetWarm | EfiResetShutdown

text \<open>
  Runtime services: \<open>GetVariable\<close> is given the size the caller's variable holds
  and gives the size it stores, \<open>SetVariable\<close> gets the size and the value, and
  \<open>ResetSystem\<close> gives \<open>None\<close> when it does what it is for.
\<close>

record 'w runtime_services =
  GetVariable :: "'w \<Rightarrow> string \<Rightarrow> u64 \<Rightarrow> (efi_status \<times> u64) \<times> 'w"
  SetVariable :: "'w \<Rightarrow> string \<Rightarrow> u64 \<Rightarrow> u64 \<Rightarrow> efi_status \<times> 'w"
  ResetSystem :: "'w \<Rightarrow> efi_reset_type \<Rightarrow> 'w option"

text \<open>
  The remaining boot services and the console. An identifier of the firmware is
  an \<open>efi_guid\<close>; its last eight bytes are compared as one number. \<open>GetMemoryMap\<close> gives the size it stores, the
  key, the size of a descriptor and the bytes of the map; \<open>File_GetInfo\<close> the size it stores and the bytes
  of the description. \<open>SetLoadOptions\<close> is a store to two fields of the description of an image.
\<close>

record efi_guid =
  data1 :: u32
  data2 :: u16
  data3 :: u16
  data4 :: u64

record 'w boot_services =
  LocateHandleBuffer :: "'w \<Rightarrow> protocol option \<Rightarrow> (efi_status \<times> addr list) \<times> 'w"
  ProtocolsPerHandle :: "'w \<Rightarrow> addr \<Rightarrow> (efi_status \<times> efi_guid list) \<times> 'w"
  OpenProtocolInformation :: "'w \<Rightarrow> addr \<Rightarrow> efi_guid \<Rightarrow> (efi_status \<times> (addr \<times> u32) list) \<times> 'w"
  ConnectController :: "'w \<Rightarrow> addr \<Rightarrow> efi_status \<times> 'w"
  WaitForKey :: "'w \<Rightarrow> efi_status \<times> 'w"
  SetWatchdogTimer :: "'w \<Rightarrow> efi_status \<times> 'w"
  ClearScreen :: "'w \<Rightarrow> efi_status \<times> 'w"
  LoadImage :: "'w \<Rightarrow> addr \<Rightarrow> addr \<Rightarrow> (efi_status \<times> addr) \<times> 'w"
  SetLoadOptions :: "'w \<Rightarrow> addr \<Rightarrow> addr \<Rightarrow> u32 \<Rightarrow> 'w"
  StartImage :: "'w \<Rightarrow> addr \<Rightarrow> efi_status \<times> 'w"
  GetMemoryMap :: "'w \<Rightarrow> u64 \<Rightarrow> (efi_status \<times> u64 \<times> u64 \<times> u64 \<times> u8 list) \<times> 'w"
  ExitBootServices :: "'w \<Rightarrow> addr \<Rightarrow> u64 \<Rightarrow> efi_status \<times> 'w"
  File_GetInfo :: "'w \<Rightarrow> addr \<Rightarrow> u64 \<Rightarrow> (efi_status \<times> u64 \<times> u8 list) \<times> 'w"
  guid_of :: "protocol \<Rightarrow> efi_guid"
  ACPI_20_TABLE_GUID :: efi_guid
  EFI_OPEN_PROTOCOL_BY_CHILD_CONTROLLER :: u32

text \<open>The graphics output: its modes with their resolution, and the mode it is in.\<close>

record 'w graphics_services =
  MaxMode :: "'w \<Rightarrow> addr \<Rightarrow> u32"
  QueryMode :: "'w \<Rightarrow> addr \<Rightarrow> u32 \<Rightarrow> (efi_status \<times> u32 \<times> u32) \<times> 'w"
  SetMode :: "'w \<Rightarrow> addr \<Rightarrow> u32 \<Rightarrow> efi_status \<times> 'w"
  Mode :: "'w \<Rightarrow> addr \<Rightarrow> addr"
  Mode_Info :: "'w \<Rightarrow> addr \<Rightarrow> addr"
  FrameBufferBase :: "'w \<Rightarrow> addr \<Rightarrow> addr"
  FrameBufferSize :: "'w \<Rightarrow> addr \<Rightarrow> u64"

text \<open>What the system table and the loaded image hold.\<close>

record 'w system_table =
  FirmwareVendor :: "u8 list"
  FirmwareRevision :: u32
  ConfigurationTable :: "'w \<Rightarrow> (efi_guid \<times> addr) list"
  ImageBase :: "'w \<Rightarrow> addr \<Rightarrow> addr"
  ImageSize :: "'w \<Rightarrow> addr \<Rightarrow> u64"

record 'w env =
  status_code :: "efi_status \<Rightarrow> u64"
  EFI_ERROR :: "efi_status \<Rightarrow> bool"
  OutputString :: "'w \<Rightarrow> u16 list \<Rightarrow> efi_status \<times> 'w"
  ReadKeyStroke :: "'w \<Rightarrow> (efi_status \<times> u16) \<times> 'w"
  AllocatePages :: "'w \<Rightarrow> u64 \<Rightarrow> (efi_status \<times> addr) \<times> 'w"
  AllocatePool :: "'w \<Rightarrow> u64 \<Rightarrow> (efi_status \<times> addr) \<times> 'w"
  FreePool :: "'w \<Rightarrow> addr \<Rightarrow> efi_status \<times> 'w"
  File_SetPosition :: "'w \<Rightarrow> addr \<Rightarrow> u64 \<Rightarrow> efi_status \<times> 'w"
  File_Read :: "'w \<Rightarrow> addr \<Rightarrow> u64 \<Rightarrow> (efi_status \<times> u8 list) \<times> 'w"
  SNP :: "'w snp_services"
  EVT :: "'w event_services"
  HND :: "'w handle_services"
  VOL :: "'w volume_services"
  RT :: "'w runtime_services"
  BS :: "'w boot_services"
  GOP :: "'w graphics_services"
  SYS :: "'w system_table"

text \<open>Why a run of the loader ends before its last line.\<close>

datatype halt =
    Exited efi_status      \<comment> \<open>\<^verbatim>\<open>EFIERR\<close>: message, key press, \<^verbatim>\<open>BootServices->Exit\<close>\<close>
  | Waiting                \<comment> \<open>in \<^verbatim>\<open>uefi_key_wait\<close>, and no key is ever pressed\<close>
  | Panicked string        \<comment> \<open>\<^verbatim>\<open>efi_panic\<close>: message, then \<^verbatim>\<open>for(;;);\<close>\<close>
  | Reset efi_reset_type   \<comment> \<open>\<^verbatim>\<open>RuntimeServices->ResetSystem\<close>\<close>
  | Jumped addr addr addr  \<comment> \<open>in the kernel, with its argument, its entry point and its page tables\<close>
  | Hung                   \<comment> \<open>in a loop that never ends\<close>
  | Undefined              \<comment> \<open>the C code has no defined behaviour from here on\<close>

text \<open>
  What the loader's code can change: memory, the firmware, and the two
  processor registers its assembly stubs write (\<^verbatim>\<open>cr0\<close> and the
  model-specific registers).
\<close>

record 'w machine =
  mem :: mem
  fw :: 'w
  cr0 :: u64
  msr :: "u32 \<Rightarrow> u64"

type_synonym ('w, 'z, 'a) run = "(halt, ('w, 'z) machine_scheme, 'a) step"

definition fwcall :: "('w \<Rightarrow> 'a \<times> 'w) \<Rightarrow> ('w, 'z, 'a) run" where
  "fwcall f s = (case f (fw s) of (x, w) \<Rightarrow> Inr (x, s\<lparr>fw := w\<rparr>))"

lemma fwcall_run [run_simps]: "f (fw s) = (x, w) \<Longrightarrow> fwcall f s = Inr (x, s\<lparr>fw := w\<rparr>)"
  by (simp add: fwcall_def)

lemma keeps_fwcall [keeps_intros]:
  "(\<And>s x w. f (fw s) = (x, w) \<Longrightarrow> Q s \<Longrightarrow> Q (s\<lparr>fw := w\<rparr>)) \<Longrightarrow> keeps Q (fwcall f)"
  by (rule keepsI) (auto simp: fwcall_def split: prod.splits)

section \<open>What is relied on\<close>

text \<open>
  What the loader relies on from \<^verbatim>\<open>AllocatePages\<close>: pages are page aligned, lie
  in the physical address space and were not handed out before. \<open>own\<close> names
  the memory handed out so far.
\<close>

definition alloc_ok :: "'w env \<Rightarrow> ('w \<Rightarrow> addr set) \<Rightarrow> bool" where
  "alloc_ok B own \<longleftrightarrow>
     (\<forall>w n status a w'. AllocatePages B w n = ((status, a), w') \<longrightarrow> \<not> EFI_ERROR B status \<longrightarrow>
        aligned 12 a \<and> unat a + unat n * 4096 \<le> 2 ^ 52 \<and>
        region a (unat n * 4096) \<inter> own w = {} \<and>
        own w \<union> region a (unat n * 4096) \<subseteq> own w')"

text \<open>The same for pool memory, which has no particular alignment here.\<close>

definition pool_ok :: "'w env \<Rightarrow> ('w \<Rightarrow> addr set) \<Rightarrow> bool" where
  "pool_ok B own \<longleftrightarrow>
     (\<forall>w n status a w'. AllocatePool B w n = ((status, a), w') \<longrightarrow> \<not> EFI_ERROR B status \<longrightarrow>
        unat a + unat n \<le> 2 ^ 52 \<and> region a (unat n) \<inter> own w = {} \<and>
        own w \<union> region a (unat n) \<subseteq> own w')"

text \<open>
  Memory does not run out yet: the next \<open>k\<close> one-page allocations succeed. This
  is the condition under which the mapping functions return.
\<close>

fun pages_left :: "'w env \<Rightarrow> nat \<Rightarrow> 'w \<Rightarrow> bool" where
  "pages_left B 0 w = True"
| "pages_left B (Suc k) w =
     (case AllocatePages B w 1 of ((status, a), w') \<Rightarrow> \<not> EFI_ERROR B status \<and> pages_left B k w')"

declare pages_left.simps(2) [simp del]

lemma pages_left_SucE:
  assumes "pages_left B (Suc k) w"
  obtains status a w' where "AllocatePages B w 1 = ((status, a), w')"
    and "\<not> EFI_ERROR B status" and "pages_left B k w'"
  using assms by (auto simp: pages_left.simps split: prod.splits)

lemma pages_left_Suc: "pages_left B (Suc k) w \<Longrightarrow> pages_left B k w"
proof (induction k arbitrary: w)
  case (Suc k)
  from Suc.prems obtain status a w' where ap: "AllocatePages B w 1 = ((status, a), w')"
    and ok: "\<not> EFI_ERROR B status" and "pages_left B (Suc k) w'" by (rule pages_left_SucE)
  with Suc.IH have "pages_left B k w'" by blast
  with ap ok show ?case by (simp add: pages_left.simps)
qed simp

end
