(* ===== verification/Sample_Firmware.thy ===== *)
theory Sample_Firmware
  imports Firmware
begin

text \<open>
  A small firmware that keeps the contracts the theorems assume: it hands out
  pages from a counter, accepts all output, reads from a fixed file, has one
  network interface that receives the packets of \<open>inbox\<close>, and keeps the files
  written to it. The witnesses instantiate the firmware parameter with it.
\<close>

record sample_state =
  next_page :: nat
  file_pos :: nat
  screen :: "u16 list"
  wire :: "u8 list list"
  inbox :: "u8 list list"
  opened :: "u16 list"
  files :: "(u16 list \<times> u8 list) list"

text \<open>
  The file it serves: a program header for a loadable segment, four bytes of
  code behind it, and memory for two pages at \<^verbatim>\<open>0x400000\<close>.
\<close>

definition sample_kernel :: "u8 list" where
  "sample_kernel =
     [1, 0, 0, 0, 5, 0, 0, 0, 0x38, 0, 0, 0, 0, 0, 0, 0, 0, 0, 0x40, 0,
      0, 0, 0, 0, 0, 0, 0, 0, 0, 0, 0, 0, 4, 0, 0, 0, 0, 0, 0, 0,
      8, 0x10, 0, 0, 0, 0, 0, 0, 0, 0x10, 0, 0, 0, 0, 0, 0, 0x90, 0xf4, 0xeb, 0xfd]"

definition sample_snp :: "sample_state snp_services" where
  "sample_snp =
     \<lparr>Transmit = (\<lambda>w i a bs. (EFI_SUCCESS, w\<lparr>wire := wire w @ [bs]\<rparr>)),
      GetStatus = (\<lambda>w i. ((EFI_SUCCESS, 0), w)),
      Receive = (\<lambda>w i n.
        case inbox w of
          [] \<Rightarrow> ((EFI_NOT_READY, [], n), w)
        | p # ps \<Rightarrow> ((EFI_SUCCESS, p, of_nat (length p)), w\<lparr>inbox := ps\<rparr>)),
      Start = (\<lambda>w i. (EFI_SUCCESS, w)),
      Initialize = (\<lambda>w i. (EFI_SUCCESS, w)),
      Shutdown = (\<lambda>w i. (EFI_SUCCESS, w)),
      Stop = (\<lambda>w i. (EFI_SUCCESS, w)),
      ReceiveFilters = (\<lambda>w i n bs. (EFI_SUCCESS, w)),
      MaxMCastFilterCount = (\<lambda>w i. 8),
      MediaPresent = (\<lambda>w i. True),
      CurrentAddress = (\<lambda>w i. 0x3000)\<rparr>"

definition sample_evt :: "sample_state event_services" where
  "sample_evt =
     \<lparr>CreateEvent = (\<lambda>w. ((EFI_SUCCESS, 0x3100), w)),
      CloseEvent = (\<lambda>w e. (EFI_SUCCESS, w)),
      CheckEvent = (\<lambda>w e. (EFI_NOT_READY, w)),
      SetTimer = (\<lambda>w e d t. (EFI_SUCCESS, w))\<rparr>"

definition sample_hnd :: "sample_state handle_services" where
  "sample_hnd =
     \<lparr>HandleProtocol = (\<lambda>w h p. ((EFI_SUCCESS, h), w)),
      OpenProtocol = (\<lambda>w h p. ((EFI_SUCCESS, h), w)),
      CloseProtocol = (\<lambda>w h p. (EFI_SUCCESS, w)),
      LocateHandle = (\<lambda>w p n. ((EFI_SUCCESS, [0x3200]), w)),
      LocateProtocol = (\<lambda>w p. ((EFI_SUCCESS, 0x3300), w)),
      ConvertDevicePathToText = (\<lambda>w i p. (p, w)),
      LoadedImage_DeviceHandle = (\<lambda>w i. 0x3400)\<rparr>"

definition sample_vol :: "sample_state volume_services" where
  "sample_vol =
     \<lparr>OpenVolume = (\<lambda>w i. ((EFI_SUCCESS, 0x3500), w)),
      File_Open = (\<lambda>w r p m. ((EFI_SUCCESS, 0x3600), w\<lparr>opened := p\<rparr>)),
      File_Write = (\<lambda>w f bs. ((EFI_SUCCESS, of_nat (length bs)), w\<lparr>files := files w @ [(opened w, bs)]\<rparr>)),
      File_Close = (\<lambda>w f. (EFI_SUCCESS, w))\<rparr>"

definition sample_rt :: "sample_state runtime_services" where
  "sample_rt =
     \<lparr>GetVariable = (\<lambda>w v n. ((EFI_NOT_FOUND, n), w)),
      SetVariable = (\<lambda>w v n x. (EFI_SUCCESS, w)),
      ResetSystem = (\<lambda>w t. None)\<rparr>"

text \<open>The identifier of a protocol has its number as its first part.\<close>

definition sample_guid :: "protocol \<Rightarrow> efi_guid" where
  "sample_guid p = \<lparr>data1 = (if p = LoadedImageProtocol then 1 else if p = DriverBindingProtocol then 2 else if p = DevicePathProtocol then 3 else 4),
     data2 = 0, data3 = 0, data4 = 0\<rparr>"

text \<open>One device, and a memory map of one descriptor.\<close>

definition sample_bs :: "sample_state boot_services" where
  "sample_bs =
     \<lparr>LocateHandleBuffer = (\<lambda>w p. ((EFI_SUCCESS, [0x3800]), w)),
      ProtocolsPerHandle = (\<lambda>w h. ((EFI_SUCCESS, [sample_guid DevicePathProtocol]), w)),
      OpenProtocolInformation = (\<lambda>w h g. ((EFI_SUCCESS, []), w)),
      ConnectController = (\<lambda>w h. (EFI_SUCCESS, w)),
      WaitForKey = (\<lambda>w. (EFI_SUCCESS, w)),
      SetWatchdogTimer = (\<lambda>w. (EFI_SUCCESS, w)),
      ClearScreen = (\<lambda>w. (EFI_SUCCESS, w\<lparr>screen := []\<rparr>)),
      LoadImage = (\<lambda>w i p. ((EFI_SUCCESS, 0x3900), w)),
      SetLoadOptions = (\<lambda>w i a n. w),
      StartImage = (\<lambda>w i. (EFI_SUCCESS, w)),
      GetMemoryMap = (\<lambda>w n. if n < 48 then ((EFI_BUFFER_TOO_SMALL, 48, 0, 48, []), w) else ((EFI_SUCCESS, 48, 7, 48, replicate 48 0), w)),
      ExitBootServices = (\<lambda>w i k. (if k = 7 then EFI_SUCCESS else EFI_INVALID_PARAMETER, w)),
      File_GetInfo = (\<lambda>w f n. if n < 80 then ((EFI_BUFFER_TOO_SMALL, 80, []), w)
        else ((EFI_SUCCESS, 80, replicate 8 0 @ [60] @ replicate 71 0), w)),
      guid_of = sample_guid,
      ACPI_20_TABLE_GUID = \<lparr>data1 = 0x8868e871, data2 = 0xe4f1, data3 = 0x11d3, data4 = 0x81883cc7800022bc\<rparr>,
      EFI_OPEN_PROTOCOL_BY_CHILD_CONTROLLER = 8\<rparr>"

definition sample_gop :: "sample_state graphics_services" where
  "sample_gop =
     \<lparr>MaxMode = (\<lambda>w g. 3),
      QueryMode = (\<lambda>w g i. ((EFI_SUCCESS, if i = 0 then (640, 480) else if i = 1 then (1024, 768) else (800, 600)), w)),
      SetMode = (\<lambda>w g i. (EFI_SUCCESS, w)),
      Mode = (\<lambda>w g. 0x3a00),
      Mode_Info = (\<lambda>w g. 0x3a40),
      FrameBufferBase = (\<lambda>w g. 0x80000000),
      FrameBufferSize = (\<lambda>w g. 0x2001)\<rparr>"

definition sample_sys :: "sample_state system_table" where
  "sample_sys =
     \<lparr>FirmwareVendor = [0x45, 0, 0x44, 0, 0x4b, 0, 0x20, 0, 0x49, 0, 0x49, 0, 0, 0],
      FirmwareRevision = 0x20000,
      ConfigurationTable = (\<lambda>w. [(sample_guid UsbIoProtocol, 0x3b00), (ACPI_20_TABLE_GUID sample_bs, 0x3b40)]),
      ImageBase = (\<lambda>w i. 0x60000),
      ImageSize = (\<lambda>w i. 0x1800)\<rparr>"

definition sample_env :: "sample_state env" where
  "sample_env =
     \<lparr>status_code = (\<lambda>status. if status = EFI_SUCCESS then 0 else 0x8000000000000001),
      EFI_ERROR = (\<lambda>status. status \<noteq> EFI_SUCCESS),
      OutputString = (\<lambda>w cs. (EFI_SUCCESS, w\<lparr>screen := screen w @ cs\<rparr>)),
      ReadKeyStroke = (\<lambda>w. ((EFI_SUCCESS, 13), w)),
      AllocatePages = (\<lambda>w n.
        if 4096 * (next_page w + unat n) \<le> 2 ^ 52
        then ((EFI_SUCCESS, of_nat (4096 * next_page w)), w\<lparr>next_page := next_page w + unat n\<rparr>)
        else ((EFI_OUT_OF_RESOURCES, 0), w)),
      AllocatePool = (\<lambda>w sz.
        if 4096 * (next_page w + unat sz div 4096 + 1) \<le> 2 ^ 52
        then ((EFI_SUCCESS, of_nat (4096 * next_page w)),
              w\<lparr>next_page := next_page w + unat sz div 4096 + 1\<rparr>)
        else ((EFI_OUT_OF_RESOURCES, 0), w)),
      FreePool = (\<lambda>w a. (EFI_SUCCESS, w)),
      File_SetPosition = (\<lambda>w f k. (EFI_SUCCESS, w\<lparr>file_pos := unat k\<rparr>)),
      File_Read = (\<lambda>w f n.
        let bs = take (unat n) (drop (file_pos w) sample_kernel)
        in ((EFI_SUCCESS, bs), w\<lparr>file_pos := file_pos w + length bs\<rparr>)),
      SNP = sample_snp, EVT = sample_evt, HND = sample_hnd, VOL = sample_vol, RT = sample_rt,
      BS = sample_bs, GOP = sample_gop, SYS = sample_sys\<rparr>"

definition sample_own :: "sample_state \<Rightarrow> addr set" where
  "sample_own w = {x. unat x < 4096 * next_page w}"

definition sample_start :: sample_state where
  "sample_start = \<lparr>next_page = 16, file_pos = 0, screen = [], wire = [],
     inbox = [], opened = [], files = []\<rparr>"

definition sample_machine :: "sample_state machine" where
  "sample_machine = \<lparr>mem = (\<lambda>_. 0), fw = sample_start, cr0 = 0x80010033, msr = (\<lambda>_. 0)\<rparr>"

lemma sample_alloc_ok: "alloc_ok sample_env sample_own"
  unfolding alloc_ok_def
proof (intro allI impI)
  fix w n status a w'
  assume ap: "AllocatePages sample_env w n = ((status, a), w')" and ok: "\<not> EFI_ERROR sample_env status"
  then have fits: "4096 * (next_page w + unat n) \<le> 2 ^ 52"
    and a: "a = of_nat (4096 * next_page w)" and w': "w' = w\<lparr>next_page := next_page w + unat n\<rparr>"
    by (auto simp: sample_env_def split: if_splits)
  have ua: "unat a = 4096 * next_page w" using fits unfolding a by (intro unat_of_nat64) simp
  have reg: "region a (unat n * 4096) = {x. unat a \<le> unat x \<and> unat x < unat a + unat n * 4096}"
    by (rule region_below) (use fits ua in simp)
  show "aligned 12 a \<and> unat a + unat n * 4096 \<le> 2 ^ 52 \<and>
      region a (unat n * 4096) \<inter> sample_own w = {} \<and>
      sample_own w \<union> region a (unat n * 4096) \<subseteq> sample_own w'"
    using fits unfolding reg by (auto simp: ua aligned_def sample_own_def w')
qed

lemma sample_pages_left: "4096 * (next_page w + k) \<le> 2 ^ 52 \<Longrightarrow> pages_left sample_env k w"
  by (induction k arbitrary: w) (auto simp: sample_env_def pages_left.simps)

lemma sample_pool_ok: "pool_ok sample_env sample_own"
  unfolding pool_ok_def
proof (intro allI impI)
  fix w n status a w'
  assume ap: "AllocatePool sample_env w n = ((status, a), w')" and ok: "\<not> EFI_ERROR sample_env status"
  then have fits: "4096 * (next_page w + unat n div 4096 + 1) \<le> 2 ^ 52"
    and a: "a = of_nat (4096 * next_page w)" and w': "w' = w\<lparr>next_page := next_page w + unat n div 4096 + 1\<rparr>"
    by (auto simp: sample_env_def split: if_splits)
  have n: "unat n < 4096 * (unat n div 4096 + 1)" by (simp add: algebra_simps)
  have ua: "unat a = 4096 * next_page w" using fits unfolding a by (intro unat_of_nat64) simp
  have reg: "region a (unat n) = {x. unat a \<le> unat x \<and> unat x < unat a + unat n}"
    by (rule region_below) (use fits ua n in simp)
  show "unat a + unat n \<le> 2 ^ 52 \<and> region a (unat n) \<inter> sample_own w = {} \<and>
      sample_own w \<union> region a (unat n) \<subseteq> sample_own w'"
    using fits n unfolding reg by (auto simp: ua sample_own_def w')
qed

end
