(* ===== verification/Print.thy ===== *)
theory Print
  imports Printf Sample_Firmware
begin

text \<open>
  Console output (\<^verbatim>\<open>print.c\<close>): characters go to the firmware one at a time, a
  line feed is preceded by a carriage return, and \<^verbatim>\<open>efi_printf\<close> is \<^verbatim>\<open>vcbprintf\<close>
  over that.
\<close>

text \<open>\<^verbatim>\<open>(uint16_t) *s\<close> widens a signed \<^verbatim>\<open>char\<close>.\<close>

definition out_unit :: "char \<Rightarrow> u16" where
  "out_unit c = scast (of_char c :: u8)"

fun printn_loop :: "'w env \<Rightarrow> string \<Rightarrow> nat \<Rightarrow> 'w \<Rightarrow> efi_status \<times> 'w" where
  "printn_loop B [] n w = (EFI_SUCCESS, w)"
| "printn_loop B (c # cs) 0 w = (EFI_SUCCESS, w)"
| "printn_loop B (c # cs) (Suc n) w =
     (if c = CHR 0x00 then (EFI_SUCCESS, w)
      else
        let (nl_status, w1) = (if c = CHR 0x0A then OutputString B w [13] else (EFI_SUCCESS, w))
        in if c = CHR 0x0A \<and> EFI_ERROR B nl_status then (nl_status, w1)
           else
             let (status, w2) = OutputString B w1 [out_unit c]
             in if EFI_ERROR B status then (status, w2)
                else printn_loop B cs n w2)"

definition efi_printn :: "'w env \<Rightarrow> string \<Rightarrow> u64 \<Rightarrow> ('w, 'z, efi_status) run" where
  "efi_printn B str n = fwcall (printn_loop B str (unat n))"

definition efi_print :: "'w env \<Rightarrow> string \<Rightarrow> ('w, 'z, efi_status) run" where
  "efi_print B str = efi_printn B str (of_nat (length str))"

definition callback :: "'w env \<Rightarrow> 'w callback" where
  "callback B w str len = (len, snd (printn_loop B str (unat len) w))"

definition efi_printf :: "'w env \<Rightarrow> string \<Rightarrow> u64 list \<Rightarrow> ('w, 'z, int) run" where
  "efi_printf B format args s =
     (case vcbprintf (mem s) (Some (callback B)) (Some format) (fw s, args) of
        Inl (fault, (w, _)) \<Rightarrow> Inl (Undefined, s\<lparr>fw := w\<rparr>)
      | Inr (k, (w, _)) \<Rightarrow> Inr (k, s\<lparr>fw := w\<rparr>))"

interpretation console: full_callback "callback B" for B
  by unfold_locales (simp add: callback_def)

section \<open>What reaches the console\<close>

text \<open>The strings the firmware gets for a text, and the state they leave it in.\<close>

definition units :: "char \<Rightarrow> u16 list list" where
  "units c = (if c = CHR 0x0A then [[13], [10]] else [[out_unit c]])"

definition put_all :: "'w env \<Rightarrow> u16 list list \<Rightarrow> 'w \<Rightarrow> 'w" where
  "put_all B us w = fold (\<lambda>u w. snd (OutputString B w u)) us w"

definition console_ok :: "'w env \<Rightarrow> bool" where
  "console_ok B \<longleftrightarrow> \<not> EFI_ERROR B EFI_SUCCESS \<and> (\<forall>w u. \<not> EFI_ERROR B (fst (OutputString B w u)))"

lemma put_all_append: "put_all B (us @ vs) w = put_all B vs (put_all B us w)"
  by (simp add: put_all_def)

lemma out_unit_newline: "out_unit (CHR 0x0A) = 10"
  by (simp add: out_unit_def)

lemma printn_loop_units:
  assumes "console_ok B"
  shows "printn_loop B str n w =
     (EFI_SUCCESS, put_all B (concat (map units (takeWhile (\<lambda>c. c \<noteq> CHR 0x00) (take n str)))) w)"
  using assms
proof (induction B str n w rule: printn_loop.induct)
  case (3 B c cs n w)
  have ok: "\<not> EFI_ERROR B (fst (OutputString B w u))" for w u
    using "3.prems" by (simp add: console_ok_def)
  show ?case
  proof (cases "c = CHR 0x0A")
    case True
    obtain s1 w1 where 1: "OutputString B w [13] = (s1, w1)" by force
    obtain s2 w2 where 2: "OutputString B w1 [10] = (s2, w2)" by force
    have "\<not> EFI_ERROR B s1" "\<not> EFI_ERROR B s2" using ok [of w "[13]"] ok [of w1 "[10]"] 1 2 by simp_all
    with 1 2 True "3.IH" [OF _ _ _ _ _ refl] "3.prems" show ?thesis
      by (simp add: units_def put_all_def out_unit_newline)
  next
    case False
    obtain s2 w2 where 2: "OutputString B w [out_unit c] = (s2, w2)" by force
    have "\<not> EFI_ERROR B s2" using ok [of w "[out_unit c]"] 2 by simp
    with 2 False "3.IH" "3.prems" show ?thesis
      by (simp add: units_def put_all_def)
  qed
qed (simp_all add: put_all_def)

lemma no_nul: "CHR 0x00 \<notin> set str \<Longrightarrow> takeWhile (\<lambda>c. c \<noteq> CHR 0x00) str = str"
  by (auto simp: takeWhile_eq_all_conv)

lemma say_callback:
  assumes "console_ok B" and "CHR 0x00 \<notin> set str" and "length str < 2 ^ 64"
  shows "say (callback B) [str] w = put_all B (concat (map units str)) w"
  using assms(2,3) by (simp add: say_def callback_def printn_loop_units [OF assms(1)] unat_of_nat64 no_nul)

text \<open>Whatever the console answers, a text without conversions is handed to it once and the run goes on.\<close>

lemma efi_printf_plain:
  assumes "CHR ''%'' \<notin> set str" and "str \<noteq> []" and "length str < 2 ^ 31"
  shows "efi_printf B str args s = Inr (int (length str), s\<lparr>fw := say (callback B) [str] (fw s)\<rparr>)"
  using console.loop_literal [OF assms(1), of "mem s" B 0 False "fw s" args] assms(2,3)
  by (simp add: efi_printf_def vcbprintf_def Let_def unat_of_nat64)

text \<open>Output reaches the firmware only through \<open>OutputString\<close>.\<close>

lemma printn_loop_inv:
  assumes "\<And>w us. Q w \<Longrightarrow> Q (snd (OutputString B w us))" and "Q w"
  shows "Q (snd (printn_loop B str n w))"
  using assms
proof (induction B str n w rule: printn_loop.induct)
  case (3 B c cs n w)
  obtain s1 w1 where 1: "(if c = CHR 0x0A then OutputString B w [13] else (EFI_SUCCESS, w)) = (s1, w1)" by force
  obtain s2 w2 where 2: "OutputString B w1 [out_unit c] = (s2, w2)" by force
  have "Q w1" using 1 "3.prems"(1) [of w "[13]"] "3.prems"(2) by (auto split: if_splits)
  then have "Q w2" using 2 "3.prems"(1) [of w1 "[out_unit c]"] by simp
  note IH = "3.IH" [OF _ 1 [symmetric] refl _ 2 [symmetric] refl _ "3.prems"(1) this]
  show ?case
  proof (cases "c = CHR 0x00 \<or> c = CHR 0x0A \<and> EFI_ERROR B s1 \<or> EFI_ERROR B s2")
    case True
    then show ?thesis using 1 2 "3.prems"(2) \<open>Q w1\<close> \<open>Q w2\<close> by auto
  next
    case False
    then show ?thesis using 1 2 IH by auto
  qed
qed simp_all

lemma say_inv:
  assumes "\<And>w us. Q w \<Longrightarrow> Q (snd (OutputString B w us))" and "Q w"
  shows "Q (say (callback B) strs w)"
  using assms(2)
proof (induction strs arbitrary: w)
  case (Cons str strs)
  have "Q (snd (printn_loop B str n w))" for n using assms(1) Cons.prems by (rule printn_loop_inv)
  then show ?case using Cons.IH by (simp add: say_Cons callback_def)
qed simp

section \<open>Properties\<close>
section \<open>Properties\<close>

text \<open>
  C19: Printing a text in which nothing is a conversion puts every character of
  it on the console, in order, each line feed as carriage return and line feed,
  and gives the number of characters; \<^verbatim>\<open>efi_print\<close> and \<^verbatim>\<open>efi_printf\<close> agree on it.
\<close>

theorem efi_printf_text:
  assumes "console_ok B" and "set str \<inter> {CHR 0x00, CHR ''%''} = {}" and "length str < 2 ^ 31"
  shows "efi_printf B str args s =
       Inr (int (length str), s\<lparr>fw := put_all B (concat (map units str)) (fw s)\<rparr>) \<and>
     efi_print B str s = Inr (EFI_SUCCESS, s\<lparr>fw := put_all B (concat (map units str)) (fw s)\<rparr>)"
proof
  have len: "unat (of_nat (length str) :: u64) = length str" using assms(3) by (simp add: unat_of_nat64)
  have nul: "CHR 0x00 \<notin> set str" and pct: "CHR ''%'' \<notin> set str" using assms(2) by auto
  have say: "say (callback B) [str] w = put_all B (concat (map units str)) w" for w
    using say_callback [OF assms(1) nul, of w] assms(3) by simp
  show "efi_printf B str args s =
       Inr (int (length str), s\<lparr>fw := put_all B (concat (map units str)) (fw s)\<rparr>)"
  proof (cases "str = []")
    case True
    then show ?thesis
      using console.loop_literal [of "[]" "mem s" B 0 False "fw s" args]
      by (simp add: efi_printf_def vcbprintf_def Let_def put_all_def)
  next
    case False
    then show ?thesis using assms(3) pct by (simp add: efi_printf_plain say)
  qed
  show "efi_print B str s = Inr (EFI_SUCCESS, s\<lparr>fw := put_all B (concat (map units str)) (fw s)\<rparr>)"
    by (simp add: efi_print_def efi_printn_def fwcall_def printn_loop_units [OF assms(1)] len no_nul [OF nul])
qed

theorem efi_printf_text_witness:
  "\<exists>w. efi_printf sample_env (''ok'' @ [CHR 0x0A]) [] sample_machine = Inr (3, sample_machine\<lparr>fw := w\<rparr>) \<and>
     screen w = [111, 107, 13, 10]"
proof -
  have ok: "console_ok sample_env" by (simp add: console_ok_def sample_env_def)
  have "efi_printf sample_env (''ok'' @ [CHR 0x0A]) [] sample_machine =
      Inr (3, sample_machine\<lparr>fw := put_all sample_env (concat (map units (''ok'' @ [CHR 0x0A]))) (fw sample_machine)\<rparr>)"
    using efi_printf_text [OF ok, of "''ok'' @ [CHR 0x0A]" "[]" sample_machine] by simp
  moreover have "screen (put_all sample_env (concat (map units (''ok'' @ [CHR 0x0A]))) (fw sample_machine)) =
      [111, 107, 13, 10]"
    by (simp add: put_all_def units_def out_unit_def sample_env_def sample_machine_def sample_start_def)
  ultimately show ?thesis by blast
qed

text \<open>
  \<^verbatim>\<open>efi_printf\<close> never reports a failed write, whatever the console answers: it gives
  \<^verbatim>\<open>-1\<close> only when its count of characters does not fit an \<^verbatim>\<open>int\<close>.
\<close>

theorem efi_printf_minus_one:
  "efi_printf B format args s = Inr (- 1, t) \<longleftrightarrow>
     (\<exists>written w rest. vcbprintf_loop (mem s) (callback B) format 0 False (fw s, args) =
        Inr (written, (w, rest)) \<and> 2 ^ 31 \<le> unat written \<and> t = s\<lparr>fw := w\<rparr>)"
proof -
  let ?run = "vcbprintf_loop (mem s) (callback B) format 0 False (fw s, args)"
  have short: "?run \<noteq> Inl (Short_Write, u)" for u
    using console.never_short_loop [of "mem s" B format 0 False] unfolding never_short_def by blast
  have nonneg: "uint x \<noteq> - 1" for x :: u64 using uint_nonnegative [of x] by linarith
  show ?thesis
  proof (cases ?run)
    case (Inl a)
    then show ?thesis
      using short by (cases a; cases "fst a") (auto simp: efi_printf_def vcbprintf_def Let_def)
  next
    case (Inr a)
    then show ?thesis
      by (cases a) (auto simp: efi_printf_def vcbprintf_def Let_def not_less nonneg)
  qed
qed

end
