(* ===== verification/Efi.thy ===== *)
theory Efi
  imports Print
begin

text \<open>
  The thin layer over the firmware: error names (\<^verbatim>\<open>uefi/error.c\<close>), the error
  macros of \<^verbatim>\<open>uefi.h\<close>, the pool and page allocators (\<^verbatim>\<open>lib/stdlib/*.c\<close>,
  \<^verbatim>\<open>uefi/util.c\<close>), and what the loader relies on from the allocator.
\<close>

section \<open>Error reports\<close>

definition uefi_errors :: "(efi_status \<times> string) list" where
  "uefi_errors =
    [(EFI_LOAD_ERROR, ''LOAD_ERROR''),
     (EFI_INVALID_PARAMETER, ''INVALID_PARAMETER''),
     (EFI_UNSUPPORTED, ''UNSUPPORTED''),
     (EFI_BAD_BUFFER_SIZE, ''BAD_BUFFER_SIZE''),
     (EFI_BUFFER_TOO_SMALL, ''BUFFER_TOO_SMALL''),
     (EFI_NOT_READY, ''NOT_READY''),
     (EFI_DEVICE_ERROR, ''DEVICE_ERROR''),
     (EFI_WRITE_PROTECTED, ''WRITE_PROTECTED''),
     (EFI_OUT_OF_RESOURCES, ''OUT_OF_RESOURCES''),
     (EFI_VOLUME_CORRUPTED, ''VOLUME_CORRUPTED''),
     (EFI_VOLUME_FULL, ''VOLUME_FULL''),
     (EFI_NO_MEDIA, ''NO_MEDIA''),
     (EFI_MEDIA_CHANGED, ''MEDIA_CHANGED''),
     (EFI_NOT_FOUND, ''NOT_FOUND''),
     (EFI_ACCESS_DENIED, ''ACCESS_DENIED''),
     (EFI_NO_RESPONSE, ''NO_RESPONSE''),
     (EFI_NO_MAPPING, ''NO_MAPPING''),
     (EFI_TIMEOUT, ''TIMEOUT''),
     (EFI_NOT_STARTED, ''NOT_STARTED''),
     (EFI_ALREADY_STARTED, ''ALREADY_STARTED''),
     (EFI_ABORTED, ''ABORTED''),
     (EFI_ICMP_ERROR, ''ICMP_ERROR''),
     (EFI_TFTP_ERROR, ''TFTP_ERROR''),
     (EFI_PROTOCOL_ERROR, ''PROTOCOL_ERROR''),
     (EFI_INCOMPATIBLE_VERSION, ''INCOMPATIBLE_VERSION''),
     (EFI_SECURITY_VIOLATION, ''SECURITY_VIOLATION''),
     (EFI_CRC_ERROR, ''CRC_ERROR''),
     (EFI_END_OF_MEDIA, ''END_OF_MEDIA''),
     (EFI_END_OF_FILE, ''END_OF_FILE''),
     (EFI_INVALID_LANGUAGE, ''INVALID_LANGUAGE''),
     (EFI_COMPROMISED_DATA, ''COMPROMISED_DATA''),
     (EFI_IP_ADDRESS_CONFLICT, ''IP_ADDRESS_CONFLICT''),
     (EFI_HTTP_ERROR, ''HTTP_ERROR''),
     (EFI_SUCCESS, [])]"

text \<open>The table walk of \<^verbatim>\<open>uefi_strerror\<close>: up to the entry with a zero status.\<close>

fun strerror_walk :: "(efi_status \<times> string) list \<Rightarrow> efi_status \<Rightarrow> string" where
  "strerror_walk [] status = ''Unknown EFI error''"
| "strerror_walk ((code, txt) # rest) status =
     (if code = EFI_SUCCESS then ''Unknown EFI error''
      else if code = status then txt
      else strerror_walk rest status)"

definition uefi_strerror :: "efi_status \<Rightarrow> string" where
  "uefi_strerror status = strerror_walk uefi_errors status"

text \<open>\<^verbatim>\<open>while(ReadKeyStroke(...) != EFI_SUCCESS);\<close> is \<open>None\<close> when no key is ever pressed.\<close>

partial_function (option) uefi_key_wait :: "'w env \<Rightarrow> 'w \<Rightarrow> 'w option" where
  "uefi_key_wait B w =
     (case ReadKeyStroke B w of ((status, key), w') \<Rightarrow>
        if status \<noteq> EFI_SUCCESS then uefi_key_wait B w' else Some w')"

text \<open>
  What \<^verbatim>\<open>efi_printf("EFIERR %s @ %s:%d\n", ...)\<close> hands to the console
  callback, piece by piece; \<open>error_report_printf\<close> below shows that this is what
  the printer does with that format.
\<close>

definition error_report :: "string \<Rightarrow> nat \<Rightarrow> efi_status \<Rightarrow> string list" where
  "error_report file line status =
     [''EFIERR '', uefi_strerror status, '' @ '', file, '':'', '''',
      int_digits (CHR ''d'') (of_nat line), [CHR 0x0A]]"

definition efi_exit :: "'w env \<Rightarrow> efi_status \<Rightarrow> ('w, 'z, 'a) run" where
  "efi_exit B status s =
     (case uefi_key_wait B (fw s) of
        None \<Rightarrow> Inl (Waiting, s)
      | Some w \<Rightarrow> Inl (Exited status, s\<lparr>fw := w\<rparr>))"

definition EFIERR :: "'w env \<Rightarrow> string \<Rightarrow> nat \<Rightarrow> efi_status \<Rightarrow> ('w, 'z, unit) run" where
  "EFIERR B file line status =
     (if EFI_ERROR B status
      then andthen (fwcall (\<lambda>w. ((), say (callback B) (error_report file line status) w))) (\<lambda>_.
           efi_exit B status)
      else ret ())"

definition efi_panic :: "'w env \<Rightarrow> string \<Rightarrow> ('w, 'z, 'a) run" where
  "efi_panic B msg =
     andthen (fwcall (\<lambda>w. OutputString B w (map of_char msg))) (\<lambda>_. stop (Panicked msg))"

section \<open>Steps on memory\<close>

text \<open>A computation on memory alone, as a step.\<close>

definition on_mem :: "(mem \<Rightarrow> 'a \<times> mem) \<Rightarrow> ('w, 'z, 'a) run" where
  "on_mem f s = (case f (mem s) of (x, m) \<Rightarrow> Inr (x, s\<lparr>mem := m\<rparr>))"

definition set_mem :: "(mem \<Rightarrow> mem) \<Rightarrow> ('w, 'z, unit) run" where
  "set_mem f = modify (\<lambda>s. s\<lparr>mem := f (mem s)\<rparr>)"

text \<open>The value of a loop over memory that may never find its end.\<close>

definition or_undefined :: "'a option \<Rightarrow> ('w, 'z, 'a) run" where
  "or_undefined x = (case x of None \<Rightarrow> stop Undefined | Some v \<Rightarrow> ret v)"

lemma on_mem_run [simp]: "on_mem f s = (case f (mem s) of (x, m) \<Rightarrow> Inr (x, s\<lparr>mem := m\<rparr>))"
  by (simp add: on_mem_def)

lemma set_mem_run [simp]: "set_mem f s = Inr ((), s\<lparr>mem := f (mem s)\<rparr>)"
  by (simp add: set_mem_def)

lemma andthen_set_mem [simp]: "andthen (set_mem f) g s = g () (s\<lparr>mem := f (mem s)\<rparr>)"
  by (simp add: andthen_def)

lemma andthen_on_mem [simp]:
  "andthen (on_mem f) g s = (case f (mem s) of (x, m) \<Rightarrow> g x (s\<lparr>mem := m\<rparr>))"
  by (simp add: andthen_def split: prod.splits)

lemma keeps_set_mem [keeps_intros]: "(\<And>s. Q s \<Longrightarrow> Q (s\<lparr>mem := f (mem s)\<rparr>)) \<Longrightarrow> keeps Q (set_mem f)"
  by (simp add: keeps_def)

lemma keeps_on_mem [keeps_intros]: "(\<And>s m. Q s \<Longrightarrow> Q (s\<lparr>mem := m\<rparr>)) \<Longrightarrow> keeps Q (on_mem f)"
  by (auto simp: keeps_def split: prod.splits)

section \<open>Allocation\<close>

definition malloc :: "'w env \<Rightarrow> u64 \<Rightarrow> ('w, 'z, addr) run" where
  "malloc B sz =
     andthen (fwcall (\<lambda>w. AllocatePool B w sz)) (\<lambda>(s, pointer).
     andthen (EFIERR B ''lib/stdlib/malloc.c'' 8 s) (\<lambda>_.
     ret pointer))"

definition free :: "'w env \<Rightarrow> addr \<Rightarrow> ('w, 'z, unit) run" where
  "free B pointer =
     andthen (fwcall (\<lambda>w. FreePool B w pointer)) (\<lambda>s. EFIERR B ''lib/stdlib/free.c'' 6 s)"

definition uefi_alloc_pages :: "'w env \<Rightarrow> u64 \<Rightarrow> ('w, 'z, addr) run" where
  "uefi_alloc_pages B pages =
     andthen (fwcall (\<lambda>w. AllocatePages B w pages)) (\<lambda>(status, a).
     andthen (EFIERR B ''uefi/util.c'' 42 status) (\<lambda>_.
     andthen (modify (\<lambda>s. s\<lparr>mem := memset (mem s) a 0 (unat (push_bit 12 pages))\<rparr>)) (\<lambda>_.
     ret a)))"

section \<open>Facts\<close>

lemma EFIERR_ok: "\<not> EFI_ERROR B status \<Longrightarrow> EFIERR B file line status = ret ()"
  by (simp add: EFIERR_def)

lemma EFIERR_Inr: "EFIERR B file line st s = Inr (u, t) \<longleftrightarrow> \<not> EFI_ERROR B st \<and> t = s"
  by (auto simp: EFIERR_def efi_exit_def andthen_def fwcall_def split: option.splits)

lemma keeps_EFIERR [keeps_intros]: "keeps Q (EFIERR B src line status)"
  by (rule keepsI) (simp add: EFIERR_Inr)

lemma keeps_or_undefined [keeps_intros]: "keeps Q (or_undefined x)"
  by (cases x) (simp_all add: keeps_def or_undefined_def)

lemma uefi_alloc_pages_Inr:
  assumes "uefi_alloc_pages B n s = Inr (a, t)"
  obtains status w where "AllocatePages B (fw s) n = ((status, a), w)"
    and "\<not> EFI_ERROR B status"
    and "t = s\<lparr>fw := w, mem := memset (mem s) a 0 (unat (push_bit 12 n))\<rparr>"
  using assms
  by (auto simp: uefi_alloc_pages_def fwcall_def EFIERR_Inr elim!: andthen_InrE
      split: prod.splits)

lemma uefi_alloc_pages_total:
  assumes "AllocatePages B (fw s) n = ((status, a), w)" and "\<not> EFI_ERROR B status"
  shows "uefi_alloc_pages B n s =
     Inr (a, s\<lparr>fw := w, mem := memset (mem s) a 0 (unat (push_bit 12 n))\<rparr>)"
  using assms by (simp add: uefi_alloc_pages_def andthen_def fwcall_def EFIERR_def)

text \<open>Every code of the table is reported under its own name.\<close>

lemma strerror_walk_map_of:
  assumes "status \<noteq> EFI_SUCCESS" and "fst (last tab) = EFI_SUCCESS" and "tab \<noteq> []"
    and "EFI_SUCCESS \<notin> fst ` set (butlast tab)"
  shows "strerror_walk tab status =
     (case map_of (butlast tab) status of None \<Rightarrow> ''Unknown EFI error'' | Some t \<Rightarrow> t)"
  using assms
proof (induction tab)
  case (Cons p tab)
  then show ?case by (cases p; cases "tab = []") auto
qed simp

lemma uefi_alloc_page_returns:
  assumes "pages_left B (Suc k) (fw s)"
  shows "\<exists>a t. uefi_alloc_pages B 1 s = Inr (a, t) \<and> pages_left B k (fw t)"
proof -
  from assms obtain status a w where ap: "AllocatePages B (fw s) 1 = ((status, a), w)"
    and "\<not> EFI_ERROR B status" and "pages_left B k w" by (rule pages_left_SucE)
  with uefi_alloc_pages_total [OF ap] show ?thesis by simp
qed

section \<open>Properties\<close>

text \<open>How far the polling of \<^verbatim>\<open>uefi_key_wait\<close> has got after \<open>n\<close> calls without a key.\<close>

primrec polled :: "'w env \<Rightarrow> nat \<Rightarrow> 'w \<Rightarrow> 'w" where
  "polled B 0 w = w"
| "polled B (Suc n) w = polled B n (snd (ReadKeyStroke B w))"

definition key_ready :: "'w env \<Rightarrow> 'w \<Rightarrow> bool" where
  "key_ready B w \<longleftrightarrow> fst (fst (ReadKeyStroke B w)) = EFI_SUCCESS"

lemma uefi_key_wait_step:
  "uefi_key_wait B w =
     (if key_ready B w then Some (snd (ReadKeyStroke B w)) else uefi_key_wait B (snd (ReadKeyStroke B w)))"
  by (subst uefi_key_wait.simps) (auto simp: key_ready_def split: prod.splits)

lemma uefi_key_wait_found:
  "key_ready B (polled B n w) \<Longrightarrow> \<exists>w'. uefi_key_wait B w = Some w'"
proof (induction n arbitrary: w)
  case 0
  then show ?case by (simp add: uefi_key_wait_step [of B w])
next
  case (Suc n)
  then show ?case by (subst uefi_key_wait_step) auto
qed

lemma uefi_key_wait_result:
  "uefi_key_wait B w = Some w' \<Longrightarrow>
     \<exists>n. key_ready B (polled B n w) \<and> (\<forall>k<n. \<not> key_ready B (polled B k w)) \<and> w' = polled B (Suc n) w"
proof (induction rule: uefi_key_wait.raw_induct [rotated, consumes 1, case_names step])
  case (step wait B w w')
  show ?case
  proof (cases "key_ready B w")
    case True
    then show ?thesis using step(2) by (intro exI [of _ 0]) (auto simp: key_ready_def split: prod.splits)
  next
    case False
    then have "wait B (snd (ReadKeyStroke B w)) = Some w'"
      using step(2) by (auto simp: key_ready_def split: prod.splits if_splits)
    from step(1) [OF this] obtain n where "key_ready B (polled B (Suc n) w)" and "w' = polled B (Suc (Suc n)) w"
      and "\<forall>k<n. \<not> key_ready B (polled B (Suc k) w)" by auto
    with False show ?thesis by (intro exI [of _ "Suc n"]) (auto simp: less_Suc_eq_0_disj)
  qed
qed

text \<open>
  C20: \<^verbatim>\<open>uefi_key_wait\<close> returns exactly when some poll of the keyboard succeeds, and it
  stops at the first one that does.
\<close>

theorem uefi_key_wait_returns:
  "(uefi_key_wait B w = Some w') \<longleftrightarrow>
     (\<exists>n. key_ready B (polled B n w) \<and> (\<forall>k<n. \<not> key_ready B (polled B k w)) \<and> w' = polled B (Suc n) w)"
proof
  assume "uefi_key_wait B w = Some w'"
  then show "\<exists>n. key_ready B (polled B n w) \<and> (\<forall>k<n. \<not> key_ready B (polled B k w)) \<and> w' = polled B (Suc n) w"
    by (rule uefi_key_wait_result)
next
  assume "\<exists>n. key_ready B (polled B n w) \<and> (\<forall>k<n. \<not> key_ready B (polled B k w)) \<and> w' = polled B (Suc n) w"
  then obtain n where n: "key_ready B (polled B n w)" "\<forall>k<n. \<not> key_ready B (polled B k w)"
    and w': "w' = polled B (Suc n) w" by (elim exE conjE)
  obtain w2 where w2: "uefi_key_wait B w = Some w2" using uefi_key_wait_found [OF n(1)] by blast
  obtain j where j: "key_ready B (polled B j w)" "\<forall>k<j. \<not> key_ready B (polled B k w)"
    and "w2 = polled B (Suc j) w" using uefi_key_wait_result [OF w2] by (elim exE conjE)
  moreover have "j = n" using n j by (meson linorder_neqE_nat)
  ultimately show "uefi_key_wait B w = Some w'" using w2 w' by simp
qed

theorem uefi_key_wait_returns_witness: "uefi_key_wait sample_env sample_start = Some sample_start"
  unfolding uefi_key_wait_returns by (intro exI [of _ 0]) (simp add: key_ready_def sample_env_def)

text \<open>
  Every status of the error table is reported under the name the table gives
  it, which is the specification's name without its prefix, and every other
  status as unknown.
\<close>

theorem uefi_strerror_names:
  "uefi_strerror status =
     (if status = EFI_SUCCESS then ''Unknown EFI error''
      else case map_of (butlast uefi_errors) status of
             None \<Rightarrow> ''Unknown EFI error''
           | Some name \<Rightarrow> name) \<and>
   distinct (map fst uefi_errors) \<and> distinct (map snd uefi_errors)"
proof (intro conjI)
  have tab: "fst (last uefi_errors) = EFI_SUCCESS" "uefi_errors \<noteq> []"
    "EFI_SUCCESS \<notin> fst ` set (butlast uefi_errors)" by code_simp+
  show "uefi_strerror status =
     (if status = EFI_SUCCESS then ''Unknown EFI error''
      else case map_of (butlast uefi_errors) status of
             None \<Rightarrow> ''Unknown EFI error''
           | Some name \<Rightarrow> name)"
  proof (cases "status = EFI_SUCCESS")
    case True
    have "uefi_strerror EFI_SUCCESS = ''Unknown EFI error''" by code_simp
    with True show ?thesis by simp
  next
    case False
    then show ?thesis
      using strerror_walk_map_of [OF False tab] by (simp add: uefi_strerror_def)
  qed
  show "distinct (map fst uefi_errors)" "distinct (map snd uefi_errors)" by code_simp+
qed

lemma strerror_walk_length:
  "\<forall>p\<in>set tab. length (snd p) \<le> 20 \<Longrightarrow> length (strerror_walk tab status) \<le> 20"
  by (induction tab status rule: strerror_walk.induct) simp_all

lemma uefi_strerror_length: "length (uefi_strerror status) \<le> 20"
proof -
  have "\<forall>p\<in>set uefi_errors. length (snd p) \<le> 20" by code_simp
  then show ?thesis unfolding uefi_strerror_def by (rule strerror_walk_length)
qed

text \<open>
  The report of \<^verbatim>\<open>EFIERR\<close> is what \<^verbatim>\<open>efi_printf\<close> does with the macro's format and
  arguments: with the error name and the file name in memory, the console gets
  the pieces of the report in order and the printer gives their total length.
\<close>

theorem error_report_printf:
  assumes "cstring_at (mem s) p (map of_char (uefi_strerror status))"
    and "cstring_at (mem s) q (map of_char file)" and "length file < 2 ^ 30" and "line < 2 ^ 31"
  shows "efi_printf B (''EFIERR %s @ %s:%d'' @ [CHR 0x0A]) [p, q, of_nat line] s =
     Inr (int (length (concat (error_report file line status))),
          s\<lparr>fw := say (callback B) (error_report file line status) (fw s)\<rparr>)"
proof -
  let ?m = "mem s" and ?cb = "callback B"
  let ?name = "uefi_strerror status" and ?ds = "int_digits (CHR ''d'') (of_nat line)"
  have str: "convert ?m ?cb no_flags 0 (- 1) LENGTH_DEFAULT (CHR ''s'') (w, p # args) =
      Inr (of_nat (length ?name), (say ?cb [?name] w, args))"
    "convert ?m ?cb no_flags 0 (- 1) LENGTH_DEFAULT (CHR ''s'') (w, q # args) =
      Inr (of_nat (length file), (say ?cb [file] w, args))" for w args
    using assms(3) uefi_strerror_length [of status]
    by (auto intro!: console.convert_string assms(1,2))
  let ?s1 = "say ?cb [''EFIERR '', ?name] (fw s)"
  let ?s2 = "say ?cb ['' @ '', file] ?s1"
  let ?s3 = "say ?cb ['':'', '''', ?ds] ?s2"
  have "vcbprintf_loop ?m ?cb (''EFIERR '' @ CHR ''%'' # CHR ''s'' # '' @ '' @ CHR ''%'' # CHR ''s'' #
      '':'' @ CHR ''%'' # CHR ''d'' # [CHR 0x0A]) 0 False (fw s, [p, q, of_nat line]) =
    vcbprintf_loop ?m ?cb ('' @ '' @ CHR ''%'' # CHR ''s'' # '':'' @ CHR ''%'' # CHR ''d'' # [CHR 0x0A])
      (7 + of_nat (length ?name)) False (?s1, [q, of_nat line])"
    by (subst console.loop_run_conversion [OF _ _ plain_s known_plain(1) _ str(1)]) (simp_all add: say_Cons)
  also have "\<dots> = vcbprintf_loop ?m ?cb ('':'' @ CHR ''%'' # CHR ''d'' # [CHR 0x0A])
      (7 + of_nat (length ?name) + 3 + of_nat (length file)) False (?s2, [of_nat line])"
    by (subst console.loop_run_conversion [OF _ _ plain_s known_plain(1) _ str(2)]) (simp_all add: say_Cons)
  also have "\<dots> = vcbprintf_loop ?m ?cb [CHR 0x0A]
      (7 + of_nat (length ?name) + 3 + of_nat (length file) + 1 + of_nat (length ?ds)) False (?s3, [])"
    by (subst console.loop_run_conversion [OF _ _ plain_d known_plain(2) _ console.convert_int_plain [OF assms(4)]]) (simp_all add: say_Cons)
  also have "\<dots> = Inr (of_nat (length (concat (error_report file line status))),
      (say ?cb (error_report file line status) (fw s), []))"
    by (subst console.loop_literal) (simp_all add: error_report_def say_Cons algebra_simps)
  finally have run: "vcbprintf_loop ?m ?cb (''EFIERR %s @ %s:%d'' @ [CHR 0x0A]) 0 False
      (fw s, [p, q, of_nat line]) = Inr (of_nat (length (concat (error_report file line status))),
      (say ?cb (error_report file line status) (fw s), []))" by simp
  have small: "length (concat (error_report file line status)) < 2 ^ 31"
    using assms(3) uefi_strerror_length [of status] int_digits_max [of "CHR ''d''" "of_nat line"]
    by (simp add: error_report_def)
  then have "unat (of_nat (length (concat (error_report file line status))) :: u64) =
      length (concat (error_report file line status))" by (simp add: unat_of_nat64)
  with small run show ?thesis by (simp add: efi_printf_def vcbprintf_def Let_def)
qed

text \<open>Two strings in an otherwise zero memory.\<close>

definition report_mem :: mem where
  "report_mem = (\<lambda>_. 0)(0x1000 := 84, 0x1001 := 73, 0x1002 := 77, 0x1003 := 69, 0x1004 := 79, 0x1005 := 85,
     0x1006 := 84, 0x2000 := 97, 0x2001 := 46, 0x2002 := 99)"

definition report_machine :: "sample_state machine" where
  "report_machine = sample_machine\<lparr>mem := report_mem\<rparr>"

theorem error_report_printf_witness:
  "cstring_at (mem report_machine) 0x1000 (map of_char (uefi_strerror EFI_TIMEOUT)) \<and>
   cstring_at (mem report_machine) 0x2000 (map of_char ''a.c'') \<and>
   efi_printf sample_env (''EFIERR %s @ %s:%d'' @ [CHR 0x0A]) [0x1000, 0x2000, of_nat 12] report_machine =
     Inr (int (length (concat (error_report ''a.c'' 12 EFI_TIMEOUT))),
          report_machine\<lparr>fw := say (callback sample_env) (error_report ''a.c'' 12 EFI_TIMEOUT) sample_start\<rparr>)"
proof -
  have name: "uefi_strerror EFI_TIMEOUT = ''TIMEOUT''" by code_simp
  have 1: "cstring_at (mem report_machine) 0x1000 (map of_char (uefi_strerror EFI_TIMEOUT))"
    by (simp add: name report_machine_def report_mem_def)
  have 2: "cstring_at (mem report_machine) 0x2000 (map of_char ''a.c'')"
    by (simp add: report_machine_def report_mem_def)
  have "fw report_machine = sample_start" by (simp add: report_machine_def sample_machine_def)
  then show ?thesis
    using 1 2 error_report_printf [OF 1 2, of 12 sample_env] by simp
qed

end
