(* ===== verification/Paging.thy ===== *)
theory Paging
  imports Efi
begin

text \<open>
  The page tables the loader builds for the kernel (\<^verbatim>\<open>loader/paging.c\<close>): the
  code over the byte memory, the processor's four-level walk as its
  specification, and the proof that a mapping is what the walk finds.
\<close>

section \<open>The code\<close>

definition PAGE_PRESENT :: u64 where "PAGE_PRESENT = 0x01"
definition PAGE_WRITE :: u64 where "PAGE_WRITE = 0x02"
definition PAGE_NX :: u64 where "PAGE_NX = 0x8000000000000000"

record vm_indices =
  pml4i :: u64
  pml3i :: u64
  pml2i :: u64
  pml1i :: u64

definition mm_virtual_indices :: "addr \<Rightarrow> vm_indices" where
  "mm_virtual_indices addr0 =
     (let high = 0xFFFF800000000000 \<le> addr0;
          addr = (if high then addr0 - 0xFFFF800000000000 else addr0)
      in \<lparr>pml4i = (if high then 256 + (drop_bit 39 addr AND 0x1FF) else drop_bit 39 addr AND 0x1FF),
          pml3i = drop_bit 30 addr AND 0x1FF,
          pml2i = drop_bit 21 addr AND 0x1FF,
          pml1i = drop_bit 12 addr AND 0x1FF\<rparr>)"

definition loader_paging_setup :: "'w env \<Rightarrow> ('w, 'z, addr) run" where
  "loader_paging_setup B =
     andthen (uefi_alloc_pages B 1) (\<lambda>pml4.
     andthen (modify (\<lambda>s. s\<lparr>mem := wr64 (mem s) (pml4 + 8 * 510) (pml4 OR PAGE_WRITE OR PAGE_PRESENT)\<rparr>)) (\<lambda>_.
     ret pml4))"

text \<open>
  One level of \<^verbatim>\<open>loader_paging_map\<close>: the next table behind an entry, allocated
  and linked when the entry is not present. The code writes this out three
  times, for \<^verbatim>\<open>pml4\<close>, \<^verbatim>\<open>pml3\<close> and \<^verbatim>\<open>pml2\<close>.
\<close>

definition paging_next :: "'w env \<Rightarrow> addr \<Rightarrow> ('w, 'z, addr) run" where
  "paging_next B entry =
     andthen (gets (\<lambda>s. rd64 (mem s) entry)) (\<lambda>e.
     if e AND PAGE_PRESENT = 0 then
       andthen (uefi_alloc_pages B 1) (\<lambda>table.
       andthen (modify (\<lambda>s. s\<lparr>mem := wr64 (mem s) entry (table OR PAGE_PRESENT OR PAGE_WRITE)\<rparr>)) (\<lambda>_.
       ret table))
     else ret (e AND 0x000FFFFFFFFFF000))"

definition loader_paging_map ::
    "'w env \<Rightarrow> addr \<Rightarrow> addr \<Rightarrow> addr \<Rightarrow> u64 \<Rightarrow> ('w, 'z, unit) run" where
  "loader_paging_map B pml4 physical virt flags =
     (let i = mm_virtual_indices virt in
      andthen (paging_next B (pml4 + 8 * pml4i i)) (\<lambda>pml3.
      andthen (paging_next B (pml3 + 8 * pml3i i)) (\<lambda>pml2.
      andthen (paging_next B (pml2 + 8 * pml2i i)) (\<lambda>pml1.
      modify (\<lambda>s. s\<lparr>mem := wr64 (mem s) (pml1 + 8 * pml1i i) (physical OR flags)\<rparr>)))))"

definition loader_paging_map_addr :: "'w env \<Rightarrow> addr \<Rightarrow> addr \<Rightarrow> u64 \<Rightarrow> u64 \<Rightarrow> ('w, 'z, unit) run" where
  "loader_paging_map_addr B pml4 start len flags =
     (let start_page = drop_bit 12 start;
          end_page = drop_bit 12 (start + len);
          pages = 1 + (end_page - start_page);
          page_addr = start AND 0x000FFFFFFFFFF000
      in for_from 0 (unat pages) (\<lambda>i.
           loader_paging_map B pml4 (page_addr + push_bit 12 (of_nat i))
                                    (page_addr + push_bit 12 (of_nat i)) flags))"

text \<open>
  \<^verbatim>\<open>~(1UL << 16)\<close> is computed in 32 bits (\<^verbatim>\<open>long\<close> has 32 bits on the target)
  and then widened with zeroes.
\<close>

definition loader_paging_wp_disable :: "('w, 'z, unit) run" where
  "loader_paging_wp_disable =
     modify (\<lambda>s. s\<lparr>cr0 := cr0 s AND ucast (NOT (push_bit 16 (1 :: u32)))\<rparr>)"

section \<open>The processor's view\<close>

text \<open>
  The walk of the architecture: nine index bits per level, an entry is used
  when its present bit is set and leads to the frame in bits 12 to 51.
\<close>

definition table_index :: "nat \<Rightarrow> addr \<Rightarrow> nat" where
  "table_index k v = unat v div 2 ^ k mod 512"

definition indices :: "addr \<Rightarrow> nat list" where
  "indices v = [table_index 39 v, table_index 30 v, table_index 21 v, table_index 12 v]"

abbreviation frame_mask :: u64 where
  "frame_mask \<equiv> 0x000FFFFFFFFFF000"

definition slot :: "addr \<Rightarrow> nat \<Rightarrow> addr" where
  "slot t i = t + 8 * of_nat i"

fun table_at :: "mem \<Rightarrow> addr \<Rightarrow> nat list \<Rightarrow> addr option" where
  "table_at m t [] = Some t"
| "table_at m t (i # p) =
     (let e = rd64 m (slot t i)
      in if e AND PAGE_PRESENT = 0 then None else table_at m (e AND frame_mask) p)"

definition entry_of :: "mem \<Rightarrow> addr \<Rightarrow> nat list \<Rightarrow> u64 option" where
  "entry_of m root p =
     (case table_at m root (butlast p) of
        None \<Rightarrow> None
      | Some t \<Rightarrow> (let e = rd64 m (slot t (last p)) in if e AND PAGE_PRESENT = 0 then None else Some e))"

text \<open>The last-level entry of a virtual address, and the physical address behind it.\<close>

definition page_entry :: "mem \<Rightarrow> addr \<Rightarrow> addr \<Rightarrow> u64 option" where
  "page_entry m root v = entry_of m root (indices v)"

definition translate :: "mem \<Rightarrow> addr \<Rightarrow> addr \<Rightarrow> addr option" where
  "translate m root v = map_option (\<lambda>e. (e AND frame_mask) + (v AND 0xFFF)) (page_entry m root v)"

text \<open>
  The tree of tables: every table the walk reaches is a page of the memory
  the loader owns and no table is reached along two paths. The slot 510 of the
  root, which points back to the root, is not part of the tree.
\<close>

definition tree_path :: "nat list \<Rightarrow> bool" where
  "tree_path p \<longleftrightarrow> length p \<le> 3 \<and> (\<forall>i \<in> set p. i < 512) \<and> (p \<noteq> [] \<longrightarrow> hd p \<noteq> 510)"

definition table_page :: "addr set \<Rightarrow> addr \<Rightarrow> bool" where
  "table_page U a \<longleftrightarrow> aligned 12 a \<and> unat a < 2 ^ 52 \<and> region a 4096 \<subseteq> U"

definition tables_ok :: "addr set \<Rightarrow> addr \<Rightarrow> mem \<Rightarrow> bool" where
  "tables_ok U root m \<longleftrightarrow>
     (\<forall>p a. tree_path p \<longrightarrow> table_at m root p = Some a \<longrightarrow> table_page U a) \<and>
     (\<forall>p q a. tree_path p \<longrightarrow> tree_path q \<longrightarrow>
        table_at m root p = Some a \<longrightarrow> table_at m root q = Some a \<longrightarrow> p = q)"

text \<open>The bytes the tables occupy.\<close>

definition table_bytes :: "addr \<Rightarrow> mem \<Rightarrow> addr set" where
  "table_bytes root m = {x. \<exists>p a. tree_path p \<and> table_at m root p = Some a \<and> x \<in> region a 4096}"

section \<open>Indices\<close>

lemma unat_index: "unat (drop_bit k (v :: u64) AND 0x1FF) = unat v div 2 ^ k mod 512"
proof -
  have "(0x1FF :: u64) = mask 9" by (simp add: mask_eq_exp_minus_1)
  then have "drop_bit k v AND 0x1FF = take_bit 9 (drop_bit k v)" by (simp only: take_bit_eq_mask)
  then have "unat (drop_bit k v AND 0x1FF) = take_bit 9 (drop_bit k (unat v))"
    by (simp only: unsigned_take_bit_eq unat_drop_bit_eq)
  then show ?thesis by (simp add: take_bit_eq_mod drop_bit_eq_div)
qed

lemma index_less: "table_index k v < 512"
  by (simp add: table_index_def)

text \<open>
  The code shifts a high-half address down before it takes the indices; the
  indices are still those the processor uses.
\<close>

lemma high_half_index:
  fixes v :: u64
  assumes "0xFFFF800000000000 \<le> v"
  shows "unat (v - 0xFFFF800000000000) < 2 ^ 47"
    and "unat v = 0xFFFF800000000000 + unat (v - 0xFFFF800000000000)"
proof -
  have "0xFFFF800000000000 \<le> unat v" using assms by (simp add: word_le_nat_alt)
  moreover have "unat v < 2 ^ 64" by (rule unat_lt64)
  moreover have "unat (v - 0xFFFF800000000000) = unat v - 0xFFFF800000000000"
    using assms by (simp add: unat_sub)
  ultimately show "unat (v - 0xFFFF800000000000) < 2 ^ 47"
    and "unat v = 0xFFFF800000000000 + unat (v - 0xFFFF800000000000)" by simp_all
qed

lemma mm_virtual_indices_hw:
  "mm_virtual_indices v =
     \<lparr>pml4i = of_nat (table_index 39 v), pml3i = of_nat (table_index 30 v),
      pml2i = of_nat (table_index 21 v), pml1i = of_nat (table_index 12 v)\<rparr>"
proof (cases "0xFFFF800000000000 \<le> v")
  case False
  have "drop_bit k v AND 0x1FF = of_nat (table_index k v)" for k
    by (simp add: table_index_def flip: unat_index)
  with False show ?thesis by (simp add: mm_virtual_indices_def Let_def)
next
  case True
  define a where "a = v - 0xFFFF800000000000"
  have a: "unat a < 2 ^ 47" and v: "unat v = 0xFFFF800000000000 + unat a"
    using high_half_index [OF True] by (simp_all add: a_def)
  have conv: "drop_bit k a AND 0x1FF = of_nat (unat a div 2 ^ k mod 512)" for k
    by (simp flip: unat_index)
  have top: "table_index 39 v = 256 + unat a div 2 ^ 39 mod 512"
  proof -
    have "unat v div 2 ^ 39 = 0x1FFFF00 + unat a div 2 ^ 39" by (simp add: v)
    moreover have "unat a div 2 ^ 39 < 256" using a by (simp add: less_mult_imp_div_less)
    moreover have "(0x1FFFF00 + y) mod 512 = 256 + y mod 512" if "y < 256" for y :: nat
      using that mod_mult_self1 [where a = "256 + y" and b = 512 and c = 65535] by simp
    ultimately show ?thesis by (simp add: table_index_def)
  qed
  have low: "table_index k v = unat a div 2 ^ k mod 512"
    if "0xFFFF800000000000 = 2 ^ k * (512 * c)" for k and c :: nat
  proof -
    have "unat v div 2 ^ k = 512 * c + unat a div 2 ^ k" by (simp only: v that) simp
    then show ?thesis by (simp add: table_index_def)
  qed
  have rest: "table_index 30 v = unat a div 2 ^ 30 mod 512"
    "table_index 21 v = unat a div 2 ^ 21 mod 512" "table_index 12 v = unat a div 2 ^ 12 mod 512"
    by (rule low [of 30 33554176], simp, rule low [of 21 17179738112], simp,
        rule low [of 12 8796025913344], simp)
  show ?thesis
    using True by (simp add: mm_virtual_indices_def Let_def conv top rest flip: a_def)
qed

text \<open>Two addresses have the same indices exactly when they lie in the same page.\<close>

lemma digits512: "(x :: nat) mod 2 ^ 36 =
   512 * (512 * (512 * (x div 512 div 512 div 512 mod 512) + x div 512 div 512 mod 512) +
     x div 512 mod 512) + x mod 512"
proof -
  have "x mod (512 * (512 * (512 * 512))) =
     512 * (512 * (512 * (x div 512 div 512 div 512 mod 512) + x div 512 div 512 mod 512) +
       x div 512 mod 512) + x mod 512"
    by (simp only: mod_mult2_eq)
  then show ?thesis by simp
qed

lemma digit_eq:
  fixes a b q r :: nat
  assumes "a < 512" and "b < 512"
  shows "512 * q + a = 512 * r + b \<longleftrightarrow> q = r \<and> a = b"
proof
  assume e: "512 * q + a = 512 * r + b"
  have "(512 * q + a) div 512 = q" "(512 * r + b) div 512 = r"
    "(512 * q + a) mod 512 = a" "(512 * r + b) mod 512 = b" using assms by simp_all
  with e show "q = r \<and> a = b" by simp
qed simp

lemma indices_eq_iff:
  "indices u = indices v \<longleftrightarrow> unat u div 4096 mod 2 ^ 36 = unat v div 4096 mod 2 ^ 36"
  by (simp only: digits512 digit_eq mod_less_divisor zero_less_numeral)
     (auto simp: indices_def table_index_def simp flip: div_mult2_eq)

section \<open>Walking and writing tables\<close>

lemma table_at_Nil [simp]: "table_at m t [] = Some t"
  by simp

lemma table_at_snoc:
  "table_at m t (p @ [i]) =
     (case table_at m t p of None \<Rightarrow> None
      | Some a \<Rightarrow> (let e = rd64 m (slot a i)
                   in if e AND PAGE_PRESENT = 0 then None else Some (e AND frame_mask)))"
  by (induction p arbitrary: t) (auto simp: Let_def)

declare table_at.simps(2) [simp del]

lemma aligned_add:
  assumes "aligned k a" and "unat a + n < 2 ^ 64" and "2 ^ k dvd n"
  shows "aligned k (a + of_nat n)"
  using assms by (simp add: aligned_def unat_add_of_nat mod_eq_0_iff_dvd)

lemma aligned_le: "aligned k a \<Longrightarrow> j \<le> k \<Longrightarrow> aligned j a"
  by (auto simp: aligned_def mod_eq_0_iff_dvd intro: dvd_trans le_imp_power_dvd)

lemma slot_conv: "slot t i = t + of_nat (8 * i)"
  by (simp add: slot_def)

lemma slot_aligned: "aligned 12 t \<Longrightarrow> i < 512 \<Longrightarrow> aligned 3 (slot t i)"
  unfolding slot_conv
  by (rule aligned_add) (auto intro: aligned_le aligned_no_wrap [where k = 12, simplified])

lemma slot_region: "i < 512 \<Longrightarrow> region (slot t i) 8 \<subseteq> region t 4096"
  unfolding slot_conv by (rule subregion) simp

lemma page_disj: "aligned 12 a \<Longrightarrow> aligned 12 b \<Longrightarrow> a \<noteq> b \<Longrightarrow> region a 4096 \<inter> region b 4096 = {}"
  using aligned_disj [of 12 a b] by simp

lemma slot_inj:
  assumes "aligned 12 a" and "aligned 12 b" and "i < 512" and "j < 512"
  shows "slot a i = slot b j \<longleftrightarrow> a = b \<and> i = j"
proof
  assume e: "slot a i = slot b j"
  have "slot a i \<in> region a 4096" and "slot b j \<in> region b 4096"
    using assms(3,4) slot_region by fastforce+
  with e page_disj [OF assms(1,2)] have ab: "a = b" by auto
  with e have "(of_nat (8 * i) :: u64) = of_nat (8 * j)" by (simp add: slot_conv)
  moreover have "8 * i < 2 ^ 64" and "8 * j < 2 ^ 64" using assms(3,4) by simp_all
  ultimately show "a = b \<and> i = j" using ab by (simp only: of_nat64_inj) simp
qed simp

lemma present_mask: "PAGE_PRESENT = mask 1"
  by (simp add: PAGE_PRESENT_def)

lemma frame_mask_bits: "bit (frame_mask :: u64) n \<longleftrightarrow> 12 \<le> n \<and> n < 52"
proof -
  have "(frame_mask :: u64) = push_bit 12 (mask 40)" by (simp add: mask_eq_exp_minus_1 push_bit_eq_mult)
  then show ?thesis by (simp only: bit_push_bit_iff bit_mask_iff) auto
qed

lemma aligned_bits: "aligned k a \<Longrightarrow> n < k \<Longrightarrow> \<not> bit a n"
proof -
  assume "aligned k a" and n: "n < k"
  then have "take_bit k (unat a) = 0" by (simp add: aligned_def take_bit_eq_mod)
  then have "\<not> bit (take_bit k (unat a)) n" by simp
  then show "\<not> bit a n" using n by (simp add: bit_take_bit_iff bit_unsigned_iff)
qed

text \<open>The entry that links a table leads back to that table.\<close>

lemma link_entry:
  assumes "aligned 12 a" and "unat a < 2 ^ 52"
  shows "(a OR PAGE_PRESENT OR PAGE_WRITE) AND PAGE_PRESENT \<noteq> 0"
    and "(a OR PAGE_PRESENT OR PAGE_WRITE) AND frame_mask = a"
proof -
  have p: "bit PAGE_PRESENT n \<longleftrightarrow> n = 0" and w: "bit PAGE_WRITE n \<longleftrightarrow> n = 1" for n
    using bit_exp_iff [where ?'a = u64, of 0 n] bit_exp_iff [where ?'a = u64, of 1 n]
    by (auto simp: PAGE_PRESENT_def PAGE_WRITE_def)
  have "bit ((a OR PAGE_PRESENT OR PAGE_WRITE) AND PAGE_PRESENT) 0"
    by (simp add: bit_and_iff bit_or_iff p)
  then show "(a OR PAGE_PRESENT OR PAGE_WRITE) AND PAGE_PRESENT \<noteq> 0" by force
  have a: "bit a n \<Longrightarrow> 12 \<le> n \<and> n < 52" for n
    using aligned_bits [OF assms(1), of n] small_bits [OF assms(2), of n] by (meson not_le)
  have "bit ((a OR PAGE_PRESENT OR PAGE_WRITE) AND frame_mask) n = bit a n" for n
    by (simp only: bit_and_iff bit_or_iff frame_mask_bits p w) (use a in auto)
  then show "(a OR PAGE_PRESENT OR PAGE_WRITE) AND frame_mask = a" by (intro bit_word_eqI)
qed

text \<open>Reading entries through a zeroed page and a linking write.\<close>

definition link_table :: "mem \<Rightarrow> addr \<Rightarrow> nat \<Rightarrow> addr \<Rightarrow> mem" where
  "link_table m t i n =
     wr64 (store_bytes m n (replicate 4096 0)) (slot t i) (n OR PAGE_PRESENT OR PAGE_WRITE)"

lemma rd64_zero_page:
  assumes "j < 512"
  shows "rd64 (store_bytes m n (replicate 4096 0)) (slot n j) = 0"
proof -
  have "load_bytes (store_bytes m n (replicate 4096 0)) (slot n j) 8 = replicate 8 0"
  proof (rule nth_equalityI)
    fix i assume "i < length (load_bytes (store_bytes m n (replicate 4096 0)) (slot n j) 8)"
    then have i: "8 * j + i < 4096" "i < 8" using assms by simp_all
    have "slot n j + of_nat i = n + of_nat (8 * j + i)" by (simp add: slot_conv add.assoc)
    then have "store_bytes m n (replicate 4096 0) (slot n j + of_nat i) = replicate 4096 0 ! (8 * j + i)"
      using i(1) store_inside [of "8 * j + i" "replicate 4096 0" m n] by (simp add: add.assoc)
    then show "load_bytes (store_bytes m n (replicate 4096 0)) (slot n j) 8 ! i = replicate 8 0 ! i"
      using i by simp
  qed simp
  then show ?thesis by (simp add: rd64_def le_word_def numeral_eq_Suc)
qed

lemma link_table_new:
  assumes "aligned 12 n" and "aligned 12 t" and "n \<noteq> t" and "i < 512" and "j < 512"
  shows "rd64 (link_table m t i n) (slot n j) = 0"
  using assms
  by (simp add: link_table_def rd64_wr64_aligned slot_aligned slot_inj rd64_zero_page)

lemma link_table_old:
  assumes "aligned 12 n" and "aligned 12 t" and "aligned 12 a" and "n \<noteq> a"
    and "i < 512" and "j < 512"
  shows "rd64 (link_table m t i n) (slot a j) =
     (if a = t \<and> i = j then n OR PAGE_PRESENT OR PAGE_WRITE else rd64 m (slot a j))"
proof -
  have "region (slot a j) 8 \<inter> region n (length (replicate 4096 (0::u8))) = {}"
    using slot_region [OF assms(6)] page_disj [OF assms(3,1)] assms(4) by auto
  then have "rd64 (store_bytes m n (replicate 4096 0)) (slot a j) = rd64 m (slot a j)"
    by (rule c64.rd_store_disj)
  then show ?thesis using assms
    by (auto simp: link_table_def rd64_wr64_aligned slot_aligned slot_inj)
qed

section \<open>Growing the tree\<close>

lemma tree_path_Nil [simp]: "tree_path []"
  by (simp add: tree_path_def)

lemma tree_path_butlast: "tree_path (p @ [i]) \<Longrightarrow> tree_path p"
  by (cases p) (auto simp: tree_path_def)

lemma tree_path_last: "tree_path (p @ [i]) \<Longrightarrow> i < 512"
  by (simp add: tree_path_def)

lemma tables_ok_page: "tables_ok U root m \<Longrightarrow> tree_path p \<Longrightarrow> table_at m root p = Some a \<Longrightarrow> table_page U a"
  unfolding tables_ok_def by blast

lemma tables_ok_inj:
  "tables_ok U root m \<Longrightarrow> tree_path p \<Longrightarrow> tree_path q \<Longrightarrow>
     table_at m root p = Some a \<Longrightarrow> table_at m root q = Some a \<Longrightarrow> p = q"
  unfolding tables_ok_def by blast

lemma table_page_aligned: "table_page U a \<Longrightarrow> aligned 12 a"
  by (simp add: table_page_def)

lemma fresh_not_table:
  assumes "table_page U a" and "region n 4096 \<inter> U = {}"
  shows "n \<noteq> a"
proof
  assume "n = a"
  with assms(1) have "region n 4096 \<subseteq> U" by (simp add: table_page_def)
  moreover have "n \<in> region n 4096" by simp
  ultimately show False using assms(2) by (meson disjoint_iff subsetD)
qed

text \<open>Linking a fresh zeroed page adds exactly one table.\<close>

lemma link_table_at:
  assumes ok: "tables_ok U root m" and path: "tree_path (p @ [i])"
    and t: "table_at m root p = Some t" and absent: "rd64 m (slot t i) AND PAGE_PRESENT = 0"
    and n: "aligned 12 n" "unat n < 2 ^ 52" "region n 4096 \<inter> U = {}"
  shows "tree_path q \<Longrightarrow> table_at (link_table m t i n) root q =
     (if q = p @ [i] then Some n else table_at m root q)"
proof (induction q rule: rev_induct)
  case (snoc j q)
  note p = tree_path_butlast [OF path] and q = tree_path_butlast [OF snoc.prems]
    and i = tree_path_last [OF path] and j = tree_path_last [OF snoc.prems]
  have tp: "table_page U t" using ok p t by (rule tables_ok_page)
  note al = table_page_aligned [OF tp] and IH = snoc.IH [OF q]
  have nt: "n \<noteq> t" using tp n(3) by (rule fresh_not_table)
  show ?case
  proof (cases "q = p @ [i]")
    case True
    have "table_at m root (p @ [i]) = None" by (simp add: table_at_snoc t absent)
    then have "table_at m root (q @ [j]) = None" using True by (simp only: table_at_snoc) simp
    then show ?thesis using True IH link_table_new [OF n(1) al nt i j]
      by (simp only: table_at_snoc) simp
  next
    case False
    show ?thesis
    proof (cases "table_at m root q")
      case None
      with t have "q \<noteq> p" by auto
      then show ?thesis using None False IH by (simp add: table_at_snoc)
    next
      case (Some a)
      have ap: "table_page U a" using ok q Some by (rule tables_ok_page)
      have "a = t \<longleftrightarrow> q = p" using tables_ok_inj [OF ok q p] Some t by auto
      then have "rd64 (link_table m t i n) (slot a j) =
          (if q @ [j] = p @ [i] then n OR PAGE_PRESENT OR PAGE_WRITE else rd64 m (slot a j))"
        using link_table_old [OF n(1) al table_page_aligned [OF ap] fresh_not_table [OF ap n(3)] i j]
        by auto
      then show ?thesis using Some False IH link_entry [OF n(1,2)]
        by (simp add: table_at_snoc)
    qed
  qed
qed simp

lemma link_table_ok:
  assumes ok: "tables_ok U root m" and path: "tree_path (p @ [i])"
    and t: "table_at m root p = Some t" and absent: "rd64 m (slot t i) AND PAGE_PRESENT = 0"
    and n: "aligned 12 n" "unat n < 2 ^ 52" "region n 4096 \<inter> U = {}"
    and U': "U \<union> region n 4096 \<subseteq> U'"
  shows "tables_ok U' root (link_table m t i n)"
proof -
  note at = link_table_at [OF ok path t absent n]
  have page: "table_page U' a" if "tree_path q" "table_at (link_table m t i n) root q = Some a" for q a
    using that at [OF that(1)] n U' tables_ok_page [OF ok that(1)]
    by (auto simp: table_page_def split: if_splits)
  have fresh: "table_at m root q \<noteq> Some n" if "tree_path q" for q
    using tables_ok_page [OF ok that] fresh_not_table [OF _ n(3)] by blast
  have inj: "q = r" if "tree_path q" "tree_path r" "table_at (link_table m t i n) root q = Some a"
      "table_at (link_table m t i n) root r = Some a" for q r a
    using that at [OF that(1)] at [OF that(2)] fresh tables_ok_inj [OF ok that(1,2)]
    by (auto split: if_splits)
  show ?thesis unfolding tables_ok_def using page inj by blast
qed

text \<open>Writing an entry of a last-level table changes that entry and no table.\<close>

lemma leaf_write_at:
  assumes ok: "tables_ok U root m" and path: "tree_path p" "length p = 3"
    and t: "table_at m root p = Some t" and i: "i < 512"
  shows "tree_path q \<Longrightarrow> table_at (wr64 m (slot t i) v) root q = table_at m root q"
proof (induction q rule: rev_induct)
  case (snoc j q)
  have q: "tree_path q" using snoc.prems by (rule tree_path_butlast)
  have j: "j < 512" using snoc.prems by (rule tree_path_last)
  have len: "length q < 3" using snoc.prems by (simp add: tree_path_def)
  have "rd64 (wr64 m (slot t i) v) (slot a j) = rd64 m (slot a j)" if "table_at m root q = Some a" for a
  proof -
    have "a \<noteq> t" using tables_ok_inj [OF ok q path(1)] that t len path(2) by auto
    then show ?thesis
      using tables_ok_page [OF ok q that] tables_ok_page [OF ok path(1) t] i j
      by (simp add: rd64_wr64_aligned slot_aligned slot_inj table_page_def)
  qed
  then show ?case using snoc.IH [OF q] by (simp add: table_at_snoc split: option.splits)
qed simp

lemma leaf_write_ok:
  assumes "tables_ok U root m" and "tree_path p" and "length p = 3"
    and "table_at m root p = Some t" and "i < 512"
  shows "tables_ok U root (wr64 m (slot t i) v)"
  using assms(1) by (auto simp: tables_ok_def leaf_write_at [OF assms])

section \<open>What the walk finds after a write\<close>

lemma indices_snoc: "indices v = butlast (indices v) @ [table_index 12 v]"
  by (simp add: indices_def)

lemma indices_tree_path:
  assumes "table_index 39 v \<noteq> 510"
  shows "tree_path (butlast (indices v))" and "length (butlast (indices v)) = 3"
  using assms by (simp_all add: indices_def tree_path_def index_less)

lemma page_entry_unfold:
  "page_entry m root v =
     (case table_at m root (butlast (indices v)) of
        None \<Rightarrow> None
      | Some t \<Rightarrow> (let e = rd64 m (slot t (table_index 12 v))
                   in if e AND PAGE_PRESENT = 0 then None else Some e))"
proof -
  have l: "last (indices v) = table_index 12 v" by (simp add: indices_def)
  show ?thesis unfolding page_entry_def entry_of_def l by (rule refl)
qed

lemma link_table_entry:
  assumes ok: "tables_ok U root m" and path: "tree_path (p @ [i])"
    and t: "table_at m root p = Some t" and absent: "rd64 m (slot t i) AND PAGE_PRESENT = 0"
    and n: "aligned 12 n" "unat n < 2 ^ 52" "region n 4096 \<inter> U = {}"
    and v: "table_index 39 v \<noteq> 510"
  shows "page_entry (link_table m t i n) root v = page_entry m root v"
proof -
  let ?q = "butlast (indices v)" and ?j = "table_index 12 v"
  note q = indices_tree_path [OF v] and at = link_table_at [OF ok path t absent n]
    and p = tree_path_butlast [OF path] and i = tree_path_last [OF path]
  have tp: "table_page U t" using ok p t by (rule tables_ok_page)
  note al = table_page_aligned [OF tp] and nt = fresh_not_table [OF tp n(3)]
  show ?thesis
  proof (cases "?q = p @ [i]")
    case True
    then have "table_at m root ?q = None" by (simp add: table_at_snoc t absent)
    moreover have "table_at (link_table m t i n) root ?q = Some n" using at [OF q(1)] True by simp
    ultimately show ?thesis
      using link_table_new [OF n(1) al nt i index_less] by (simp add: page_entry_unfold)
  next
    case False
    then have same: "table_at (link_table m t i n) root ?q = table_at m root ?q" using at [OF q(1)] by simp
    have "rd64 (link_table m t i n) (slot a ?j) = rd64 m (slot a ?j)" if a: "table_at m root ?q = Some a" for a
    proof -
      have ap: "table_page U a" using ok q(1) a by (rule tables_ok_page)
      have "length p < 3" using path by (simp add: tree_path_def)
      then have "a \<noteq> t" using tables_ok_inj [OF ok q(1) p] a t q(2) by auto
      then show ?thesis
        using link_table_old [OF n(1) al table_page_aligned [OF ap] fresh_not_table [OF ap n(3)] i index_less]
        by simp
    qed
    then show ?thesis using same by (simp add: page_entry_unfold split: option.splits)
  qed
qed

lemma leaf_write_entry:
  assumes ok: "tables_ok U root m" and path: "tree_path p" "length p = 3"
    and t: "table_at m root p = Some t" and i: "i < 512" and v: "table_index 39 v \<noteq> 510"
  shows "page_entry (wr64 m (slot t i) e) root v =
     (if indices v = p @ [i] then if e AND PAGE_PRESENT = 0 then None else Some e
      else page_entry m root v)"
proof -
  let ?q = "butlast (indices v)" and ?j = "table_index 12 v"
  note q = indices_tree_path [OF v]
  have same: "table_at (wr64 m (slot t i) e) root ?q = table_at m root ?q"
    using leaf_write_at [OF ok path t i q(1)] .
  have tp: "table_page U t" using ok path(1) t by (rule tables_ok_page)
  have rd: "rd64 (wr64 m (slot t i) e) (slot a ?j) =
      (if indices v = p @ [i] then e else rd64 m (slot a ?j))" if a: "table_at m root ?q = Some a" for a
  proof -
    have ap: "table_page U a" using ok q(1) a by (rule tables_ok_page)
    have "a = t \<longleftrightarrow> ?q = p" using tables_ok_inj [OF ok q(1) path(1)] a t by auto
    moreover have "indices v = p @ [i] \<longleftrightarrow> ?q = p \<and> ?j = i" by (subst indices_snoc) auto
    ultimately show ?thesis using tp ap i index_less [of 12 v]
      by (auto simp: rd64_wr64_aligned slot_aligned slot_inj table_page_def)
  qed
  show ?thesis
  proof (cases "table_at m root ?q")
    case None
    then have "?q \<noteq> p" using t by auto
    then have "indices v \<noteq> p @ [i]" by (subst indices_snoc) auto
    then show ?thesis using same None by (simp add: page_entry_unfold)
  next
    case (Some a)
    then show ?thesis using same rd [OF Some] by (simp add: page_entry_unfold)
  qed
qed

section \<open>One level of the code\<close>

text \<open>
  From \<open>s\<close> to \<open>t\<close> the tree may have grown: owned memory only grows, every
  table stays where it was, the walk finds the same pages, and owned memory
  outside the tables is untouched.
\<close>

definition tree_grows :: "('w \<Rightarrow> addr set) \<Rightarrow> addr \<Rightarrow> ('w, 'z) machine_scheme \<Rightarrow> ('w, 'z) machine_scheme \<Rightarrow> bool" where
  "tree_grows own root s t \<longleftrightarrow>
     own (fw s) \<subseteq> own (fw t) \<and>
     (\<forall>p a. tree_path p \<longrightarrow> table_at (mem s) root p = Some a \<longrightarrow> table_at (mem t) root p = Some a) \<and>
     (\<forall>x \<in> own (fw s) - table_bytes root (mem s). mem t x = mem s x \<and> x \<notin> table_bytes root (mem t))"

lemma tree_grows_refl [simp]: "tree_grows own root s s"
  by (simp add: tree_grows_def)

lemma tree_grows_trans: "tree_grows own root s t \<Longrightarrow> tree_grows own root t u \<Longrightarrow> tree_grows own root s u"
  unfolding tree_grows_def by (intro conjI ballI allI impI) (blast, blast, fastforce+)

definition paging_inv :: "'w env \<Rightarrow> ('w \<Rightarrow> addr set) \<Rightarrow> addr \<Rightarrow> ('w, 'z) machine_scheme \<Rightarrow> bool" where
  "paging_inv B own root s \<longleftrightarrow> alloc_ok B own \<and> tables_ok (own (fw s)) root (mem s)"

lemma link_table_grows:
  assumes ok: "tables_ok (own (fw s)) root (mem s)" and path: "tree_path (p @ [i])"
    and t: "table_at (mem s) root p = Some t" and absent: "rd64 (mem s) (slot t i) AND PAGE_PRESENT = 0"
    and n: "aligned 12 n" "unat n < 2 ^ 52" "region n 4096 \<inter> own (fw s) = {}"
    and u: "mem u = link_table (mem s) t i n" "own (fw s) \<subseteq> own (fw u)"
  shows "tree_grows own root s u"
proof -
  note at = link_table_at [OF ok path t absent n] and p = tree_path_butlast [OF path]
  have none: "table_at (mem s) root (p @ [i]) = None" by (simp add: table_at_snoc t absent)
  have keep: "table_at (mem u) root q = Some a" if "tree_path q" "table_at (mem s) root q = Some a" for q a
    using that at [OF that(1)] none u(1) by auto
  have frame: "mem u x = mem s x \<and> x \<notin> table_bytes root (mem u)"
    if x: "x \<in> own (fw s)" "x \<notin> table_bytes root (mem s)" for x
  proof
    have xn: "x \<notin> region n 4096" using x(1) n(3) by blast
    have "x \<notin> region t 4096" using x(2) p t by (auto simp: table_bytes_def)
    then have "x \<notin> region (slot t i) 8" using slot_region [OF tree_path_last [OF path]] by blast
    then show "mem u x = mem s x" using xn u(1) by (simp add: link_table_def c64.wr_outside store_outside)
    show "x \<notin> table_bytes root (mem u)"
      using x(2) xn at u(1) by (auto simp: table_bytes_def split: if_splits)
  qed
  show ?thesis unfolding tree_grows_def using keep frame u(2) by blast
qed

lemma paging_next_step:
  assumes inv: "paging_inv B own root s" and path: "tree_path (p @ [i])"
    and t: "table_at (mem s) root p = Some t"
    and run: "paging_next B (slot t i) s = Inr (a, u)"
  shows "paging_inv B own root u" and "tree_grows own root s u"
    and "table_at (mem u) root (p @ [i]) = Some a"
    and "table_index 39 v \<noteq> 510 \<Longrightarrow> page_entry (mem u) root v = page_entry (mem s) root v"
proof -
  have ao: "alloc_ok B own" and ok: "tables_ok (own (fw s)) root (mem s)"
    using inv by (simp_all add: paging_inv_def)
  have "paging_inv B own root u \<and> tree_grows own root s u \<and> table_at (mem u) root (p @ [i]) = Some a \<and>
      (table_index 39 v \<noteq> 510 \<longrightarrow> page_entry (mem u) root v = page_entry (mem s) root v)"
  proof (cases "rd64 (mem s) (slot t i) AND PAGE_PRESENT = 0")
    case False
    then have "u = s" and "a = rd64 (mem s) (slot t i) AND frame_mask"
      using run by (auto simp: paging_next_def)
    then show ?thesis using inv t False by (simp add: table_at_snoc)
  next
    case absent: True
    then obtain u' where al: "uefi_alloc_pages B 1 s = Inr (a, u')"
      and u: "u = u'\<lparr>mem := wr64 (mem u') (slot t i) (a OR PAGE_PRESENT OR PAGE_WRITE)\<rparr>"
      using run by (auto simp: paging_next_def elim!: andthen_InrE)
    from al obtain status w where ap: "AllocatePages B (fw s) 1 = ((status, a), w)"
      and st: "\<not> EFI_ERROR B status"
      and u': "u' = s\<lparr>fw := w, mem := memset (mem s) a 0 (unat (push_bit 12 (1 :: u64)))\<rparr>"
      by (rule uefi_alloc_pages_Inr)
    have a: "aligned 12 a" "unat a < 2 ^ 52" "region a 4096 \<inter> own (fw s) = {}"
      and own: "own (fw s) \<union> region a 4096 \<subseteq> own w"
      using ao ap st unfolding alloc_ok_def by fastforce+
    have m: "mem u = link_table (mem s) t i a" and f: "fw u = w"
      by (simp_all add: u u' link_table_def memset_store push_bit_eq_mult)
    show ?thesis
      using link_table_ok [OF ok path t absent a own] link_table_grows [where own = own and s = s and u = u, OF ok path t absent a m]
        link_table_at [OF ok path t absent a path] link_table_entry [OF ok path t absent a] own ao m f
      by (simp add: paging_inv_def)
  qed
  then show "paging_inv B own root u" and "tree_grows own root s u"
    and "table_at (mem u) root (p @ [i]) = Some a"
    and "table_index 39 v \<noteq> 510 \<Longrightarrow> page_entry (mem u) root v = page_entry (mem s) root v"
    by blast+
qed

section \<open>Mapping pages\<close>

text \<open>
  The interface the rest of the loader uses: a function that maps one page,
  seen through a lookup. \<open>R\<close> is what a mapping keeps of the rest of the
  state; the lemmas for whole ranges of pages are proved from these laws.
\<close>

locale page_mapper =
  fixes mapp :: "addr \<Rightarrow> addr \<Rightarrow> u64 \<Rightarrow> ('h, 's, unit) step"
    and look :: "'s \<Rightarrow> addr \<Rightarrow> u64 option"
    and inv :: "'s \<Rightarrow> bool"
    and R :: "'s \<Rightarrow> 's \<Rightarrow> bool"
    and mappable :: "addr \<Rightarrow> bool"
    and page :: "addr \<Rightarrow> 'p"
  assumes R_refl: "R s s"
    and R_trans: "R r s \<Longrightarrow> R s t \<Longrightarrow> R r t"
    and map_keeps: "inv s \<Longrightarrow> mappable v \<Longrightarrow> mapp p v f s = Inr (x, t) \<Longrightarrow> inv t \<and> R s t"
    and map_look: "inv s \<Longrightarrow> mappable v \<Longrightarrow> mapp p v f s = Inr (x, t) \<Longrightarrow>
        mappable u \<Longrightarrow> page u = page v \<Longrightarrow> (p OR f) AND PAGE_PRESENT \<noteq> 0 \<Longrightarrow> look t u = Some (p OR f)"
    and map_other: "inv s \<Longrightarrow> mappable v \<Longrightarrow> mapp p v f s = Inr (x, t) \<Longrightarrow>
        mappable u \<Longrightarrow> page u \<noteq> page v \<Longrightarrow> look t u = look s u"
begin

lemma map_range:
  assumes run: "for_from 0 n (\<lambda>i. mapp (P i) (V i) f) s = Inr (x, t)"
    and inv: "inv s" and ok: "\<And>i. i < n \<Longrightarrow> mappable (V i)"
    and present: "\<And>i. i < n \<Longrightarrow> (P i OR f) AND PAGE_PRESENT \<noteq> 0"
    and distinct: "inj_on (\<lambda>i. page (V i)) {..<n}"
  shows "inv t \<and> R s t \<and>
     (\<forall>i < n. \<forall>u. mappable u \<longrightarrow> page u = page (V i) \<longrightarrow> look t u = Some (P i OR f)) \<and>
     (\<forall>u. mappable u \<longrightarrow> page u \<notin> (\<lambda>i. page (V i)) ` {..<n} \<longrightarrow> look t u = look s u)"
proof -
  let ?I = "\<lambda>k c. inv c \<and> R s c \<and>
     (\<forall>i < k. \<forall>u. mappable u \<longrightarrow> page u = page (V i) \<longrightarrow> look c u = Some (P i OR f)) \<and>
     (\<forall>u. mappable u \<longrightarrow> page u \<notin> (\<lambda>i. page (V i)) ` {..<k} \<longrightarrow> look c u = look s u)"
  have step: "?I (Suc k) c'" if k: "k < n" and I: "?I k c" and r: "mapp (P k) (V k) f c = Inr (y, c')"
    for k c c' y
  proof -
    note c = conjunct1 [OF I] and v = ok [OF k]
    have here: "look c' u = Some (P k OR f)" if "mappable u" "page u = page (V k)" for u
      using map_look [OF c v r that present [OF k]] .
    have there: "look c' u = look c u" if "mappable u" "page u \<noteq> page (V k)" for u
      using map_other [OF c v r that] .
    have old: "page (V i) \<noteq> page (V k)" if "i < k" for i
      using inj_onD [OF distinct, of i k] that k by auto
    have "inv c' \<and> R s c'" using map_keeps [OF c v r] I R_trans by blast
    moreover have "look c' u = Some (P i OR f)" if "i < Suc k" "mappable u" "page u = page (V i)" for i u
    proof (cases "i = k")
      case False
      then have "i < k" using that(1) by simp
      then show ?thesis using there [OF that(2)] old that I by simp
    qed (use here that in simp)
    moreover have "look c' u = look s u"
      if "mappable u" "page u \<notin> (\<lambda>i. page (V i)) ` {..<Suc k}" for u
      using there that I by (simp add: lessThan_Suc)
    ultimately show ?thesis by blast
  qed
  have "?I (0 + n) t"
  proof (rule for_from_inv [where I = ?I, OF run])
    show "?I 0 s" using inv R_refl by simp
    show "?I (Suc k) c'" if "0 \<le> k" "k < 0 + n" "?I k c" "mapp (P k) (V k) f c = Inr (y, c')" for k c c' y
      using that(2) by (intro step [OF _ that(3,4)]) simp
  qed
  then show ?thesis unfolding add_0 .
qed

end

lemma loader_paging_map_run:
  assumes "loader_paging_map B root p v f s = Inr (x, u)"
  obtains t3 s3 t2 s2 t1 s1 where
    "paging_next B (slot root (table_index 39 v)) s = Inr (t3, s3)"
    "paging_next B (slot t3 (table_index 30 v)) s3 = Inr (t2, s2)"
    "paging_next B (slot t2 (table_index 21 v)) s2 = Inr (t1, s1)"
    "u = s1\<lparr>mem := wr64 (mem s1) (slot t1 (table_index 12 v)) (p OR f)\<rparr>"
  using assms
  by (auto simp: loader_paging_map_def mm_virtual_indices_hw slot_def Let_def elim!: andthen_InrE)

text \<open>The full effect of mapping one page.\<close>

lemma loader_paging_map_effect:
  assumes inv: "paging_inv B own root s" and v: "table_index 39 v \<noteq> 510"
    and run: "loader_paging_map B root p v f s = Inr (x, u)"
  shows "paging_inv B own root u \<and> tree_grows own root s u \<and>
     (\<forall>w. table_index 39 w \<noteq> 510 \<longrightarrow> page_entry (mem u) root w =
        (if indices w = indices v then if (p OR f) AND PAGE_PRESENT = 0 then None else Some (p OR f)
         else page_entry (mem s) root w))"
proof -
  from run obtain t3 s3 t2 s2 t1 s1 where
    r3: "paging_next B (slot root (table_index 39 v)) s = Inr (t3, s3)" and
    r2: "paging_next B (slot t3 (table_index 30 v)) s3 = Inr (t2, s2)" and
    r1: "paging_next B (slot t2 (table_index 21 v)) s2 = Inr (t1, s1)" and
    u: "u = s1\<lparr>mem := wr64 (mem s1) (slot t1 (table_index 12 v)) (p OR f)\<rparr>"
    by (rule loader_paging_map_run)
  let ?p1 = "[table_index 39 v]" and ?p2 = "[table_index 39 v, table_index 30 v]"
    and ?p3 = "[table_index 39 v, table_index 30 v, table_index 21 v]"
  have tp: "tree_path ?p1" "tree_path ?p2" "tree_path ?p3"
    using v by (simp_all add: tree_path_def index_less)
  note n3 = paging_next_step [where p = "[]", OF inv _ _ r3, simplified, OF tp(1)]
  note n2 = paging_next_step [where p = ?p1, OF n3(1) _ n3(3) r2, simplified, OF tp(2)]
  note n1 = paging_next_step [where p = ?p2, OF n2(1) _ n2(3) r1, simplified, OF tp(3)]
  have ok: "tables_ok (own (fw s1)) root (mem s1)" and ao: "alloc_ok B own"
    using n1(1) by (simp_all add: paging_inv_def)
  note lw = leaf_write_ok [OF ok tp(3) _ n1(3) index_less, simplified]
    and le = leaf_write_entry [OF ok tp(3) _ n1(3) index_less, simplified]
    and la = leaf_write_at [OF ok tp(3) _ n1(3) index_less, simplified]
  have "tree_grows own root s1 u"
  proof -
    have "region (slot t1 (table_index 12 v)) 8 \<subseteq> table_bytes root (mem s1)"
      using slot_region [OF index_less] tp(3) n1(3) unfolding table_bytes_def by blast
    then have "mem u x = mem s1 x" if "x \<notin> table_bytes root (mem s1)" for x
      using that by (auto simp: u intro!: c64.wr_outside)
    moreover have "table_bytes root (mem u) = table_bytes root (mem s1)"
      by (auto simp: table_bytes_def u la)
    ultimately show ?thesis by (simp add: tree_grows_def u la)
  qed
  then have "tree_grows own root s u"
    using n3(2) n2(2) n1(2) tree_grows_trans by blast
  moreover have "paging_inv B own root u" using lw ao by (simp add: paging_inv_def u)
  moreover have "page_entry (mem u) root w =
        (if indices w = indices v then if (p OR f) AND PAGE_PRESENT = 0 then None else Some (p OR f)
         else page_entry (mem s) root w)" if w: "table_index 39 w \<noteq> 510" for w
  proof -
    have "?p3 @ [table_index 12 v] = indices v" by (simp add: indices_def)
    then show ?thesis
      using le [OF w, where e = "p OR f"] n3(4) [OF w] n2(4) [OF w] n1(4) [OF w] by (simp add: u)
  qed
  ultimately show ?thesis by blast
qed

interpretation pm: page_mapper "loader_paging_map B root" "\<lambda>s. page_entry (mem s) root"
  "paging_inv B own root" "tree_grows own root" "\<lambda>v. table_index 39 v \<noteq> 510" indices
  for B own root
proof (unfold_locales, goal_cases)
  case 1
  then show ?case by simp
next
  case 2
  then show ?case by (rule tree_grows_trans)
next
  case 3
  then show ?case using loader_paging_map_effect by blast
next
  case (4 s v p f x t u)
  then show ?case using loader_paging_map_effect [OF 4(1-3)] by auto
next
  case (5 s v p f x t u)
  then show ?case using loader_paging_map_effect [OF 5(1-3)] by auto
qed

section \<open>Ranges of pages\<close>

lemma mod_shift_le:
  fixes a i j N :: nat
  assumes "(a + i) mod N = (a + j) mod N" and "i \<le> j" and "j < N"
  shows "i = j"
proof -
  have "N dvd (a + j) - (a + i)" using assms by (metis mod_eq_dvd_iff_nat nat_add_left_cancel_le)
  then show ?thesis using assms(2,3) by (auto dest: dvd_imp_le)
qed

lemma mod_shift_inj:
  fixes a i j N :: nat
  assumes "(a + i) mod N = (a + j) mod N" and "i < N" and "j < N"
  shows "i = j"
  using assms mod_shift_le [of a i N j] mod_shift_le [of a j N i] by (cases "i \<le> j") auto

lemma page_step: "push_bit 12 (of_nat i) = (of_nat (4096 * i) :: u64)"
  by (simp add: push_bit_eq_mult)

lemma unat_page_step:
  "unat b + 4096 * i < 2 ^ 64 \<Longrightarrow> unat (b + push_bit 12 (of_nat i) :: u64) = unat b + 4096 * i"
  unfolding page_step by (rule unat_add_of_nat)

text \<open>Pages of a range that stays below the top of the address space are distinct.\<close>

lemma range_pages_distinct:
  assumes "unat b + 4096 * n \<le> 2 ^ 64" and "n \<le> 2 ^ 36"
  shows "inj_on (\<lambda>i. indices (b + push_bit 12 (of_nat i))) {..<n}"
proof (rule inj_onI)
  fix i j assume ij: "i \<in> {..<n}" "j \<in> {..<n}"
    and e: "indices (b + push_bit 12 (of_nat i)) = indices (b + push_bit 12 (of_nat j))"
  have ui: "unat (b + push_bit 12 (of_nat k)) div 4096 = unat b div 4096 + k" if "k < n" for k
    using assms(1) that by (simp add: unat_page_step)
  have "(unat b div 4096 + i) mod 2 ^ 36 = (unat b div 4096 + j) mod 2 ^ 36"
    using e ij ui unfolding indices_eq_iff by simp
  then show "i = j" by (rule mod_shift_inj) (use ij assms(2) in auto)
qed

text \<open>The frame and the offset put an address together again.\<close>

definition flag_bits :: "u64 \<Rightarrow> bool" where
  "flag_bits f \<longleftrightarrow> f AND frame_mask = 0 \<and> f AND PAGE_PRESENT \<noteq> 0"

lemma entry_frame:
  assumes "aligned 12 p" and "unat p < 2 ^ 52" and "flag_bits f"
  shows "(p OR f) AND frame_mask = p" and "(p OR f) AND PAGE_PRESENT \<noteq> 0"
proof -
  have "p AND frame_mask = p"
  proof (rule bit_word_eqI)
    fix n
    show "bit (p AND frame_mask) n = bit p n"
      using aligned_bits [OF assms(1), of n] small_bits [OF assms(2), of n]
      unfolding bit_and_iff frame_mask_bits by (meson not_le)
  qed
  then show "(p OR f) AND frame_mask = p"
    using assms(3) by (simp add: flag_bits_def bit.conj_disj_distrib2)
  have "f AND PAGE_PRESENT = 0" if "(p OR f) AND PAGE_PRESENT = 0"
    using that by (simp add: bit.conj_disj_distrib2 or_eq_0_iff)
  then show "(p OR f) AND PAGE_PRESENT \<noteq> 0" using assms(3) by (auto simp: flag_bits_def)
qed

lemma unat_take12: "unat (take_bit 12 (x :: u64)) = unat x mod 4096"
proof -
  have "unat (take_bit 12 x) = take_bit 12 (unat x)" by (simp only: unsigned_take_bit_eq)
  then show ?thesis by (simp add: take_bit_eq_mod)
qed

lemma page_split:
  assumes "aligned 12 p" and "unat v div 4096 = unat p div 4096"
  shows "p + (v AND 0xFFF) = v"
proof -
  have "(0xFFF :: u64) = mask 12" by (simp add: mask_eq_exp_minus_1)
  then have "v AND 0xFFF = take_bit 12 v" by (simp only: take_bit_eq_mask)
  then have o: "unat (v AND 0xFFF) = unat v mod 4096" by (simp only: unat_take12)
  have s: "unat v = unat p + unat v mod 4096"
  proof -
    have "unat p = 4096 * (unat p div 4096)" using assms(1) by (auto simp: aligned_def)
    then show ?thesis using assms(2) mult_div_mod_eq [of 4096 "unat v"] by simp
  qed
  have "unat (p + of_nat (unat (v AND 0xFFF))) = unat p + unat (v AND 0xFFF)"
    by (rule unat_add_of_nat) (use s o unat_lt64 [of v] in simp)
  then have "unat (p + (v AND 0xFFF)) = unat p + unat (v AND 0xFFF)" by simp
  then have "unat (p + (v AND 0xFFF)) = unat v" using s o by (simp only:)
  then show ?thesis by (simp only: word_unat_eq_iff)
qed

lemma unat_drop12: "unat (drop_bit 12 (x :: u64)) = unat x div 4096"
  unfolding unat_drop_bit_eq by (simp add: drop_bit_eq_div)

lemma unat_frame:
  fixes x :: u64
  assumes "unat x < 2 ^ 52"
  shows "unat (x AND frame_mask) = 4096 * (unat x div 4096)"
proof -
  have "(frame_mask :: u64) = push_bit 12 (mask 40)" by (simp add: mask_eq_exp_minus_1 push_bit_eq_mult)
  then show ?thesis using unat_and_high [of x 12 40] assms by simp
qed

lemma low_not_510: "unat v < 2 ^ 47 \<Longrightarrow> table_index 39 v \<noteq> 510"
proof -
  assume "unat v < 2 ^ 47"
  then have "unat v div 2 ^ 39 < 256" by (simp add: less_mult_imp_div_less)
  then show ?thesis by (simp add: table_index_def)
qed

lemma translate_entry:
  assumes "page_entry m root v = Some (p OR f)" and "aligned 12 p" and "unat p < 2 ^ 52"
    and "flag_bits f"
  shows "translate m root v = Some (p + (v AND 0xFFF))"
  using assms entry_frame(1) by (simp add: translate_def)

lemma map_addr_pages:
  fixes start len :: u64
  assumes "unat start + unat len < 2 ^ 47"
  shows "unat (1 + (drop_bit 12 (start + len) - drop_bit 12 start)) =
           (unat start + unat len) div 4096 - unat start div 4096 + 1"
proof -
  have sum: "unat (start + len) = unat start + unat len"
    using assms unat_add_of_nat [of start "unat len"] by simp
  have e: "unat (drop_bit 12 (start + len)) = (unat start + unat len) div 4096"
    and d: "unat (drop_bit 12 start) = unat start div 4096"
    by (simp_all only: unat_drop12 sum)
  have le: "unat start div 4096 \<le> (unat start + unat len) div 4096" by (rule div_le_mono) simp
  have "unat (drop_bit 12 (start + len) - drop_bit 12 start) =
      (unat start + unat len) div 4096 - unat start div 4096"
    using le by (simp only: unat_sub_if_size e d if_True)
  moreover have "(unat start + unat len) div 4096 < 2 ^ 35" using assms by simp
  ultimately show ?thesis
    using unat_add_of_nat [of "drop_bit 12 (start + len) - drop_bit 12 start" 1]
    by (simp add: add.commute)
qed

lemma map_addr_identity:
  assumes inv: "paging_inv B own root s" and low: "unat start + unat len < 2 ^ 47"
    and flags: "flag_bits f"
    and run: "loader_paging_map_addr B root start len f s = Inr (x, t)"
  shows "paging_inv B own root t \<and> tree_grows own root s t \<and>
     (\<forall>v. start \<le> v \<and> v \<le> start + len \<longrightarrow> translate (mem t) root v = Some v)"
proof -
  let ?S = "unat start div 4096" and ?E = "(unat start + unat len) div 4096"
  let ?b = "start AND frame_mask" and ?n = "?E - ?S + 1"
  let ?V = "\<lambda>i. ?b + push_bit 12 (of_nat i)"
  have b: "unat ?b = 4096 * ?S" using low by (intro unat_frame) simp
  have le: "?S \<le> ?E" by (rule div_le_mono) simp
  have E: "4096 * ?E < 2 ^ 47" using low by simp
  have V: "unat (?V i) = 4096 * (?S + i)" if "i < ?n" for i
    using that E le b unat_page_step [of ?b i] by simp
  have Vok: "aligned 12 (?V i)" "unat (?V i) < 2 ^ 47" if "i < ?n" for i
    using V [OF that] that le E by (auto simp: aligned_def)
  have r: "for_from 0 ?n (\<lambda>i. loader_paging_map B root (?V i) (?V i) f) s = Inr (x, t)"
    using run unfolding loader_paging_map_addr_def Let_def map_addr_pages [OF low] .
  have eff: "paging_inv B own root t \<and> tree_grows own root s t \<and>
     (\<forall>i < ?n. \<forall>u. table_index 39 u \<noteq> 510 \<longrightarrow> indices u = indices (?V i) \<longrightarrow>
        page_entry (mem t) root u = Some (?V i OR f))"
  proof -
    have "inj_on (\<lambda>i. indices (?V i)) {..<?n}"
      by (rule range_pages_distinct) (use E b le in simp_all)
    moreover have "(?V i OR f) AND PAGE_PRESENT \<noteq> 0" if "i < ?n" for i
      using entry_frame(2) [OF Vok(1) [OF that] _ flags] Vok(2) [OF that] by simp
    ultimately show ?thesis
      using pm.map_range [OF r inv] low_not_510 Vok(2) by blast
  qed
  moreover have "translate (mem t) root v = Some v" if v: "start \<le> v" "v \<le> start + len" for v
  proof -
    have sum: "unat (start + len) = unat start + unat len"
      using low unat_add_of_nat [of start "unat len"] by simp
    have lo: "unat start \<le> unat v" and hi: "unat v \<le> unat start + unat len"
      using v sum by (simp_all add: word_le_nat_alt)
    define i where "i = unat v div 4096 - ?S"
    have "?S \<le> unat v div 4096" and "unat v div 4096 \<le> ?E" using lo hi by (simp_all add: div_le_mono)
    then have i: "i < ?n" and vi: "unat v div 4096 = ?S + i" by (simp_all add: i_def less_Suc_eq_le diff_le_mono)
    have same: "unat v div 4096 = unat (?V i) div 4096" using vi V [OF i] by simp
    have "page_entry (mem t) root v = Some (?V i OR f)"
      using eff i same low_not_510 [of v] hi low by (simp add: indices_eq_iff)
    then have "translate (mem t) root v = Some (?V i + (v AND 0xFFF))"
      using Vok [OF i] flags by (intro translate_entry) simp_all
    then show ?thesis using page_split [OF Vok(1) [OF i] same] by simp
  qed
  ultimately show ?thesis by blast
qed

section \<open>The empty tree, and that mapping returns\<close>

lemma loader_paging_setup_inv:
  assumes ao: "alloc_ok B own" and run: "loader_paging_setup B s = Inr (pml4, t)"
  shows "paging_inv B own pml4 t"
    and "table_at (mem t) pml4 [510] = Some pml4"
    and "table_index 39 v \<noteq> 510 \<Longrightarrow> page_entry (mem t) pml4 v = None"
    and "table_bytes pml4 (mem t) = region pml4 4096"
    and "own (fw s) \<subseteq> own (fw t)" and "region pml4 4096 \<inter> own (fw s) = {}"
    and "\<And>x. x \<in> own (fw s) \<Longrightarrow> mem t x = mem s x"
proof -
  from run obtain u where al: "uefi_alloc_pages B 1 s = Inr (pml4, u)"
    and t: "t = u\<lparr>mem := wr64 (mem u) (pml4 + 8 * 510) (pml4 OR PAGE_WRITE OR PAGE_PRESENT)\<rparr>"
    by (auto simp: loader_paging_setup_def elim!: andthen_InrE)
  from al obtain status w where ap: "AllocatePages B (fw s) 1 = ((status, pml4), w)"
    and st: "\<not> EFI_ERROR B status"
    and u: "u = s\<lparr>fw := w, mem := memset (mem s) pml4 0 (unat (push_bit 12 (1 :: u64)))\<rparr>"
    by (rule uefi_alloc_pages_Inr)
  have a: "aligned 12 pml4" "unat pml4 < 2 ^ 52" and own: "region pml4 4096 \<subseteq> own w"
    using ao ap st unfolding alloc_ok_def by fastforce+
  have m: "mem t = wr64 (store_bytes (mem s) pml4 (replicate 4096 0)) (slot pml4 510)
      (pml4 OR PAGE_PRESENT OR PAGE_WRITE)" and f: "fw t = w"
    by (simp_all add: t u memset_store push_bit_eq_mult slot_def or.commute)
  have rd: "rd64 (mem t) (slot pml4 i) = (if i = 510 then pml4 OR PAGE_PRESENT OR PAGE_WRITE else 0)"
    if "i < 512" for i
    using that a by (simp add: m rd64_wr64_aligned slot_aligned slot_inj rd64_zero_page)
  have none: "table_at (mem t) pml4 p = (if p = [] then Some pml4 else None)" if "tree_path p" for p
    using that by (cases p) (auto simp: tree_path_def rd table_at.simps)
  show "paging_inv B own pml4 t"
    using ao a own by (auto simp: paging_inv_def tables_ok_def none table_page_def f split: if_splits)
  show "table_at (mem t) pml4 [510] = Some pml4"
    using link_entry [OF a] by (simp add: table_at.simps rd)
  show "page_entry (mem t) pml4 v = None" if v: "table_index 39 v \<noteq> 510"
    using none [OF indices_tree_path(1) [OF v]] by (simp add: page_entry_unfold indices_def)
  show "table_bytes pml4 (mem t) = region pml4 4096" by (auto simp: table_bytes_def none split: if_splits intro: tree_path_Nil)
  show "own (fw s) \<subseteq> own (fw t)" and apart: "region pml4 4096 \<inter> own (fw s) = {}"
    using ao ap st unfolding alloc_ok_def f by fastforce+
  show "mem t x = mem s x" if "x \<in> own (fw s)" for x
  proof -
    have x: "x \<notin> region pml4 4096" using apart that by blast
    then have "x \<notin> region (slot pml4 510) 8" using slot_region [of 510 pml4] by auto
    then show ?thesis using x by (simp add: m c64.wr_outside store_outside)
  qed
qed

lemma paging_next_returns:
  assumes "pages_left B (Suc k) (fw s)"
  shows "\<exists>a u. paging_next B e s = Inr (a, u) \<and> pages_left B k (fw u)"
proof (cases "rd64 (mem s) e AND PAGE_PRESENT = 0")
  case True
  obtain a u where "uefi_alloc_pages B 1 s = Inr (a, u)" and "pages_left B k (fw u)"
    using uefi_alloc_page_returns [OF assms] by blast
  with True show ?thesis by (simp add: paging_next_def andthen_Inr)
next
  case False
  with pages_left_Suc [OF assms] show ?thesis by (simp add: paging_next_def)
qed

lemma map_returns:
  assumes "pages_left B (3 + k) (fw s)"
  shows "\<exists>u. loader_paging_map B root p v f s = Inr ((), u) \<and> pages_left B k (fw u)"
proof -
  let ?i = "mm_virtual_indices v"
  have l: "pages_left B (Suc (Suc (Suc k))) (fw s)" using assms by (simp add: eval_nat_numeral)
  obtain t3 s3 where 3: "paging_next B (root + 8 * pml4i ?i) s = Inr (t3, s3)"
    and l3: "pages_left B (Suc (Suc k)) (fw s3)"
    using paging_next_returns [OF l] by blast
  obtain t2 s2 where 2: "paging_next B (t3 + 8 * pml3i ?i) s3 = Inr (t2, s2)"
    and l2: "pages_left B (Suc k) (fw s2)"
    using paging_next_returns [OF l3] by blast
  obtain t1 s1 where 1: "paging_next B (t2 + 8 * pml2i ?i) s2 = Inr (t1, s1)"
    and l1: "pages_left B k (fw s1)"
    using paging_next_returns [OF l2] by blast
  show ?thesis using 3 2 1 l1 by (simp add: loader_paging_map_def Let_def andthen_Inr)
qed

lemma map_loop_returns:
  assumes "pages_left B (3 * n + k) (fw s)"
  shows "\<exists>t. for_from 0 n (\<lambda>i. loader_paging_map B root (P i) (V i) f) s = Inr ((), t) \<and> pages_left B k (fw t)"
proof -
  let ?I = "\<lambda>i s. i \<le> n \<and> pages_left B (3 * (n - i) + k) (fw s)"
  have "\<exists>t. for_from 0 n (\<lambda>i. loader_paging_map B root (P i) (V i) f) s = Inr ((), t) \<and> ?I (0 + n) t"
  proof (rule for_from_total [where I = ?I])
    show "?I 0 s" using assms by simp
  next
    fix i c assume "0 \<le> i" and "i < 0 + n" and I: "?I i c"
    then have "3 * (n - i) + k = 3 + (3 * (n - Suc i) + k)" by simp
    with I have "pages_left B (3 + (3 * (n - Suc i) + k)) (fw c)" by simp
    from map_returns [OF this] \<open>i < 0 + n\<close>
    show "\<exists>c'. loader_paging_map B root (P i) (V i) f c = Inr ((), c') \<and> ?I (Suc i) c'" by auto
  qed
  then show ?thesis by auto
qed

section \<open>Properties\<close>

text \<open>The state after \<open>loader_paging_setup\<close> on the sample firmware.\<close>

lemma sample_setup:
  obtains t where "loader_paging_setup sample_env sample_machine = Inr (0x10000, t)"
    and "next_page (fw t) = 17" and "paging_inv sample_env sample_own 0x10000 t"
proof -
  obtain t where t: "loader_paging_setup sample_env sample_machine = Inr (0x10000, t)"
    and "next_page (fw t) = 17"
    by (auto simp: loader_paging_setup_def uefi_alloc_pages_def andthen_def fwcall_def EFIERR_def
        sample_env_def sample_machine_def sample_start_def)
  moreover have "paging_inv sample_env sample_own 0x10000 t"
    using loader_paging_setup_inv(1) [OF sample_alloc_ok t] .
  ultimately show thesis using that by blast
qed

text \<open>
  C3: \<^verbatim>\<open>loader_paging_map\<close> maps exactly one page. In a well-formed tree of
  tables, and for a virtual address outside the self-map slot 510, a call that
  returns leaves a well-formed tree in which the processor's walk finds the
  entry \<^verbatim>\<open>physical | flags\<close> for every address of that page; the walk finds the
  same entry as before for every other page, no table moves, and no byte of
  the loader's memory outside the tables changes.
\<close>

theorem loader_paging_map_correct:
  assumes "paging_inv B own pml4 s" and "table_index 39 virt \<noteq> 510"
    and "loader_paging_map B pml4 physical virt flags s = Inr ((), t)"
    and "(physical OR flags) AND PAGE_PRESENT \<noteq> 0"
  shows "paging_inv B own pml4 t \<and> tree_grows own pml4 s t \<and>
     (\<forall>v. table_index 39 v \<noteq> 510 \<longrightarrow> page_entry (mem t) pml4 v =
        (if indices v = indices virt then Some (physical OR flags) else page_entry (mem s) pml4 v))"
  using loader_paging_map_effect [OF assms(1-3)] assms(4) by simp

theorem loader_paging_map_correct_witness:
  "\<exists>(s :: sample_state machine) t. paging_inv sample_env sample_own 0x10000 s \<and>
     loader_paging_map sample_env 0x10000 0x200000 0xFFFFFE0000000000 0x8000000000000003 s = Inr ((), t) \<and>
     page_entry (mem t) 0x10000 0xFFFFFE0000000123 = Some 0x8000000000200003"
proof -
  obtain s :: "sample_state machine" where s: "paging_inv sample_env sample_own 0x10000 s"
    and n: "next_page (fw s) = 17"
    by (rule sample_setup)
  have "pages_left sample_env (3 + 0) (fw s)" by (rule sample_pages_left) (simp add: n)
  then obtain t where t: "loader_paging_map sample_env 0x10000 0x200000 0xFFFFFE0000000000
      0x8000000000000003 s = Inr ((), t)"
    using map_returns by blast
  have "table_index 39 0xFFFFFE0000000000 \<noteq> 510" "table_index 39 0xFFFFFE0000000123 \<noteq> 510"
    "indices 0xFFFFFE0000000123 = indices 0xFFFFFE0000000000"
    by (simp_all add: table_index_def indices_def)
  with loader_paging_map_correct [OF s _ t] s t show ?thesis
    by (auto simp: PAGE_PRESENT_def)
qed

text \<open>
  C14: \<^verbatim>\<open>mm_virtual_indices\<close> computes the four indices the processor takes from
  bits 47 to 12 of the address, for low and for high-half addresses alike.
\<close>

theorem mm_virtual_indices_architectural:
  "mm_virtual_indices v =
     \<lparr>pml4i = of_nat (unat v div 2 ^ 39 mod 512), pml3i = of_nat (unat v div 2 ^ 30 mod 512),
      pml2i = of_nat (unat v div 2 ^ 21 mod 512), pml1i = of_nat (unat v div 2 ^ 12 mod 512)\<rparr>"
  using mm_virtual_indices_hw by (simp add: table_index_def)

text \<open>
  C15: \<^verbatim>\<open>loader_paging_map\<close> returns as soon as the firmware can hand out three
  more pages, for every address and every content of the tables, and it uses
  at most three.
\<close>

theorem loader_paging_map_returns:
  assumes "pages_left B (3 + k) (fw s)"
  shows "\<exists>t. loader_paging_map B pml4 physical virt flags s = Inr ((), t) \<and> pages_left B k (fw t)"
  using assms by (rule map_returns)

theorem loader_paging_map_returns_witness:
  "\<exists>t. loader_paging_map sample_env 0x10000 0x1000 0x2000 3 sample_machine = Inr ((), t) \<and>
     pages_left sample_env 5 (fw t)"
  by (rule loader_paging_map_returns, rule sample_pages_left)
    (simp add: sample_machine_def sample_start_def)

text \<open>
  C16: \<^verbatim>\<open>loader_paging_setup\<close> yields a well-formed tree with no page mapped, whose
  slot 510 leads back to the top-level table itself.
\<close>

theorem loader_paging_setup_correct:
  assumes "alloc_ok B own" and "loader_paging_setup B s = Inr (pml4, t)"
  shows "paging_inv B own pml4 t \<and> table_at (mem t) pml4 [510] = Some pml4 \<and>
     (\<forall>v. table_index 39 v \<noteq> 510 \<longrightarrow> page_entry (mem t) pml4 v = None)"
  using loader_paging_setup_inv [OF assms] by blast

theorem loader_paging_setup_correct_witness:
  "\<exists>t. loader_paging_setup sample_env sample_machine = Inr (0x10000, t) \<and>
     page_entry (mem t) 0x10000 0x123456 = None"
proof -
  obtain t where t: "loader_paging_setup sample_env sample_machine = Inr (0x10000, t)"
    by (rule sample_setup)
  have "table_index 39 0x123456 \<noteq> 510" by (simp add: table_index_def)
  with loader_paging_setup_correct [OF sample_alloc_ok t] t show ?thesis by blast
qed

text \<open>
  C7: \<^verbatim>\<open>loader_paging_map_addr\<close> maps a range to itself. For a range below
  \<open>2 ^ 47\<close> and flags with the present bit and no frame bits, every address from
  \<open>start\<close> to \<open>start + length\<close> translates to itself afterwards, and the tree
  stays well formed.
\<close>

theorem loader_paging_map_addr_identity:
  assumes "paging_inv B own pml4 s" and "unat start + unat len < 2 ^ 47" and "flag_bits flags"
    and "loader_paging_map_addr B pml4 start len flags s = Inr ((), t)"
  shows "paging_inv B own pml4 t \<and> tree_grows own pml4 s t \<and>
     (\<forall>v. start \<le> v \<and> v \<le> start + len \<longrightarrow> translate (mem t) pml4 v = Some v)"
  using map_addr_identity [OF assms] .

theorem loader_paging_map_addr_identity_witness:
  "\<exists>(s :: sample_state machine) t. loader_paging_map_addr sample_env 0x10000 0x7FF8 0x1000 3 s = Inr ((), t) \<and>
     translate (mem t) 0x10000 0x8FF8 = Some 0x8FF8"
proof -
  obtain s :: "sample_state machine" where s: "paging_inv sample_env sample_own 0x10000 s"
    and n: "next_page (fw s) = 17"
    by (rule sample_setup)
  have "pages_left sample_env (3 * 2 + 0) (fw s)" by (rule sample_pages_left) (simp add: n)
  then obtain t where "loader_paging_map_addr sample_env 0x10000 0x7FF8 0x1000 3 s = Inr ((), t)"
    using map_loop_returns unfolding loader_paging_map_addr_def Let_def by fastforce
  moreover have "flag_bits 3" by (simp add: flag_bits_def PAGE_PRESENT_def)
  ultimately have "translate (mem t) 0x10000 0x8FF8 = Some 0x8FF8"
    using loader_paging_map_addr_identity [OF s, where start = "0x7FF8" and len = "0x1000"
        and flags = "3" and t = t] by simp
  with \<open>loader_paging_map_addr sample_env 0x10000 0x7FF8 0x1000 3 s = Inr ((), t)\<close>
  show ?thesis by blast
qed

end
