(* ===== verification/Elf.thy ===== *)
theory Elf
  imports Paging
begin

text \<open>
  The ELF structures the loader reads (\<^verbatim>\<open>elf64.h\<close>) and the two functions of
  \<^verbatim>\<open>elf/elf.c\<close>: the translation of segment flags to page flags and the check
  of the file header. The structures are packed, so a field is read from its
  offset in memory.
\<close>

section \<open>Structures\<close>

record elf64_ehdr =
  e_ident :: "u8 list"
  e_type :: u16
  e_machine :: u16
  e_version :: u32
  e_entry :: u64
  e_phoff :: u64
  e_shoff :: u64
  e_flags :: u32
  e_ehsize :: u16
  e_phentsize :: u16
  e_phnum :: u16
  e_shentsize :: u16
  e_shnum :: u16
  e_shstrndx :: u16

record elf64_phdr =
  p_type :: u32
  p_flags :: u32
  p_offset :: u64
  p_vaddr :: u64
  p_paddr :: u64
  p_filesz :: u64
  p_memsz :: u64
  p_align :: u64

definition read_ehdr :: "mem \<Rightarrow> addr \<Rightarrow> elf64_ehdr" where
  "read_ehdr m a =
     \<lparr>e_ident = load_bytes m a 16, e_type = rd16 m (a + 16), e_machine = rd16 m (a + 18),
      e_version = rd32 m (a + 20), e_entry = rd64 m (a + 24), e_phoff = rd64 m (a + 32),
      e_shoff = rd64 m (a + 40), e_flags = rd32 m (a + 48), e_ehsize = rd16 m (a + 52),
      e_phentsize = rd16 m (a + 54), e_phnum = rd16 m (a + 56), e_shentsize = rd16 m (a + 58),
      e_shnum = rd16 m (a + 60), e_shstrndx = rd16 m (a + 62)\<rparr>"

definition read_phdr :: "mem \<Rightarrow> addr \<Rightarrow> elf64_phdr" where
  "read_phdr m a =
     \<lparr>p_type = rd32 m a, p_flags = rd32 m (a + 4), p_offset = rd64 m (a + 8),
      p_vaddr = rd64 m (a + 16), p_paddr = rd64 m (a + 24), p_filesz = rd64 m (a + 32),
      p_memsz = rd64 m (a + 40), p_align = rd64 m (a + 48)\<rparr>"

definition PT_LOAD :: u32 where "PT_LOAD = 1"
definition PT_X :: u64 where "PT_X = 1"
definition PT_W :: u64 where "PT_W = 2"

section \<open>Functions\<close>

definition efi_elf_phdr_flags :: "u64 \<Rightarrow> u64" where
  "efi_elf_phdr_flags f =
     (let flags = PAGE_PRESENT;
          flags = (if f OR PT_X = 0 then flags OR PAGE_NX else flags);
          flags = (if f OR PT_W \<noteq> 0 then flags OR PAGE_WRITE else flags)
      in flags)"

definition elf_header_check :: "'w env \<Rightarrow> elf64_ehdr \<Rightarrow> ('w, 'z, efi_status) run" where
  "elf_header_check B header =
     (if e_ident header ! 0 \<noteq> 0x7F \<and> e_ident header ! 1 \<noteq> of_char (CHR ''E'') \<and>
         e_ident header ! 2 \<noteq> of_char (CHR ''L'') \<and> e_ident header ! 3 \<noteq> of_char (CHR ''F'')
      then efi_panic B ''invalid ELF magic''
      else if e_ident header ! 4 \<noteq> 2 then efi_panic B ''invalid ELF class''
      else if e_ident header ! 5 \<noteq> 1 then efi_panic B ''invalid ELF endianness''
      else if e_ident header ! 6 \<noteq> 1 then efi_panic B ''invalid ELF version''
      else if e_ident header ! 7 \<noteq> 0 then efi_panic B ''invalid ELF OS ABI''
      else if e_type header \<noteq> 2 then efi_panic B ''invalid ELF type''
      else if e_machine header \<noteq> 62 then efi_panic B ''invalid ELF machine type''
      else ret EFI_SUCCESS)"

section \<open>Properties\<close>

text \<open>What the two functions are meant to compute.\<close>

definition segment_page_flags :: "u64 \<Rightarrow> u64" where
  "segment_page_flags f =
     PAGE_PRESENT OR (if f AND PT_X = 0 then PAGE_NX else 0) OR (if f AND PT_W \<noteq> 0 then PAGE_WRITE else 0)"

definition elf_magic :: "u8 list" where
  "elf_magic = 0x7F # map of_char ''ELF''"

definition elf_kind_ok :: "elf64_ehdr \<Rightarrow> bool" where
  "elf_kind_ok h \<longleftrightarrow>
     take 4 (drop 4 (e_ident h)) = [2, 1, 1, 0] \<and> e_type h = 2 \<and> e_machine h = 62"

lemma or_ne_0: "(b :: u64) \<noteq> 0 \<Longrightarrow> a OR b \<noteq> 0"
  by (simp add: or_eq_0_iff)

lemma phdr_flags_const: "efi_elf_phdr_flags f = PAGE_PRESENT OR PAGE_WRITE"
  by (simp add: efi_elf_phdr_flags_def Let_def or_ne_0 PT_X_def PT_W_def)

lemma phdr_flag_bits: "flag_bits (efi_elf_phdr_flags f)"
  by (simp add: phdr_flags_const flag_bits_def PAGE_PRESENT_def PAGE_WRITE_def)

text \<open>
  The flags of a segment do not reach its pages: whatever the segment asks for, its
  pages are present, writable and executable. The translation agrees with the
  meant one only for segments that are both writable and executable.
\<close>

theorem efi_elf_phdr_flags_ignored:
  "efi_elf_phdr_flags f = PAGE_PRESENT OR PAGE_WRITE \<and>
   (efi_elf_phdr_flags f = segment_page_flags f \<longleftrightarrow> f AND PT_X \<noteq> 0 \<and> f AND PT_W \<noteq> 0)"
  by (auto simp: phdr_flags_const segment_page_flags_def PAGE_PRESENT_def PAGE_WRITE_def PAGE_NX_def)

lemma ident_kind: "length (e_ident h) = 16 \<Longrightarrow>
   take 4 (drop 4 (e_ident h)) = [e_ident h ! 4, e_ident h ! 5, e_ident h ! 6, e_ident h ! 7]"
  by (rule nth_equalityI) (auto simp: less_Suc_eq numeral_eq_Suc)

lemma some_magic: "(\<exists>i<4. ident ! i = elf_magic ! i) \<longleftrightarrow>
     ident ! 0 = 0x7F \<or> ident ! 1 = of_char (CHR ''E'') \<or> ident ! 2 = of_char (CHR ''L'') \<or>
     ident ! 3 = of_char (CHR ''F'')"
proof -
  have "elf_magic ! 0 = 0x7F" "elf_magic ! 1 = of_char (CHR ''E'')" "elf_magic ! 2 = of_char (CHR ''L'')"
    "elf_magic ! 3 = of_char (CHR ''F'')" by (simp_all add: elf_magic_def numeral_eq_Suc)
  moreover have "(\<exists>i<4. P i) \<longleftrightarrow> P 0 \<or> P 1 \<or> P 2 \<or> P 3" for P :: "nat \<Rightarrow> bool"
    by (auto simp: numeral_eq_Suc less_Suc_eq)
  ultimately show ?thesis by simp
qed

lemma efi_panic_run:
  "efi_panic B msg s = Inl (Panicked msg, s\<lparr>fw := snd (OutputString B (fw s) (map of_char msg))\<rparr>)"
  by (simp add: efi_panic_def andthen_def fwcall_def split: prod.splits)

definition elf_accepted :: "elf64_ehdr \<Rightarrow> bool" where
  "elf_accepted h \<longleftrightarrow> elf_kind_ok h \<and> (\<exists>i<4. e_ident h ! i = elf_magic ! i)"

lemma header_check_accepted:
  "length (e_ident h) = 16 \<Longrightarrow> elf_accepted h \<Longrightarrow> elf_header_check B h = ret EFI_SUCCESS"
  by (simp add: elf_accepted_def elf_kind_ok_def ident_kind some_magic elf_header_check_def) blast

lemma header_check_rejected:
  assumes "length (e_ident h) = 16" and "\<not> elf_accepted h"
  shows "\<exists>msg. elf_header_check B h = efi_panic B msg"
proof -
  have "elf_header_check B h \<in> range (efi_panic B)"
    using assms unfolding elf_accepted_def elf_kind_ok_def ident_kind [OF assms(1)] some_magic elf_header_check_def
    by (simp split: if_splits)
  then show ?thesis by blast
qed

lemma magic_first: "take 4 ident = elf_magic \<Longrightarrow> ident ! 0 = elf_magic ! 0"
  by (metis nth_take zero_less_numeral)

text \<open>
  The header check accepts a header read from memory exactly when its class, byte order,
  version, ABI, type and machine are those of a 64-bit x86 executable and at least
  one of the four magic bytes is in place; otherwise it prints the reason and stops.
  So every proper header is accepted, but the magic number as such is not checked.
\<close>

theorem elf_header_check_accepts:
  "(elf_header_check B (read_ehdr m a) s = Inr (EFI_SUCCESS, s) \<longleftrightarrow>
      elf_kind_ok (read_ehdr m a) \<and> (\<exists>i<4. e_ident (read_ehdr m a) ! i = elf_magic ! i)) \<and>
   ((\<exists>msg t. elf_header_check B (read_ehdr m a) s = Inl (Panicked msg, t)) \<or>
    elf_header_check B (read_ehdr m a) s = Inr (EFI_SUCCESS, s)) \<and>
   (elf_kind_ok (read_ehdr m a) \<and> take 4 (e_ident (read_ehdr m a)) = elf_magic \<longrightarrow>
      elf_header_check B (read_ehdr m a) s = Inr (EFI_SUCCESS, s))"
proof -
  let ?h = "read_ehdr m a"
  have len: "length (e_ident ?h) = 16" by (simp add: read_ehdr_def)
  have no: "elf_header_check B ?h s \<noteq> Inr (EFI_SUCCESS, s)"
    "\<exists>msg t. elf_header_check B ?h s = Inl (Panicked msg, t)" if "\<not> elf_accepted ?h"
  proof -
    obtain msg where "elf_header_check B ?h s = efi_panic B msg s"
      using header_check_rejected [OF len \<open>\<not> elf_accepted ?h\<close>] by metis
    then show "elf_header_check B ?h s \<noteq> Inr (EFI_SUCCESS, s)"
      and "\<exists>msg t. elf_header_check B ?h s = Inl (Panicked msg, t)" by (simp_all add: efi_panic_run)
  qed
  have yes: "elf_header_check B ?h s = Inr (EFI_SUCCESS, s)" if "elf_accepted ?h"
    by (simp add: header_check_accepted [OF len that])
  have "elf_accepted ?h" if "elf_kind_ok ?h" "take 4 (e_ident ?h) = elf_magic"
    using that magic_first unfolding elf_accepted_def by (metis zero_less_numeral)
  then show ?thesis using yes no by (auto simp flip: elf_accepted_def)
qed

text \<open>A header in memory in which only the first magic byte is right.\<close>

definition odd_header_mem :: mem where
  "odd_header_mem = (\<lambda>_. 0)(0x1000 := 0x7F, 0x1004 := 2, 0x1005 := 1, 0x1006 := 1, 0x1010 := 2, 0x1012 := 62)"

theorem elf_header_check_accepts_witness:
  "elf_header_check sample_env (read_ehdr odd_header_mem 0x1000) sample_machine = Inr (EFI_SUCCESS, sample_machine) \<and>
   take 4 (e_ident (read_ehdr odd_header_mem 0x1000)) \<noteq> elf_magic"
proof -
  have 1: "elf_kind_ok (read_ehdr odd_header_mem 0x1000)" by code_simp
  have 2: "\<exists>i<4. e_ident (read_ehdr odd_header_mem 0x1000) ! i = elf_magic ! i"
    by (rule exI [of _ 0]) code_simp
  have 3: "take 4 (e_ident (read_ehdr odd_header_mem 0x1000)) \<noteq> elf_magic" by code_simp
  show ?thesis
    using 1 2 3 elf_header_check_accepts [of sample_env odd_header_mem "0x1000" sample_machine] by blast
qed

end
