(* ===== verification/Kernel.thy ===== *)
theory Kernel
  imports Elf
begin

text \<open>
  Loading the kernel's segments (\<^verbatim>\<open>loader/parse.c\<close>, \<^verbatim>\<open>loader_kernel_phdrs\<close> of
  \<^verbatim>\<open>loader/kernel.c\<close>, \<^verbatim>\<open>fs/read.c\<close>): the program headers are read from the kernel
  file, and each loadable segment is put into fresh pages, mapped at its virtual
  address and filled up with zeroes.
\<close>

section \<open>Reading files\<close>

text \<open>\<^verbatim>\<open>file->Read(file, &size, buf)\<close>: the bytes land at \<open>buf\<close>, the count in \<^verbatim>\<open>size\<close>.\<close>

definition file_read :: "'w env \<Rightarrow> addr \<Rightarrow> u64 \<Rightarrow> addr \<Rightarrow> ('w, 'z, efi_status \<times> u64) run" where
  "file_read B file n buf =
     andthen (fwcall (\<lambda>w. File_Read B w file n)) (\<lambda>(status, bs).
     andthen (modify (\<lambda>s. s\<lparr>mem := store_bytes (mem s) buf bs\<rparr>)) (\<lambda>_.
     ret (status, of_nat (length bs))))"

definition fs_read :: "'w env \<Rightarrow> addr \<Rightarrow> u64 \<Rightarrow> u64 \<Rightarrow> addr \<Rightarrow> ('w, 'z, unit) run" where
  "fs_read B file len offset buf =
     andthen (fwcall (\<lambda>w. File_SetPosition B w file offset)) (\<lambda>status.
     andthen (EFIERR B ''fs/read.c'' 6 status) (\<lambda>_.
     andthen (file_read B file len buf) (\<lambda>(status, _).
     andthen (EFIERR B ''fs/read.c'' 9 status) (\<lambda>_.
     andthen (fwcall (\<lambda>w. File_SetPosition B w file 0)) (\<lambda>status.
     EFIERR B ''fs/read.c'' 12 status)))))"

section \<open>Headers\<close>

text \<open>\<open>header\<close> is the address of the caller's structure of 64 bytes.\<close>

definition loader_parse_header :: "'w env \<Rightarrow> addr \<Rightarrow> addr \<Rightarrow> ('w, 'z, efi_status) run" where
  "loader_parse_header B file header =
     andthen (file_read B file 64 header) (\<lambda>(status, _).
     andthen (EFIERR B ''loader/parse.c'' 8 status) (\<lambda>_.
     ret EFI_SUCCESS))"

text \<open>Gives the status and the value left in \<^verbatim>\<open>*phdrs\<close>.\<close>

definition loader_parse_phdrs :: "'w env \<Rightarrow> addr \<Rightarrow> elf64_ehdr \<Rightarrow> ('w, 'z, efi_status \<times> addr) run" where
  "loader_parse_phdrs B file header =
     andthen (fwcall (\<lambda>w. File_SetPosition B w file (e_phoff header))) (\<lambda>status.
     andthen (EFIERR B ''loader/parse.c'' 15 status) (\<lambda>_.
     let sz = ucast (e_phnum header) * ucast (e_phentsize header) in
     andthen (fwcall (\<lambda>w. AllocatePool B w sz)) (\<lambda>(status, phdrs).
     andthen (EFIERR B ''loader/parse.c'' 18 status) (\<lambda>_.
     andthen (file_read B file sz phdrs) (\<lambda>(status, _).
     andthen (EFIERR B ''loader/parse.c'' 20 status) (\<lambda>_.
     ret (EFI_SUCCESS, phdrs)))))))"

section \<open>Segments\<close>

text \<open>
  The body of the loop for a loadable segment. Nothing in it writes to the
  header, which lies in pool memory of the loader, so its fields are read once.
  The results of \<^verbatim>\<open>SetPosition\<close> and \<^verbatim>\<open>Read\<close> are dropped, as in the code.
\<close>

definition load_segment :: "'w env \<Rightarrow> addr \<Rightarrow> addr \<Rightarrow> elf64_phdr \<Rightarrow> ('w, 'z, unit) run" where
  "load_segment B file pml4 phdr =
     (let pages = (p_memsz phdr + 0xFFF) div 0x1000 in
      andthen (fwcall (\<lambda>w. AllocatePages B w pages)) (\<lambda>(status, physical).
      andthen (if EFI_ERROR B status
               then andthen (efi_print B (uefi_strerror status)) (\<lambda>_. efi_panic B '' error mapping kernel'')
               else ret ()) (\<lambda>_.
      andthen (fwcall (\<lambda>w. File_SetPosition B w file (p_offset phdr))) (\<lambda>_.
      andthen (file_read B file (p_filesz phdr) physical) (\<lambda>_.
      let flags = efi_elf_phdr_flags (ucast (p_flags phdr)) in
      andthen (for_from 0 (unat pages) (\<lambda>i.
        loader_paging_map B pml4 (physical + push_bit 12 (of_nat i))
          (p_vaddr phdr + push_bit 12 (of_nat i)) flags)) (\<lambda>_.
      if 0 < p_memsz phdr - p_filesz phdr
      then modify (\<lambda>s. s\<lparr>mem := memset (mem s) (physical + p_filesz phdr) 0
                              (unat (p_memsz phdr - p_filesz phdr))\<rparr>)
      else ret ()))))))"

text \<open>
  \<^verbatim>\<open>header->e_phnum * header->e_phentsize\<close> is an \<^verbatim>\<open>int\<close>. The first argument is
  fuel: it runs out only when the pointer wraps around the end of memory.
\<close>

definition phdrs_size :: "elf64_ehdr \<Rightarrow> u64" where
  "phdrs_size header = scast (ucast (e_phnum header) * ucast (e_phentsize header) :: u32)"

fun phdr_loop :: "nat \<Rightarrow> 'w env \<Rightarrow> addr \<Rightarrow> elf64_ehdr \<Rightarrow> addr \<Rightarrow> addr \<Rightarrow> addr \<Rightarrow> ('w, 'z, unit) run" where
  "phdr_loop 0 B file header pml4 phdrs phdr = stop Undefined"
| "phdr_loop (Suc n) B file header pml4 phdrs phdr =
     (if phdr < phdrs + phdrs_size header
      then andthen (gets (\<lambda>s. read_phdr (mem s) phdr)) (\<lambda>ph.
           andthen (if p_type ph = PT_LOAD then load_segment B file pml4 ph else ret ()) (\<lambda>_.
           phdr_loop n B file header pml4 phdrs (phdr + ucast (e_phentsize header))))
      else ret ())"

definition loader_kernel_phdrs :: "'w env \<Rightarrow> addr \<Rightarrow> elf64_ehdr \<Rightarrow> addr \<Rightarrow> ('w, 'z, unit) run" where
  "loader_kernel_phdrs B file header pml4 =
     andthen (loader_parse_phdrs B file header) (\<lambda>(_, phdrs).
     andthen (phdr_loop (Suc (unat (e_phnum header))) B file header pml4 phdrs phdrs) (\<lambda>_.
     free B phdrs))"

section \<open>The image\<close>

text \<open>What a kernel file means: its program headers, and the bytes of a segment.\<close>

definition data_mem :: "u8 list \<Rightarrow> mem" where
  "data_mem data a = (if unat a < length data then data ! unat a else 0)"

definition phdr_in :: "u8 list \<Rightarrow> elf64_ehdr \<Rightarrow> nat \<Rightarrow> elf64_phdr" where
  "phdr_in data h k = read_phdr (data_mem data) (e_phoff h + of_nat (k * unat (e_phentsize h)))"

definition segment_byte :: "u8 list \<Rightarrow> elf64_phdr \<Rightarrow> nat \<Rightarrow> u8" where
  "segment_byte data ph i = (if i < unat (p_filesz ph) then data ! (unat (p_offset ph) + i) else 0)"

definition seg_pages :: "elf64_phdr \<Rightarrow> nat" where
  "seg_pages ph = (unat (p_memsz ph) + 4095) div 4096"

definition seg_page :: "elf64_phdr \<Rightarrow> nat \<Rightarrow> addr" where
  "seg_page ph i = p_vaddr ph + push_bit 12 (of_nat i)"

definition seg_ok :: "u8 list \<Rightarrow> elf64_phdr \<Rightarrow> bool" where
  "seg_ok data ph \<longleftrightarrow>
     aligned 12 (p_vaddr ph) \<and> unat (p_filesz ph) \<le> unat (p_memsz ph) \<and>
     unat (p_offset ph) + unat (p_filesz ph) \<le> length data \<and>
     unat (p_vaddr ph) + 4096 * seg_pages ph \<le> 2 ^ 64 \<and> seg_pages ph \<le> 2 ^ 36 \<and>
     (\<forall>i < seg_pages ph. table_index 39 (seg_page ph i) \<noteq> 510)"

text \<open>
  What the loader relies on from one open file. \<open>pos w = Some p\<close> says that in the state \<open>w\<close> the handle is open on a file with the
  content \<open>data\<close> and stands at \<open>p\<close>; nothing is said of states in which it is not. A read gives the bytes at the position, no more than asked
  for; setting the position does that; neither takes memory away or closes the file, and allocating memory does
  not close it or move it.
\<close>

definition file_ok :: "'w env \<Rightarrow> ('w \<Rightarrow> addr set) \<Rightarrow> ('w \<Rightarrow> nat option) \<Rightarrow> addr \<Rightarrow> u8 list \<Rightarrow> bool" where
  "file_ok B own pos file data \<longleftrightarrow>
     (\<forall>w p k n. pos w = Some p \<longrightarrow>
        own w \<subseteq> own (snd (File_SetPosition B w file k)) \<and> own w \<subseteq> own (snd (File_Read B w file n)) \<and>
        pos (snd (File_SetPosition B w file k)) = Some (unat k) \<and>
        snd (fst (File_Read B w file n)) = take (unat n) (drop p data) \<and> pos (snd (File_Read B w file n)) \<noteq> None \<and>
        pos (snd (AllocatePool B w n)) = Some p \<and> pos (snd (AllocatePages B w n)) \<noteq> None)"

text \<open>A segment is in place: every address of it leads to its byte, in memory the loader keeps.\<close>

definition seg_loaded :: "u8 list \<Rightarrow> elf64_phdr \<Rightarrow> addr set \<Rightarrow> addr \<Rightarrow> mem \<Rightarrow> bool" where
  "seg_loaded data ph U root m \<longleftrightarrow>
     (\<forall>i<unat (p_memsz ph). \<exists>a. translate m root (p_vaddr ph + of_nat i) = Some a \<and>
        m a = segment_byte data ph i \<and> a \<in> U - table_bytes root m)"

section \<open>Writing outside the tables\<close>

lemma table_at_cong:
  assumes "\<And>x. x \<in> table_bytes root m \<Longrightarrow> m' x = m x" and "tree_path p"
  shows "table_at m' root p = table_at m root p"
  using assms(2)
proof (induction p rule: rev_induct)
  case (snoc i p)
  note p = tree_path_butlast [OF snoc.prems]
  have "rd64 m' (slot a i) = rd64 m (slot a i)" if "table_at m root p = Some a" for a
  proof (rule c64.rd_cong)
    fix x assume "x \<in> region (slot a i) 8"
    then have "x \<in> region a 4096" using slot_region [OF tree_path_last [OF snoc.prems]] by blast
    then show "m' x = m x" using that p by (intro assms(1)) (auto simp: table_bytes_def)
  qed
  then show ?case using snoc.IH [OF p] by (auto simp: table_at_snoc split: option.splits)
qed simp

lemma table_bytes_cong:
  assumes "\<And>x. x \<in> table_bytes root m \<Longrightarrow> m' x = m x"
  shows "table_bytes root m' = table_bytes root m"
  using table_at_cong [OF assms] by (auto simp: table_bytes_def)

lemma page_entry_cong:
  assumes "\<And>x. x \<in> table_bytes root m \<Longrightarrow> m' x = m x" and v: "table_index 39 v \<noteq> 510"
  shows "page_entry m' root v = page_entry m root v"
proof -
  note q = indices_tree_path [OF v]
  have at: "table_at m' root (butlast (indices v)) = table_at m root (butlast (indices v))"
    using assms(1) q(1) by (rule table_at_cong)
  have "rd64 m' (slot a (table_index 12 v)) = rd64 m (slot a (table_index 12 v))"
    if "table_at m root (butlast (indices v)) = Some a" for a
  proof (rule c64.rd_cong)
    fix x assume "x \<in> region (slot a (table_index 12 v)) 8"
    then have "x \<in> region a 4096" using slot_region [OF index_less] by blast
    then show "m' x = m x" using that q(1) by (intro assms(1)) (auto simp: table_bytes_def)
  qed
  then show ?thesis using at by (auto simp: page_entry_unfold split: option.splits)
qed

lemma tables_ok_cong:
  assumes "\<And>x. x \<in> table_bytes root m \<Longrightarrow> m' x = m x" and "tables_ok U root m" and "U \<subseteq> V"
  shows "tables_ok V root m'"
proof -
  note at = table_at_cong [OF assms(1)]
  have page: "table_page V a" if "table_page U a" for a
    using that assms(3) by (auto simp: table_page_def)
  show ?thesis
    unfolding tables_ok_def
  proof (intro conjI allI impI)
    fix p a assume p: "tree_path p" and "table_at m' root p = Some a"
    then have "table_at m root p = Some a" by (simp add: at)
    then show "table_page V a" using tables_ok_page [OF assms(2) p] page by blast
  next
    fix p q a assume "tree_path p" "tree_path q" "table_at m' root p = Some a" "table_at m' root q = Some a"
    then show "p = q" using tables_ok_inj [OF assms(2)] by (simp add: at)
  qed
qed

lemma table_bytes_owned: "tables_ok U root m \<Longrightarrow> table_bytes root m \<subseteq> U"
  by (auto simp: tables_ok_def table_bytes_def table_page_def)

text \<open>A step that writes only to \<open>F\<close>, which no table uses.\<close>

lemma write_fresh:
  assumes inv: "paging_inv B own root s" and F: "F \<inter> table_bytes root (mem s) = {}"
    and m: "\<forall>x. x \<notin> F \<longrightarrow> mem t x = mem s x" and own: "own (fw s) \<subseteq> own (fw t)"
  shows "paging_inv B own root t" and "table_bytes root (mem t) = table_bytes root (mem s)"
    and "\<And>p. tree_path p \<Longrightarrow> table_at (mem t) root p = table_at (mem s) root p"
    and "\<And>v. table_index 39 v \<noteq> 510 \<Longrightarrow> page_entry (mem t) root v = page_entry (mem s) root v"
proof -
  have same: "mem t x = mem s x" if "x \<in> table_bytes root (mem s)" for x
    using that F m by blast
  have "tables_ok (own (fw s)) root (mem s)" using inv by (simp add: paging_inv_def)
  then have "tables_ok (own (fw t)) root (mem t)" using tables_ok_cong [where m = "mem s", OF same] own by blast
  then show "paging_inv B own root t" using inv by (simp add: paging_inv_def)
  show "table_bytes root (mem t) = table_bytes root (mem s)" using same by (rule table_bytes_cong)
  show "table_at (mem t) root p = table_at (mem s) root p" if "tree_path p" for p
    using same that by (rule table_at_cong)
  show "page_entry (mem t) root v = page_entry (mem s) root v" if "table_index 39 v \<noteq> 510" for v
    using same that by (rule page_entry_cong)
qed

lemma write_fresh_grows:
  assumes inv: "paging_inv B own root s" and grows: "tree_grows own root r s"
    and F: "F \<inter> table_bytes root (mem s) = {}" "F \<inter> own (fw r) = {}"
    and m: "\<forall>x. x \<notin> F \<longrightarrow> mem t x = mem s x" and own: "own (fw s) \<subseteq> own (fw t)"
  shows "tree_grows own root r t"
proof -
  note w = write_fresh [where t = t, OF inv F(1) m own]
  have "mem t x = mem r x \<and> x \<notin> table_bytes root (mem t)"
    if "x \<in> own (fw r) - table_bytes root (mem r)" for x
  proof -
    have "x \<notin> F" using that F(2) by blast
    then have "mem t x = mem s x" using m by blast
    then show ?thesis using that grows w(2) unfolding tree_grows_def by auto
  qed
  then show ?thesis using grows own w(3) unfolding tree_grows_def by auto
qed

lemma alloc_okD:
  assumes "alloc_ok B own" and "AllocatePages B w n = ((status, a), w')" and "\<not> EFI_ERROR B status"
  shows "aligned 12 a" "unat a + unat n * 4096 \<le> 2 ^ 52" "region a (unat n * 4096) \<inter> own w = {}"
    "own w \<union> region a (unat n * 4096) \<subseteq> own w'"
  using assms unfolding alloc_ok_def by blast+

lemma file_ok_read:
  assumes "file_ok B own pos file data" and "pos w = Some p" and "File_Read B w file n = ((status, bs), w')"
  shows "bs = take (unat n) (drop p data)" "own w \<subseteq> own w'" "pos w' \<noteq> None"
proof -
  have "snd (fst (File_Read B w file n)) = take (unat n) (drop p data)"
    and "own w \<subseteq> own (snd (File_Read B w file n))" and "pos (snd (File_Read B w file n)) \<noteq> None"
    using assms(1,2) unfolding file_ok_def by blast+
  then show "bs = take (unat n) (drop p data)" "own w \<subseteq> own w'" "pos w' \<noteq> None" using assms(3) by auto
qed

lemma file_ok_position:
  assumes "file_ok B own pos file data" and "pos w \<noteq> None"
  shows "pos (snd (File_SetPosition B w file k)) = Some (unat k)" "own w \<subseteq> own (snd (File_SetPosition B w file k))"
  using assms unfolding file_ok_def by blast+

lemma file_ok_alloc: "file_ok B own pos file data \<Longrightarrow> pos w = Some p \<Longrightarrow> AllocatePool B w n = (r, w') \<Longrightarrow> pos w' = Some p"
  unfolding file_ok_def by (metis snd_conv)

lemma file_ok_pages: "file_ok B own pos file data \<Longrightarrow> pos w \<noteq> None \<Longrightarrow> pos (snd (AllocatePages B w n)) \<noteq> None"
  unfolding file_ok_def by blast

lemma file_ok_still_open: "file_ok B own pos file data \<Longrightarrow> pos w \<noteq> None \<Longrightarrow> pos (snd (File_Read B w file n)) \<noteq> None"
  unfolding file_ok_def by blast

text \<open>What the allocation of pages and the file services keep of the state of the firmware, mapping and loading keep.\<close>

lemma keeps_for_from: "(\<And>k. keeps Q (body k)) \<Longrightarrow> keeps Q (for_from i n body)"
  by (induction n arbitrary: i) (auto intro!: keeps_intros)

lemma keeps_fw_call: "(\<And>w. P w \<Longrightarrow> P (snd (f w))) \<Longrightarrow> keeps (\<lambda>s. P (fw s)) (fwcall f)"
  by (rule keepsI) (auto simp: fwcall_def split: prod.splits, metis snd_conv)

lemma keeps_fw_map:
  assumes "\<And>w k. P w \<Longrightarrow> P (snd (AllocatePages B w k))"
  shows "keeps (\<lambda>s. P (fw s)) (loader_paging_map B root a v f)"
proof -
  have set: "keeps (\<lambda>s. P (fw s)) (modify (\<lambda>s. s\<lparr>mem := g s\<rparr>))" for g by (rule keeps_modify) simp
  note basics = keeps_andthen keeps_prod keeps_if keeps_basic keeps_EFIERR keeps_fw_call set
  have "keeps (\<lambda>s. P (fw s)) (paging_next B e)" for e
    unfolding paging_next_def uefi_alloc_pages_def by (intro basics) (rule assms)
  then show ?thesis unfolding loader_paging_map_def Let_def by (intro basics)
qed

lemma keeps_fw_segment:
  assumes "\<And>w k. P w \<Longrightarrow> P (snd (AllocatePages B w k))" and "\<And>w k. P w \<Longrightarrow> P (snd (File_SetPosition B w file k))"
    and "\<And>w k. P w \<Longrightarrow> P (snd (File_Read B w file k))"
  shows "keeps (\<lambda>s. P (fw s)) (load_segment B file root ph)"
proof -
  have set: "keeps (\<lambda>s. P (fw s)) (modify (\<lambda>s. s\<lparr>mem := g s\<rparr>))" for g by (rule keeps_modify) simp
  have dead: "keeps (\<lambda>s. P (fw s)) (andthen k (\<lambda>_. efi_panic B msg))" for k msg
    by (rule keepsI) (auto simp: efi_panic_run elim!: andthen_InrE)
  have map: "keeps (\<lambda>s. P (fw s)) (loader_paging_map B root a v f)" for a v f using assms(1) by (rule keeps_fw_map)
  note basics = dead keeps_andthen keeps_prod keeps_if keeps_basic keeps_for_from set map keeps_fw_call
  show ?thesis unfolding load_segment_def Let_def file_read_def by (intro basics; (erule assms)?)
qed

lemma file_open_segment:
  assumes "file_ok B own pos file data"
  shows "keeps (\<lambda>s. pos (fw s) \<noteq> None) (load_segment B file root ph)"
  using file_ok_pages [OF assms] file_ok_position(1) [OF assms] file_ok_still_open [OF assms] by (intro keeps_fw_segment) simp_all

section \<open>One segment\<close>

lemma load_segment_run:
  assumes "load_segment B file root ph s = Inr (x, t)"
  obtains status phys w1 st2 bs w3 u where
    "AllocatePages B (fw s) ((p_memsz ph + 0xFFF) div 0x1000) = ((status, phys), w1)"
    and "\<not> EFI_ERROR B status"
    and "File_Read B (snd (File_SetPosition B w1 file (p_offset ph))) file (p_filesz ph) = ((st2, bs), w3)"
    and "for_from 0 (unat ((p_memsz ph + 0xFFF) div 0x1000)) (\<lambda>i.
        loader_paging_map B root (phys + push_bit 12 (of_nat i)) (seg_page ph i)
          (efi_elf_phdr_flags (ucast (p_flags ph))))
        (s\<lparr>fw := w3, mem := store_bytes (mem s) phys bs\<rparr>) = Inr ((), u)"
    and "t = (if 0 < p_memsz ph - p_filesz ph
              then u\<lparr>mem := memset (mem u) (phys + p_filesz ph) 0 (unat (p_memsz ph - p_filesz ph))\<rparr> else u)"
  using assms
  by (auto simp: load_segment_def Let_def file_read_def fwcall_def efi_panic_run seg_page_def
      elim!: andthen_InrE split: prod.splits if_splits)

text \<open>Arithmetic of a segment's pages.\<close>

lemma seg_pages_word:
  assumes "seg_pages ph \<le> 2 ^ 36"
  shows "unat ((p_memsz ph + 0xFFF) div 0x1000) = seg_pages ph"
proof -
  have "unat (p_memsz ph) + 4095 < 2 ^ 64"
  proof (rule ccontr)
    assume "\<not> unat (p_memsz ph) + 4095 < 2 ^ 64"
    then have "(2 ^ 64 :: nat) div 4096 \<le> seg_pages ph" unfolding seg_pages_def by (intro div_le_mono) simp
    then show False using assms by simp
  qed
  then have "unat (p_memsz ph + 0xFFF) = unat (p_memsz ph) + 4095"
    using unat_add_of_nat [of "p_memsz ph" 4095] by simp
  then show ?thesis by (simp add: unat_div seg_pages_def)
qed

lemma frame_page:
  assumes "aligned 12 phys" and "unat phys + n * 4096 \<le> 2 ^ 52" and "i < n"
  shows "aligned 12 (phys + push_bit 12 (of_nat i))" "unat (phys + push_bit 12 (of_nat i)) < 2 ^ 52"
proof -
  have u: "unat (phys + push_bit 12 (of_nat i)) = unat phys + 4096 * i"
    using assms by (intro unat_page_step) simp
  show "aligned 12 (phys + push_bit 12 (of_nat i))" using assms(1) by (simp add: aligned_def u)
  show "unat (phys + push_bit 12 (of_nat i)) < 2 ^ 52" using assms(2,3) by (simp add: u)
qed

lemma below_region:
  assumes "i < k" and "k + n < 2 ^ 64"
  shows "a + of_nat i \<notin> region (a + of_nat k) n"
proof
  assume "a + of_nat i \<in> region (a + of_nat k) n"
  then obtain j where j: "j < n" and "a + of_nat i = a + of_nat k + of_nat j" by (rule regionE)
  then have "(of_nat i :: u64) = of_nat (k + j)" by (simp add: add.assoc)
  then have "i = k + j" using assms j by (subst (asm) of_nat64_inj) simp_all
  then show False using assms(1) by simp
qed

lemma cleared_bytes:
  assumes "fs \<le> ms" and "ms < 2 ^ 64" and i: "i < ms"
  shows "store_bytes m (a + of_nat fs) (replicate (ms - fs) 0) (a + of_nat i) =
     (if i < fs then m (a + of_nat i) else 0)"
proof (cases "i < fs")
  case True
  have "a + of_nat i \<notin> region (a + of_nat fs) (ms - fs)"
    using True assms by (intro below_region) simp_all
  then show ?thesis using True by (simp add: store_outside)
next
  case False
  then have "store_bytes m (a + of_nat fs) (replicate (ms - fs) 0) (a + of_nat fs + of_nat (i - fs)) =
      replicate (ms - fs) 0 ! (i - fs)"
    using assms by (intro store_inside) simp_all
  moreover have "a + of_nat fs + of_nat (i - fs) = a + of_nat i"
    using False by (simp add: add.assoc flip: of_nat_add)
  ultimately show ?thesis using False i by simp
qed

lemma page_offset: "push_bit 12 (of_nat (i div 4096)) + of_nat (i mod 4096) = (of_nat i :: u64)"
  by (simp only: page_step mult_div_mod_eq flip: of_nat_add)

lemma seg_size_le: "unat (p_memsz ph) \<le> 4096 * seg_pages ph"
  by (simp add: seg_pages_def)

text \<open>An address of a range of pages, by its distance from the start of the range.\<close>

lemma range_addr:
  fixes b :: addr
  assumes "aligned 12 b" and lim: "unat b + i < 2 ^ 64"
  shows "indices (b + of_nat i) = indices (b + push_bit 12 (of_nat (i div 4096)))"
    and "(b + of_nat i) AND 0xFFF = of_nat (i mod 4096)"
proof -
  have al: "unat b mod 4096 = 0" using assms(1) by (simp add: aligned_def)
  have u: "unat (b + of_nat i) = unat b + i" using lim by (rule unat_add_of_nat)
  have "4096 * (i div 4096) \<le> i" by simp
  then have "unat (b + push_bit 12 (of_nat (i div 4096))) = unat b + 4096 * (i div 4096)"
    using lim by (intro unat_page_step) linarith
  then have "unat (b + of_nat i) div 4096 = unat (b + push_bit 12 (of_nat (i div 4096))) div 4096"
    using al by (auto simp: u)
  then show "indices (b + of_nat i) = indices (b + push_bit 12 (of_nat (i div 4096)))"
    unfolding indices_eq_iff by simp
  have "unat ((b + of_nat i) AND 0xFFF) = (unat b + i) mod 4096"
  proof -
    have "(0xFFF :: u64) = mask 12" by (simp add: mask_eq_exp_minus_1)
    then have "(b + of_nat i) AND 0xFFF = take_bit 12 (b + of_nat i)" by (simp only: take_bit_eq_mask)
    then show ?thesis by (simp only: unat_take12 u)
  qed
  also have "\<dots> = unat (of_nat (i mod 4096) :: u64)"
    using al by (simp add: unat_of_nat64 mod_add_left_eq [symmetric])
  finally show "(b + of_nat i) AND 0xFFF = of_nat (i mod 4096)" by (simp only: word_unat_eq_iff)
qed

lemma seg_addr:
  assumes ok: "seg_ok data ph" and i: "i < unat (p_memsz ph)"
  shows "i div 4096 < seg_pages ph"
    and "indices (p_vaddr ph + of_nat i) = indices (seg_page ph (i div 4096))"
    and "(p_vaddr ph + of_nat i) AND 0xFFF = of_nat (i mod 4096)"
proof -
  show "i div 4096 < seg_pages ph" using i unfolding seg_pages_def by (simp add: div_less_iff_less_mult)
  have "aligned 12 (p_vaddr ph)" "unat (p_vaddr ph) + i < 2 ^ 64"
    using ok i seg_size_le [of ph] by (auto simp: seg_ok_def)
  from range_addr [OF this] show "indices (p_vaddr ph + of_nat i) = indices (seg_page ph (i div 4096))"
    and "(p_vaddr ph + of_nat i) AND 0xFFF = of_nat (i mod 4096)"
    by (simp_all only: seg_page_def)
qed

text \<open>The state after the mapping loop: the file's part is in place, the rest not yet cleared.\<close>

text \<open>The first half of loading a segment: fresh pages, and the content of the file in them.\<close>

lemma load_segment_read:
  assumes alloc: "alloc_ok B own" and fok: "file_ok B own pos file data" "pos (fw s) \<noteq> None" and ok: "seg_ok data ph"
    and run: "load_segment B file root ph s = Inr (x, t)"
  obtains phys w bs u where
    "aligned 12 phys" "unat phys + seg_pages ph * 4096 \<le> 2 ^ 52" "region phys (seg_pages ph * 4096) \<inter> own (fw s) = {}"
    "own (fw s) \<union> region phys (seg_pages ph * 4096) \<subseteq> own w"
    "length bs = unat (p_filesz ph)" "\<forall>i < length bs. bs ! i = data ! (unat (p_offset ph) + i)"
    "for_from 0 (seg_pages ph) (\<lambda>i. loader_paging_map B root (phys + push_bit 12 (of_nat i)) (seg_page ph i)
       (efi_elf_phdr_flags (ucast (p_flags ph)))) (s\<lparr>fw := w, mem := store_bytes (mem s) phys bs\<rparr>) = Inr ((), u)"
    "t = (if 0 < p_memsz ph - p_filesz ph
          then u\<lparr>mem := memset (mem u) (phys + p_filesz ph) 0 (unat (p_memsz ph - p_filesz ph))\<rparr> else u)"
proof -
  have pages: "unat ((p_memsz ph + 0xFFF) div 0x1000) = seg_pages ph"
    using ok by (intro seg_pages_word) (simp add: seg_ok_def)
  from run obtain status phys w1 st2 bs w3 u where
    al: "AllocatePages B (fw s) ((p_memsz ph + 0xFFF) div 0x1000) = ((status, phys), w1)"
    and st: "\<not> EFI_ERROR B status"
    and rd: "File_Read B (snd (File_SetPosition B w1 file (p_offset ph))) file (p_filesz ph) = ((st2, bs), w3)"
    and loop: "for_from 0 (seg_pages ph) (\<lambda>i. loader_paging_map B root (phys + push_bit 12 (of_nat i)) (seg_page ph i)
        (efi_elf_phdr_flags (ucast (p_flags ph)))) (s\<lparr>fw := w3, mem := store_bytes (mem s) phys bs\<rparr>) = Inr ((), u)"
    and t: "t = (if 0 < p_memsz ph - p_filesz ph
              then u\<lparr>mem := memset (mem u) (phys + p_filesz ph) 0 (unat (p_memsz ph - p_filesz ph))\<rparr> else u)"
    by (rule load_segment_run) (simp add: pages)
  note phys = alloc_okD [OF alloc al st, unfolded pages]
  have w1: "pos w1 \<noteq> None" using file_ok_pages [OF fok] al by (metis snd_conv)
  have bs: "bs = take (unat (p_filesz ph)) (drop (unat (p_offset ph)) data)" "own w1 \<subseteq> own w3"
    using file_ok_read [OF fok(1) _ rd] file_ok_position [OF fok(1) w1, of "p_offset ph"] by auto
  have len: "length bs = unat (p_filesz ph)" using ok by (auto simp: bs(1) seg_ok_def min_def)
  show thesis
  proof (rule that [OF _ _ _ _ len _ loop t])
    show "\<forall>i < length bs. bs ! i = data ! (unat (p_offset ph) + i)" using ok len by (auto simp: bs(1) seg_ok_def)
  qed (use phys bs(2) in blast)+
qed

lemma load_segment_mapped:
  assumes inv: "paging_inv B own root s" and fok: "file_ok B own pos file data" "pos (fw s) \<noteq> None" and ok: "seg_ok data ph"
    and run: "load_segment B file root ph s = Inr (x, t)"
  obtains phys u where
    "aligned 12 phys" "unat phys + seg_pages ph * 4096 \<le> 2 ^ 52"
    "region phys (seg_pages ph * 4096) \<inter> own (fw s) = {}"
    "region phys (seg_pages ph * 4096) \<subseteq> own (fw u) - table_bytes root (mem u)"
    "paging_inv B own root u" "tree_grows own root s u"
    "\<forall>i < unat (p_filesz ph). mem u (phys + of_nat i) = data ! (unat (p_offset ph) + i)"
    "\<forall>k < seg_pages ph. \<forall>v. table_index 39 v \<noteq> 510 \<longrightarrow> indices v = indices (seg_page ph k) \<longrightarrow>
       page_entry (mem u) root v = Some ((phys + push_bit 12 (of_nat k)) OR efi_elf_phdr_flags (ucast (p_flags ph)))"
    "\<forall>v. table_index 39 v \<noteq> 510 \<longrightarrow> indices v \<notin> (\<lambda>i. indices (seg_page ph i)) ` {..<seg_pages ph} \<longrightarrow>
       page_entry (mem u) root v = page_entry (mem s) root v"
    "t = (if 0 < p_memsz ph - p_filesz ph
          then u\<lparr>mem := memset (mem u) (phys + p_filesz ph) 0 (unat (p_memsz ph - p_filesz ph))\<rparr> else u)"
proof -
  let ?n = "seg_pages ph" and ?f = "efi_elf_phdr_flags (ucast (p_flags ph))"
  have alloc: "alloc_ok B own" using inv by (simp add: paging_inv_def)
  obtain phys w3 bs u where phys: "aligned 12 phys" "unat phys + ?n * 4096 \<le> 2 ^ 52" "region phys (?n * 4096) \<inter> own (fw s) = {}"
      "own (fw s) \<union> region phys (?n * 4096) \<subseteq> own w3"
    and bs: "length bs = unat (p_filesz ph)" "\<forall>i < length bs. bs ! i = data ! (unat (p_offset ph) + i)"
    and loop: "for_from 0 ?n (\<lambda>i. loader_paging_map B root (phys + push_bit 12 (of_nat i)) (seg_page ph i) ?f)
        (s\<lparr>fw := w3, mem := store_bytes (mem s) phys bs\<rparr>) = Inr ((), u)"
    and t: "t = (if 0 < p_memsz ph - p_filesz ph
          then u\<lparr>mem := memset (mem u) (phys + p_filesz ph) 0 (unat (p_memsz ph - p_filesz ph))\<rparr> else u)"
    using alloc fok ok run by (rule load_segment_read)
  let ?F = "region phys (?n * 4096)" and ?s1 = "s\<lparr>fw := w3, mem := store_bytes (mem s) phys bs\<rparr>"
  have small: "region phys (length bs) \<subseteq> ?F"
    using ok seg_size_le [of ph] by (intro region_mono) (simp add: bs(1) seg_ok_def)
  have fresh: "?F \<inter> table_bytes root (mem s) = {}"
    using phys(3) inv table_bytes_owned unfolding paging_inv_def by blast
  have out: "\<forall>x. x \<notin> ?F \<longrightarrow> mem ?s1 x = mem s x"
    using small by (auto intro!: store_outside)
  have own: "own (fw s) \<subseteq> own (fw ?s1)" and FU: "?F \<subseteq> own (fw ?s1)" using phys(4) by auto
  note w = write_fresh [where t = ?s1, OF inv fresh out own]
  have g1: "tree_grows own root s ?s1"
    using inv tree_grows_refl fresh phys(3) out own by (rule write_fresh_grows)
  have FT: "?F \<subseteq> own (fw ?s1) - table_bytes root (mem ?s1)" using FU fresh w(2) by blast
  have eff: "paging_inv B own root u \<and> tree_grows own root ?s1 u \<and>
     (\<forall>i < ?n. \<forall>v. table_index 39 v \<noteq> 510 \<longrightarrow> indices v = indices (seg_page ph i) \<longrightarrow>
        page_entry (mem u) root v = Some ((phys + push_bit 12 (of_nat i)) OR ?f)) \<and>
     (\<forall>v. table_index 39 v \<noteq> 510 \<longrightarrow> indices v \<notin> (\<lambda>i. indices (seg_page ph i)) ` {..<?n} \<longrightarrow>
        page_entry (mem u) root v = page_entry (mem ?s1) root v)"
  proof (rule pm.map_range [OF loop w(1)])
    show "inj_on (\<lambda>i. indices (seg_page ph i)) {..<?n}"
      unfolding seg_page_def by (rule range_pages_distinct) (use ok in \<open>auto simp: seg_ok_def\<close>)
    show "table_index 39 (seg_page ph i) \<noteq> 510" if "i < ?n" for i using ok that by (simp add: seg_ok_def)
    show "((phys + push_bit 12 (of_nat i)) OR ?f) AND PAGE_PRESENT \<noteq> 0" if "i < ?n" for i
      using entry_frame(2) [OF frame_page [OF phys(1,2) that] phdr_flag_bits] .
  qed
  have keep: "mem u y = mem ?s1 y" "y \<notin> table_bytes root (mem u)" "y \<in> own (fw u)" if "y \<in> ?F" for y
    using eff FT that unfolding tree_grows_def by blast+
  show thesis
  proof (rule that [OF phys(1,2,3) _ _ _ _ _ _ t])
    show "\<forall>i < unat (p_filesz ph). mem u (phys + of_nat i) = data ! (unat (p_offset ph) + i)"
    proof (intro allI impI)
      fix i assume i: "i < unat (p_filesz ph)"
      then have "phys + of_nat i \<in> ?F" using small by (auto simp: bs(1) intro: in_region)
      then have "mem u (phys + of_nat i) = mem ?s1 (phys + of_nat i)" by (rule keep)
      also have "\<dots> = bs ! i" using i bs(1) unat_lt64 [of "p_filesz ph"] by (simp add: store_inside)
      finally show "mem u (phys + of_nat i) = data ! (unat (p_offset ph) + i)" using i bs by simp
    qed
    show "\<forall>v. table_index 39 v \<noteq> 510 \<longrightarrow> indices v \<notin> (\<lambda>i. indices (seg_page ph i)) ` {..<?n} \<longrightarrow>
        page_entry (mem u) root v = page_entry (mem s) root v"
      using eff w(4) by simp
    show "tree_grows own root s u" using g1 eff tree_grows_trans by blast
  qed (use keep eff in blast)+
qed

text \<open>
  Loading a segment keeps the tables well formed, leaves the memory and the
  pages of everything else alone, and puts the segment in place.
\<close>

lemma load_segment_effect:
  assumes inv: "paging_inv B own root s" and fok: "file_ok B own pos file data" "pos (fw s) \<noteq> None" and ok: "seg_ok data ph"
    and run: "load_segment B file root ph s = Inr (x, t)"
  shows "paging_inv B own root t" and "tree_grows own root s t"
    and "seg_loaded data ph (own (fw t) - own (fw s)) root (mem t)"
    and "\<And>v. table_index 39 v \<noteq> 510 \<Longrightarrow> indices v \<notin> (\<lambda>i. indices (seg_page ph i)) ` {..<seg_pages ph} \<Longrightarrow>
          page_entry (mem t) root v = page_entry (mem s) root v"
proof -
  let ?fs = "unat (p_filesz ph)" and ?ms = "unat (p_memsz ph)" and ?n = "seg_pages ph"
  let ?f = "efi_elf_phdr_flags (ucast (p_flags ph))"
  obtain phys u where phys: "aligned 12 phys" "unat phys + ?n * 4096 \<le> 2 ^ 52"
      "region phys (?n * 4096) \<inter> own (fw s) = {}"
    and F: "region phys (?n * 4096) \<subseteq> own (fw u) - table_bytes root (mem u)"
    and iu: "paging_inv B own root u" and gu: "tree_grows own root s u"
    and bytes: "\<forall>i < ?fs. mem u (phys + of_nat i) = data ! (unat (p_offset ph) + i)"
    and here: "\<forall>k < ?n. \<forall>v. table_index 39 v \<noteq> 510 \<longrightarrow> indices v = indices (seg_page ph k) \<longrightarrow>
       page_entry (mem u) root v = Some ((phys + push_bit 12 (of_nat k)) OR ?f)"
    and there: "\<forall>v. table_index 39 v \<noteq> 510 \<longrightarrow> indices v \<notin> (\<lambda>i. indices (seg_page ph i)) ` {..<?n} \<longrightarrow>
       page_entry (mem u) root v = page_entry (mem s) root v"
    and t: "t = (if 0 < p_memsz ph - p_filesz ph
          then u\<lparr>mem := memset (mem u) (phys + p_filesz ph) 0 (unat (p_memsz ph - p_filesz ph))\<rparr> else u)"
    by (rule load_segment_mapped [OF inv fok ok run])
  have le: "?fs \<le> ?ms" using ok by (simp add: seg_ok_def)
  have diff: "unat (p_memsz ph - p_filesz ph) = ?ms - ?fs" using le by (simp add: unat_sub_if_size)
  have mt: "mem t = store_bytes (mem u) (phys + of_nat ?fs) (replicate (?ms - ?fs) 0)"
    using le diff unat_lt64 [of "p_memsz ph"] by (auto simp: t memset_store word_less_nat_alt)
  have ft: "fw t = fw u" by (simp add: t)
  have zone: "region (phys + of_nat ?fs) (?ms - ?fs) \<subseteq> region phys (?n * 4096)"
    using le seg_size_le [of ph] by (intro subregion) simp
  have out: "\<forall>x. x \<notin> region phys (?n * 4096) \<longrightarrow> mem t x = mem u x"
    using zone by (auto simp: mt intro!: store_outside)
  have F': "region phys (?n * 4096) \<inter> table_bytes root (mem u) = {}" using F by blast
  note w = write_fresh [where t = t, OF iu F' out eq_refl [OF ft [symmetric, THEN arg_cong [where f = own]]]]
  show "paging_inv B own root t" by (rule w(1))
  show "tree_grows own root s t"
    by (rule write_fresh_grows [OF iu gu F' phys(3) out]) (simp add: ft)
  show "page_entry (mem t) root v = page_entry (mem s) root v"
    if "table_index 39 v \<noteq> 510" "indices v \<notin> (\<lambda>i. indices (seg_page ph i)) ` {..<?n}" for v
    using w(4) [OF that(1)] there that by simp
  show "seg_loaded data ph (own (fw t) - own (fw s)) root (mem t)"
    unfolding seg_loaded_def
  proof (intro allI impI exI conjI)
    fix i assume i: "i < ?ms"
    note sa = seg_addr [OF ok i]
    have idx: "table_index 39 (p_vaddr ph + of_nat i) \<noteq> 510"
      using sa ok unfolding seg_ok_def indices_def by auto
    have "page_entry (mem t) root (p_vaddr ph + of_nat i) = Some ((phys + push_bit 12 (of_nat (i div 4096))) OR ?f)"
      using w(4) [OF idx] here sa(1,2) idx by simp
    then have "translate (mem t) root (p_vaddr ph + of_nat i) =
        Some (phys + push_bit 12 (of_nat (i div 4096)) + of_nat (i mod 4096))"
      using frame_page [OF phys(1,2) sa(1)] phdr_flag_bits sa(3) by (subst translate_entry) simp_all
    then show "translate (mem t) root (p_vaddr ph + of_nat i) = Some (phys + of_nat i)"
      by (simp only: add.assoc page_offset)
    show "mem t (phys + of_nat i) = segment_byte data ph i"
      using cleared_bytes [OF le _ i] bytes unat_lt64 [of "p_memsz ph"] by (simp add: mt segment_byte_def)
    have "phys + of_nat i \<in> region phys (?n * 4096)" using i seg_size_le [of ph] by (intro in_region) simp
    then show "phys + of_nat i \<in> own (fw t) - own (fw s) - table_bytes root (mem t)" using F w(2) ft phys(3) by auto
  qed
qed

section \<open>All segments\<close>

lemma ucast_small: "k < 2 ^ 31 \<Longrightarrow> (ucast (of_nat k :: u64) :: u32) = of_nat k"
  by (simp add: unsigned_of_nat take_bit_nat_eq_self)

lemma phdrs_size_nat:
  assumes "unat (e_phnum h) * unat (e_phentsize h) < 2 ^ 31"
  shows "phdrs_size h = of_nat (unat (e_phnum h) * unat (e_phentsize h))"
proof -
  define k where "k = unat (e_phnum h) * unat (e_phentsize h)"
  have k: "k < 2 ^ 31" using assms by (simp add: k_def)
  have "(ucast (e_phnum h) * ucast (e_phentsize h) :: u32) = of_nat k" by (simp add: k_def)
  then have "phdrs_size h = slot_int (of_nat k)"
    unfolding phdrs_size_def slot_int_def ucast_small [OF k] by (rule arg_cong)
  also have "\<dots> = of_nat k" using k by (rule slot_int_small(1))
  finally show ?thesis unfolding k_def .
qed

lemma read_phdr_cong:
  assumes "\<And>j. j < 56 \<Longrightarrow> m (a + of_nat j) = m' (b + of_nat j)"
  shows "read_phdr m a = read_phdr m' b"
proof -
  have l: "load_bytes m (a + of_nat k) n = load_bytes m' (b + of_nat k) n" if "k + n \<le> 56" for k n
    using assms [of "k + _"] that by (intro nth_equalityI) (simp_all add: add.assoc flip: of_nat_add)
  show ?thesis
    using l [of 0 4] l [of 4 4] l [of 8 8] l [of 16 8] l [of 24 8] l [of 32 8] l [of 40 8] l [of 48 8]
    by (simp add: read_phdr_def rd32_def rd64_def)
qed

text \<open>What a kernel file has to satisfy: its headers lie in the file, its loadable segments do not share pages.\<close>

definition loadable :: "u8 list \<Rightarrow> elf64_ehdr \<Rightarrow> nat \<Rightarrow> bool" where
  "loadable data h k \<longleftrightarrow> p_type (phdr_in data h k) = PT_LOAD"

definition seg_page_set :: "elf64_phdr \<Rightarrow> nat list set" where
  "seg_page_set ph = (\<lambda>i. indices (seg_page ph i)) ` {..<seg_pages ph}"

definition kernel_ok :: "u8 list \<Rightarrow> elf64_ehdr \<Rightarrow> bool" where
  "kernel_ok data h \<longleftrightarrow>
     56 \<le> unat (e_phentsize h) \<and> unat (e_phnum h) * unat (e_phentsize h) < 2 ^ 31 \<and>
     unat (e_phoff h) + unat (e_phnum h) * unat (e_phentsize h) \<le> length data \<and> length data < 2 ^ 64 \<and>
     (\<forall>k < unat (e_phnum h). loadable data h k \<longrightarrow>
        seg_ok data (phdr_in data h k) \<and>
        (\<forall>j < k. loadable data h j \<longrightarrow>
           seg_page_set (phdr_in data h j) \<inter> seg_page_set (phdr_in data h k) = {}))"

text \<open>
  The state of the loop: the table of headers intact, the segments before the \<open>k\<close>-th in place, and not in the
  memory of the table, which is given back at the end.
\<close>

definition loop_inv :: "'w env \<Rightarrow> ('w \<Rightarrow> addr set) \<Rightarrow> addr \<Rightarrow> u8 list \<Rightarrow> elf64_ehdr \<Rightarrow> addr \<Rightarrow> nat \<Rightarrow>
    ('w, 'z) machine_scheme \<Rightarrow> bool" where
  "loop_inv B own root data h phdrs k s \<longleftrightarrow>
     paging_inv B own root s \<and>
     region phdrs (unat (e_phnum h) * unat (e_phentsize h)) \<subseteq> own (fw s) - table_bytes root (mem s) \<and>
     (\<forall>j < unat (e_phnum h) * unat (e_phentsize h).
        mem s (phdrs + of_nat j) = data ! (unat (e_phoff h) + j)) \<and>
     (\<forall>j < k. loadable data h j \<longrightarrow>
        seg_loaded data (phdr_in data h j) (own (fw s) - region phdrs (unat (e_phnum h) * unat (e_phentsize h))) root (mem s))"

lemma seg_index:
  assumes ok: "seg_ok data ph" and i: "i < unat (p_memsz ph)"
  shows "table_index 39 (p_vaddr ph + of_nat i) \<noteq> 510" "indices (p_vaddr ph + of_nat i) \<in> seg_page_set ph"
  using seg_addr [OF ok i] ok unfolding seg_ok_def indices_def seg_page_set_def by auto

text \<open>A segment in place stays there while another one is loaded.\<close>

lemma seg_loaded_mono: "seg_loaded data ph U root m \<Longrightarrow> U \<subseteq> V \<Longrightarrow> seg_loaded data ph V root m"
  unfolding seg_loaded_def by blast

lemma seg_loaded_keep:
  assumes l: "seg_loaded data ph (own (fw s) - Z) root (mem s)" and ok: "seg_ok data ph"
    and grows: "tree_grows own root s t" and disj: "seg_page_set ph \<inter> X = {}"
    and same: "\<And>v. table_index 39 v \<noteq> 510 \<Longrightarrow> indices v \<notin> X \<Longrightarrow> page_entry (mem t) root v = page_entry (mem s) root v"
  shows "seg_loaded data ph (own (fw t) - Z) root (mem t)"
  unfolding seg_loaded_def
proof (intro allI impI)
  fix i assume i: "i < unat (p_memsz ph)"
  let ?v = "p_vaddr ph + of_nat i"
  obtain a where a: "translate (mem s) root ?v = Some a" "mem s a = segment_byte data ph i"
    "a \<in> own (fw s) - Z - table_bytes root (mem s)"
    using l i unfolding seg_loaded_def by blast
  have "page_entry (mem t) root ?v = page_entry (mem s) root ?v"
    using seg_index [OF ok i] disj by (intro same) auto
  then have "translate (mem t) root ?v = Some a" using a(1) by (simp add: translate_def)
  moreover have "mem t a = mem s a" "a \<in> own (fw t) - Z - table_bytes root (mem t)"
    using grows a(3) unfolding tree_grows_def by blast+
  ultimately show "\<exists>a. translate (mem t) root ?v = Some a \<and> mem t a = segment_byte data ph i \<and>
      a \<in> own (fw t) - Z - table_bytes root (mem t)" using a(2) by auto
qed

lemma loop_inv_phdr:
  assumes inv: "loop_inv B own root data h phdrs k s" and kok: "kernel_ok data h" and k: "k < unat (e_phnum h)"
  shows "read_phdr (mem s) (phdrs + of_nat (k * unat (e_phentsize h))) = phdr_in data h k"
  unfolding phdr_in_def
proof (rule read_phdr_cong)
  fix j :: nat assume j: "j < 56"
  let ?es = "unat (e_phentsize h)"
  have "Suc k * ?es \<le> unat (e_phnum h) * ?es" using k by (intro mult_le_mono1) simp
  then have lt: "k * ?es + j < unat (e_phnum h) * ?es" using j kok by (simp add: kernel_ok_def)
  have "mem s (phdrs + of_nat (k * ?es + j)) = data ! (unat (e_phoff h) + (k * ?es + j))"
    using inv lt unfolding loop_inv_def by blast
  moreover have "data_mem data (e_phoff h + of_nat (k * ?es + j)) = data ! (unat (e_phoff h) + (k * ?es + j))"
    using kok lt unat_add_of_nat [of "e_phoff h" "k * ?es + j"] by (simp add: data_mem_def kernel_ok_def)
  ultimately show "mem s (phdrs + of_nat (k * ?es) + of_nat j) = data_mem data (e_phoff h + of_nat (k * ?es) + of_nat j)"
    by (simp add: add.assoc)
qed

text \<open>One round of the loop.\<close>

definition round :: "'w env \<Rightarrow> addr \<Rightarrow> elf64_ehdr \<Rightarrow> addr \<Rightarrow> addr \<Rightarrow> nat \<Rightarrow> ('w, 'z, unit) run" where
  "round B file h pml4 phdrs k =
     andthen (gets (\<lambda>s. read_phdr (mem s) (phdrs + of_nat (k * unat (e_phentsize h))))) (\<lambda>ph.
     if p_type ph = PT_LOAD then load_segment B file pml4 ph else ret ())"

lemma round_inv:
  assumes inv: "loop_inv B own root data h phdrs k s" and kok: "kernel_ok data h" and fok: "file_ok B own pos file data" "pos (fw s) \<noteq> None"
    and k: "k < unat (e_phnum h)" and run: "round B file h root phdrs k s = Inr (x, t)"
  shows "loop_inv B own root data h phdrs (Suc k) t \<and> tree_grows own root s t \<and> pos (fw t) \<noteq> None"
proof -
  let ?ph = "phdr_in data h k" and ?R = "region phdrs (unat (e_phnum h) * unat (e_phentsize h))"
  have r: "round B file h root phdrs k s = (if loadable data h k then load_segment B file root ?ph else ret ()) s"
    unfolding round_def andthen_gets loop_inv_phdr [OF inv kok k] loadable_def by (rule refl)
  show ?thesis
  proof (cases "loadable data h k")
    case False
    then have "t = s" using run by (simp add: r)
    then show ?thesis using inv False fok(2) by (auto simp: loop_inv_def less_Suc_eq)
  next
    case True
    then have ls: "load_segment B file root ?ph s = Inr (x, t)" using run by (simp add: r)
    have pinv: "paging_inv B own root s" using inv by (simp add: loop_inv_def)
    have ok: "seg_ok data ?ph" using kok k True by (simp add: kernel_ok_def)
    note e = load_segment_effect [OF pinv fok ok ls]
    have old: "seg_loaded data (phdr_in data h j) (own (fw t) - ?R) root (mem t)" if "j < k" "loadable data h j" for j
    proof (rule seg_loaded_keep [OF _ _ e(2)])
      show "seg_loaded data (phdr_in data h j) (own (fw s) - ?R) root (mem s)"
        using inv that by (simp add: loop_inv_def)
      show "seg_ok data (phdr_in data h j)" using kok k that by (auto simp: kernel_ok_def)
      show "seg_page_set (phdr_in data h j) \<inter> seg_page_set ?ph = {}"
        using kok k True that by (simp add: kernel_ok_def)
      show "page_entry (mem t) root v = page_entry (mem s) root v"
        if "table_index 39 v \<noteq> 510" "indices v \<notin> seg_page_set ?ph" for v
        using e(4) that by (simp add: seg_page_set_def)
    qed
    have R: "?R \<subseteq> own (fw s) - table_bytes root (mem s)"
      using inv by (simp add: loop_inv_def)
    have kept: "mem t y = mem s y \<and> y \<in> own (fw t) - table_bytes root (mem t)" if "y \<in> ?R" for y
      using e(2) R that unfolding tree_grows_def by blast
    have new: "seg_loaded data ?ph (own (fw t) - ?R) root (mem t)"
      by (rule seg_loaded_mono [OF e(3)]) (use R in blast)
    show ?thesis
      unfolding loop_inv_def
    proof (intro conjI allI impI)
      show "?R \<subseteq> own (fw t) - table_bytes root (mem t)"
        using kept by blast
      show "mem t (phdrs + of_nat j) = data ! (unat (e_phoff h) + j)"
        if "j < unat (e_phnum h) * unat (e_phentsize h)" for j
        using kept [OF in_region [OF that]] inv that by (simp add: loop_inv_def)
      show "seg_loaded data (phdr_in data h j) (own (fw t) - ?R) root (mem t)" if "j < Suc k" "loadable data h j" for j
        using old new that by (cases "j = k") auto
      show "pos (fw t) \<noteq> None" using file_open_segment [OF fok(1)] ls fok(2) by (rule keepsD)
    qed (rule e(1,2))+
  qed
qed

text \<open>
  The loop is \<^verbatim>\<open>e_phnum\<close> rounds: its fuel never runs out when the table of headers
  does not wrap around the end of memory.
\<close>

lemma phdr_loop_rounds:
  fixes phdrs :: addr and B :: "'w env"
  assumes es: "0 < unat (e_phentsize h)" and sz: "unat (e_phnum h) * unat (e_phentsize h) < 2 ^ 31"
    and wrap: "unat phdrs + unat (e_phnum h) * unat (e_phentsize h) < 2 ^ 64" and n: "k + n = unat (e_phnum h)"
  shows "(phdr_loop (Suc n) B file h pml4 phdrs (phdrs + of_nat (k * unat (e_phentsize h))) :: ('w, 'z, unit) run) =
     for_from k n (round B file h pml4 phdrs)"
  using n
proof (induction n arbitrary: k)
  case 0
  then show ?case by (simp add: phdrs_size_nat [OF sz])
next
  case (Suc n)
  let ?es = "unat (e_phentsize h)" and ?N = "unat (e_phnum h)"
  have lt: "k * ?es < ?N * ?es" using Suc.prems es by simp
  have "unat (phdrs + of_nat (k * ?es)) = unat phdrs + k * ?es"
    using lt wrap by (intro unat_add_of_nat) linarith
  moreover have "unat (phdrs + of_nat (?N * ?es)) = unat phdrs + ?N * ?es"
    using wrap by (rule unat_add_of_nat)
  ultimately have before: "phdrs + of_nat (k * ?es) < phdrs + phdrs_size h"
    using lt unfolding word_less_nat_alt phdrs_size_nat [OF sz] by linarith
  have advance: "phdrs + of_nat (k * ?es) + ucast (e_phentsize h) = phdrs + of_nat (Suc k * ?es)"
    by (simp add: algebra_simps)
  have "Suc k + n = ?N" using Suc.prems by simp
  then have IH: "(phdr_loop (Suc n) B file h pml4 phdrs (phdrs + of_nat (Suc k * ?es)) :: ('w, 'z, unit) run) =
      for_from (Suc k) n (round B file h pml4 phdrs)" by (rule Suc.IH)
  show ?case
    by (subst phdr_loop.simps(2))
       (simp only: before if_True advance IH for_from.simps(2) andthen_assoc round_def [where k = k])
qed

text \<open>Reading the table of headers puts the file's bytes into fresh pool memory.\<close>

lemma parse_phdrs_run:
  assumes "loader_parse_phdrs B file h s = Inr ((status, phdrs), t)"
  obtains st1 w1 st2 w2 st3 bs w3 where
    "File_SetPosition B (fw s) file (e_phoff h) = (st1, w1)"
    "AllocatePool B w1 (ucast (e_phnum h) * ucast (e_phentsize h)) = ((st2, phdrs), w2)" "\<not> EFI_ERROR B st2"
    "File_Read B w2 file (ucast (e_phnum h) * ucast (e_phentsize h)) = ((st3, bs), w3)"
    "t = s\<lparr>fw := w3, mem := store_bytes (mem s) phdrs bs\<rparr>"
  using assms
  by (auto simp: loader_parse_phdrs_def Let_def file_read_def fwcall_def EFIERR_Inr
      elim!: andthen_InrE split: prod.splits)

lemma phdrs_size_unat:
  assumes "unat (e_phnum h) * unat (e_phentsize h) < 2 ^ 31"
  shows "unat (ucast (e_phnum h) * ucast (e_phentsize h) :: u64) = unat (e_phnum h) * unat (e_phentsize h)"
proof -
  have "(ucast (e_phnum h) * ucast (e_phentsize h) :: u64) = of_nat (unat (e_phnum h) * unat (e_phentsize h))"
    by simp
  moreover have "unat (of_nat (unat (e_phnum h) * unat (e_phentsize h)) :: u64) = unat (e_phnum h) * unat (e_phentsize h)"
    using assms by (intro unat_of_nat64) simp
  ultimately show ?thesis by (simp only:)
qed

lemma parse_phdrs_inv:
  assumes inv: "paging_inv B own root s" and pool: "pool_ok B own" and fok: "file_ok B own pos file data" "pos (fw s) \<noteq> None"
    and kok: "kernel_ok data h" and run: "loader_parse_phdrs B file h s = Inr ((status, phdrs), t)"
  shows "loop_inv B own root data h phdrs 0 t \<and> pos (fw t) \<noteq> None \<and>
    unat phdrs + unat (e_phnum h) * unat (e_phentsize h) < 2 ^ 64"
proof -
  let ?sz = "unat (e_phnum h) * unat (e_phentsize h)"
  have sz: "unat (ucast (e_phnum h) * ucast (e_phentsize h) :: u64) = ?sz"
    using kok by (intro phdrs_size_unat) (simp add: kernel_ok_def)
  obtain st1 w1 st2 w2 st3 bs w3 where
    sp: "File_SetPosition B (fw s) file (e_phoff h) = (st1, w1)" and
    ap: "AllocatePool B w1 (ucast (e_phnum h) * ucast (e_phentsize h)) = ((st2, phdrs), w2)" "\<not> EFI_ERROR B st2" and
    rd: "File_Read B w2 file (ucast (e_phnum h) * ucast (e_phentsize h)) = ((st3, bs), w3)" and
    t: "t = s\<lparr>fw := w3, mem := store_bytes (mem s) phdrs bs\<rparr>"
    using run by (rule parse_phdrs_run)
  let ?R = "region phdrs ?sz"
  have R: "unat phdrs + ?sz \<le> 2 ^ 52" "?R \<inter> own w1 = {}" "own w1 \<union> ?R \<subseteq> own w2"
    using pool ap unfolding pool_ok_def sz [symmetric] by blast+
  have w1: "own (fw s) \<subseteq> own w1" and p1: "pos w1 = Some (unat (e_phoff h))"
    using file_ok_position [OF fok, of "e_phoff h"] sp by simp_all
  have p2: "pos w2 = Some (unat (e_phoff h))" using file_ok_alloc [OF fok(1) p1 ap(1)] .
  have bs: "bs = take ?sz (drop (unat (e_phoff h)) data)" and w3: "own w2 \<subseteq> own w3" "pos w3 \<noteq> None"
    using file_ok_read [OF fok(1) p2 rd] unfolding sz by simp_all
  have len: "length bs = ?sz" using kok by (auto simp: bs kernel_ok_def min_def)
  have fresh: "?R \<inter> table_bytes root (mem s) = {}"
    using R(2) w1 inv table_bytes_owned unfolding paging_inv_def by blast
  have out: "\<forall>x. x \<notin> ?R \<longrightarrow> mem t x = mem s x" by (simp add: t len store_outside)
  have own: "own (fw s) \<subseteq> own (fw t)" using w1 R(3) w3(1) by (auto simp: t)
  note w = write_fresh [where t = t, OF inv fresh out own]
  have "mem t (phdrs + of_nat j) = data ! (unat (e_phoff h) + j)" if "j < ?sz" for j
    using that kok len by (simp add: t store_inside kernel_ok_def) (simp add: bs kernel_ok_def)
  moreover have "?R \<subseteq> own (fw t) - table_bytes root (mem t)" using R(3) w3(1) fresh w(2) by (auto simp: t)
  ultimately show ?thesis using w(1) R(1) w3(2) by (simp add: loop_inv_def t)
qed

lemma free_mem: "free B p s = Inr (x, t) \<Longrightarrow> mem t = mem s"
  by (auto simp: free_def fwcall_def EFIERR_Inr elim!: andthen_InrE split: prod.splits)

text \<open>The three parts of the function: the table is read, the segments are loaded, the table is given back.\<close>

lemma kernel_phdrs_stages:
  assumes inv: "paging_inv B own root s" and pool: "pool_ok B own" and fok: "file_ok B own pos file data" "pos (fw s) \<noteq> None"
    and kok: "kernel_ok data h" and run: "loader_kernel_phdrs B file h root s = Inr (x, t)"
  obtains status phdrs s1 u where "loader_parse_phdrs B file h s = Inr ((status, phdrs), s1)"
    and "for_from 0 (unat (e_phnum h)) (round B file h root phdrs) s1 = Inr ((), u)"
    and "loop_inv B own root data h phdrs (unat (e_phnum h)) u" and "tree_grows own root s1 u"
    and "free B phdrs u = Inr (x, t)"
proof -
  let ?N = "unat (e_phnum h)"
  obtain status phdrs s1 u where p: "loader_parse_phdrs B file h s = Inr ((status, phdrs), s1)"
    and l: "phdr_loop (Suc ?N) B file h root phdrs phdrs s1 = Inr ((), u)" and f: "free B phdrs u = Inr (x, t)"
    using run by (auto simp: loader_kernel_phdrs_def elim!: andthen_InrE)
  note start = parse_phdrs_inv [OF inv pool fok kok p]
  have "phdr_loop (Suc ?N) B file h root phdrs (phdrs + of_nat (0 * unat (e_phentsize h))) s1 =
      for_from 0 ?N (round B file h root phdrs) s1"
    using start kok by (subst phdr_loop_rounds) (auto simp: kernel_ok_def)
  then have "for_from 0 ?N (round B file h root phdrs) s1 = Inr ((), u)"
    using l by (simp del: phdr_loop.simps)
  moreover from this have "loop_inv B own root data h phdrs (0 + ?N) u \<and> tree_grows own root s1 u \<and> pos (fw u) \<noteq> None"
  proof (rule for_from_inv)
    show "loop_inv B own root data h phdrs 0 s1 \<and> tree_grows own root s1 s1 \<and> pos (fw s1) \<noteq> None" using start by simp
    show "loop_inv B own root data h phdrs (Suc k) c' \<and> tree_grows own root s1 c' \<and> pos (fw c') \<noteq> None"
      if "k < 0 + ?N" "loop_inv B own root data h phdrs k c \<and> tree_grows own root s1 c \<and> pos (fw c) \<noteq> None" "round B file h root phdrs k c = Inr (v, c')"
      for k c c' v
      using round_inv [OF _ kok fok(1), of root phdrs k c v c'] tree_grows_trans [of own root s1 c c'] that by simp
  qed
  ultimately show thesis using that p f by simp
qed

lemma kernel_phdrs_loaded:
  assumes "paging_inv B own root s" and "pool_ok B own" and "file_ok B own pos file data" and "pos (fw s) \<noteq> None"
    and "kernel_ok data h" and "loader_kernel_phdrs B file h root s = Inr (x, t)"
  shows "\<forall>k < unat (e_phnum h). loadable data h k \<longrightarrow>
     (\<forall>i < unat (p_memsz (phdr_in data h k)).
        \<exists>a. translate (mem t) root (p_vaddr (phdr_in data h k) + of_nat i) = Some a \<and>
            mem t a = segment_byte data (phdr_in data h k) i)"
proof -
  obtain phdrs u where "loop_inv B own root data h phdrs (unat (e_phnum h)) u" and f: "free B phdrs u = Inr (x, t)"
    using assms by (rule kernel_phdrs_stages)
  then show ?thesis unfolding free_mem [OF f] loop_inv_def seg_loaded_def by blast
qed

text \<open>When memory suffices, a segment gets loaded.\<close>

lemma load_segment_returns:
  assumes al: "AllocatePages B (fw s) ((p_memsz ph + 0xFFF) div 0x1000) = ((status, phys), w1)"
    and ok: "\<not> EFI_ERROR B status"
    and rd: "File_Read B (snd (File_SetPosition B w1 file (p_offset ph))) file (p_filesz ph) = ((st2, bs), w3)"
    and left: "pages_left B (3 * unat ((p_memsz ph + 0xFFF) div 0x1000) + k) w3"
  shows "\<exists>t. load_segment B file root ph s = Inr ((), t) \<and> pages_left B k (fw t)"
proof -
  let ?s1 = "s\<lparr>fw := w3, mem := store_bytes (mem s) phys bs\<rparr>"
  have "pages_left B (3 * unat ((p_memsz ph + 0xFFF) div 0x1000) + k) (fw ?s1)" using left by simp
  from map_loop_returns [OF this, of root "\<lambda>i. phys + push_bit 12 (of_nat i)" "\<lambda>i. p_vaddr ph + push_bit 12 (of_nat i)"
      "efi_elf_phdr_flags (ucast (p_flags ph))"]
  show ?thesis
    using al ok rd by (auto simp: load_segment_def Let_def andthen_def fwcall_def file_read_def split: prod.splits)
qed

text \<open>A memory clear of almost \<open>2 ^ 64\<close> bytes leaves a gap of \<open>d\<close> bytes.\<close>

lemma clear_wraps:
  assumes "0 < d" and "d < 2 ^ 64" and x: "x \<notin> region a d"
  shows "memset m (a + of_nat d) 0 (2 ^ 64 - d) x = 0"
proof -
  let ?b = "a + of_nat d"
  define y where "y = x - ?b"
  have "unat y < 2 ^ 64 - d"
  proof (rule ccontr)
    assume "\<not> unat y < 2 ^ 64 - d"
    then have ge: "2 ^ 64 \<le> unat y + d" using assms(2) by simp
    have "unat (y + of_nat d) = (unat y + d) mod 2 ^ 64"
      using assms(2) by (simp add: unat_word_ariths unat_of_nat64)
    also have "\<dots> = unat y + d - 2 ^ 64"
      using ge assms(2) unat_lt64 [of y] by (simp add: mod_if)
    finally have "unat (y + of_nat d) < d" using ge unat_lt64 [of y] assms(1) by simp
    moreover have "y + of_nat d = x - a" by (simp add: y_def)
    ultimately show False using x by (simp add: region_def)
  qed
  then have "store_bytes m ?b (replicate (2 ^ 64 - d) 0) (?b + of_nat (unat y)) = replicate (2 ^ 64 - d) 0 ! unat y"
    by (intro store_inside) simp_all
  moreover have "?b + of_nat (unat y) = x" by (simp add: y_def)
  ultimately show ?thesis using \<open>unat y < 2 ^ 64 - d\<close> by (simp add: memset_store)
qed

section \<open>Properties\<close>

text \<open>
  C4: When the loader gets through the program headers of a well-formed kernel file, every
  address of every loadable segment is mapped, and behind the mapping lies
  the byte the file has for it, or zero past the part the file holds.
\<close>

theorem loader_kernel_phdrs_correct:
  assumes "paging_inv B own root s" and "pool_ok B own" and "file_ok B own pos file data" and "pos (fw s) \<noteq> None"
    and "kernel_ok data h" and "loader_kernel_phdrs B file h root s = Inr (x, t)"
  shows "\<forall>k < unat (e_phnum h). loadable data h k \<longrightarrow>
     (\<forall>i < unat (p_memsz (phdr_in data h k)).
        \<exists>a. translate (mem t) root (p_vaddr (phdr_in data h k) + of_nat i) = Some a \<and>
            mem t a = segment_byte data (phdr_in data h k) i)"
  using assms by (rule kernel_phdrs_loaded)

text \<open>The file of the sample firmware.\<close>

definition sample_ehdr :: elf64_ehdr where
  "sample_ehdr = (read_ehdr (\<lambda>_. 0) 0)\<lparr>e_phoff := 0, e_phentsize := 56, e_phnum := 1\<rparr>"

lemma sample_phdr: "phdr_in sample_kernel sample_ehdr 0 =
   \<lparr>p_type = 1, p_flags = 5, p_offset = 56, p_vaddr = 0x400000, p_paddr = 0, p_filesz = 4, p_memsz = 0x1008, p_align = 0x1000\<rparr>"
proof -
  have z: "e_phoff sample_ehdr = 0" by (simp add: sample_ehdr_def)
  show ?thesis
    by (simp add: phdr_in_def z read_phdr_def rd32_def rd64_def load_bytes_def upt_rec data_mem_def
        sample_kernel_def le_word_def)
qed

lemma sample_loadable: "loadable sample_kernel sample_ehdr 0"
  by (simp add: loadable_def sample_phdr PT_LOAD_def)

lemma sample_kernel_ok: "kernel_ok sample_kernel sample_ehdr"
proof -
  have n: "unat (e_phnum sample_ehdr) = 1" and e: "unat (e_phentsize sample_ehdr) = 56"
    and o: "unat (e_phoff sample_ehdr) = 0" by (simp_all add: sample_ehdr_def)
  have l: "length sample_kernel = 60" by (simp add: sample_kernel_def)
  have p: "seg_pages (phdr_in sample_kernel sample_ehdr 0) = 2" by (simp add: seg_pages_def sample_phdr)
  have "table_index 39 (seg_page (phdr_in sample_kernel sample_ehdr 0) i) \<noteq> 510" if "i < 2" for i
  proof -
    have "i = 0 \<or> i = 1" using that by linarith
    then show ?thesis by (auto simp: seg_page_def sample_phdr table_index_def)
  qed
  then have "seg_ok sample_kernel (phdr_in sample_kernel sample_ehdr 0)"
    unfolding seg_ok_def p l by (simp add: sample_phdr aligned_def)
  then show ?thesis by (simp add: kernel_ok_def n e o l)
qed

lemma sample_file_ok: "file_ok sample_env sample_own (\<lambda>w. Some (file_pos w)) f sample_kernel"
  by (auto simp: file_ok_def sample_env_def sample_own_def Let_def)

lemma sample_parse:
  assumes "next_page (fw s) = 17"
  obtains s1 phdrs where "loader_parse_phdrs sample_env f sample_ehdr s = Inr ((EFI_SUCCESS, phdrs), s1)"
    and "next_page (fw s1) = 18"
  using assms that
  by (auto simp: loader_parse_phdrs_def Let_def andthen_def fwcall_def file_read_def EFIERR_def
      sample_env_def sample_ehdr_def)

lemma sample_segment:
  assumes "next_page (fw s) = 18"
  shows "\<exists>t. load_segment sample_env f root (phdr_in sample_kernel sample_ehdr 0) s = Inr ((), t)"
proof -
  let ?ph = "phdr_in sample_kernel sample_ehdr 0"
  have n: "unat ((p_memsz ?ph + 0xFFF) div 0x1000) = 2" by (simp add: sample_phdr)
  define w1 where "w1 = (fw s)\<lparr>next_page := 20\<rparr>"
  have al: "AllocatePages sample_env (fw s) ((p_memsz ?ph + 0xFFF) div 0x1000) = ((EFI_SUCCESS, of_nat (4096 * 18)), w1)"
    using assms by (simp add: sample_env_def sample_phdr w1_def)
  obtain st bs w3 where rd: "File_Read sample_env (snd (File_SetPosition sample_env w1 f (p_offset ?ph))) f (p_filesz ?ph) = ((st, bs), w3)"
    by (metis prod.collapse)
  then have "next_page w3 = 20" by (auto simp: sample_env_def Let_def w1_def)
  then have "pages_left sample_env (3 * unat ((p_memsz ?ph + 0xFFF) div 0x1000) + 0) w3"
    unfolding n by (intro sample_pages_left) simp
  from load_segment_returns [OF al _ rd this] show ?thesis by (auto simp: sample_env_def)
qed

lemma sample_kernel_returns:
  assumes inv: "paging_inv sample_env sample_own root s" and n: "next_page (fw s) = 17"
  shows "\<exists>t. loader_kernel_phdrs sample_env f sample_ehdr root s = Inr ((), t)"
proof -
  obtain s1 phdrs where p: "loader_parse_phdrs sample_env f sample_ehdr s = Inr ((EFI_SUCCESS, phdrs), s1)"
    and n1: "next_page (fw s1) = 18" using n by (rule sample_parse)
  note start = parse_phdrs_inv [OF inv sample_pool_ok sample_file_ok option.distinct(2) sample_kernel_ok p]
  have N: "unat (e_phnum sample_ehdr) = 1" "unat (e_phentsize sample_ehdr) = 56" by (simp_all add: sample_ehdr_def)
  have "round sample_env f sample_ehdr root phdrs 0 s1 = load_segment sample_env f root (phdr_in sample_kernel sample_ehdr 0) s1"
    unfolding round_def andthen_gets loop_inv_phdr [OF conjunct1 [OF start] sample_kernel_ok, unfolded N, OF zero_less_one, folded N]
    using sample_loadable by (simp add: loadable_def)
  then obtain t where "round sample_env f sample_ehdr root phdrs 0 s1 = Inr ((), t)"
    using sample_segment [OF n1] by metis
  then have "phdr_loop (Suc 1) sample_env f sample_ehdr root phdrs (phdrs + of_nat (0 * unat (e_phentsize sample_ehdr))) s1 = Inr ((), t)"
    using start N by (subst phdr_loop_rounds) (simp_all add: andthen_def)
  then show ?thesis
    using p by (auto simp: loader_kernel_phdrs_def andthen_Inr N free_def fwcall_def andthen_def EFIERR_def sample_env_def
        simp del: phdr_loop.simps)
qed

theorem loader_kernel_phdrs_correct_witness:
  "\<exists>(s :: sample_state machine) t a. paging_inv sample_env sample_own 0x10000 s \<and>
     loader_kernel_phdrs sample_env 1 sample_ehdr 0x10000 s = Inr ((), t) \<and>
     translate (mem t) 0x10000 0x400002 = Some a \<and> mem t a = 0xEB"
proof -
  obtain s :: "sample_state machine" where s: "paging_inv sample_env sample_own 0x10000 s"
    and n: "next_page (fw s) = 17" using sample_setup by metis
  obtain t where t: "loader_kernel_phdrs sample_env 1 sample_ehdr 0x10000 s = Inr ((), t)"
    using sample_kernel_returns [OF s n] by blast
  have "\<forall>i < unat (p_memsz (phdr_in sample_kernel sample_ehdr 0)).
      \<exists>a. translate (mem t) 0x10000 (p_vaddr (phdr_in sample_kernel sample_ehdr 0) + of_nat i) = Some a \<and>
          mem t a = segment_byte sample_kernel (phdr_in sample_kernel sample_ehdr 0) i"
    using loader_kernel_phdrs_correct [OF s sample_pool_ok sample_file_ok option.distinct(2) sample_kernel_ok t] sample_loadable
    by (simp add: sample_ehdr_def)
  moreover have "sample_kernel ! 58 = 0xEB" by (simp add: sample_kernel_def)
  ultimately obtain a where "translate (mem t) 0x10000 0x400002 = Some a" "mem t a = 0xEB"
    by (auto simp: sample_phdr segment_byte_def dest!: spec [of _ 2])
  then show ?thesis using s t by blast
qed

text \<open>
  Nothing checks that a segment's size in the file is at most its size in memory. When it is larger,
  the difference wraps around, and the loader clears all of memory, its page
  tables included, but for the bytes between the two sizes.
\<close>

theorem load_segment_underflow:
  assumes "load_segment B file root ph s = Inr (x, t)" and "unat (p_memsz ph) < unat (p_filesz ph)"
  shows "\<exists>phys. \<forall>a. a \<notin> region (phys + p_memsz ph) (unat (p_filesz ph) - unat (p_memsz ph)) \<longrightarrow> mem t a = 0"
proof -
  let ?d = "unat (p_filesz ph) - unat (p_memsz ph)"
  from assms(1) obtain phys u where
    t: "t = (if 0 < p_memsz ph - p_filesz ph
        then u\<lparr>mem := memset (mem u) (phys + p_filesz ph) 0 (unat (p_memsz ph - p_filesz ph))\<rparr> else u)"
    by (rule load_segment_run)
  have len: "unat (p_memsz ph - p_filesz ph) = 2 ^ 64 - ?d"
    using assms(2) unat_lt64 [of "p_filesz ph"] by (simp add: unat_sub_if_size word_size)
  have end': "phys + p_filesz ph = phys + p_memsz ph + of_nat ?d"
    using assms(2) by (simp add: of_nat_diff)
  have pos: "0 < p_memsz ph - p_filesz ph"
    using len assms(2) unat_lt64 [of "p_filesz ph"] by (simp add: word_less_nat_alt)
  have m: "mem t = memset (mem u) (phys + p_memsz ph + of_nat ?d) 0 (2 ^ 64 - ?d)"
    unfolding t len end' using pos by simp
  have "0 < ?d" and "?d < 2 ^ 64" using assms(2) unat_lt64 [of "p_filesz ph"] by simp_all
  then have "\<forall>a. a \<notin> region (phys + p_memsz ph) ?d \<longrightarrow> mem t a = 0"
    unfolding m by (intro allI impI) (rule clear_wraps)
  then show ?thesis ..
qed

text \<open>
  The loop over the program headers ends: with as much fuel as there are headers, and one more, it is
  one round per header, when the table does not wrap around the end of memory.
\<close>

theorem phdr_loop_terminates:
  assumes "0 < unat (e_phentsize h)" and "unat (e_phnum h) * unat (e_phentsize h) < 2 ^ 31"
    and "unat phdrs + unat (e_phnum h) * unat (e_phentsize h) < 2 ^ 64"
  shows "phdr_loop (Suc (unat (e_phnum h))) B file h pml4 phdrs phdrs s =
     for_from 0 (unat (e_phnum h)) (round B file h pml4 phdrs) s"
proof -
  have "phdr_loop (Suc (unat (e_phnum h))) B file h pml4 phdrs (phdrs + of_nat (0 * unat (e_phentsize h))) s =
      for_from 0 (unat (e_phnum h)) (round B file h pml4 phdrs) s"
    by (subst phdr_loop_rounds [OF assms]) simp_all
  then show ?thesis by (simp del: phdr_loop.simps)
qed

theorem phdr_loop_terminates_witness:
  "phdr_loop (Suc 1) sample_env 1 sample_ehdr 0x10000 0x20000 0x20000 sample_machine =
     for_from 0 1 (round sample_env 1 sample_ehdr 0x10000 0x20000) sample_machine"
proof -
  have e: "unat (e_phnum sample_ehdr) = 1" "unat (e_phentsize sample_ehdr) = 56" by (simp_all add: sample_ehdr_def)
  show ?thesis using phdr_loop_terminates [of sample_ehdr "0x20000", unfolded e] by (simp del: phdr_loop.simps for_from.simps)
qed

text \<open>A program header whose file size exceeds its memory size by one.\<close>

definition odd_phdr :: elf64_phdr where
  "odd_phdr = (phdr_in sample_kernel sample_ehdr 0)\<lparr>p_memsz := 3\<rparr>"

theorem load_segment_underflow_witness:
  "\<exists>t phys. load_segment sample_env 1 0x10000 odd_phdr (sample_machine :: sample_state machine) = Inr ((), t) \<and>
     (\<forall>a. a \<notin> region (phys + 3) 1 \<longrightarrow> mem t a = 0)"
proof -
  have n: "unat ((p_memsz odd_phdr + 0xFFF) div 0x1000) = 1" by (simp add: odd_phdr_def)
  define w1 where "w1 = (fw sample_machine)\<lparr>next_page := 17\<rparr>"
  have al: "AllocatePages sample_env (fw sample_machine) ((p_memsz odd_phdr + 0xFFF) div 0x1000) =
      ((EFI_SUCCESS, of_nat (4096 * 16)), w1)"
    by (simp add: sample_env_def odd_phdr_def w1_def sample_machine_def sample_start_def)
  obtain st bs w3 where rd: "File_Read sample_env (snd (File_SetPosition sample_env w1 1 (p_offset odd_phdr))) 1
      (p_filesz odd_phdr) = ((st, bs), w3)"
    by (metis prod.collapse)
  then have "next_page w3 = 17" by (auto simp: sample_env_def Let_def w1_def)
  then have "pages_left sample_env (3 * unat ((p_memsz odd_phdr + 0xFFF) div 0x1000) + 0) w3"
    unfolding n by (intro sample_pages_left) simp
  then obtain t where t: "load_segment sample_env 1 0x10000 odd_phdr sample_machine = Inr ((), t)"
    using load_segment_returns [OF al _ rd] by (fastforce simp: sample_env_def)
  show ?thesis
    using load_segment_underflow [OF t] t by (auto simp: odd_phdr_def sample_phdr)
qed

end
