(* ===== verification/Ucs2.thy ===== *)
theory Ucs2
  imports CString
begin

text \<open>
  The conversion of file names for the firmware (\<^verbatim>\<open>uefi/ucs2.c\<close>). Source and
  destination are in memory, and every unit is written before the next
  character is read. The loop has no bound but the terminator, so running for
  ever is the value \<open>None\<close>.
\<close>

section \<open>The code\<close>

text \<open>
  The unit for the character at \<open>i\<close>, and the index after it. For sequences of two and
  three bytes the index has already moved on when the other bytes are read.
\<close>

definition ucs2_unit :: "mem \<Rightarrow> addr \<Rightarrow> u64 \<Rightarrow> u16 \<times> u64" where
  "ucs2_unit m utf8 i0 =
     (let c0 = m (utf8 + i0) in
      if c0 AND 0x80 = 0 then
        (let i = i0 + 1 in (ucast c0, i))
      else if c0 AND 0xE0 = 0xC0 then
        (let i = i0 + 2 in
         (push_bit 6 (ucast (c0 AND 0x1F)) OR ucast (m (utf8 + i + 1) AND 0x3F), i))
      else if c0 AND 0xF0 = 0xE0 then
        (let i = i0 + 3 in
         (push_bit 12 (ucast (c0 AND 0x0F)) OR push_bit 6 (ucast (m (utf8 + i + 1) AND 0x3F)) OR
            ucast (m (utf8 + i + 2) AND 0x3F), i))
      else (let i = i0 + 4 in (0xFFFC, i)))"

partial_function (option) ucs2_loop :: "mem \<Rightarrow> addr \<Rightarrow> addr \<Rightarrow> u64 \<Rightarrow> u64 \<Rightarrow> mem option" where
  "ucs2_loop m utf8 ucs2 utf8i ucs2i =
     (if m (utf8 + utf8i) = 0 then Some (wr16 m (ucs2 + 2 * ucs2i) 0)
      else ucs2_loop (wr16 m (ucs2 + 2 * ucs2i) (fst (ucs2_unit m utf8 utf8i))) utf8 ucs2
             (snd (ucs2_unit m utf8 utf8i)) (ucs2i + 1))"

definition uefi_to_ucs2 :: "mem \<Rightarrow> addr \<Rightarrow> addr \<Rightarrow> mem option" where
  "uefi_to_ucs2 m utf8 ucs2 = ucs2_loop m utf8 ucs2 0 0"

section \<open>Plain ASCII names\<close>

definition ascii :: "u8 list \<Rightarrow> bool" where
  "ascii cs \<longleftrightarrow> (\<forall>c \<in> set cs. c AND 0x80 = 0)"

text \<open>A wide string with its terminator.\<close>

definition wide_at :: "mem \<Rightarrow> addr \<Rightarrow> u16 list \<Rightarrow> bool" where
  "wide_at m a us \<longleftrightarrow> (\<forall>i < length us. rd16 m (a + 2 * of_nat i) = us ! i) \<and> rd16 m (a + 2 * of_nat (length us)) = 0"

lemma wide_at_Cons: "wide_at m a (u # us) \<longleftrightarrow> rd16 m a = u \<and> wide_at m (a + 2) us"
proof -
  have "a + 2 * of_nat (Suc i) = a + 2 + 2 * of_nat i" for i by (simp add: algebra_simps)
  moreover have "(\<forall>i < Suc n. P i) \<longleftrightarrow> P 0 \<and> (\<forall>i < n. P (Suc i))" for n and P :: "nat \<Rightarrow> bool"
    by (auto simp: less_Suc_eq_0_disj)
  ultimately show ?thesis unfolding wide_at_def by (simp add: add.assoc del: of_nat_Suc)
qed

lemma cell_after:
  assumes "2 * n + 4 < 2 ^ 64"
  shows "region a 2 \<inter> region (a + 2) (2 * n + 2) = {}"
proof (rule region_disjI)
  show "2 \<le> unat (a + 2 - a)" by simp
  have "unat (a - (a + 2)) = 2 ^ 64 - 2" using unat_neg64 [of 2] by simp
  then show "2 * n + 2 \<le> unat (a - (a + 2))" using assms by simp
qed

lemma ucs2_loop_ascii:
  assumes "cstring_at m (utf8 + of_nat k) cs" and "ascii cs" and "2 * length cs + 4 < 2 ^ 64"
    and "region (utf8 + of_nat k) (length cs + 1) \<inter> region (ucs2 + 2 * of_nat k) (2 * length cs + 2) = {}"
  shows "\<exists>m'. ucs2_loop m utf8 ucs2 (of_nat k) (of_nat k) = Some m' \<and>
     wide_at m' (ucs2 + 2 * of_nat k) (map ucast cs) \<and>
     (\<forall>x. x \<notin> region (ucs2 + 2 * of_nat k) (2 * length cs + 2) \<longrightarrow> m' x = m x)"
  using assms
proof (induction cs arbitrary: m k)
  case Nil
  then show ?case
    by (subst ucs2_loop.simps) (simp add: wide_at_def c16.rd_wr_same c16.wr_outside flip: numeral_2_eq_2)
next
  case (Cons c cs)
  let ?d = "ucs2 + 2 * of_nat k :: addr" and ?s = "utf8 + of_nat k :: addr"
  let ?m = "wr16 m ?d (ucast c)"
  have d: "ucs2 + 2 * of_nat (Suc k) = ?d + 2" and s: "utf8 + of_nat (Suc k) = ?s + 1"
    by (simp_all add: algebra_simps)
  have c: "m ?s = c" "c \<noteq> 0" "cstring_at m (?s + 1) cs" using Cons.prems(1) by simp_all
  have u: "ucs2_unit m utf8 (of_nat k) = (ucast c, of_nat (Suc k))"
    using c(1) Cons.prems(2) by (simp add: ucs2_unit_def ascii_def add.commute)
  have sub: "region (?s + 1) (length cs + 1) \<subseteq> region ?s (length (c # cs) + 1)"
    using subregion [of 1 "length cs + 1" "length (c # cs) + 1" ?s] by simp
  have sub': "region (?d + 2) (2 * length cs + 2) \<subseteq> region ?d (2 * length (c # cs) + 2)"
    using subregion [of 2 "2 * length cs + 2" "2 * length (c # cs) + 2" ?d] by simp
  have two: "region ?d 2 \<subseteq> region ?d (2 * length (c # cs) + 2)" by (rule region_mono) simp
  have "cstring_at ?m (?s + 1) cs"
    by (rule cstring_at_cong [OF c(3)]) (use sub two Cons.prems(4) in \<open>blast intro: c16.wr_outside\<close>)
  moreover have "ascii cs" using Cons.prems(2) by (simp add: ascii_def)
  moreover have "region (?s + 1) (length cs + 1) \<inter> region (?d + 2) (2 * length cs + 2) = {}"
    using sub sub' Cons.prems(4) by blast
  moreover have "2 * length cs + 4 < 2 ^ 64" using Cons.prems(3) by simp
  ultimately obtain m' where run: "ucs2_loop ?m utf8 ucs2 (of_nat (Suc k)) (of_nat (Suc k)) = Some m'"
    and w: "wide_at m' (?d + 2) (map ucast cs)"
    and f: "\<forall>x. x \<notin> region (?d + 2) (2 * length cs + 2) \<longrightarrow> m' x = ?m x"
    using Cons.IH [of ?m "Suc k"] unfolding d s by blast
  have "rd16 m' ?d = rd16 ?m ?d"
    using f cell_after [OF \<open>2 * length cs + 4 < 2 ^ 64\<close>, of ?d] by (intro c16.rd_cong) blast
  then have "wide_at m' ?d (map ucast (c # cs))"
    using w by (simp add: wide_at_Cons c16.rd_wr_same)
  moreover have "m' x = m x" if "x \<notin> region ?d (2 * length (c # cs) + 2)" for x
  proof -
    have "x \<notin> region (?d + 2) (2 * length cs + 2)" and out: "x \<notin> region ?d 2" using that two sub' by blast+
    then have "m' x = ?m x" using f by blast
    also have "\<dots> = m x" using out by (rule c16.wr_outside)
    finally show ?thesis .
  qed
  moreover have "ucs2_loop m utf8 ucs2 (of_nat k) (of_nat k) = Some m'"
    using run c u by (subst ucs2_loop.simps) (simp add: add.commute)
  ultimately show ?case by blast
qed

text \<open>\<open>efi_strlen\<close> finds the terminator of a wide string, and its units are there.\<close>

lemma efi_strlen_loop_wide:
  "wide_at m a us \<Longrightarrow> 0 \<notin> set us \<Longrightarrow> efi_strlen_loop m a r = Some (r + of_nat (length us))"
proof (induction us arbitrary: a r)
  case Nil
  then show ?case by (simp add: efi_strlen_loop.simps wide_at_def)
next
  case (Cons u us)
  then have "rd16 m a \<noteq> 0" "wide_at m (a + 2) us" by (auto simp: wide_at_Cons)
  with Cons show ?case by (simp add: efi_strlen_loop.simps [of m a r] add.assoc)
qed

lemma efi_strlen_wide: "wide_at m a us \<Longrightarrow> 0 \<notin> set us \<Longrightarrow> efi_strlen m a = Some (of_nat (length us))"
  by (simp add: efi_strlen_def efi_strlen_loop_wide)

lemma wide_units: "wide_at m a us \<Longrightarrow> map (\<lambda>i. rd16 m (a + 2 * of_nat i)) [0..<length us] = us"
  by (rule nth_equalityI) (auto simp: wide_at_def)

section \<open>Properties\<close>

text \<open>
  C22: The conversion of an ASCII name into a buffer that does not overlap it ends, and leaves the same name as a
  terminated wide string there; nothing outside the buffer changes.
\<close>

theorem uefi_to_ucs2_ascii:
  assumes "cstring_at m utf8 cs" and "ascii cs" and "2 * length cs + 4 < 2 ^ 64"
    and "region utf8 (length cs + 1) \<inter> region ucs2 (2 * length cs + 2) = {}"
  shows "\<exists>m'. uefi_to_ucs2 m utf8 ucs2 = Some m' \<and> wide_at m' ucs2 (map ucast cs) \<and>
     (\<forall>x. x \<notin> region ucs2 (2 * length cs + 2) \<longrightarrow> m' x = m x)"
  using ucs2_loop_ascii [of m utf8 0 cs ucs2] assms by (simp add: uefi_to_ucs2_def)

definition name_mem :: mem where
  "name_mem = (\<lambda>_. 0)(0x1000 := 107, 0x1001 := 101)"

theorem uefi_to_ucs2_ascii_witness:
  "\<exists>m'. uefi_to_ucs2 name_mem 0x1000 0x2000 = Some m' \<and> wide_at m' 0x2000 [107, 101]"
proof -
  have "region 0x1000 (length [107, 101 :: u8] + 1) \<inter> region 0x2000 (2 * length [107, 101 :: u8] + 2) = {}"
    by (rule region_disjI) simp_all
  moreover have "cstring_at name_mem 0x1000 [107, 101]" by (simp add: name_mem_def)
  moreover have "ascii [107, 101]" by (simp add: ascii_def)
  ultimately show ?thesis
    using uefi_to_ucs2_ascii [of name_mem "0x1000" "[107, 101]" "0x2000"] by fastforce
qed

text \<open>
  A two-byte character at the end of a name is not converted: its second byte never gets into the
  result. Instead the unit takes six bits of the byte behind the terminator,
  because the index has moved on before the second byte is read.
\<close>

theorem uefi_to_ucs2_two_byte:
  assumes "m utf8 AND 0xE0 = 0xC0" and "m (utf8 + 2) = 0" and "utf8 + 2 \<notin> region ucs2 2"
  shows "\<exists>m'. uefi_to_ucs2 m utf8 ucs2 = Some m' \<and>
     rd16 m' ucs2 = push_bit 6 (ucast (m utf8 AND 0x1F)) OR ucast (m (utf8 + 3) AND 0x3F)"
proof -
  have lead: "m utf8 AND 0x80 \<noteq> 0" "m utf8 \<noteq> 0"
  proof -
    have "bit (m utf8 AND 0xE0) 7" unfolding assms(1) by simp
    then have "bit (m utf8) 7" by (simp only: bit_and_iff)
    then have "bit (m utf8 AND 0x80) 7" by (simp add: bit_and_iff)
    then show "m utf8 AND 0x80 \<noteq> 0" "m utf8 \<noteq> 0" by auto
  qed
  let ?u = "push_bit 6 (ucast (m utf8 AND 0x1F)) OR ucast (m (utf8 + 3) AND 0x3F) :: u16"
  have u: "ucs2_unit m utf8 0 = (?u, 2)" using assms(1) lead by (simp add: ucs2_unit_def add.assoc)
  have stop: "wr16 m ucs2 ?u (utf8 + 2) = 0" using assms(2,3) by (simp add: c16.wr_outside)
  have "uefi_to_ucs2 m utf8 ucs2 = ucs2_loop (wr16 m ucs2 ?u) utf8 ucs2 2 1"
    unfolding uefi_to_ucs2_def using lead u by (subst ucs2_loop.simps) simp
  also have "\<dots> = Some (wr16 (wr16 m ucs2 ?u) (ucs2 + 2) 0)"
    using stop by (subst ucs2_loop.simps) simp
  finally have "uefi_to_ucs2 m utf8 ucs2 = Some (wr16 (wr16 m ucs2 ?u) (ucs2 + 2) 0)" .
  moreover have "region ucs2 2 \<inter> region (ucs2 + 2) 2 = {}"
    using cell_after [of 0 ucs2] by (simp flip: numeral_2_eq_2)
  then have "rd16 (wr16 (wr16 m ucs2 ?u) (ucs2 + 2) 0) ucs2 = ?u"
    by (simp add: c16.rd_wr_disj c16.rd_wr_same)
  ultimately show ?thesis by blast
qed

text \<open>The character U+00E9, in two bytes, comes out as U+00C0.\<close>

definition accent_mem :: mem where
  "accent_mem = (\<lambda>_. 0)(0x1000 := 0xC3, 0x1001 := 0xA9)"

theorem uefi_to_ucs2_two_byte_witness:
  "\<exists>m'. uefi_to_ucs2 accent_mem 0x1000 0x2000 = Some m' \<and> rd16 m' 0x2000 = 0xC0"
proof -
  have 1: "accent_mem 0x1000 AND 0xE0 = 0xC0" and 2: "accent_mem (0x1000 + 2) = 0" by (simp_all add: accent_mem_def)
  have 3: "(0x1000 + 2 :: addr) \<notin> region 0x2000 2" by (simp add: region_def)
  have "push_bit 6 (ucast (accent_mem 0x1000 AND 0x1F)) OR ucast (accent_mem (0x1000 + 3) AND 0x3F) = (0xC0 :: u16)"
    by (simp add: accent_mem_def)
  then show ?thesis using uefi_to_ucs2_two_byte [OF 1 2 3] by simp
qed

end
