(* ===== verification/Device_Path.thy ===== *)
theory Device_Path
  imports Efi Ucs2
begin

text \<open>
  Device paths (\<^verbatim>\<open>uefi/device-path.c\<close>): a path is a run of nodes, each with a type, a subtype and its
  length in bytes, up to an end node. Abstractly it is a list of nodes; the size is that of
  the encoded list and appending is concatenation.
\<close>

section \<open>The code\<close>

text \<open>
  Values of the firmware's headers: the types of nodes. A node has its type at 0, its subtype at 1 and its
  length at 2; the structure for a file (\<^verbatim>\<open>uefi/driver.h\<close>) has the name, of 16-bit units, behind that header.
\<close>

record devpath_header =
  DEVICE_PATH_END :: u8
  DEVICE_PATH_ENTIRE_END :: u8
  DEVICE_PATH_MEDIA :: u8

definition sizeof_node :: u64 where "sizeof_node = 4"

definition path_name_offset :: u64 where "path_name_offset = sizeof_node"

definition empty_devpath :: "devpath_header \<Rightarrow> u8 list" where
  "empty_devpath H = [DEVICE_PATH_END H, DEVICE_PATH_ENTIRE_END H, 4, 0]"

text \<open>
  The message of a panic here is a narrow string that the console reads as a wide one, beyond its end.
\<close>

definition narrow_panic :: "('w, 'z, 'a) run" where
  "narrow_panic = stop Undefined"

definition uefi_devpath_get_string :: "'w env \<Rightarrow> addr \<Rightarrow> ('w, 'z, addr) run" where
  "uefi_devpath_get_string B path =
     andthen (fwcall (\<lambda>w. LocateProtocol (HND B) w DevicePathToTextProtocol)) (\<lambda>(status, ptt).
     if EFI_ERROR B status then ret 0
     else fwcall (\<lambda>w. ConvertDevicePathToText (HND B) w ptt path))"

text \<open>The console prints the wide string at an address.\<close>

definition print_wide :: "'w env \<Rightarrow> addr \<Rightarrow> ('w, 'z, unit) run" where
  "print_wide B a =
     andthen (gets (\<lambda>s. efi_strlen (mem s) a)) (\<lambda>len.
     andthen (or_undefined len) (\<lambda>n.
     andthen (gets (\<lambda>s. map (\<lambda>i. rd16 (mem s) (a + 2 * of_nat i)) [0..<unat n])) (\<lambda>units.
     andthen (fwcall (\<lambda>w. OutputString B w units)) (\<lambda>_. ret ()))))"

definition uefi_devpath_print :: "'w env \<Rightarrow> addr \<Rightarrow> ('w, 'z, unit) run" where
  "uefi_devpath_print B path = andthen (uefi_devpath_get_string B path) (\<lambda>str. print_wide B str)"

definition uefi_devpath_set_node_length :: "addr \<Rightarrow> u64 \<Rightarrow> ('w, 'z, unit) run" where
  "uefi_devpath_set_node_length node len =
     (if node = 0 \<or> len < sizeof_node then narrow_panic
      else set_mem (\<lambda>m. wr16 m (node + 2) (ucast len)))"

definition uefi_devpath_get_node_length :: "mem \<Rightarrow> addr \<Rightarrow> u64" where
  "uefi_devpath_get_node_length m node = ucast (rd16 m (node + 2))"

definition uefi_devpath_get_next :: "mem \<Rightarrow> addr \<Rightarrow> addr" where
  "uefi_devpath_get_next m node = node + uefi_devpath_get_node_length m node"

definition uefi_devpath_set_end :: "devpath_header \<Rightarrow> addr \<Rightarrow> ('w, 'z, unit) run" where
  "uefi_devpath_set_end H node =
     (if node = 0 then narrow_panic else set_mem (\<lambda>m. store_bytes m node (empty_devpath H)))"

definition uefi_devpath_from_device_handle :: "'w env \<Rightarrow> addr \<Rightarrow> ('w, 'z, addr) run" where
  "uefi_devpath_from_device_handle B h =
     andthen (fwcall (\<lambda>w. HandleProtocol (HND B) w h DevicePathProtocol)) (\<lambda>(status, protocol).
     andthen (EFIERR B ''uefi/device-path.c'' 53 status) (\<lambda>_.
     ret protocol))"

definition uefi_devpath_from_file_handle :: "'w env \<Rightarrow> addr \<Rightarrow> ('w, 'z, addr) run" where
  "uefi_devpath_from_file_handle B h =
     andthen (fwcall (\<lambda>w. OpenProtocol (HND B) w h LoadedImageProtocol)) (\<lambda>(status, protocol).
     if EFI_ERROR B status
     then andthen (efi_printf B (''uefi_devpath_from_file_handle: open LoadedImageProtocol status %zu'' @ [CHR 0x0A]) [status_code B status]) (\<lambda>_. stop Hung)
     else
       andthen (fwcall (\<lambda>w. OpenProtocol (HND B) w (LoadedImage_DeviceHandle (HND B) w protocol) DevicePathProtocol)) (\<lambda>(status, devpath).
       if EFI_ERROR B status
       then andthen (efi_printf B (''uefi_devpath_from_file_handle: open DevicePathProtocol status %zu'' @ [CHR 0x0A]) [status_code B status]) (\<lambda>_. stop Hung)
       else ret devpath))"

definition uefi_devpath_valid :: "addr \<Rightarrow> bool" where
  "uefi_devpath_valid device \<longleftrightarrow> device \<noteq> 0"

text \<open>The end of a path; a null pointer is a panic (\<open>Inl\<close>), a path that has no end is followed for ever (\<open>None\<close>).\<close>

definition uefi_devpath_is_end :: "devpath_header \<Rightarrow> mem \<Rightarrow> addr \<Rightarrow> bool" where
  "uefi_devpath_is_end H m node \<longleftrightarrow> m node = DEVICE_PATH_END H \<and> m (node + 1) = DEVICE_PATH_ENTIRE_END H"

partial_function (option) devpath_end :: "devpath_header \<Rightarrow> mem \<Rightarrow> addr \<Rightarrow> (unit + addr) option" where
  "devpath_end H m node =
     (if node = 0 then Some (Inl ())
      else if uefi_devpath_is_end H m node then Some (Inr node)
      else devpath_end H m (uefi_devpath_get_next m node))"

definition uefi_devpath_size :: "devpath_header \<Rightarrow> addr \<Rightarrow> ('w, 'z, u64) run" where
  "uefi_devpath_size H device =
     andthen (gets (\<lambda>s. (mem s, devpath_end H (mem s) device))) (\<lambda>(m, found).
     case found of
       None \<Rightarrow> stop Hung
     | Some (Inl _) \<Rightarrow> narrow_panic
     | Some (Inr node) \<Rightarrow> ret (node - device + uefi_devpath_get_node_length m node))"

definition uefi_devpath_append :: "'w env \<Rightarrow> devpath_header \<Rightarrow> addr \<Rightarrow> addr \<Rightarrow> ('w, 'z, addr) run" where
  "uefi_devpath_append B H first second =
     (if \<not> uefi_devpath_valid first \<or> \<not> uefi_devpath_valid second then narrow_panic
      else
        andthen (uefi_devpath_size H first) (\<lambda>first_size.
        andthen (uefi_devpath_size H second) (\<lambda>second_size.
        andthen (fwcall (\<lambda>w. AllocatePool B w (first_size + second_size))) (\<lambda>(status, devpath).
        andthen (EFIERR B ''uefi/device-path.c'' 152 status) (\<lambda>_.
        andthen (set_mem (\<lambda>m. memcpy m devpath first (unat first_size))) (\<lambda>_.
        andthen (set_mem (\<lambda>m. memcpy m (devpath + first_size - sizeof_node) second (unat second_size))) (\<lambda>_.
        ret devpath)))))))"

definition uefi_devpath_from_path :: "'w env \<Rightarrow> devpath_header \<Rightarrow> addr \<Rightarrow> addr \<Rightarrow> ('w, 'z, addr) run" where
  "uefi_devpath_from_path B H device filename =
     andthen (gets (\<lambda>s. efi_strlen (mem s) filename)) (\<lambda>len.
     andthen (or_undefined len) (\<lambda>n.
     let sz = (n + 1) * 2 in
     andthen (fwcall (\<lambda>w. AllocatePool B w (sz + path_name_offset + sizeof_node))) (\<lambda>(status, file_devpath).
     andthen (EFIERR B ''uefi/device-path.c'' 87 status) (\<lambda>_.
     if file_devpath = 0 then ret 0
     else
       andthen (set_mem (\<lambda>m. m(file_devpath := DEVICE_PATH_MEDIA H))) (\<lambda>_.
       andthen (set_mem (\<lambda>m. m(file_devpath + 1 := DEVICE_PATH_MEDIA H))) (\<lambda>_.
       andthen (set_mem (\<lambda>m. memcpy m (file_devpath + path_name_offset) filename (unat sz))) (\<lambda>_.
       andthen (set_mem (\<lambda>m. wr16 m (file_devpath + path_name_offset + 2 * sz) 0)) (\<lambda>_.
       andthen (uefi_devpath_set_node_length file_devpath (sz + path_name_offset)) (\<lambda>_.
       andthen (gets (\<lambda>s. uefi_devpath_get_next (mem s) file_devpath)) (\<lambda>end_node.
       andthen (uefi_devpath_set_end H end_node) (\<lambda>_.
       andthen (if device \<noteq> 0 then uefi_devpath_from_file_handle B device else ret 0) (\<lambda>devpath.
       uefi_devpath_append B H devpath file_devpath))))))))))))"

section \<open>Paths as lists of nodes\<close>

datatype node = Node (node_type: u8) (node_subtype: u8) (node_data: "u8 list")

definition encode_node :: "node \<Rightarrow> u8 list" where
  "encode_node n = [node_type n, node_subtype n] @ le_bytes 2 (of_nat (4 + length (node_data n)) :: u16) @ node_data n"

definition encode_path :: "devpath_header \<Rightarrow> node list \<Rightarrow> u8 list" where
  "encode_path H ns = concat (map encode_node ns) @ empty_devpath H"

text \<open>A node is no end node and its length fits the length field.\<close>

definition node_ok :: "devpath_header \<Rightarrow> node \<Rightarrow> bool" where
  "node_ok H n \<longleftrightarrow> (node_type n = DEVICE_PATH_END H \<longrightarrow> node_subtype n \<noteq> DEVICE_PATH_ENTIRE_END H) \<and> length (node_data n) < 65532"

definition path_in :: "devpath_header \<Rightarrow> mem \<Rightarrow> addr \<Rightarrow> node list \<Rightarrow> bool" where
  "path_in H m a ns \<longleftrightarrow>
     load_bytes m a (length (encode_path H ns)) = encode_path H ns \<and> list_all (node_ok H) ns \<and>
     a \<noteq> 0 \<and> unat a + length (encode_path H ns) \<le> 2 ^ 63"

lemma length_encode_node: "length (encode_node n) = 4 + length (node_data n)"
  by (simp add: encode_node_def)

lemma length_encode_path: "length (encode_path H ns) = length (concat (map encode_node ns)) + 4"
  by (simp add: encode_path_def empty_devpath_def)


lemma rd16_le_bytes: "load_bytes m a 2 = le_bytes 2 (v :: u16) \<Longrightarrow> rd16 m a = v"
  by (simp add: rd16_def le_word_le_bytes)

lemma node_reads:
  assumes "path_in H m a (n # ns)"
  shows "m a = node_type n" and "m (a + 1) = node_subtype n" and "uefi_devpath_get_node_length m a = of_nat (length (encode_node n))"
    and "\<not> uefi_devpath_is_end H m a" and "path_in H m (a + of_nat (length (encode_node n))) ns"
proof -
  let ?l = "length (encode_node n)" and ?L = "length (encode_path H (n # ns))"
  have ld: "load_bytes m a ?L = encode_path H (n # ns)" and ok: "node_ok H n" "list_all (node_ok H) ns" and a: "a \<noteq> 0" "unat a + ?L \<le> 2 ^ 63"
    using assms by (simp_all add: path_in_def)
  have E: "encode_path H (n # ns) = encode_node n @ encode_path H ns" by (simp add: encode_path_def)
  have L: "?L = ?l + length (encode_path H ns)" "4 \<le> ?l" by (simp_all add: E length_encode_node)
  show type: "m a = node_type n" "m (a + 1) = node_subtype n"
    using loaded_byte [OF ld, of 0] loaded_byte [OF ld, of 1] L by (simp_all add: E encode_node_def)
  have "load_bytes m (a + 2) 2 = le_bytes 2 (of_nat ?l :: u16)"
    using loaded_part [OF ld, of 2 2] L unfolding E by (simp add: encode_node_def length_encode_node)
  then have rd: "rd16 m (a + 2) = of_nat ?l" by (rule rd16_le_bytes)
  have small: "?l < 65536" using ok(1) by (simp add: node_ok_def length_encode_node)
  then have "unat (of_nat ?l :: u16) = ?l" by (rule unat_of_nat16)
  then have u: "unat (ucast (of_nat ?l :: u16) :: u64) = ?l" using small by (simp add: unsigned_ucast_eq take_bit_nat_eq_self)
  have "(ucast (of_nat ?l :: u16) :: u64) = of_nat (unat (ucast (of_nat ?l :: u16) :: u64))" by simp
  then have "(ucast (of_nat ?l :: u16) :: u64) = of_nat ?l" by (simp only: u)
  then show "uefi_devpath_get_node_length m a = of_nat ?l" by (simp add: uefi_devpath_get_node_length_def rd)
  show "\<not> uefi_devpath_is_end H m a" using ok(1) type by (auto simp: uefi_devpath_is_end_def node_ok_def)
  have u: "unat (a + of_nat ?l) = unat a + ?l" using a L by (intro unat_add_of_nat) simp
  then have "a + of_nat ?l \<noteq> 0" using L(2) by (metis add_is_0 not_numeral_le_zero unat_0)
  moreover have "load_bytes m (a + of_nat ?l) (length (encode_path H ns)) = encode_path H ns"
    using loaded_part [OF ld, of ?l "length (encode_path H ns)"] L unfolding E by simp
  ultimately show "path_in H m (a + of_nat ?l) ns" using ok(2) a u L by (simp add: path_in_def)
qed

lemma end_reads:
  assumes "path_in H m a []"
  shows "uefi_devpath_is_end H m a" and "uefi_devpath_get_node_length m a = 4"
proof -
  have "length (encode_path H []) = 4" by (simp add: length_encode_path)
  then have ld: "load_bytes m a 4 = [DEVICE_PATH_END H, DEVICE_PATH_ENTIRE_END H, 4, 0]"
    using assms unfolding path_in_def by (simp only:) (simp add: encode_path_def empty_devpath_def)
  show "uefi_devpath_is_end H m a" using loaded_byte [OF ld, of 0] loaded_byte [OF ld, of 1] by (simp add: uefi_devpath_is_end_def)
  have "load_bytes m (a + 2) 2 = le_bytes 2 (4 :: u16)" using loaded_part [OF ld, of 2 2] by (simp add: le_bytes_numeral)
  then show "uefi_devpath_get_node_length m a = 4" by (simp add: uefi_devpath_get_node_length_def rd16_le_bytes)
qed

lemma devpath_end_found:
  "path_in H m a ns \<Longrightarrow> devpath_end H m a = Some (Inr (a + of_nat (length (concat (map encode_node ns))))) \<and>
     uefi_devpath_get_node_length m (a + of_nat (length (concat (map encode_node ns)))) = 4"
proof (induction ns arbitrary: a)
  case Nil
  then have "a \<noteq> 0" by (simp add: path_in_def)
  then show ?case using end_reads [OF Nil] by (simp add: devpath_end.simps)
next
  case (Cons n ns)
  have "a \<noteq> 0" using Cons.prems by (simp add: path_in_def)
  then have "devpath_end H m a = devpath_end H m (a + of_nat (length (encode_node n)))"
    using node_reads(3,4) [OF Cons.prems] by (simp add: devpath_end.simps [of H m a] uefi_devpath_get_next_def)
  then show ?case using Cons.IH [OF node_reads(5) [OF Cons.prems]] by (simp add: add.assoc)
qed

lemma size_run:
  assumes "path_in H (mem s) a ns"
  shows "uefi_devpath_size H a s = Inr (of_nat (length (encode_path H ns)), s)"
  using devpath_end_found [OF assms] by (simp add: uefi_devpath_size_def length_encode_path add.commute)

lemma path_in_cong:
  assumes "path_in H m a ns" and "\<And>x. x \<in> region a (length (encode_path H ns)) \<Longrightarrow> m' x = m x"
  shows "path_in H m' a ns"
  using assms load_cong [of a "length (encode_path H ns)" m' m] by (simp add: path_in_def)

lemma store_over:
  assumes "k \<le> length xs" and "length xs \<le> k + length ys" and "k + length ys \<le> 2 ^ 63"
  shows "store_bytes (store_bytes m p xs) (p + of_nat k) ys = store_bytes m p (take k xs @ ys)"
proof (rule ext)
  fix x
  let ?d = "unat (x - p)"
  have e: "x - (p + of_nat k) = (x - p) - of_nat k" by simp
  have u: "unat (x - (p + of_nat k)) = (if k \<le> ?d then ?d - k else ?d + 2 ^ 64 - k)"
    unfolding e using assms by (simp add: unat_sub_if_size word_size unat_of_nat64)
  show "store_bytes (store_bytes m p xs) (p + of_nat k) ys x = store_bytes m p (take k xs @ ys) x"
    using assms by (cases "k \<le> ?d") (auto simp: store_bytes_def u nth_append)
qed

text \<open>What appending needs: room for both paths, apart from them.\<close>

lemma append_run:
  fixes s :: "('w, 'z) machine_scheme"
  assumes p1: "path_in H (mem s) first ns1" and p2: "path_in H (mem s) second ns2"
    and l: "l1 = length (encode_path H ns1)" "l2 = length (encode_path H ns2)"
    and al: "AllocatePool B (fw s) (of_nat (l1 + l2)) = ((status, p), w)" and ok: "\<not> EFI_ERROR B status"
    and p: "p \<noteq> 0" "unat p + l1 + l2 \<le> 2 ^ 63"
    and sep: "region first l1 \<inter> region p (l1 + l2) = {}" "region second l2 \<inter> region p (l1 + l2) = {}"
  shows "\<exists>m'. uefi_devpath_append B H first second s = Inr (p, s\<lparr>fw := w, mem := m'\<rparr>) \<and> path_in H m' p (ns1 @ ns2) \<and>
     (\<forall>x. x \<notin> region p (l1 + l2) \<longrightarrow> m' x = mem s x)"
proof -
  let ?E1 = "encode_path H ns1" and ?E2 = "encode_path H ns2" and ?c = "l1 - 4"
  have lc: "4 \<le> l1" "4 \<le> l2" using l by (simp_all add: length_encode_path)
  have lim: "l1 < 2 ^ 63" "l2 < 2 ^ 63" using p lc by simp_all
  have ld: "load_bytes (mem s) first l1 = ?E1" "load_bytes (mem s) second l2 = ?E2" using p1 p2 l by (simp_all add: path_in_def)
  have in1: "region p l1 \<subseteq> region p (l1 + l2)" and in2: "region (p + of_nat ?c) l2 \<subseteq> region p (l1 + l2)"
    using region_mono [of l1 "l1 + l2" p] subregion [of ?c l2 "l1 + l2" p] lc by simp_all
  define m1 where "m1 = store_bytes (mem s) p ?E1"
  have m1: "memcpy (mem s) p first l1 = m1"
    unfolding m1_def using ld(1) sep(1) in1 lim by (subst memcpy_store) auto
  have "load_bytes m1 second l2 = ?E2"
    unfolding m1_def using sep(2) in1 ld(2) l by (subst load_store_disj) auto
  then have "memcpy m1 (p + of_nat ?c) second l2 = store_bytes m1 (p + of_nat ?c) ?E2"
    using sep(2) in2 lim by (subst memcpy_store) auto
  also have "\<dots> = store_bytes (mem s) p (take ?c ?E1 @ ?E2)"
    unfolding m1_def using lc p l by (intro store_over) simp_all
  also have "take ?c ?E1 @ ?E2 = encode_path H (ns1 @ ns2)"
    using l by (simp add: length_encode_path) (simp add: encode_path_def)
  finally have m2: "memcpy m1 (p + of_nat ?c) second l2 = store_bytes (mem s) p (encode_path H (ns1 @ ns2))" .
  define m' where "m' = store_bytes (mem s) p (encode_path H (ns1 @ ns2))"
  have len: "length (encode_path H (ns1 @ ns2)) = ?c + l2" using l by (simp add: length_encode_path)
  have c: "of_nat ?c = of_nat l1 - sizeof_node" using lc by (simp add: sizeof_node_def of_nat_diff)
  have at: "p + of_nat l1 - sizeof_node = p + of_nat ?c" by (simp only: c add_diff_eq)
  have "uefi_devpath_append B H first second s = Inr (p, s\<lparr>fw := w, mem := m'\<rparr>)"
    using size_run [OF p1] size_run [OF p2] p1 p2 al ok lim m1 m2 unfolding l [symmetric]
    by (simp add: at uefi_devpath_append_def uefi_devpath_valid_def path_in_def andthen_Inr fwcall_def EFIERR_ok unat_of_nat64 m'_def)
  moreover have "path_in H m' p (ns1 @ ns2)"
    using p1 p2 p len lc unfolding path_in_def m'_def by (simp add: load_store_same)
  moreover have "m' x = mem s x" if "x \<notin> region p (l1 + l2)" for x
    unfolding m'_def using that by (rule store_outside_le) (simp add: len)
  ultimately show ?thesis by blast
qed

text \<open>The path with a single node for a file, as \<^verbatim>\<open>uefi_devpath_from_path\<close> writes it into its block.\<close>

definition file_node :: "devpath_header \<Rightarrow> u8 list \<Rightarrow> node" where
  "file_node H name = Node (DEVICE_PATH_MEDIA H) (DEVICE_PATH_MEDIA H) name"

definition file_writes :: "devpath_header \<Rightarrow> addr \<Rightarrow> u8 list \<Rightarrow> mem \<Rightarrow> mem" where
  "file_writes H q name m =
     (let n = of_nat (length name);
          m2 = store_bytes (m(q := DEVICE_PATH_MEDIA H, q + 1 := DEVICE_PATH_MEDIA H)) (q + 4) name;
          m4 = wr16 (wr16 m2 (q + 4 + 2 * n) 0) (q + 2) (of_nat (4 + length name))
      in store_bytes m4 (q + (4 + n)) (empty_devpath H))"

lemma length_file_path: "length (encode_path H [file_node H name]) = length name + 8"
  by (simp add: length_encode_path length_encode_node file_node_def)

lemma file_writes_path:
  assumes big: "4 \<le> length name" and fits: "unat q + 2 * length name + 8 \<le> 2 ^ 63"
  shows "load_bytes (file_writes H q name m) q (length name + 8) = encode_path H [file_node H name]"
    and "load_bytes (file_writes H q name m) (q + 4 + 2 * of_nat (length name)) 2 = [0, 0]"
    and "x \<notin> region q (length name + 8) \<Longrightarrow> x \<notin> region (q + 4 + 2 * of_nat (length name)) 2 \<Longrightarrow>
       file_writes H q name m x = m x"
proof -
  let ?n = "length name" and ?M = "DEVICE_PATH_MEDIA H" and ?at = "\<lambda>k. q + of_nat k"
  define m1 where "m1 = m(q := ?M, q + 1 := ?M)"
  define m2 where "m2 = store_bytes m1 (?at 4) name"
  define m3 where "m3 = store_bytes m2 (?at (4 + 2 * ?n)) (le_bytes 2 (0 :: u16))"
  define m4 where "m4 = store_bytes m3 (?at 2) (le_bytes 2 (of_nat (4 + ?n) :: u16))"
  define m5 where "m5 = store_bytes m4 (?at (4 + ?n)) (empty_devpath H)"
  have m5: "file_writes H q name m = m5"
    by (simp add: file_writes_def Let_def m1_def m2_def m3_def m4_def m5_def wr16_def add.assoc)
  have le: "length (le_bytes 2 v) = 2" "length (empty_devpath H) = 4" for v :: u16 by (simp_all add: empty_devpath_def)
  have far: "region (?at i) a \<inter> region (?at j) b = {}" "region (?at j) b \<inter> region (?at i) a = {}"
    if "i + a \<le> j" "j + b \<le> 2 * ?n + 8" for i j a b
    using offsets_apart [of i a j b q] that fits by (auto simp: Int_commute)
  have q0: "?at 0 = q" by simp
  have 1: "load_bytes m1 q 2 = [?M, ?M]" by (simp add: m1_def load_bytes_Suc numeral_eq_Suc)
  have 2: "load_bytes m2 q 2 = [?M, ?M]" "load_bytes m2 (?at 4) ?n = name"
    unfolding m2_def using far [of 0 2 4 ?n] fits 1 by (simp_all add: load_store_disj load_store_same)
  have 3: "load_bytes m3 q 2 = [?M, ?M]" "load_bytes m3 (?at 4) ?n = name"
    unfolding m3_def using far(1) [of 0 2 "4 + 2 * ?n" 2] far(1) [of 4 ?n "4 + 2 * ?n" 2] 2 le
    by (simp_all add: load_store_disj)
  have "load_bytes m4 q (4 + ?n) = load_bytes m3 q 2 @ le_bytes 2 (of_nat (4 + ?n) :: u16) @ load_bytes m3 (?at 4) ?n"
    unfolding m4_def using load_store_slice [of 2 "le_bytes 2 (of_nat (4 + ?n) :: u16)" "4 + ?n" m3 q] fits by simp
  then have 4: "load_bytes m4 q (4 + ?n) = encode_node (file_node H name)"
    using 3 by (simp add: encode_node_def file_node_def)
  have "load_bytes m5 q (?n + 8) = load_bytes m4 q (4 + ?n) @ empty_devpath H"
    unfolding m5_def using load_store_slice [of "4 + ?n" "empty_devpath H" "?n + 8" m4 q] fits le by simp
  then show "load_bytes (file_writes H q name m) q (?n + 8) = encode_path H [file_node H name]"
    by (simp add: m5 4 encode_path_def)
  have e: "q + 4 + 2 * of_nat ?n = ?at (4 + 2 * ?n)" by simp
  have "load_bytes m3 (?at (4 + 2 * ?n)) 2 = [0, 0]" by (simp add: m3_def load_store_same le_bytes_numeral)
  moreover have "load_bytes m5 (?at (4 + 2 * ?n)) 2 = load_bytes m3 (?at (4 + 2 * ?n)) 2"
    unfolding m5_def m4_def using far(2) [of "4 + ?n" 4 "4 + 2 * ?n" 2] far(2) [of 2 2 "4 + 2 * ?n" 2] big
    by (simp only: load_store_disj le)
  ultimately show "load_bytes (file_writes H q name m) (q + 4 + 2 * of_nat ?n) 2 = [0, 0]" unfolding m5 e by simp
  have inside: "region (?at i) k \<subseteq> region q (?n + 8)" if "i + k \<le> ?n + 8" for i k using that by (rule subregion)
  show "file_writes H q name m x = m x" if x: "x \<notin> region q (?n + 8)" "x \<notin> region (q + 4 + 2 * of_nat ?n) 2"
  proof -
    have "x \<noteq> q" "x \<noteq> q + 1" using x(1) in_region [of 1 "?n + 8" q] by auto
    then have "m1 x = m x" by (simp add: m1_def)
    moreover have "x \<notin> region (?at 4) ?n" "x \<notin> region (?at 2) 2" "x \<notin> region (?at (4 + ?n)) 4"
      using x(1) inside [of 4 ?n] inside [of 2 2] inside [of "4 + ?n" 4] by auto
    then have "m2 x = m1 x" "m4 x = m3 x" "m5 x = m4 x"
      unfolding m2_def m4_def m5_def by (simp_all only: store_outside le not_False_eq_True)
    moreover have "m3 x = m2 x" unfolding m3_def using x(2) unfolding e by (simp only: store_outside le not_False_eq_True)
    ultimately show ?thesis by (simp add: m5)
  qed
qed

lemma ucast_of_nat16: "k < 65536 \<Longrightarrow> (ucast (of_nat k :: u64) :: u16) = of_nat k"
  by (simp add: unsigned_of_nat take_bit_nat_eq_self)

lemma ucast_back: "k < 65536 \<Longrightarrow> (ucast (of_nat k :: u16) :: u64) = of_nat k"
  by (simp add: unsigned_of_nat take_bit_nat_eq_self)

lemma file_handle_run:
  assumes "OpenProtocol (HND B) (fw s) h LoadedImageProtocol = ((st1, img), w1)" and "\<not> EFI_ERROR B st1"
    and "OpenProtocol (HND B) w1 (LoadedImage_DeviceHandle (HND B) w1 img) DevicePathProtocol = ((st2, d), w2)"
    and "\<not> EFI_ERROR B st2"
  shows "uefi_devpath_from_file_handle B h s = Inr (d, s\<lparr>fw := w2\<rparr>)"
  using assms by (simp add: uefi_devpath_from_file_handle_def andthen_Inr fwcall_def)

lemma path_written:
  fixes s :: "('w, 'z) machine_scheme"
  assumes n: "load_bytes (mem s) filename n = name" "n = 2 * length us + 2"
    and us: "wide_at (mem s) filename us" "0 \<notin> set us" "n < 65532"
    and al: "AllocatePool B (fw s) (of_nat (n + 8)) = ((status, q), w)" and ok: "\<not> EFI_ERROR B status"
    and q: "q \<noteq> 0" "unat q + 2 * n + 8 \<le> 2 ^ 63" and sep: "region filename n \<inter> region q (n + 8) = {}"
    and dev: "device \<noteq> 0"
  shows "uefi_devpath_from_path B H device filename s =
     andthen (uefi_devpath_from_file_handle B device) (\<lambda>d. uefi_devpath_append B H d q)
       (s\<lparr>fw := w, mem := file_writes H q name (mem s)\<rparr>)"
proof -
  let ?m1 = "(mem s)(q := DEVICE_PATH_MEDIA H, q + 1 := DEVICE_PATH_MEDIA H)"
  have len: "length name = n" using n(1) by (metis length_load_bytes)
  have sz: "(of_nat (length us) + 1) * 2 = (of_nat n :: u64)" unfolding n(2) by (simp add: algebra_simps)
  have un: "unat (of_nat n :: u64) = n" using us(3) by (intro unat_of_nat64) simp
  have sub: "region q 2 \<subseteq> region q (n + 8)" "region (q + 4) n \<subseteq> region q (n + 8)"
    using region_mono [of 2 "n + 8" q] subregion [of 4 n "n + 8" q] by simp_all
  have "load_bytes ?m1 filename n = name"
  proof -
    have "x \<noteq> q" "x \<noteq> q + 1" if "x \<in> region filename n" for x
      using that sep in_region [of 1 "n + 8" q] by auto
    then have "load_bytes ?m1 filename n = load_bytes (mem s) filename n" by (intro load_cong) simp
    then show ?thesis by (simp add: n(1))
  qed
  then have cp: "memcpy ?m1 (q + 4) filename n = store_bytes ?m1 (q + 4) name"
    using sep sub us(3) by (subst memcpy_store) auto
  have strlen: "efi_strlen (mem s) filename = Some (of_nat (length us))" using us by (intro efi_strlen_wide)
  have ln: "(ucast (of_nat n + 4 :: u64) :: u16) = of_nat (4 + n)"
    using ucast_of_nat16 [of "n + 4"] us(3) by (simp add: add.commute)
  have big: "\<not> (of_nat n + 4 :: u64) < 4" using us(3) by (simp add: word_less_nat_alt unat_word_ariths un)
  have nx: "uefi_devpath_get_next (wr16 mm (q + 2) (4 + of_nat n)) q = q + (4 + of_nat n)" for mm
    using ucast_back [of "4 + n"] us(3) by (simp add: uefi_devpath_get_next_def uefi_devpath_get_node_length_def c16.rd_wr_same)
  have "unat (q + of_nat (4 + n)) = unat q + (4 + n)" using q us(3) by (intro unat_add_of_nat) simp
  then have nz: "q + (4 + of_nat n) \<noteq> 0" by auto
  show ?thesis
    using al ok q(1) dev
    by (simp only: uefi_devpath_from_path_def strlen or_undefined_def option.case andthen_gets andthen_ret Let_def sz)
      (simp add: andthen_Inr fwcall_def EFIERR_ok path_name_offset_def sizeof_node_def add.assoc un cp
        uefi_devpath_set_node_length_def uefi_devpath_set_end_def ln big nx nz file_writes_def len Let_def)
qed

lemma no_end:
  "devpath_end H m x = Some r \<Longrightarrow> a \<noteq> 0 \<Longrightarrow> \<not> uefi_devpath_is_end H m a \<Longrightarrow> uefi_devpath_get_node_length m a = 0 \<Longrightarrow> x \<noteq> a"
proof (induction rule: devpath_end.raw_induct [rotated, consumes 1, case_names step])
  case (step walk H m x r)
  show ?case
  proof
    assume "x = a"
    then have "walk H m a = Some r" using step(2-) by (simp add: uefi_devpath_get_next_def)
    then show False using step(1) step(3-) by blast
  qed
qed

section \<open>Properties\<close>

text \<open>
  C33: The size of a well-formed path is found in finitely many steps: it is the length of the encoded nodes with
  their end node, and nothing is changed.
\<close>

theorem uefi_devpath_size_measures:
  assumes "path_in H (mem s) a ns"
  shows "uefi_devpath_size H a s = Inr (of_nat (length (encode_path H ns)), s)"
  using assms by (rule size_run)

text \<open>
  C31: Appending two well-formed paths gives, in new memory, the path whose nodes are those of the first
  followed by those of the second; the end node of the first is gone and no other memory changes.
\<close>

theorem uefi_devpath_append_concatenates:
  fixes s :: "('w, 'z) machine_scheme"
  assumes "path_in H (mem s) first ns1" and "path_in H (mem s) second ns2"
    and "l1 = length (encode_path H ns1)" and "l2 = length (encode_path H ns2)"
    and "AllocatePool B (fw s) (of_nat (l1 + l2)) = ((status, p), w)" and "\<not> EFI_ERROR B status"
    and "p \<noteq> 0" and "unat p + l1 + l2 \<le> 2 ^ 63"
    and "region first l1 \<inter> region p (l1 + l2) = {}" and "region second l2 \<inter> region p (l1 + l2) = {}"
  shows "\<exists>m'. uefi_devpath_append B H first second s = Inr (p, s\<lparr>fw := w, mem := m'\<rparr>) \<and> path_in H m' p (ns1 @ ns2) \<and>
     (\<forall>x. x \<notin> region p (l1 + l2) \<longrightarrow> m' x = mem s x)"
  using assms by (rule append_run)

text \<open>
  C32: For a device whose image has the path \<open>ns\<close> and a file name of at least one character, the path built is \<open>ns\<close>
  followed by a node with the name; but two bytes that lie behind the block allocated for that node are
  set to zero, because the name is indexed with its size in bytes.
\<close>

theorem uefi_devpath_from_path_builds:
  fixes s :: "('w, 'z) machine_scheme"
  assumes "wide_at (mem s) filename us" and "0 \<notin> set us" and "us \<noteq> []" and "n = 2 * length us + 2" and "n < 65532"
    and "device \<noteq> 0" and "DEVICE_PATH_MEDIA H \<noteq> DEVICE_PATH_END H"
    and "AllocatePool B (fw s) (of_nat (n + 8)) = ((st0, q), w0)" and "\<not> EFI_ERROR B st0"
    and "OpenProtocol (HND B) w0 device LoadedImageProtocol = ((st1, img), w1)" and "\<not> EFI_ERROR B st1"
    and "OpenProtocol (HND B) w1 (LoadedImage_DeviceHandle (HND B) w1 img) DevicePathProtocol = ((st2, d), w2)"
    and "\<not> EFI_ERROR B st2" and "path_in H (mem s) d ns" and "l = length (encode_path H ns)"
    and "AllocatePool B w2 (of_nat (l + (n + 8))) = ((st3, p), w3)" and "\<not> EFI_ERROR B st3"
    and "q \<noteq> 0" and "unat q + 2 * n + 8 \<le> 2 ^ 63" and "p \<noteq> 0" and "unat p + l + (n + 8) \<le> 2 ^ 63"
    and "apart [(filename, n), (d, l), (q, n + 8), (q + 4 + 2 * of_nat n, 2), (p, l + (n + 8))]"
  shows "\<exists>m'. uefi_devpath_from_path B H device filename s = Inr (p, s\<lparr>fw := w3, mem := m'\<rparr>) \<and>
     path_in H m' p (ns @ [file_node H (load_bytes (mem s) filename n)]) \<and>
     load_bytes m' (q + 4 + 2 * of_nat n) 2 = [0, 0] \<and>
     region (q + 4 + 2 * of_nat n) 2 \<inter> region q (n + 8) = {}"
proof -
  let ?name = "load_bytes (mem s) filename n" and ?f = "q + 4 + 2 * of_nat n"
  define m1 where "m1 = file_writes H q ?name (mem s)"
  have apart: "region filename n \<inter> region q (n + 8) = {}" "region d l \<inter> region q (n + 8) = {}" "region d l \<inter> region ?f 2 = {}"
    "region d l \<inter> region p (l + (n + 8)) = {}" "region q (n + 8) \<inter> region p (l + (n + 8)) = {}" "region ?f 2 \<inter> region p (l + (n + 8)) = {}"
    "region ?f 2 \<inter> region q (n + 8) = {}" using assms(22) by simp_all
  have four: "4 \<le> length ?name" "unat q + 2 * length ?name + 8 \<le> 2 ^ 63" using assms(3,4,19) by (cases us; simp)+
  note W = file_writes_path [OF four, where H = H and m = "mem s", unfolded length_load_bytes, folded m1_def]
  have ok: "node_ok H (file_node H ?name)" using assms(5,7) by (simp add: node_ok_def file_node_def)
  have q: "path_in H m1 q [file_node H ?name]"
    using W(1) ok assms(18,19) by (simp add: path_in_def length_file_path)
  have d: "path_in H m1 d ns" by (rule path_in_cong [OF assms(14)]) (use apart(2,3) W(3) assms(15) in blast)
  have swap: "s\<lparr>mem := m1, fw := w2\<rparr> = s\<lparr>fw := w2, mem := m1\<rparr>" by simp
  have run: "uefi_devpath_from_path B H device filename s = uefi_devpath_append B H d q (s\<lparr>fw := w2, mem := m1\<rparr>)"
    using file_handle_run [of B "s\<lparr>fw := w0, mem := m1\<rparr>" device, OF _ assms(11) _ assms(13)] assms(10,12)
    by (subst path_written [OF refl assms(4,1,2,5,8,9,18,19) apart(1) assms(6)]) (simp add: andthen_Inr swap flip: m1_def)
  have "\<exists>m'. uefi_devpath_append B H d q (s\<lparr>fw := w2, mem := m1\<rparr>) = Inr (p, s\<lparr>fw := w2, mem := m1\<rparr>\<lparr>fw := w3, mem := m'\<rparr>) \<and>
      path_in H m' p (ns @ [file_node H ?name]) \<and> (\<forall>x. x \<notin> region p (l + (n + 8)) \<longrightarrow> m' x = mem (s\<lparr>fw := w2, mem := m1\<rparr>) x)"
    by (rule append_run [OF _ _ assms(15)])
      (use d q assms(16,17,20,21) apart(4,5) in \<open>simp_all add: length_file_path\<close>)
  then obtain m' where m': "uefi_devpath_append B H d q (s\<lparr>fw := w2, mem := m1\<rparr>) = Inr (p, s\<lparr>fw := w3, mem := m'\<rparr>)"
    "path_in H m' p (ns @ [file_node H ?name])" "\<And>x. x \<notin> region p (l + (n + 8)) \<Longrightarrow> m' x = m1 x" by auto
  have "load_bytes m' ?f 2 = load_bytes m1 ?f 2" by (rule load_cong) (use m'(3) apart(6) in blast)
  then show ?thesis using run m' W(2) apart(7) by (intro exI [of _ m']) simp
qed

text \<open>
  A node that is no end node and has length zero is its own successor, so looking for the end of such a path
  never ends: the check that would refuse it is the one \<^verbatim>\<open>uefi_devpath_valid\<close> leaves out.
\<close>

theorem uefi_devpath_size_hangs:
  assumes "a \<noteq> 0" and "\<not> uefi_devpath_is_end H (mem s) a" and "uefi_devpath_get_node_length (mem s) a = 0"
  shows "uefi_devpath_valid a \<and> uefi_devpath_size H a s = Inl (Hung, s)"
proof -
  have "devpath_end H (mem s) a = None" using no_end [OF _ assms] by (cases "devpath_end H (mem s) a") blast+
  then show ?thesis using assms(1) by (simp add: uefi_devpath_valid_def uefi_devpath_size_def)
qed

section \<open>Witnesses\<close>

text \<open>The name \<open>b\<close> at \<^verbatim>\<open>0x2000\<close>, and a path of one node at \<^verbatim>\<open>0x3400\<close>.\<close>

definition sample_header :: devpath_header where
  "sample_header = \<lparr>DEVICE_PATH_END = 0x7f, DEVICE_PATH_ENTIRE_END = 0xff, DEVICE_PATH_MEDIA = 4\<rparr>"

definition path_machine :: "sample_state machine" where
  "path_machine = sample_machine\<lparr>mem := (\<lambda>_. 0)(0x2000 := 98, 0x3400 := 1, 0x3401 := 1, 0x3402 := 4,
     0x3404 := 0x7f, 0x3405 := 0xff, 0x3406 := 4)\<rparr>"

definition sample_nodes :: "node list" where "sample_nodes = [Node 1 1 []]"

lemmas path_sample = path_machine_def sample_header_def sample_nodes_def

lemma encode_sample: "encode_path sample_header sample_nodes = [1, 1, 4, 0, 0x7f, 0xff, 4, 0]"
  by (simp add: path_sample encode_path_def encode_node_def empty_devpath_def le_bytes_numeral)

lemma path_in_sample: "path_in sample_header (mem path_machine) 0x3400 sample_nodes"
proof -
  have "length (encode_path sample_header sample_nodes) = 8" by (simp add: encode_sample)
  moreover have "load_bytes (mem path_machine) 0x3400 8 = encode_path sample_header sample_nodes"
    unfolding encode_sample by (simp add: path_sample load_bytes_def upt_rec)
  ultimately show ?thesis by (simp add: path_in_def) (simp add: path_sample node_ok_def)
qed

lemma sample_pool:
  "AllocatePool sample_env sample_start 16 = ((EFI_SUCCESS, 0x10000), sample_start\<lparr>next_page := 17\<rparr>)"
  "AllocatePool sample_env sample_start 12 = ((EFI_SUCCESS, 0x10000), sample_start\<lparr>next_page := 17\<rparr>)"
  "AllocatePool sample_env (sample_start\<lparr>next_page := 17\<rparr>) 20 = ((EFI_SUCCESS, 0x11000), sample_start\<lparr>next_page := 18\<rparr>)"
  by (simp_all add: sample_env_def sample_start_def)

lemma sample_ok: "\<not> EFI_ERROR sample_env EFI_SUCCESS"
  by (simp add: sample_env_def)

lemma fw_path_machine: "fw path_machine = sample_start"
  by (simp add: path_sample sample_machine_def)

theorem uefi_devpath_size_measures_witness: "uefi_devpath_size sample_header 0x3400 path_machine = Inr (8, path_machine)"
  using uefi_devpath_size_measures [OF path_in_sample] by (simp add: encode_sample)

theorem uefi_devpath_append_concatenates_witness:
  "\<exists>m'. uefi_devpath_append sample_env sample_header 0x3400 0x3400 path_machine =
       Inr (0x10000, path_machine\<lparr>fw := sample_start\<lparr>next_page := 17\<rparr>, mem := m'\<rparr>) \<and>
     path_in sample_header m' 0x10000 [Node 1 1 [], Node 1 1 []]"
proof -
  have far: "region 0x3400 8 \<inter> region 0x10000 (8 + 8) = {}" by (rule region_disjI) simp_all
  have l: "8 = length (encode_path sample_header sample_nodes)" by (simp add: encode_sample)
  have al: "AllocatePool sample_env (fw path_machine) (of_nat (8 + 8)) = ((EFI_SUCCESS, 0x10000), sample_start\<lparr>next_page := 17\<rparr>)"
    using sample_pool(1) by (simp add: fw_path_machine)
  have p: "(0x10000 :: addr) \<noteq> 0" "unat (0x10000 :: addr) + 8 + 8 \<le> 2 ^ 63" by simp_all
  show ?thesis
    using uefi_devpath_append_concatenates [OF path_in_sample path_in_sample l l al sample_ok p far far]
    by (auto simp: sample_nodes_def)
qed

theorem uefi_devpath_from_path_builds_witness:
  "\<exists>m'. uefi_devpath_from_path sample_env sample_header 0x3300 0x2000 path_machine =
       Inr (0x11000, path_machine\<lparr>fw := sample_start\<lparr>next_page := 18\<rparr>, mem := m'\<rparr>) \<and>
     path_in sample_header m' 0x11000 [Node 1 1 [], Node 4 4 [98, 0, 0, 0]] \<and> load_bytes m' 0x1000c 2 = [0, 0]"
proof -
  let ?w = "sample_start\<lparr>next_page := 17\<rparr>"
  have us: "wide_at (mem path_machine) 0x2000 [98]" "(0 :: u16) \<notin> set [98]" "[98 :: u16] \<noteq> []" "4 = 2 * length [98 :: u16] + 2" "(4 :: nat) < 65532"
    by (simp_all add: path_sample wide_at_def rd16_def le_word_def load_bytes_def upt_rec)
  have dev: "(0x3300 :: addr) \<noteq> 0" "DEVICE_PATH_MEDIA sample_header \<noteq> DEVICE_PATH_END sample_header" by (simp_all add: path_sample)
  have al: "AllocatePool sample_env (fw path_machine) (of_nat (4 + 8)) = ((EFI_SUCCESS, 0x10000), ?w)"
    "AllocatePool sample_env ?w (of_nat (8 + (4 + 8))) = ((EFI_SUCCESS, 0x11000), sample_start\<lparr>next_page := 18\<rparr>)"
    using sample_pool(2,3) by (simp_all add: fw_path_machine)
  have op: "OpenProtocol (HND sample_env) ?w 0x3300 LoadedImageProtocol = ((EFI_SUCCESS, 0x3300), ?w)"
    "OpenProtocol (HND sample_env) ?w (LoadedImage_DeviceHandle (HND sample_env) ?w 0x3300) DevicePathProtocol = ((EFI_SUCCESS, 0x3400), ?w)"
    by (simp_all add: sample_env_def sample_hnd_def)
  have l: "8 = length (encode_path sample_header sample_nodes)" by (simp add: encode_sample)
  have p: "(0x10000 :: addr) \<noteq> 0" "unat (0x10000 :: addr) + 2 * 4 + 8 \<le> 2 ^ 63" "(0x11000 :: addr) \<noteq> 0" "unat (0x11000 :: addr) + 8 + (4 + 8) \<le> 2 ^ 63"
    by simp_all
  have far: "apart [(0x2000, 4), (0x3400, 8), (0x10000, 4 + 8), (0x10000 + 4 + 2 * of_nat 4, 2), (0x11000, 8 + (4 + 8))]"
    by (rule apart_ascending [of 0]) simp
  have name: "load_bytes (mem path_machine) 0x2000 4 = [98, 0, 0, 0]" by (simp add: path_sample load_bytes_def upt_rec)
  show ?thesis
    using uefi_devpath_from_path_builds [OF us dev al(1) sample_ok op(1) sample_ok op(2) sample_ok path_in_sample l al(2) sample_ok p far]
    unfolding name by (auto simp: sample_nodes_def file_node_def sample_header_def)
qed

theorem uefi_devpath_size_hangs_witness: "uefi_devpath_size sample_header 0x5000 path_machine = Inl (Hung, path_machine)"
proof -
  have "uefi_devpath_get_node_length (mem path_machine) 0x5000 = 0"
    by (simp add: path_sample uefi_devpath_get_node_length_def rd16_def le_word_def load_bytes_def upt_rec)
  moreover have "\<not> uefi_devpath_is_end sample_header (mem path_machine) 0x5000" by (simp add: path_sample uefi_devpath_is_end_def)
  ultimately show ?thesis using uefi_devpath_size_hangs [of "0x5000" sample_header path_machine] by simp
qed

end
