(* ===== verification/Util.thy ===== *)
theory Util
  imports Device_Path
begin

text \<open>
  Helpers over the firmware (\<^verbatim>\<open>uefi/util.c\<close>, \<^verbatim>\<open>uefi/init.c\<close>): names for handles, comparison of identifiers,
  the keyboard, and the first things the loader does.
\<close>

section \<open>The code\<close>

text \<open>
  Where the string literals \<^verbatim>\<open>L"<null_path"\<close>, \<^verbatim>\<open>L"<null_string>"\<close>, \<^verbatim>\<open>L""\<close>, \<^verbatim>\<open>L"btrfs.efi"\<close> and \<^verbatim>\<open>L"kernel"\<close> are.
\<close>

record literals =
  null_path_text :: addr
  null_string_text :: addr
  empty_text :: addr
  btrfs_text :: addr
  kernel_text :: addr

definition uefi_handle_get_string :: "'w env \<Rightarrow> literals \<Rightarrow> addr \<Rightarrow> ('w, 'z, addr) run" where
  "uefi_handle_get_string B V h =
     andthen (fwcall (\<lambda>w. HandleProtocol (HND B) w h DevicePathProtocol)) (\<lambda>(status, path).
     if EFI_ERROR B status
     then
       andthen (fwcall (\<lambda>w. AllocatePool B w 24)) (\<lambda>(status, err).
       andthen (EFIERR B ''uefi/util.c'' 12 status) (\<lambda>_.
       andthen (set_mem (\<lambda>m. memcpy m err (null_path_text V) 24)) (\<lambda>_.
       ret err)))
     else
       andthen (uefi_devpath_get_string B path) (\<lambda>str.
       if str = 0
       then
         andthen (fwcall (\<lambda>w. AllocatePool B w 28)) (\<lambda>(status, err).
         andthen (EFIERR B ''uefi/util.c'' 23 status) (\<lambda>_.
         andthen (set_mem (\<lambda>m. memcpy m err (null_string_text V) 28)) (\<lambda>_.
         ret err)))
       else ret str))"

definition uefi_guid_compare :: "efi_guid \<Rightarrow> efi_guid \<Rightarrow> int" where
  "uefi_guid_compare a b =
     (if data1 a = data1 b \<and> data2 a = data2 b \<and> data3 a = data3 b
      then if data4 a = data4 b then 0 else 1
      else 1)"

text \<open>One round of \<^verbatim>\<open>while(!key.UnicodeChar)\<close>; the key starts as zero, so there is a first round.\<close>

definition keystroke_round :: "'w env \<Rightarrow> ('w, 'z, u16) run" where
  "keystroke_round B =
     andthen (fwcall (\<lambda>w. WaitForKey (BS B) w)) (\<lambda>s.
     andthen (EFIERR B ''uefi/util.c'' 66 s) (\<lambda>_.
     andthen (fwcall (\<lambda>w. ReadKeyStroke B w)) (\<lambda>(s, key).
     andthen (EFIERR B ''uefi/util.c'' 69 s) (\<lambda>_.
     ret key))))"

definition uefi_read_keystroke :: "'w env \<Rightarrow> ('w, 'z, u8) run" where
  "uefi_read_keystroke B =
     andthen (repeat_run Hung (keystroke_round B) (\<lambda>key. key = 0)) (\<lambda>key.
     ret (ucast (key AND 0xFF)))"

section \<open>Properties\<close>

lemma uefi_guid_compare_eq: "uefi_guid_compare a b = 0 \<longleftrightarrow> a = b"
  by (cases a; cases b) (auto simp: uefi_guid_compare_def)

lemma repeat_run_Inr:
  "repeat_run hung body again s = Inr (x, t) \<longleftrightarrow> (\<exists>n s'. rounds body again n s = Some s' \<and> body s' = Inr (x, t) \<and> \<not> again x)"
proof -
  have "repeat_run hung body again s = Inr (x, t) \<longleftrightarrow> do_while body again s = Some (Inr (x, t))"
    by (auto simp: repeat_run_def split: option.splits)
  then show ?thesis unfolding do_while_iff by (auto simp: is_last_def)
qed

text \<open>
  Reading a key returns exactly when, after some rounds in which the firmware reported a key without a character, it
  reports one with a character; the result is the low byte of that character, whatever its high byte is.
\<close>

theorem uefi_read_keystroke_returns:
  "uefi_read_keystroke B s = Inr (c, t) \<longleftrightarrow>
     (\<exists>n s' key. rounds (keystroke_round B) (\<lambda>k. k = 0) n s = Some s' \<and> keystroke_round B s' = Inr (key, t) \<and>
        key \<noteq> 0 \<and> c = ucast key)"
proof -
  have low: "ucast (key AND 0xFF) = (ucast key :: u8)" for key :: u16
  proof -
    have "(0xFF :: u16) = mask 8" by (simp add: mask_eq_exp_minus_1)
    then have "key AND 0xFF = take_bit 8 key" by (simp only: take_bit_eq_mask)
    then show ?thesis by (auto intro!: bit_word_eqI simp: bit_simps)
  qed
  have "uefi_read_keystroke B s = Inr (c, t) \<longleftrightarrow>
      (\<exists>key. repeat_run Hung (keystroke_round B) (\<lambda>k. k = 0) s = Inr (key, t) \<and> c = ucast key)"
    by (auto simp: uefi_read_keystroke_def low andthen_Inr elim!: andthen_InrE)
  then show ?thesis by (auto simp: repeat_run_Inr)
qed

end
