(* ===== verification/Boot.thy ===== *)
theory Boot
  imports Kernel Util
begin

text \<open>
  What the kernel is told (\<^verbatim>\<open>boot/*.c\<close>, \<^verbatim>\<open>boot/info.h\<close>): the graphics mode, the image of the loader, the ACPI
  table and the memory map, and opening the kernel's file (\<^verbatim>\<open>fs/open.c\<close>, \<^verbatim>\<open>fs/utils.c\<close>).
\<close>

section \<open>The code\<close>

text \<open>The globals of \<^verbatim>\<open>loader.c\<close>, which do not change after it has set them, and the local \<^verbatim>\<open>header\<close> of \<^verbatim>\<open>loader_kernel\<close>.\<close>

record globals =
  handle :: addr
  st :: addr
  header_local :: addr

text \<open>The structure \<^verbatim>\<open>info_t\<close> is in memory; every field has eight bytes.\<close>

datatype info_field =
    Handle | St | Loaded_image | Efi_memory_map | Efi_memory_map_entries | Efi_memory_map_key
  | Efi_memory_map_descriptor_size | Rsdp | Gop_mode | Copy | Copy_size

fun info_offset :: "info_field \<Rightarrow> u64" where
  "info_offset Handle = 0"
| "info_offset St = 8"
| "info_offset Loaded_image = 16"
| "info_offset Efi_memory_map = 24"
| "info_offset Efi_memory_map_entries = 32"
| "info_offset Efi_memory_map_key = 40"
| "info_offset Efi_memory_map_descriptor_size = 48"
| "info_offset Rsdp = 56"
| "info_offset Gop_mode = 64"
| "info_offset Copy = 72"
| "info_offset Copy_size = 80"

declare info_offset.simps [simp del]

definition sizeof_info :: u64 where "sizeof_info = 88"

definition info_get :: "mem \<Rightarrow> addr \<Rightarrow> info_field \<Rightarrow> u64" where
  "info_get m info f = rd64 m (info + info_offset f)"

definition info_set :: "addr \<Rightarrow> info_field \<Rightarrow> u64 \<Rightarrow> ('w, 'z, unit) run" where
  "info_set info f v = set_mem (\<lambda>m. wr64 m (info + info_offset f) v)"

subsection \<open>Files\<close>

definition fs_open :: "'w env \<Rightarrow> globals \<Rightarrow> addr \<Rightarrow> ('w, 'z, efi_status \<times> addr) run" where
  "fs_open B G path =
     andthen (fwcall (\<lambda>w. HandleProtocol (HND B) w (handle G) LoadedImageProtocol)) (\<lambda>(status, loaded_image).
     andthen (EFIERR B ''fs/open.c'' 10 status) (\<lambda>_.
     andthen (fwcall (\<lambda>w. HandleProtocol (HND B) w (LoadedImage_DeviceHandle (HND B) w loaded_image) SimpleFileSystemProtocol)) (\<lambda>(status, file_system).
     andthen (EFIERR B ''fs/open.c'' 14 status) (\<lambda>_.
     andthen (fwcall (\<lambda>w. OpenVolume (VOL B) w file_system)) (\<lambda>(status, root).
     andthen (EFIERR B ''fs/open.c'' 18 status) (\<lambda>_.
     andthen (gets (\<lambda>s. efi_strlen (mem s) path)) (\<lambda>len.
     andthen (or_undefined len) (\<lambda>units.
     andthen (gets (\<lambda>s. map (\<lambda>i. rd16 (mem s) (path + 2 * of_nat i)) [0..<unat units])) (\<lambda>name.
     andthen (fwcall (\<lambda>w. File_Open (VOL B) w root name MODE_READ)) (\<lambda>(s, file_handle).
     if s \<noteq> EFI_SUCCESS then efi_panic B (''file not found'' @ [CHR 0x0A])
     else ret (EFI_SUCCESS, file_handle)))))))))))"

definition fs_get_file_info :: "'w env \<Rightarrow> addr \<Rightarrow> ('w, 'z, addr) run" where
  "fs_get_file_info B file_handle =
     andthen (fwcall (\<lambda>w. File_GetInfo (BS B) w file_handle 1)) (\<lambda>(status, info_len, _).
     if status \<noteq> EFI_SUCCESS \<and> status \<noteq> EFI_BUFFER_TOO_SMALL then efi_panic B ''couldn't get file info''
     else
       andthen (malloc B info_len) (\<lambda>info.
       andthen (fwcall (\<lambda>w. File_GetInfo (BS B) w file_handle info_len)) (\<lambda>(status, _, bytes).
       andthen (set_mem (\<lambda>m. store_bytes m info bytes)) (\<lambda>_.
       ret info))))"

text \<open>\<^verbatim>\<open>FileSize\<close> is the second field of the firmware's description of a file.\<close>

definition FileSize :: "mem \<Rightarrow> addr \<Rightarrow> u64" where
  "FileSize m info = rd64 m (info + 8)"

subsection \<open>Graphics\<close>

definition EFI_OVMF_SIGNATURE :: "u8 list" where
  "EFI_OVMF_SIGNATURE = [0x45, 0, 0x44, 0, 0x4b, 0, 0x20, 0, 0x49, 0, 0x49, 0, 0]"

text \<open>Both uses compare 13 bytes.\<close>

definition is_ovmf :: "'w env \<Rightarrow> bool" where
  "is_ovmf B \<longleftrightarrow> take 13 (FirmwareVendor (SYS B)) = EFI_OVMF_SIGNATURE"

fun gop_loop :: "'w env \<Rightarrow> addr list \<Rightarrow> ('w, 'z, efi_status \<times> addr option) run" where
  "gop_loop B [] = ret (EFI_UNSUPPORTED, None)"
| "gop_loop B (h # hs) =
     andthen (fwcall (\<lambda>w. OpenProtocol (HND B) w h GraphicsOutputProtocol)) (\<lambda>(status, gop).
     andthen (EFIERR B ''boot/framebuffer.c'' 21 status) (\<lambda>_.
     if gop \<noteq> 0 then ret (EFI_SUCCESS, Some gop) else gop_loop B hs))"

text \<open>Gives the status and what is stored through \<^verbatim>\<open>out\<close>, if anything.\<close>

definition efi_gop_get :: "'w env \<Rightarrow> ('w, 'z, efi_status \<times> addr option) run" where
  "efi_gop_get B =
     andthen (fwcall (\<lambda>w. LocateHandleBuffer (BS B) w (Some GraphicsOutputProtocol))) (\<lambda>(status, handles).
     andthen (EFIERR B ''boot/framebuffer.c'' 16 status) (\<lambda>_.
     gop_loop B handles))"

text \<open>
  The loop over the modes, with \<open>n\<close> of them left. The number of modes is a constant of the
  firmware's description of the output and read once.
\<close>

fun mode_loop :: "'w env \<Rightarrow> addr \<Rightarrow> nat \<Rightarrow> u32 \<Rightarrow> u64 \<Rightarrow> u64 \<Rightarrow> u32 \<Rightarrow> ('w, 'z, bool) run" where
  "mode_loop B gop 0 i max_w max_h selection =
     (if \<not> is_ovmf B \<and> selection \<noteq> 0
      then andthen (fwcall (\<lambda>w. SetMode (GOP B) w gop selection)) (\<lambda>_. ret True)
      else ret False)"
| "mode_loop B gop (Suc n) i max_w max_h selection =
     andthen (fwcall (\<lambda>w. AllocatePool B w 8)) (\<lambda>_.
     andthen (fwcall (\<lambda>w. QueryMode (GOP B) w gop i)) (\<lambda>(status, HorizontalResolution, VerticalResolution).
     andthen (EFIERR B ''boot/framebuffer.c'' 46 status) (\<lambda>_.
     let width = ucast HorizontalResolution; h = ucast VerticalResolution in
     if is_ovmf B \<and> width = 800 \<and> h = 600
     then andthen (fwcall (\<lambda>w. SetMode (GOP B) w gop i)) (\<lambda>_. ret True)
     else if max_w < width \<or> max_h < h then mode_loop B gop n (i + 1) width h i
     else mode_loop B gop n (i + 1) max_w max_h selection)))"

definition framebuffer_setup :: "'w env \<Rightarrow> addr \<Rightarrow> ('w, 'z, bool) run" where
  "framebuffer_setup B gop =
     andthen (gets (\<lambda>s. MaxMode (GOP B) (fw s) gop)) (\<lambda>modes.
     mode_loop B gop (unat modes) 0 0 0 0)"

text \<open>Without a graphics output \<^verbatim>\<open>gop\<close> is used without a value.\<close>

definition framebuffer_get :: "'w env \<Rightarrow> addr \<Rightarrow> addr \<Rightarrow> ('w, 'z, unit) run" where
  "framebuffer_get B info pml4 =
     andthen (efi_gop_get B) (\<lambda>(_, out).
     andthen (or_undefined out) (\<lambda>gop.
     andthen (framebuffer_setup B gop) (\<lambda>_.
     andthen (gets (\<lambda>s. Mode (GOP B) (fw s) gop)) (\<lambda>mode.
     andthen (info_set info Gop_mode mode) (\<lambda>_.
     andthen (loader_paging_map_addr B pml4 mode 8 (PAGE_PRESENT OR PAGE_WRITE)) (\<lambda>_.
     andthen (gets (\<lambda>s. Mode_Info (GOP B) (fw s) gop)) (\<lambda>mode_info.
     andthen (loader_paging_map_addr B pml4 mode_info 8 (PAGE_PRESENT OR PAGE_WRITE)) (\<lambda>_.
     andthen (gets (\<lambda>s. FrameBufferSize (GOP B) (fw s) gop)) (\<lambda>sz.
     let framebuffer_pages = drop_bit 12 sz + (if sz mod 0x1000 \<noteq> 0 then 1 else 0) in
     for_from 0 (unat framebuffer_pages) (\<lambda>i.
       andthen (gets (\<lambda>s. FrameBufferBase (GOP B) (fw s) gop)) (\<lambda>base.
       loader_paging_map B pml4 (base + push_bit 12 (of_nat i)) (base + push_bit 12 (of_nat i)) (PAGE_PRESENT OR PAGE_WRITE))))))))))))"

subsection \<open>The loader's image, the ACPI table and the memory map\<close>

definition efi_get_image :: "'w env \<Rightarrow> addr \<Rightarrow> ('w, 'z, efi_status) run" where
  "efi_get_image B info =
     andthen (gets (\<lambda>s. info_get (mem s) info Handle)) (\<lambda>h.
     andthen (fwcall (\<lambda>w. HandleProtocol (HND B) w h LoadedImageProtocol)) (\<lambda>(status, img).
     andthen (info_set info Loaded_image img) (\<lambda>_.
     andthen (EFIERR B ''boot/image.c'' 8 status) (\<lambda>_.
     ret EFI_SUCCESS))))"

fun rsdp_loop :: "efi_guid \<Rightarrow> (efi_guid \<times> addr) list \<Rightarrow> addr option" where
  "rsdp_loop acpi_guid [] = None"
| "rsdp_loop acpi_guid ((VendorGuid, VendorTable) # t) =
     (if VendorGuid = acpi_guid then Some VendorTable else rsdp_loop acpi_guid t)"

definition efi_get_rsdp :: "'w env \<Rightarrow> addr \<Rightarrow> ('w, 'z, efi_status) run" where
  "efi_get_rsdp B info =
     andthen (gets (\<lambda>s. rsdp_loop (ACPI_20_TABLE_GUID (BS B)) (ConfigurationTable (SYS B) (fw s)))) (\<lambda>found.
     case found of
       Some rsdp \<Rightarrow> andthen (info_set info Rsdp rsdp) (\<lambda>_. ret EFI_SUCCESS)
     | None \<Rightarrow> ret EFI_NOT_FOUND)"

text \<open>The second half: the map is fetched into its place, described, and the firmware is left.\<close>

definition memory_map_leave :: "'w env \<Rightarrow> globals \<Rightarrow> addr \<Rightarrow> u64 \<Rightarrow> ('w, 'z, efi_status) run" where
  "memory_map_leave B G info sz =
     andthen (fwcall (\<lambda>w. GetMemoryMap (BS B) w sz)) (\<lambda>(status, sz, key, descriptor_size, bytes).
     andthen (set_mem (\<lambda>m. store_bytes m (info_get m info Efi_memory_map) bytes)) (\<lambda>_.
     andthen (info_set info Efi_memory_map_key key) (\<lambda>_.
     if EFI_ERROR B status \<and> status \<noteq> EFI_BUFFER_TOO_SMALL then ret status
     else if descriptor_size = 0 then stop Undefined
     else
       andthen (info_set info Efi_memory_map_entries (sz div descriptor_size)) (\<lambda>_.
       andthen (info_set info Efi_memory_map_descriptor_size descriptor_size) (\<lambda>_.
       andthen (gets (\<lambda>s. info_get (mem s) info Efi_memory_map_key)) (\<lambda>key.
       andthen (fwcall (\<lambda>w. ExitBootServices (BS B) w (handle G) key)) (\<lambda>status.
       andthen (EFIERR B ''boot/memory_map.c'' 35 status) (\<lambda>_.
       ret EFI_SUCCESS))))))))"

definition efi_get_memory_map :: "'w env \<Rightarrow> globals \<Rightarrow> addr \<Rightarrow> addr \<Rightarrow> ('w, 'z, efi_status) run" where
  "efi_get_memory_map B G info pml4 =
     andthen (fwcall (\<lambda>w. GetMemoryMap (BS B) w 0)) (\<lambda>(status, sz, key, _, _).
     andthen (info_set info Efi_memory_map_key key) (\<lambda>_.
     if EFI_ERROR B status \<and> status \<noteq> EFI_BUFFER_TOO_SMALL then ret status
     else
       let pages = (sz + 0xFFF) div 0x1000 + 1 in
       andthen (fwcall (\<lambda>w. AllocatePages B w pages)) (\<lambda>(status, a).
       if EFI_ERROR B status then ret status
       else
         andthen (info_set info Efi_memory_map a) (\<lambda>_.
         andthen (loader_paging_map_addr B pml4 a (push_bit 12 pages) (PAGE_WRITE OR PAGE_PRESENT)) (\<lambda>_.
         memory_map_leave B G info sz)))))"

section \<open>Choosing a mode\<close>

text \<open>The firmware's modes, and that no later mode is wider or higher than one.\<close>

definition modes_are :: "'w env \<Rightarrow> addr \<Rightarrow> (u32 \<times> u32) list \<Rightarrow> bool" where
  "modes_are B gop ms \<longleftrightarrow> length ms < 2 ^ 32 \<and>
     (\<forall>w. \<forall>i < length ms. \<exists>status w'. QueryMode (GOP B) w gop (of_nat i) = ((status, ms ! i), w') \<and> \<not> EFI_ERROR B status)"

definition fits_after :: "(u32 \<times> u32) list \<Rightarrow> nat \<Rightarrow> nat \<Rightarrow> bool" where
  "fits_after ms k n \<longleftrightarrow> (\<forall>j < n. k < j \<longrightarrow> fst (ms ! j) \<le> fst (ms ! k) \<and> snd (ms ! j) \<le> snd (ms ! k))"

definition mode_set :: "'w env \<Rightarrow> addr \<Rightarrow> nat \<Rightarrow> 'w \<Rightarrow> bool" where
  "mode_set B gop k w' \<longleftrightarrow> (\<exists>w. w' = snd (SetMode (GOP B) w gop (of_nat k)))"

lemma ucast32_le: "(ucast (a :: u32) :: u64) \<le> ucast b \<longleftrightarrow> a \<le> b"
  by (simp add: word_le_nat_alt unsigned_ucast_eq take_bit_nat_eq_self less_trans [OF unsigned_less])

lemma ucast32_eq: "(ucast (a :: u32) :: u64) = numeral k \<longleftrightarrow> unat a = unat (numeral k :: u64)"
  by (simp add: word_unat_eq_iff unsigned_ucast_eq take_bit_nat_eq_self less_trans [OF unsigned_less])

lemma mode_loop_step:
  assumes ms: "modes_are B gop ms" and i: "i < length ms"
  obtains w' where "mode_loop B gop (Suc n) (of_nat i) max_w max_h selection s =
     (if is_ovmf B \<and> ms ! i = (800, 600) then Inr (True, s\<lparr>fw := snd (SetMode (GOP B) w' gop (of_nat i))\<rparr>)
      else if max_w < ucast (fst (ms ! i)) \<or> max_h < ucast (snd (ms ! i))
      then mode_loop B gop n (of_nat (Suc i)) (ucast (fst (ms ! i))) (ucast (snd (ms ! i))) (of_nat i) (s\<lparr>fw := w'\<rparr>)
      else mode_loop B gop n (of_nat (Suc i)) max_w max_h selection (s\<lparr>fw := w'\<rparr>))"
proof -
  obtain r w0 where al: "AllocatePool B (fw s) 8 = (r, w0)" by (metis surj_pair)
  obtain status w' where q: "QueryMode (GOP B) w0 gop (of_nat i) = ((status, ms ! i), w')" and ok: "\<not> EFI_ERROR B status"
    using ms i unfolding modes_are_def by blast
  obtain x y where xy: "ms ! i = (x, y)" by (cases "ms ! i")
  have eight: "(ucast x :: u64) = 800 \<and> (ucast y :: u64) = 600 \<longleftrightarrow> x = 800 \<and> y = 600"
    unfolding ucast32_eq by (simp add: word_unat_eq_iff)
  have nx: "(of_nat i + 1 :: u32) = of_nat (Suc i)" by simp
  obtain sst w2 where sm: "SetMode (GOP B) w' gop (of_nat i) = (sst, w2)" by (metis surj_pair)
  show thesis
    by (rule that [of w'])
      (use eight sm in \<open>simp add: andthen_Inr fwcall_def al q xy EFIERR_ok [OF ok] Let_def nx del: of_nat_Suc\<close>)
qed

text \<open>The emulator gets the first mode of 800 by 600, others a mode that no later one exceeds.\<close>

lemma ovmf_loop:
  fixes s :: "('w, 'z) machine_scheme"
  assumes ov: "is_ovmf B" and ms: "modes_are B gop ms" and n: "i + n = length ms"
  shows "\<exists>found t. mode_loop B gop n (of_nat i) max_w max_h selection s = Inr (found, t) \<and>
     (found \<longrightarrow> (\<exists>k < length ms. mode_set B gop k (fw t) \<and> i \<le> k \<and> ms ! k = (800, 600) \<and> (\<forall>j < k. i \<le> j \<longrightarrow> ms ! j \<noteq> (800, 600)))) \<and>
     (\<not> found \<longrightarrow> (\<forall>j < length ms. i \<le> j \<longrightarrow> ms ! j \<noteq> (800, 600)))"
  using n
proof (induction n arbitrary: i max_w max_h selection s)
  case 0
  then show ?case using ov by (intro exI [of _ False]) simp
next
  case (Suc n)
  then have i: "i < length ms" by simp
  obtain w' where step: "mode_loop B gop (Suc n) (of_nat i) max_w max_h selection s =
     (if is_ovmf B \<and> ms ! i = (800, 600) then Inr (True, s\<lparr>fw := snd (SetMode (GOP B) w' gop (of_nat i))\<rparr>)
      else if max_w < ucast (fst (ms ! i)) \<or> max_h < ucast (snd (ms ! i))
      then mode_loop B gop n (of_nat (Suc i)) (ucast (fst (ms ! i))) (ucast (snd (ms ! i))) (of_nat i) (s\<lparr>fw := w'\<rparr>)
      else mode_loop B gop n (of_nat (Suc i)) max_w max_h selection (s\<lparr>fw := w'\<rparr>))"
    using ms i by (rule mode_loop_step)
  show ?case
  proof (cases "ms ! i = (800, 600)")
    case True
    let ?t = "s\<lparr>fw := snd (SetMode (GOP B) w' gop (of_nat i))\<rparr>"
    have "mode_set B gop i (fw ?t)" unfolding mode_set_def by (rule exI [of _ w']) simp
    then have "\<exists>k < length ms. mode_set B gop k (fw ?t) \<and> i \<le> k \<and> ms ! k = (800, 600) \<and> (\<forall>j < k. i \<le> j \<longrightarrow> ms ! j \<noteq> (800, 600))"
      using True i by (intro exI [of _ i]) simp
    then show ?thesis unfolding step using ov True by (intro exI [of _ True] exI [of _ ?t]) (simp only: if_True simp_thms)
  next
    case False
    have "Suc i + n = length ms" using Suc.prems by simp
    note IH = Suc.IH [OF this]
    have shift: "(\<forall>j < k. i \<le> j \<longrightarrow> ms ! j \<noteq> (800, 600)) \<longleftrightarrow> (\<forall>j < k. Suc i \<le> j \<longrightarrow> ms ! j \<noteq> (800, 600))" for k
      using False by (metis le_eq_less_or_eq Suc_le_eq)
    obtain found t where "mode_loop B gop (Suc n) (of_nat i) max_w max_h selection s = Inr (found, t)"
        and F: "found \<longrightarrow> (\<exists>k < length ms. mode_set B gop k (fw t) \<and> Suc i \<le> k \<and> ms ! k = (800, 600) \<and> (\<forall>j < k. Suc i \<le> j \<longrightarrow> ms ! j \<noteq> (800, 600)))"
        and N: "\<not> found \<longrightarrow> (\<forall>j < length ms. Suc i \<le> j \<longrightarrow> ms ! j \<noteq> (800, 600))"
    proof (cases "max_w < ucast (fst (ms ! i)) \<or> max_h < ucast (snd (ms ! i))")
      case True
      show thesis using IH [of "ucast (fst (ms ! i))" "ucast (snd (ms ! i))" "of_nat i" "s\<lparr>fw := w'\<rparr>"] that
        unfolding step using False True by (simp only: if_False if_True simp_thms) blast
    next
      case small: False
      show thesis using IH [of max_w max_h selection "s\<lparr>fw := w'\<rparr>"] that
        unfolding step using False small by (simp only: if_False simp_thms) blast
    qed
    moreover have "found \<longrightarrow> (\<exists>k < length ms. mode_set B gop k (fw t) \<and> i \<le> k \<and> ms ! k = (800, 600) \<and> (\<forall>j < k. i \<le> j \<longrightarrow> ms ! j \<noteq> (800, 600)))"
      using F unfolding shift by (meson Suc_leD)
    ultimately show ?thesis using N unfolding shift by blast
  qed
qed

lemma record_loop:
  fixes s :: "('w, 'z) machine_scheme"
  assumes ov: "\<not> is_ovmf B" and ms: "modes_are B gop ms" and n: "i + n = length ms"
    and k: "if i = 0 then max_w = 0 \<and> max_h = 0 \<and> k = 0
      else k < i \<and> max_w = ucast (fst (ms ! k)) \<and> max_h = ucast (snd (ms ! k)) \<and> fits_after ms k i"
  shows "\<exists>found t k'. mode_loop B gop n (of_nat i) max_w max_h (of_nat k) s = Inr (found, t) \<and>
     (found \<longleftrightarrow> k' \<noteq> 0) \<and> (found \<longrightarrow> k' < length ms \<and> mode_set B gop k' (fw t)) \<and> fits_after ms k' (length ms)"
  using n k
proof (induction n arbitrary: i max_w max_h k s)
  case 0
  have "length ms < 2 ^ 32" using ms by (simp add: modes_are_def)
  then have z: "(of_nat k :: u32) = 0 \<longleftrightarrow> k = 0"
    using "0.prems" by (auto simp: word_unat_eq_iff unat_of_nat take_bit_nat_eq_self split: if_splits)
  obtain st w2 where sm: "SetMode (GOP B) (fw s) gop (of_nat k) = (st, w2)" by (metis surj_pair)
  have ms: "mode_set B gop k w2" using sm unfolding mode_set_def by (metis snd_conv)
  have "fits_after ms k (length ms)" using "0.prems" by (auto simp: fits_after_def split: if_splits)
  then show ?case
    using ov z sm ms "0.prems"
    by (intro exI [of _ "k \<noteq> 0"] exI [of _ "if k = 0 then s else s\<lparr>fw := w2\<rparr>"] exI [of _ k])
      (auto simp: andthen_Inr fwcall_def split: if_splits)
next
  case (Suc n)
  then have i: "i < length ms" and n: "Suc i + n = length ms" by simp_all
  obtain w' where step: "mode_loop B gop (Suc n) (of_nat i) max_w max_h (of_nat k) s =
     (if is_ovmf B \<and> ms ! i = (800, 600) then Inr (True, s\<lparr>fw := snd (SetMode (GOP B) w' gop (of_nat i))\<rparr>)
      else if max_w < ucast (fst (ms ! i)) \<or> max_h < ucast (snd (ms ! i))
      then mode_loop B gop n (of_nat (Suc i)) (ucast (fst (ms ! i))) (ucast (snd (ms ! i))) (of_nat i) (s\<lparr>fw := w'\<rparr>)
      else mode_loop B gop n (of_nat (Suc i)) max_w max_h (of_nat k) (s\<lparr>fw := w'\<rparr>))"
    using ms i by (rule mode_loop_step)
  show ?case
  proof (cases "max_w < ucast (fst (ms ! i)) \<or> max_h < ucast (snd (ms ! i))")
    case True
    have "fits_after ms i (Suc i)" by (simp add: fits_after_def)
    then show ?thesis
      unfolding step using True ov Suc.IH [OF n, of "ucast (fst (ms ! i))" "ucast (snd (ms ! i))" i] by (simp del: of_nat_Suc)
  next
    case False
    have "k < Suc i \<and> max_w = ucast (fst (ms ! k)) \<and> max_h = ucast (snd (ms ! k)) \<and> fits_after ms k (Suc i)"
    proof (cases "i = 0")
      case True
      then show ?thesis using Suc.prems(2) False by (auto simp: fits_after_def word_gt_0)
    next
      case pos: False
      then have "fst (ms ! i) \<le> fst (ms ! k)" "snd (ms ! i) \<le> snd (ms ! k)"
        using Suc.prems(2) False by (simp_all add: not_less ucast32_le)
      then show ?thesis using Suc.prems(2) pos by (auto simp: fits_after_def less_Suc_eq)
    qed
    then show ?thesis unfolding step using False ov Suc.IH [OF n, of max_w max_h k] by (simp del: of_nat_Suc)
  qed
qed

section \<open>The structure for the kernel\<close>

lemma info_fields_apart: "f \<noteq> g \<Longrightarrow> region (info + info_offset f) 8 \<inter> region (info + info_offset g) 8 = {}"
  by (cases f; cases g; simp add: info_offset.simps; rule region_disjI; simp)

lemma info_get_set: "info_get (wr64 m (info + info_offset f) v) info g = (if f = g then v else info_get m info g)"
  using info_fields_apart [of g f info] by (auto simp: info_get_def c64.rd_wr_same c64.rd_wr_disj)

lemma info_set_run [simp]: "info_set info f v s = Inr ((), s\<lparr>mem := wr64 (mem s) (info + info_offset f) v\<rparr>)"
  by (simp add: info_set_def)

lemma andthen_info_set [simp]: "andthen (info_set info f v) k s = k () (s\<lparr>mem := wr64 (mem s) (info + info_offset f) v\<rparr>)"
  by (simp add: info_set_def)

section \<open>Properties\<close>

text \<open>
  C38: The graphics mode that is set: on the emulator's firmware the first one of 800 by 600, if there is one;
  on every other firmware one that no later mode exceeds in width or height, unless that is the first mode,
  which is left as it is.
\<close>

theorem framebuffer_setup_mode:
  fixes s :: "('w, 'z) machine_scheme"
  assumes "modes_are B gop ms" and "MaxMode (GOP B) (fw s) gop = of_nat (length ms)"
  shows "\<exists>found t. framebuffer_setup B gop s = Inr (found, t) \<and>
     (if is_ovmf B
      then if (800, 600) \<in> set ms
           then found \<and> (\<exists>k < length ms. mode_set B gop k (fw t) \<and> ms ! k = (800, 600) \<and> (\<forall>j < k. ms ! j \<noteq> (800, 600)))
           else \<not> found
      else if found then \<exists>k < length ms. k \<noteq> 0 \<and> mode_set B gop k (fw t) \<and> fits_after ms k (length ms)
           else fits_after ms 0 (length ms))"
proof -
  have "unat (of_nat (length ms) :: u32) = length ms"
    using assms(1) by (simp add: modes_are_def unat_of_nat take_bit_nat_eq_self)
  then have run: "framebuffer_setup B gop s = mode_loop B gop (length ms) (of_nat 0) 0 0 (of_nat 0) s"
    using assms(2) by (simp add: framebuffer_setup_def)
  show ?thesis
  proof (cases "is_ovmf B")
    case True
    then show ?thesis
      unfolding run using ovmf_loop [OF True assms(1), of 0 "length ms" 0 0 "of_nat 0" s]
      by (auto simp: in_set_conv_nth simp del: of_nat_0)
  next
    case False
    then show ?thesis
      unfolding run using record_loop [OF False assms(1), of 0 "length ms" 0 0 0 s] by (fastforce simp del: of_nat_0)
  qed
qed

text \<open>
  C39: The firmware's services are left with the key of the memory map that was fetched last, with no call in between,
  and the kernel finds that key, the number of descriptors and their size; the map itself may have been too large for the size asked for.
\<close>

theorem efi_get_memory_map_exits:
  fixes s :: "('w, 'z) machine_scheme"
  assumes "efi_get_memory_map B G info pml4 s = Inr (EFI_SUCCESS, t)" and "\<not> EFI_ERROR B EFI_SUCCESS"
  shows "\<exists>w n status sz key descriptor_size bytes w' exited. GetMemoryMap (BS B) w n = ((status, sz, key, descriptor_size, bytes), w') \<and>
     (status = EFI_BUFFER_TOO_SMALL \<or> \<not> EFI_ERROR B status) \<and>
     ExitBootServices (BS B) w' (handle G) key = (exited, fw t) \<and> \<not> EFI_ERROR B exited \<and>
     info_get (mem t) info Efi_memory_map_key = key \<and> info_get (mem t) info Efi_memory_map_entries = sz div descriptor_size \<and>
     info_get (mem t) info Efi_memory_map_descriptor_size = descriptor_size"
proof -
  obtain s1 sz where run: "memory_map_leave B G info sz s1 = Inr (EFI_SUCCESS, t)"
    using assms unfolding efi_get_memory_map_def Let_def
    by (auto elim!: andthen_InrE split: if_splits)
  obtain status sz' key d bytes w' where g: "GetMemoryMap (BS B) (fw s1) sz = ((status, sz', key, d, bytes), w')" by (metis surj_pair)
  have fine: "\<not> (EFI_ERROR B status \<and> status \<noteq> EFI_BUFFER_TOO_SMALL)" and "d \<noteq> 0"
    using run assms(2) by (auto simp: memory_map_leave_def fwcall_def g andthen_Inr split: if_splits)
  then obtain exited where x: "ExitBootServices (BS B) w' (handle G) key = (exited, fw t)" "\<not> EFI_ERROR B exited"
      and m: "info_get (mem t) info Efi_memory_map_key = key" "info_get (mem t) info Efi_memory_map_entries = sz' div d"
        "info_get (mem t) info Efi_memory_map_descriptor_size = d"
    using run g
    by (auto simp: memory_map_leave_def fwcall_def andthen_Inr info_get_set EFIERR_Inr elim!: andthen_InrE split: prod.splits)
  show ?thesis using g fine x m by blast
qed

section \<open>Witnesses\<close>

text \<open>The sample firmware is the emulator's; its third mode has 800 by 600.\<close>

definition sample_modes :: "(u32 \<times> u32) list" where
  "sample_modes = [(640, 480), (1024, 768), (800, 600)]"

theorem framebuffer_setup_mode_witness:
  "\<exists>t. framebuffer_setup sample_env 0x3a00 sample_machine = Inr (True, t) \<and> mode_set sample_env 0x3a00 2 (fw t)"
proof -
  have i: "i < 3 \<Longrightarrow> i = 0 \<or> i = 1 \<or> i = 2" for i :: nat by linarith
  have ms: "modes_are sample_env 0x3a00 sample_modes"
  proof -
    have l: "length sample_modes = 3" by (simp add: sample_modes_def)
    show ?thesis unfolding modes_are_def l
      by (intro conjI allI impI; (drule i)?) (auto simp: sample_modes_def sample_env_def sample_gop_def)
  qed
  have n: "MaxMode (GOP sample_env) (fw sample_machine) 0x3a00 = of_nat (length sample_modes)"
    by (simp add: sample_env_def sample_gop_def sample_modes_def)
  have ov: "is_ovmf sample_env" by (simp add: is_ovmf_def sample_env_def sample_sys_def EFI_OVMF_SIGNATURE_def)
  have k: "k < length sample_modes \<Longrightarrow> sample_modes ! k = (800, 600) \<Longrightarrow> k = 2" for k
    using i [of k] by (auto simp: sample_modes_def)
  have "(800, 600) \<in> set sample_modes" by (simp add: sample_modes_def)
  then show ?thesis using framebuffer_setup_mode [OF ms n] ov k by auto
qed

definition sample_globals :: globals where
  "sample_globals = \<lparr>handle = 0x3700, st = 0x3780, header_local = 0x4000\<rparr>"

theorem efi_get_memory_map_exits_witness:
  "\<exists>(s :: sample_state machine) t. efi_get_memory_map sample_env sample_globals 0x5000 0x10000 s = Inr (EFI_SUCCESS, t) \<and>
     info_get (mem t) 0x5000 Efi_memory_map_key = 7"
proof -
  obtain s :: "sample_state machine" where n: "next_page (fw s) = 17" by (rule sample_setup)
  let ?w = "(fw s)\<lparr>next_page := 19\<rparr>"
  let ?s1 = "s\<lparr>fw := ?w, mem := wr64 (wr64 (mem s) (0x5000 + info_offset Efi_memory_map_key) 0) (0x5000 + info_offset Efi_memory_map) 0x11000\<rparr>"
  have al: "AllocatePages sample_env (fw s) 2 = ((EFI_SUCCESS, 0x11000), ?w)" by (simp add: sample_env_def n)
  have env: "GetMemoryMap (BS sample_env) = GetMemoryMap sample_bs" "ExitBootServices (BS sample_env) = ExitBootServices sample_bs"
      "EFI_ERROR sample_env = (\<lambda>st. st \<noteq> EFI_SUCCESS)" by (simp_all add: sample_env_def)
  have "pages_left sample_env (3 * 3 + 0) (fw ?s1)" by (rule sample_pages_left) simp
  then obtain u where u: "loader_paging_map_addr sample_env 0x10000 0x11000 0x2000 (PAGE_WRITE OR PAGE_PRESENT) ?s1 = Inr ((), u)"
    using map_loop_returns [of sample_env 3 0 ?s1] by (fastforce simp: loader_paging_map_addr_def Let_def drop_bit_eq_div)
  have "\<exists>t. memory_map_leave sample_env sample_globals 0x5000 48 u = Inr (EFI_SUCCESS, t)"
    by (simp add: memory_map_leave_def andthen_Inr fwcall_def env sample_bs_def info_get_set EFIERR_def)
  then obtain t where "memory_map_leave sample_env sample_globals 0x5000 48 u = Inr (EFI_SUCCESS, t)" by blast
  then have run: "efi_get_memory_map sample_env sample_globals 0x5000 0x10000 s = Inr (EFI_SUCCESS, t)"
    using al u by (simp add: efi_get_memory_map_def andthen_Inr fwcall_def env sample_bs_def)
  have ok: "\<not> EFI_ERROR sample_env EFI_SUCCESS" by (simp add: env)
  have "info_get (mem t) 0x5000 Efi_memory_map_key = 7"
    using efi_get_memory_map_exits [OF run ok] by (auto simp: env sample_bs_def split: if_splits)
  then show ?thesis using run by blast
qed

end
