(* ===== verification/Io.thy ===== *)
theory Io
  imports Util
begin

text \<open>
  Connecting drivers (\<^verbatim>\<open>uefi/io.c\<close>, \<^verbatim>\<open>uefi/driver.c\<close>): classifying the handles of the firmware, connecting the
  devices that nothing is above of, and starting a driver from a file.
\<close>

section \<open>The code\<close>

definition EFI_HANDLE_TYPE_UNKNOWN :: u32 where "EFI_HANDLE_TYPE_UNKNOWN = 0x000"
definition EFI_HANDLE_TYPE_IMAGE_HANDLE :: u32 where "EFI_HANDLE_TYPE_IMAGE_HANDLE = 0x001"
definition EFI_HANDLE_TYPE_DRIVER_BINDING_HANDLE :: u32 where "EFI_HANDLE_TYPE_DRIVER_BINDING_HANDLE = 0x002"
definition EFI_HANDLE_TYPE_DEVICE_HANDLE :: u32 where "EFI_HANDLE_TYPE_DEVICE_HANDLE = 0x080"
definition EFI_HANDLE_TYPE_PARENT_HANDLE :: u32 where "EFI_HANDLE_TYPE_PARENT_HANDLE = 0x100"

lemmas handle_type_defs = EFI_HANDLE_TYPE_UNKNOWN_def EFI_HANDLE_TYPE_IMAGE_HANDLE_def EFI_HANDLE_TYPE_DRIVER_BINDING_HANDLE_def
  EFI_HANDLE_TYPE_DEVICE_HANDLE_def EFI_HANDLE_TYPE_PARENT_HANDLE_def

text \<open>\<^verbatim>\<open>(*handle_type)[i] |= flag\<close>, for the element at \<open>slot\<close>.\<close>

definition add_type :: "addr \<Rightarrow> u32 \<Rightarrow> ('w, 'z, unit) run" where
  "add_type slot flag = set_mem (\<lambda>m. wr32 m slot (rd32 m slot OR flag))"

definition parse_user :: "'w env \<Rightarrow> addr \<Rightarrow> addr \<Rightarrow> addr \<times> u32 \<Rightarrow> ('w, 'z, unit) run" where
  "parse_user B controller slot user =
     (if fst user = controller \<and>
         snd user AND EFI_OPEN_PROTOCOL_BY_CHILD_CONTROLLER (BS B) = EFI_OPEN_PROTOCOL_BY_CHILD_CONTROLLER (BS B)
      then add_type slot EFI_HANDLE_TYPE_PARENT_HANDLE else ret ())"

definition parse_protocol :: "'w env \<Rightarrow> addr \<Rightarrow> addr \<Rightarrow> addr \<Rightarrow> efi_guid \<Rightarrow> ('w, 'z, unit) run" where
  "parse_protocol B controller slot h guid =
     andthen (if uefi_guid_compare guid (guid_of (BS B) LoadedImageProtocol) = 0
              then add_type slot EFI_HANDLE_TYPE_IMAGE_HANDLE else ret ()) (\<lambda>_.
     andthen (if uefi_guid_compare guid (guid_of (BS B) DriverBindingProtocol) = 0
              then add_type slot EFI_HANDLE_TYPE_DRIVER_BINDING_HANDLE else ret ()) (\<lambda>_.
     andthen (if uefi_guid_compare guid (guid_of (BS B) DevicePathProtocol) = 0
              then add_type slot EFI_HANDLE_TYPE_DEVICE_HANDLE else ret ()) (\<lambda>_.
     andthen (fwcall (\<lambda>w. OpenProtocolInformation (BS B) w h guid)) (\<lambda>(status, open_info).
     andthen (EFIERR B ''uefi/io.c'' 55 status) (\<lambda>_.
     for_each (parse_user B controller slot) open_info)))))"

definition parse_handle :: "'w env \<Rightarrow> addr \<Rightarrow> addr \<Rightarrow> addr \<Rightarrow> ('w, 'z, unit) run" where
  "parse_handle B controller slot h =
     andthen (set_mem (\<lambda>m. wr32 m slot EFI_HANDLE_TYPE_UNKNOWN)) (\<lambda>_.
     andthen (fwcall (\<lambda>w. ProtocolsPerHandle (BS B) w h)) (\<lambda>(status, protocol_guid_array).
     andthen (EFIERR B ''uefi/io.c'' 36 status) (\<lambda>_.
     for_each (parse_protocol B controller slot h) protocol_guid_array)))"

text \<open>The result is the status, the handles and the address of their types.\<close>

definition uefi_io_parse_handles :: "'w env \<Rightarrow> addr \<Rightarrow> ('w, 'z, efi_status \<times> addr list \<times> addr) run" where
  "uefi_io_parse_handles B controller_handle =
     andthen (fwcall (\<lambda>w. LocateHandleBuffer (BS B) w None)) (\<lambda>(status, handle_buffer).
     andthen (EFIERR B ''uefi/io.c'' 24 status) (\<lambda>_.
     andthen (fwcall (\<lambda>w. AllocatePool B w (of_nat (length handle_buffer) * 4))) (\<lambda>(status, handle_type).
     andthen (EFIERR B ''uefi/io.c'' 27 status) (\<lambda>_.
     andthen (for_from 0 (length handle_buffer) (\<lambda>i.
       parse_handle B controller_handle (handle_type + 4 * of_nat i) (handle_buffer ! i))) (\<lambda>_.
     ret (EFI_SUCCESS, handle_buffer, handle_type))))))"

definition has_type :: "mem \<Rightarrow> addr \<Rightarrow> nat \<Rightarrow> u32 \<Rightarrow> bool" where
  "has_type m handle_type i flag \<longleftrightarrow> rd32 m (handle_type + 4 * of_nat i) AND flag \<noteq> 0"

definition reconnect_handle :: "'w env \<Rightarrow> nat \<Rightarrow> addr \<Rightarrow> ('w, 'z, unit) run" where
  "reconnect_handle B i h =
     andthen (uefi_io_parse_handles B h) (\<lambda>(status, handle_buffer, handle_type).
     andthen (EFIERR B ''uefi/io.c'' 83 status) (\<lambda>_.
     andthen (gets mem) (\<lambda>m.
     if has_type m handle_type i EFI_HANDLE_TYPE_DRIVER_BINDING_HANDLE \<or> has_type m handle_type i EFI_HANDLE_TYPE_IMAGE_HANDLE
     then ret ()
     else
       let parent = list_ex (\<lambda>handle_i. has_type m handle_type handle_i EFI_HANDLE_TYPE_PARENT_HANDLE) [0..<length handle_buffer] in
       if \<not> parent \<and> has_type m handle_type i EFI_HANDLE_TYPE_DEVICE_HANDLE
       then andthen (fwcall (\<lambda>w. ConnectController (BS B) w h)) (\<lambda>_. ret ())
       else ret ())))"

definition uefi_io_reconnect :: "'w env \<Rightarrow> ('w, 'z, unit) run" where
  "uefi_io_reconnect B =
     andthen (fwcall (\<lambda>w. LocateHandleBuffer (BS B) w None)) (\<lambda>(status, all_handle_buffer).
     andthen (EFIERR B ''uefi/io.c'' 75 status) (\<lambda>_.
     for_from 0 (length all_handle_buffer) (\<lambda>i. reconnect_handle B i (all_handle_buffer ! i))))"

text \<open>The load options of the driver are the literal \<^verbatim>\<open>L""\<close>, and their size is its number of characters.\<close>

definition uefi_driver_start :: "'w env \<Rightarrow> devpath_header \<Rightarrow> literals \<Rightarrow> addr \<Rightarrow> addr \<Rightarrow> ('w, 'z, efi_status) run" where
  "uefi_driver_start B H V img path =
     andthen (uefi_devpath_from_path B H img path) (\<lambda>protocol.
     andthen (fwcall (\<lambda>w. LoadImage (BS B) w img protocol)) (\<lambda>(status, driver_handle).
     andthen (EFIERR B ''uefi/driver.c'' 11 status) (\<lambda>_.
     andthen (fwcall (\<lambda>w. HandleProtocol (HND B) w driver_handle LoadedImageProtocol)) (\<lambda>(status, driver_image).
     andthen (EFIERR B ''uefi/driver.c'' 14 status) (\<lambda>_.
     andthen (gets (\<lambda>s. efi_strlen (mem s) (empty_text V))) (\<lambda>len.
     andthen (or_undefined len) (\<lambda>n.
     andthen (fwcall (\<lambda>w. ((), SetLoadOptions (BS B) w driver_image (empty_text V) (ucast n)))) (\<lambda>_.
     andthen (fwcall (\<lambda>w. StartImage (BS B) w driver_handle)) (\<lambda>status.
     andthen (EFIERR B ''uefi/driver.c'' 20 status) (\<lambda>_.
     ret EFI_SUCCESS))))))))))"

section \<open>The handle database\<close>

text \<open>
  What the firmware keeps about its handles: the handles in the order in which it lists them, their protocols, who opened these, the controllers that were
  connected so far, and for how many more arrays with one type per handle its pool has space.
\<close>

record handle_database =
  handles :: "addr list"
  protocols :: "addr \<Rightarrow> efi_guid list"
  openers :: "addr \<Rightarrow> efi_guid \<Rightarrow> (addr \<times> u32) list"
  connected :: "addr list"
  space :: nat

definition by_child :: "'w env \<Rightarrow> addr \<Rightarrow> addr \<times> u32 \<Rightarrow> bool" where
  "by_child B controller user \<longleftrightarrow>
     fst user = controller \<and>
     snd user AND EFI_OPEN_PROTOCOL_BY_CHILD_CONTROLLER (BS B) = EFI_OPEN_PROTOCOL_BY_CHILD_CONTROLLER (BS B)"

text \<open>A handle that is the child of some other, and a handle to connect: a device, neither a driver nor an image, and nobody's child.\<close>

definition is_child :: "'w env \<Rightarrow> handle_database \<Rightarrow> addr \<Rightarrow> bool" where
  "is_child B D h \<longleftrightarrow> (\<exists>h' \<in> set (handles D). \<exists>g \<in> set (protocols D h'). \<exists>u \<in> set (openers D h' g). by_child B h u)"

definition has_protocol :: "'w env \<Rightarrow> handle_database \<Rightarrow> addr \<Rightarrow> protocol \<Rightarrow> bool" where
  "has_protocol B D h p \<longleftrightarrow> guid_of (BS B) p \<in> set (protocols D h)"

definition connectable :: "'w env \<Rightarrow> handle_database \<Rightarrow> addr \<Rightarrow> bool" where
  "connectable B D h \<longleftrightarrow>
     \<not> has_protocol B D h DriverBindingProtocol \<and> \<not> has_protocol B D h LoadedImageProtocol \<and> has_protocol B D h DevicePathProtocol \<and> \<not> is_child B D h"

text \<open>
  What connecting a controller may do to the database: drivers add handles behind the others, and what the handles that were there already are does not
  change.
\<close>

definition grown :: "'w env \<Rightarrow> addr \<Rightarrow> handle_database \<Rightarrow> handle_database \<Rightarrow> bool" where
  "grown B h D D' \<longleftrightarrow>
     connected D' = connected D @ [h] \<and> space D' = space D \<and> (\<exists>more. handles D' = handles D @ more) \<and>
     (\<forall>h' \<in> set (handles D). (is_child B D' h' \<longleftrightarrow> is_child B D h') \<and>
        (\<forall>p \<in> {DriverBindingProtocol, LoadedImageProtocol, DevicePathProtocol}. has_protocol B D' h' p \<longleftrightarrow> has_protocol B D h' p))"

text \<open>The services answer by the database; \<open>db\<close> is what it holds in a state of the firmware.\<close>

definition database_ok :: "'w env \<Rightarrow> ('w \<Rightarrow> handle_database) \<Rightarrow> bool" where
  "database_ok B db \<longleftrightarrow>
     \<not> EFI_ERROR B EFI_SUCCESS \<and>
     (\<forall>w. \<exists>w'. LocateHandleBuffer (BS B) w None = ((EFI_SUCCESS, handles (db w)), w') \<and> db w' = db w) \<and>
     (\<forall>w. \<forall>h \<in> set (handles (db w)). \<exists>w'. ProtocolsPerHandle (BS B) w h = ((EFI_SUCCESS, protocols (db w) h), w') \<and> db w' = db w) \<and>
     (\<forall>w. \<forall>h \<in> set (handles (db w)). \<forall>g \<in> set (protocols (db w) h).
        \<exists>w'. OpenProtocolInformation (BS B) w h g = ((EFI_SUCCESS, openers (db w) h g), w') \<and> db w' = db w) \<and>
     (\<forall>w. 0 < space (db w) \<longrightarrow> (\<exists>a w'. AllocatePool B w (of_nat (length (handles (db w))) * 4) = ((EFI_SUCCESS, a), w') \<and>
        unat a + 4 * length (handles (db w)) \<le> 2 ^ 63 \<and> db w' = (db w)\<lparr>space := space (db w) - 1\<rparr>)) \<and>
     (\<forall>w. \<forall>h \<in> set (handles (db w)). grown B h (db w) (db (snd (ConnectController (BS B) w h))))"

section \<open>The types of the handles\<close>

text \<open>The type one protocol of a handle gives it, and the type all of them do.\<close>

definition protocol_kind :: "'w env \<Rightarrow> (efi_guid \<Rightarrow> (addr \<times> u32) list) \<Rightarrow> addr \<Rightarrow> efi_guid \<Rightarrow> u32" where
  "protocol_kind B users controller g =
     (if g = guid_of (BS B) LoadedImageProtocol then EFI_HANDLE_TYPE_IMAGE_HANDLE else 0) OR
     (if g = guid_of (BS B) DriverBindingProtocol then EFI_HANDLE_TYPE_DRIVER_BINDING_HANDLE else 0) OR
     (if g = guid_of (BS B) DevicePathProtocol then EFI_HANDLE_TYPE_DEVICE_HANDLE else 0) OR
     (if list_ex (by_child B controller) (users g) then EFI_HANDLE_TYPE_PARENT_HANDLE else 0)"

definition kinds :: "('a \<Rightarrow> u32) \<Rightarrow> 'a list \<Rightarrow> u32" where
  "kinds k xs = foldr (\<lambda>x acc. k x OR acc) xs 0"

definition handle_kind :: "'w env \<Rightarrow> handle_database \<Rightarrow> addr \<Rightarrow> addr \<Rightarrow> u32" where
  "handle_kind B D controller h = kinds (protocol_kind B (openers D h) controller) (protocols D h)"

text \<open>Only the slot changes, and it holds \<open>v\<close> in the end.\<close>

definition marked :: "addr \<Rightarrow> u32 \<Rightarrow> mem \<Rightarrow> mem \<Rightarrow> bool" where
  "marked slot v m m' \<longleftrightarrow> rd32 m' slot = v \<and> (\<forall>x. x \<notin> region slot 4 \<longrightarrow> m' x = m x)"

lemma marked_refl: "marked slot (rd32 m slot) m m"
  by (simp add: marked_def)

lemma marked_write: "marked slot v m m' \<Longrightarrow> marked slot u m (wr32 m' slot u)"
  by (simp add: marked_def c32.rd_wr_same c32.wr_outside)

lemma marked_trans: "marked slot v m m' \<Longrightarrow> marked slot u m' m'' \<Longrightarrow> marked slot u m m''"
  by (simp add: marked_def)

text \<open>A step that adds the type \<open>k\<close> to the slot, changes nothing else in memory and leaves the database \<open>D\<close> as it is.\<close>

definition adds :: "('w \<Rightarrow> handle_database) \<Rightarrow> handle_database \<Rightarrow> addr \<Rightarrow> u32 \<Rightarrow> ('w, 'z, unit) run \<Rightarrow> bool" where
  "adds db D slot k step \<longleftrightarrow>
     (\<forall>s. db (fw s) = D \<longrightarrow> (\<exists>t. step s = Inr ((), t) \<and> db (fw t) = D \<and> marked slot (rd32 (mem s) slot OR k) (mem s) (mem t)))"

lemma addsI: "(\<And>s. db (fw s) = D \<Longrightarrow> \<exists>t. step s = Inr ((), t) \<and> db (fw t) = D \<and> marked slot (rd32 (mem s) slot OR k) (mem s) (mem t)) \<Longrightarrow>
    adds db D slot k step"
  by (simp add: adds_def)

lemma addsE:
  assumes "adds db D slot k step" and "db (fw s) = D"
  obtains t where "step s = Inr ((), t)" and "db (fw t) = D" and "marked slot (rd32 (mem s) slot OR k) (mem s) (mem t)"
  using assms unfolding adds_def by blast

lemma adds_flag: "adds db D slot (if b then flag else 0) (if b then add_type slot flag else ret ())"
  by (auto simp: adds_def add_type_def marked_write [OF marked_refl] marked_refl)

lemma adds_then:
  fixes a :: "('w, 'z, unit) run"
  assumes "adds db D slot k a" and "adds db D slot k' b"
  shows "adds db D slot (k OR k') (andthen a (\<lambda>_. b))"
proof (rule addsI)
  fix s :: "('w, 'z) machine_scheme" assume "db (fw s) = D"
  with assms(1) obtain t where t: "a s = Inr ((), t)" "db (fw t) = D" "marked slot (rd32 (mem s) slot OR k) (mem s) (mem t)" by (rule addsE)
  with assms(2) obtain u where u: "b t = Inr ((), u)" "db (fw u) = D" "marked slot (rd32 (mem t) slot OR k') (mem t) (mem u)" by (blast elim: addsE)
  have "rd32 (mem t) slot = rd32 (mem s) slot OR k" using t(3) by (simp add: marked_def)
  then show "\<exists>u. andthen a (\<lambda>_. b) s = Inr ((), u) \<and> db (fw u) = D \<and> marked slot (rd32 (mem s) slot OR (k OR k')) (mem s) (mem u)"
    using t u marked_trans by (fastforce simp: andthen_Inr or.assoc)
qed

lemma adds_user: "adds db D slot (if by_child B c u then EFI_HANDLE_TYPE_PARENT_HANDLE else 0) (parse_user B c slot u)"
  unfolding parse_user_def by_child_def by (rule adds_flag)

lemma adds_each: "(\<And>x. x \<in> set xs \<Longrightarrow> adds db D slot (k x) (body x)) \<Longrightarrow> adds db D slot (kinds k xs) (for_each body xs)"
proof (induction xs)
  case Nil
  show ?case by (auto simp: adds_def kinds_def marked_refl)
next
  case (Cons x xs)
  then show ?case using adds_then [of db D slot "k x" "body x"] by (simp add: kinds_def)
qed

lemma kinds_if: "kinds (\<lambda>u. if Q u then flag else 0) us = (if list_ex Q us then flag else 0)"
  by (induction us) (simp_all add: kinds_def)

lemma adds_protocol:
  fixes db :: "'w \<Rightarrow> handle_database"
  assumes ok: "database_ok B db" and h: "h \<in> set (handles D)" "g \<in> set (protocols D h)"
  shows "adds db D slot (protocol_kind B (openers D h) c g) (parse_protocol B c slot h g :: ('w, 'z, unit) run)"
proof -
  let ?users = "openers D h g" and ?p = "EFI_HANDLE_TYPE_PARENT_HANDLE"
  have users: "adds db D slot (if list_ex (by_child B c) ?users then ?p else 0)
      (andthen (fwcall (\<lambda>w. OpenProtocolInformation (BS B) w h g)) (\<lambda>(status, open_info).
       andthen (EFIERR B ''uefi/io.c'' 55 status) (\<lambda>_. for_each (parse_user B c slot) open_info)) :: ('w, 'z, unit) run)"
  proof (rule addsI)
    fix s :: "('w, 'z) machine_scheme" assume D: "db (fw s) = D"
    obtain w where w: "OpenProtocolInformation (BS B) (fw s) h g = ((EFI_SUCCESS, ?users), w)" "db w = D"
      using ok h D unfolding database_ok_def by blast
    have "adds db D slot (kinds (\<lambda>u. if by_child B c u then ?p else 0) ?users) (for_each (parse_user B c slot) ?users :: ('w, 'z, unit) run)"
      by (intro adds_each adds_user)
    from addsE [OF this, of "s\<lparr>fw := w\<rparr>"] w(2) obtain t where "for_each (parse_user B c slot) ?users (s\<lparr>fw := w\<rparr>) = Inr ((), t)" "db (fw t) = D"
        "marked slot (rd32 (mem s) slot OR (if list_ex (by_child B c) ?users then ?p else 0)) (mem s) (mem t)"
      unfolding kinds_if by auto
    then show "\<exists>t. andthen (fwcall (\<lambda>w. OpenProtocolInformation (BS B) w h g)) (\<lambda>(status, open_info).
        andthen (EFIERR B ''uefi/io.c'' 55 status) (\<lambda>_. for_each (parse_user B c slot) open_info)) s = Inr ((), t) \<and> db (fw t) = D \<and>
        marked slot (rd32 (mem s) slot OR (if list_ex (by_child B c) ?users then ?p else 0)) (mem s) (mem t)"
      using ok w(1) by (auto simp: database_ok_def andthen_Inr fwcall_def EFIERR_ok)
  qed
  show ?thesis
    unfolding protocol_kind_def parse_protocol_def uefi_guid_compare_eq or.assoc by (intro adds_then adds_flag users)
qed

lemma parse_handle_run:
  fixes s :: "('w, 'z) machine_scheme"
  assumes ok: "database_ok B db" and h: "h \<in> set (handles (db (fw s)))"
  obtains t where "parse_handle B c slot h s = Inr ((), t)" and "db (fw t) = db (fw s)" and "marked slot (handle_kind B (db (fw s)) c h) (mem s) (mem t)"
proof -
  let ?D = "db (fw s)" and ?m = "wr32 (mem s) slot EFI_HANDLE_TYPE_UNKNOWN"
  obtain w where w: "ProtocolsPerHandle (BS B) (fw s) h = ((EFI_SUCCESS, protocols ?D h), w)" "db w = ?D"
    using ok h unfolding database_ok_def by blast
  have "adds db ?D slot (handle_kind B ?D c h) (for_each (parse_protocol B c slot h) (protocols ?D h) :: ('w, 'z, unit) run)"
    unfolding handle_kind_def by (intro adds_each adds_protocol [OF ok h])
  from addsE [OF this, of "s\<lparr>mem := ?m, fw := w\<rparr>"] w(2) obtain t where
    t: "for_each (parse_protocol B c slot h) (protocols ?D h) (s\<lparr>mem := ?m, fw := w\<rparr>) = Inr ((), t)" "db (fw t) = ?D"
      "marked slot (handle_kind B ?D c h) ?m (mem t)" by (auto simp: c32.rd_wr_same handle_type_defs)
  have "marked slot (handle_kind B ?D c h) (mem s) (mem t)"
    using t(3) marked_trans [OF marked_write [OF marked_refl]] by simp
  moreover have "parse_handle B c slot h s = Inr ((), t)"
    using ok w(1) t(1) by (simp add: parse_handle_def database_ok_def andthen_Inr fwcall_def EFIERR_ok)
  ultimately show thesis using t(2) that by blast
qed

lemma slots_apart:
  assumes "i \<noteq> k" and "i < n" and "k < n" and "unat p + 4 * n \<le> 2 ^ 63"
  shows "region (p + 4 * of_nat i) 4 \<inter> region (p + 4 * of_nat k) 4 = {}"
proof -
  have e: "p + 4 * of_nat j = p + of_nat (4 * j)" for j by simp
  show ?thesis
    unfolding e using offsets_apart [of "4 * i" 4 "4 * k" 4 p] offsets_apart [of "4 * k" 4 "4 * i" 4 p] assms
    by (cases "i < k") (auto simp: Int_commute)
qed

lemma parse_handles_run:
  fixes s :: "('w, 'z) machine_scheme"
  assumes ok: "database_ok B db" and left: "0 < space (db (fw s))"
  obtains p t where "uefi_io_parse_handles B c s = Inr ((EFI_SUCCESS, handles (db (fw s)), p), t)"
    and "db (fw t) = (db (fw s))\<lparr>space := space (db (fw s)) - 1\<rparr>"
    and "\<forall>i < length (handles (db (fw s))). rd32 (mem t) (p + 4 * of_nat i) = handle_kind B (db (fw s)) c (handles (db (fw s)) ! i)"
proof -
  define D where "D = db (fw s)"
  let ?hs = "handles D" and ?D = "D\<lparr>space := space D - 1\<rparr>"
  obtain w1 where w1: "LocateHandleBuffer (BS B) (fw s) None = ((EFI_SUCCESS, ?hs), w1)" "db w1 = D"
    using ok unfolding database_ok_def D_def by blast
  obtain p w2 where w2: "AllocatePool B w1 (of_nat (length ?hs) * 4) = ((EFI_SUCCESS, p), w2)" "db w2 = ?D" and fits: "unat p + 4 * length ?hs \<le> 2 ^ 63"
    using ok left w1(2) unfolding database_ok_def D_def by metis
  let ?kind = "\<lambda>i. handle_kind B D c (?hs ! i)" and ?slot = "\<lambda>i. p + 4 * of_nat i :: addr"
  let ?I = "\<lambda>k t :: ('w, 'z) machine_scheme. db (fw t) = ?D \<and> (\<forall>i < k. rd32 (mem t) (?slot i) = ?kind i)"
  have step: "\<exists>t'. parse_handle B c (?slot k) (?hs ! k) t = Inr ((), t') \<and> ?I (Suc k) t'" if k: "k < length ?hs" and I: "?I k t" for k t
  proof -
    have "?hs ! k \<in> set (handles (db (fw t)))" using I k by simp
    with ok obtain t' where run: "parse_handle B c (?slot k) (?hs ! k) t = Inr ((), t')" and "db (fw t') = db (fw t)"
        and "marked (?slot k) (handle_kind B (db (fw t)) c (?hs ! k)) (mem t) (mem t')" by (rule parse_handle_run)
    then have fw': "db (fw t') = ?D" and mk: "marked (?slot k) (?kind k) (mem t) (mem t')" using I by (simp_all add: handle_kind_def)
    have "rd32 (mem t') (?slot i) = ?kind i" if i: "i < Suc k" for i
    proof (cases "i = k")
      case True
      then show ?thesis using mk by (simp add: marked_def)
    next
      case False
      then have "region (?slot i) 4 \<inter> region (?slot k) 4 = {}" using i k fits by (intro slots_apart [of i k "length ?hs"]) simp_all
      then have "rd32 (mem t') (?slot i) = rd32 (mem t) (?slot i)" using mk by (intro c32.rd_cong) (auto simp: marked_def)
      then show ?thesis using I i False by simp
    qed
    then show ?thesis using run fw' by blast
  qed
  have "\<exists>t. for_from 0 (length ?hs) (\<lambda>i. parse_handle B c (?slot i) (?hs ! i)) (s\<lparr>fw := w2\<rparr>) = Inr ((), t) \<and> ?I (0 + length ?hs) t"
    by (rule for_from_total) (use step w2(2) in auto)
  then obtain t where t: "for_from 0 (length ?hs) (\<lambda>i. parse_handle B c (?slot i) (?hs ! i)) (s\<lparr>fw := w2\<rparr>) = Inr ((), t)" "?I (length ?hs) t" by auto
  have "uefi_io_parse_handles B c s = Inr ((EFI_SUCCESS, ?hs, p), t)"
    using ok w1(1) w2(1) t(1) by (simp add: uefi_io_parse_handles_def database_ok_def andthen_Inr fwcall_def EFIERR_ok)
  then show thesis using that t(2) unfolding D_def by blast
qed

text \<open>The flags of a handle, one by one.\<close>

lemma kinds_and: "kinds k xs AND flag \<noteq> 0 \<longleftrightarrow> list_ex (\<lambda>x. k x AND flag \<noteq> 0) xs"
proof (induction xs)
  case (Cons x xs)
  have "(a OR b) AND flag = 0 \<longleftrightarrow> a AND flag = 0 \<and> b AND flag = 0" for a b :: u32
    by (auto simp: bit_eq_iff bit_simps)
  then show ?case using Cons by (simp add: kinds_def)
qed (simp add: kinds_def)

lemma protocol_kind_flags:
  "protocol_kind B users c g AND EFI_HANDLE_TYPE_IMAGE_HANDLE \<noteq> 0 \<longleftrightarrow> g = guid_of (BS B) LoadedImageProtocol"
  "protocol_kind B users c g AND EFI_HANDLE_TYPE_DRIVER_BINDING_HANDLE \<noteq> 0 \<longleftrightarrow> g = guid_of (BS B) DriverBindingProtocol"
  "protocol_kind B users c g AND EFI_HANDLE_TYPE_DEVICE_HANDLE \<noteq> 0 \<longleftrightarrow> g = guid_of (BS B) DevicePathProtocol"
  "protocol_kind B users c g AND EFI_HANDLE_TYPE_PARENT_HANDLE \<noteq> 0 \<longleftrightarrow> list_ex (by_child B c) (users g)"
  by (simp_all add: protocol_kind_def handle_type_defs)

lemma handle_kind_flags:
  "handle_kind B D c h AND EFI_HANDLE_TYPE_IMAGE_HANDLE \<noteq> 0 \<longleftrightarrow> has_protocol B D h LoadedImageProtocol"
  "handle_kind B D c h AND EFI_HANDLE_TYPE_DRIVER_BINDING_HANDLE \<noteq> 0 \<longleftrightarrow> has_protocol B D h DriverBindingProtocol"
  "handle_kind B D c h AND EFI_HANDLE_TYPE_DEVICE_HANDLE \<noteq> 0 \<longleftrightarrow> has_protocol B D h DevicePathProtocol"
  "handle_kind B D c h AND EFI_HANDLE_TYPE_PARENT_HANDLE \<noteq> 0 \<longleftrightarrow> list_ex (\<lambda>g. list_ex (by_child B c) (openers D h g)) (protocols D h)"
  unfolding handle_kind_def kinds_and protocol_kind_flags by (simp_all add: list_ex_iff has_protocol_def)

section \<open>The rounds\<close>

lemma reconnect_handle_run:
  fixes s :: "('w, 'z) machine_scheme"
  assumes ok: "database_ok B db" and left: "0 < space (db (fw s))" and i: "i < length (handles (db (fw s)))" "h = handles (db (fw s)) ! i"
  obtains t where "reconnect_handle B i h s = Inr ((), t)"
    and "if connectable B (db (fw s)) h then grown B h ((db (fw s))\<lparr>space := space (db (fw s)) - 1\<rparr>) (db (fw t))
         else db (fw t) = (db (fw s))\<lparr>space := space (db (fw s)) - 1\<rparr>"
proof -
  let ?D = "db (fw s)"
  obtain p t where run: "uefi_io_parse_handles B h s = Inr ((EFI_SUCCESS, handles ?D, p), t)"
      and t: "db (fw t) = ?D\<lparr>space := space ?D - 1\<rparr>"
      and kind: "\<forall>j < length (handles ?D). rd32 (mem t) (p + 4 * of_nat j) = handle_kind B ?D h (handles ?D ! j)"
    using ok left by (rule parse_handles_run)
  have flags: "has_type (mem t) p i EFI_HANDLE_TYPE_DRIVER_BINDING_HANDLE \<longleftrightarrow> has_protocol B ?D h DriverBindingProtocol"
      "has_type (mem t) p i EFI_HANDLE_TYPE_IMAGE_HANDLE \<longleftrightarrow> has_protocol B ?D h LoadedImageProtocol"
      "has_type (mem t) p i EFI_HANDLE_TYPE_DEVICE_HANDLE \<longleftrightarrow> has_protocol B ?D h DevicePathProtocol"
    using kind i by (simp_all add: has_type_def handle_kind_flags)
  let ?Q = "\<lambda>h'. \<exists>g \<in> set (protocols ?D h'). \<exists>u \<in> set (openers ?D h' g). by_child B h u"
  have "has_type (mem t) p j EFI_HANDLE_TYPE_PARENT_HANDLE \<longleftrightarrow> ?Q (handles ?D ! j)" if "j < length (handles ?D)" for j
    using kind that by (simp add: has_type_def handle_kind_flags list_ex_iff)
  then have "list_ex (\<lambda>j. has_type (mem t) p j EFI_HANDLE_TYPE_PARENT_HANDLE) [0..<length (handles ?D)] \<longleftrightarrow> (\<exists>j < length (handles ?D). ?Q (handles ?D ! j))"
    unfolding list_ex_iff set_upt by (metis atLeastLessThan_iff zero_le)
  also have "\<dots> \<longleftrightarrow> is_child B ?D h" unfolding is_child_def by (metis in_set_conv_nth)
  finally have parent: "list_ex (\<lambda>j. has_type (mem t) p j EFI_HANDLE_TYPE_PARENT_HANDLE) [0..<length (handles ?D)] \<longleftrightarrow> is_child B ?D h" .
  obtain st w where cc: "ConnectController (BS B) (fw t) h = (st, w)" by (metis surj_pair)
  have "h \<in> set (handles (db (fw t)))" using i by (simp add: t)
  then have "grown B h (db (fw t)) (db (snd (ConnectController (BS B) (fw t) h)))" using ok unfolding database_ok_def by blast
  then have g: "grown B h (?D\<lparr>space := space ?D - 1\<rparr>) (db w)" by (simp only: cc t snd_conv)
  have "\<not> EFI_ERROR B EFI_SUCCESS" using ok by (simp add: database_ok_def)
  then have "reconnect_handle B i h s = Inr ((), if connectable B ?D h then t\<lparr>fw := w\<rparr> else t)"
    using run flags parent cc unfolding connectable_def
    by (auto simp: reconnect_handle_def andthen_Inr EFIERR_ok fwcall_def Let_def)
  from that [OF this] show thesis using g t by simp
qed

text \<open>What connecting leaves as it was.\<close>

lemma same_connectable:
  assumes "\<forall>p \<in> {DriverBindingProtocol, LoadedImageProtocol, DevicePathProtocol}. has_protocol B D' h p \<longleftrightarrow> has_protocol B D h p"
    and "is_child B D' h \<longleftrightarrow> is_child B D h"
  shows "connectable B D' h \<longleftrightarrow> connectable B D h"
  using assms by (simp add: connectable_def)

lemma space_irrelevant: "is_child B (D\<lparr>space := n\<rparr>) h \<longleftrightarrow> is_child B D h" "has_protocol B (D\<lparr>space := n\<rparr>) h p \<longleftrightarrow> has_protocol B D h p"
    "connectable B (D\<lparr>space := n\<rparr>) h \<longleftrightarrow> connectable B D h"
  by (simp_all add: is_child_def has_protocol_def connectable_def)

section \<open>Properties\<close>

text \<open>
  C37: The loop over the handles of the firmware's database returns, and it has asked the firmware to connect exactly those of the handles that were listed at the start
  which are devices, neither drivers nor images, and nobody's child: each once for every time it is listed, in the order of the list, and no
  other controller. The database may grow while controllers are connected: each round looks at all handles again, and the types it finds at an index of the
  first list are those of the same handle, as long as the firmware lists new handles behind the old ones.
\<close>

theorem uefi_io_reconnect_connects:
  fixes s :: "('w, 'z) machine_scheme"
  assumes "database_ok B db" and "length (handles (db (fw s))) \<le> space (db (fw s))"
  shows "\<exists>t. uefi_io_reconnect B s = Inr ((), t) \<and>
     connected (db (fw t)) = connected (db (fw s)) @ filter (connectable B (db (fw s))) (handles (db (fw s)))"
proof -
  define D where "D = db (fw s)"
  let ?hs = "handles D"
  obtain w where w: "LocateHandleBuffer (BS B) (fw s) None = ((EFI_SUCCESS, ?hs), w)" "db w = D"
    using assms(1) unfolding database_ok_def D_def by blast
  let ?I = "\<lambda>k t :: ('w, 'z) machine_scheme. length ?hs \<le> space (db (fw t)) + k \<and> (\<exists>more. handles (db (fw t)) = ?hs @ more) \<and>
     (\<forall>h \<in> set ?hs. connectable B (db (fw t)) h \<longleftrightarrow> connectable B D h) \<and>
     connected (db (fw t)) = connected D @ filter (connectable B D) (take k ?hs)"
  have step: "\<exists>t'. reconnect_handle B k (?hs ! k) t = Inr ((), t') \<and> ?I (Suc k) t'" if k: "k < length ?hs" and I: "?I k t" for k t
  proof -
    let ?T = "db (fw t)" and ?h = "?hs ! k"
    obtain more where more: "handles ?T = ?hs @ more" using I by blast
    have "0 < space ?T" "k < length (handles ?T)" "?h = handles ?T ! k" using I k by (auto simp: more nth_append)
    with assms(1) obtain t' where run: "reconnect_handle B k ?h t = Inr ((), t')"
        and t': "if connectable B ?T ?h then grown B ?h (?T\<lparr>space := space ?T - 1\<rparr>) (db (fw t')) else db (fw t') = ?T\<lparr>space := space ?T - 1\<rparr>"
      by (rule reconnect_handle_run)
    have "connectable B (db (fw t')) h \<longleftrightarrow> connectable B ?T h" if "h \<in> set ?hs" for h
      using t' that by (cases "connectable B ?T ?h") (auto simp: grown_def more space_irrelevant intro!: same_connectable)
    moreover have "connectable B ?T ?h \<longleftrightarrow> connectable B D ?h" using I k by simp
    ultimately have "?I (Suc k) t'"
      using I k t' by (cases "connectable B ?T ?h") (auto simp: grown_def take_Suc_conv_app_nth more)
    then show ?thesis using run by blast
  qed
  have "?I 0 (s\<lparr>fw := w\<rparr>)" using assms(2) w(2) by (simp add: D_def)
  then have "\<exists>t. for_from 0 (length ?hs) (\<lambda>i. reconnect_handle B i (?hs ! i)) (s\<lparr>fw := w\<rparr>) = Inr ((), t) \<and> ?I (0 + length ?hs) t"
    by (rule for_from_total) (use step in auto)
  moreover have "uefi_io_reconnect B s = for_from 0 (length ?hs) (\<lambda>i. reconnect_handle B i (?hs ! i)) (s\<lparr>fw := w\<rparr>)"
    using assms(1) w(1) by (simp add: uefi_io_reconnect_def database_ok_def andthen_Inr fwcall_def EFIERR_ok)
  ultimately show ?thesis by (auto simp: D_def)
qed


text \<open>
  A firmware with two root devices, a child of the first, a driver and an image; when the first controller is connected, another child of the first device appears.
  It writes down the controllers it connects.
\<close>

definition io_db :: "sample_state \<Rightarrow> handle_database" where
  "io_db w =
     \<lparr>handles = [0x3800, 0x3810, 0x3820, 0x3830, 0x3840] @ (if wire w = [] then [] else [0x3850]),
      protocols = (\<lambda>h. if h = 0x3810 then [sample_guid DriverBindingProtocol, sample_guid DevicePathProtocol]
        else if h = 0x3830 then [sample_guid LoadedImageProtocol] else [sample_guid DevicePathProtocol]),
      openers = (\<lambda>h g. if h = 0x3800 then [(0x3820, 8)] @ (if wire w = [] then [] else [(0x3850, 8)]) else []),
      connected = map le_word (wire w),
      space = 2 ^ 40 - next_page w\<rparr>"

definition io_env :: "sample_state env" where
  "io_env = sample_env\<lparr>BS := sample_bs
     \<lparr>LocateHandleBuffer := (\<lambda>w p. ((EFI_SUCCESS, handles (io_db w)), w)),
      ProtocolsPerHandle := (\<lambda>w h. ((EFI_SUCCESS, protocols (io_db w) h), w)),
      OpenProtocolInformation := (\<lambda>w h g. ((EFI_SUCCESS, openers (io_db w) h g), w)),
      ConnectController := (\<lambda>w h. (EFI_SUCCESS, w\<lparr>wire := wire w @ [le_bytes 8 h]\<rparr>))\<rparr>\<rparr>"

lemma io_guids: "guid_of (BS io_env) = sample_guid" "EFI_OPEN_PROTOCOL_BY_CHILD_CONTROLLER (BS io_env) = 8"
  by (simp_all add: io_env_def sample_bs_def)

lemma io_child: "is_child io_env (io_db w) h \<longleftrightarrow> h = 0x3820 \<or> wire w \<noteq> [] \<and> h = 0x3850"
  by (auto simp: is_child_def by_child_def io_guids io_db_def)

lemma io_grown: "h \<in> set (handles (io_db w)) \<Longrightarrow> grown io_env h (io_db w) (io_db (w\<lparr>wire := wire w @ [le_bytes 8 h]\<rparr>))"
  by (auto simp: grown_def io_child has_protocol_def) (auto simp: io_db_def le_word_le_bytes)

lemma io_database: "database_ok io_env io_db"
proof -
  have "\<exists>a w'. AllocatePool io_env w (of_nat (length (handles (io_db w))) * 4) = ((EFI_SUCCESS, a), w') \<and>
      unat a + 4 * length (handles (io_db w)) \<le> 2 ^ 63 \<and> io_db w' = (io_db w)\<lparr>space := space (io_db w) - 1\<rparr>" if "0 < space (io_db w)" for w
  proof -
    have n: "next_page w + 1 \<le> 2 ^ 40" using that by (simp add: io_db_def)
    have l: "length (handles (io_db w)) \<le> 6" by (simp add: io_db_def)
    have "unat (of_nat (4096 * next_page w) :: addr) = 4096 * next_page w" using n by (intro unat_of_nat64) simp
    moreover have "unat (of_nat (length (handles (io_db w))) * 4 :: u64) div 4096 = 0" by (simp add: io_db_def)
    ultimately show ?thesis using n l by (simp add: io_env_def sample_env_def) (simp add: io_db_def)
  qed
  then show ?thesis using io_grown by (simp add: database_ok_def) (simp add: io_env_def sample_env_def)
qed

theorem uefi_io_reconnect_connects_witness:
  "\<exists>t. uefi_io_reconnect io_env sample_machine = Inr ((), t) \<and> connected (io_db (fw t)) = [0x3800, 0x3840]"
proof -
  let ?D = "io_db (fw sample_machine)"
  have w: "wire (fw sample_machine) = []" "next_page (fw sample_machine) = 16" by (simp_all add: sample_machine_def sample_start_def)
  have "length (handles ?D) \<le> space ?D" by (simp add: io_db_def w)
  from uefi_io_reconnect_connects [OF io_database this]
  have "\<exists>t. uefi_io_reconnect io_env sample_machine = Inr ((), t) \<and> connected (io_db (fw t)) = connected ?D @ filter (connectable io_env ?D) (handles ?D)" .
  moreover have "connectable io_env ?D h \<longleftrightarrow> h \<notin> {0x3810, 0x3820, 0x3830}" for h
    unfolding connectable_def io_child has_protocol_def io_guids by (simp add: io_db_def w sample_guid_def)
  then have "connected ?D @ filter (connectable io_env ?D) (handles ?D) = [0x3800, 0x3840]" by (simp add: io_db_def w)
  ultimately show ?thesis by simp
qed

end
