(* ===== verification/Checksum.thy ===== *)
theory Checksum
  imports Memory
begin

text \<open>
  Byte order (\<^verbatim>\<open>net/util.c\<close>) and the Internet checksum (\<^verbatim>\<open>checksum\<close> and
  \<^verbatim>\<open>net_ip6_checksum\<close> of \<^verbatim>\<open>net/ip6.c\<close>) over bytes in memory.
\<close>

section \<open>The code\<close>

text \<open>\<^verbatim>\<open>__builtin_bswap16\<close> and \<^verbatim>\<open>__builtin_bswap32\<close>.\<close>

definition htons :: "u16 \<Rightarrow> u16" where
  "htons d = push_bit 8 d OR drop_bit 8 d"

definition ntohs :: "u16 \<Rightarrow> u16" where
  "ntohs d = push_bit 8 d OR drop_bit 8 d"

definition htonl :: "u32 \<Rightarrow> u32" where
  "htonl d = push_bit 24 d OR push_bit 8 (d AND 0xFF00) OR (drop_bit 8 d AND 0xFF00) OR drop_bit 24 d"

definition ntohl :: "u32 \<Rightarrow> u32" where
  "ntohl d = push_bit 24 d OR push_bit 8 (d AND 0xFF00) OR (drop_bit 8 d AND 0xFF00) OR drop_bit 24 d"

text \<open>The summing loop, the odd byte at the end included.\<close>

fun checksum_sum :: "mem \<Rightarrow> addr \<Rightarrow> nat \<Rightarrow> u32 \<Rightarrow> u32" where
  "checksum_sum m dat 0 acc = acc"
| "checksum_sum m dat (Suc 0) acc = acc + ucast (rd16 m dat AND 0xFF)"
| "checksum_sum m dat (Suc (Suc len)) acc = checksum_sum m (dat + 2) len (acc + ucast (rd16 m dat))"

text \<open>\<^verbatim>\<open>while(sum >> 16) sum = (sum & 0xFFFF) + (sum >> 16);\<close>\<close>

lemma fold_decreases:
  fixes s :: u32
  assumes "drop_bit 16 s \<noteq> 0"
  shows "unat ((s AND 0xFFFF) + drop_bit 16 s) = unat s mod 65536 + unat s div 65536"
    and "unat ((s AND 0xFFFF) + drop_bit 16 s) < unat s"
proof -
  have "(0xFFFF :: u32) = mask 16" by (simp add: mask_eq_exp_minus_1)
  then have "s AND 0xFFFF = take_bit 16 s" by (simp only: take_bit_eq_mask)
  then have lo: "unat (s AND 0xFFFF) = unat s mod 65536"
    by (simp only: unsigned_take_bit_eq) (simp add: take_bit_eq_mod)
  have hi: "unat (drop_bit 16 s) = unat s div 65536" unfolding unat_drop_bit_eq by (simp add: drop_bit_eq_div)
  have lt: "unat s < 2 ^ 32" using unsigned_less [of s, where ?'a = nat] by simp
  then have "unat s div 65536 < 65536" by (simp add: less_mult_imp_div_less)
  then have "unat s mod 65536 + unat s div 65536 < 2 ^ 32" by (simp add: mod_less_divisor add_less_mono [THEN less_trans])
  then show e: "unat ((s AND 0xFFFF) + drop_bit 16 s) = unat s mod 65536 + unat s div 65536"
    by (simp add: unat_word_ariths lo hi)
  have "unat s div 65536 \<noteq> 0" using assms hi by (metis unat_eq_zero)
  moreover have "unat s = 65536 * (unat s div 65536) + unat s mod 65536" by simp
  ultimately show "unat ((s AND 0xFFFF) + drop_bit 16 s) < unat s" using e by linarith
qed

function checksum_fold :: "u32 \<Rightarrow> u32" where
  "checksum_fold acc = (if drop_bit 16 acc \<noteq> 0 then checksum_fold ((acc AND 0xFFFF) + drop_bit 16 acc) else acc)"
  by pat_completeness auto
termination
  by (relation "measure unat") (use fold_decreases(2) in auto)

declare checksum_fold.simps [simp del]

definition checksum :: "mem \<Rightarrow> addr \<Rightarrow> nat \<Rightarrow> u16 \<Rightarrow> u16" where
  "checksum m dat len sum_init = ucast (checksum_fold (checksum_sum m dat len (ucast sum_init)))"

text \<open>The fields of an IPv6 header by their offsets: length at 4, source at 8, destination at 24.\<close>

definition net_ip6_checksum :: "mem \<Rightarrow> addr \<Rightarrow> u16 \<Rightarrow> u64 \<Rightarrow> u16" where
  "net_ip6_checksum m ip typ len =
     (let acc = checksum m (ip + 4) 2 (htons typ);
          acc = checksum m (ip + 8) (unat (32 + len)) acc
      in NOT acc)"

section \<open>One's complement sums\<close>

text \<open>The words of a range of memory, an odd byte at the end padded with zero, and their plain sum.\<close>

fun word_sum :: "mem \<Rightarrow> addr \<Rightarrow> nat \<Rightarrow> nat" where
  "word_sum m dat 0 = 0"
| "word_sum m dat (Suc 0) = unat (m dat)"
| "word_sum m dat (Suc (Suc len)) = unat (rd16 m dat) + word_sum m (dat + 2) len"

text \<open>
  The 16-bit one's complement sum of a plain sum: congruent to it modulo
  65535, and zero only for zero.
\<close>

definition ones_sum :: "nat \<Rightarrow> nat" where
  "ones_sum n = (if n = 0 then 0 else (n - 1) mod 65535 + 1)"

lemma ones_sum_props: "ones_sum n < 65536" "ones_sum n mod 65535 = n mod 65535" "ones_sum n = 0 \<longleftrightarrow> n = 0"
proof -
  have "(n - 1) mod 65535 < 65535" by simp
  then show "ones_sum n < 65536" by (simp add: ones_sum_def)
  show "ones_sum n mod 65535 = n mod 65535"
  proof (cases n)
    case (Suc k)
    then show ?thesis by (simp add: ones_sum_def mod_Suc_eq)
  qed (simp add: ones_sum_def)
  show "ones_sum n = 0 \<longleftrightarrow> n = 0" by (simp add: ones_sum_def)
qed

lemma ones_sum_unique:
  assumes "r < 65536" and "r mod 65535 = n mod 65535" and "r = 0 \<longleftrightarrow> n = 0"
  shows "r = ones_sum n"
proof (cases "n = 0")
  case False
  note p = ones_sum_props [of n]
  have "r mod 65535 = ones_sum n mod 65535" using assms(2) p(2) by simp
  moreover have "0 < r" "r \<le> 65535" "0 < ones_sum n" "ones_sum n \<le> 65535" using assms p False by auto
  ultimately show ?thesis by (cases "r = 65535"; cases "ones_sum n = 65535") (auto simp: le_less)
qed (use assms in \<open>simp add: ones_sum_def\<close>)

lemma ones_sum_cong:
  assumes "a mod 65535 = b mod 65535" and "a = 0 \<longleftrightarrow> b = 0"
  shows "ones_sum a = ones_sum b"
  using ones_sum_props [of a] assms by (intro ones_sum_unique) simp_all

lemma ones_sum_add: "ones_sum (ones_sum a + b) = ones_sum (a + b)"
  by (rule ones_sum_cong) (simp_all add: mod_add_cong [OF ones_sum_props(2) refl] ones_sum_props(3))

text \<open>A sum and its complement make all ones.\<close>

lemma ones_sum_complement: "ones_sum (S + (65535 - ones_sum S)) = 65535"
proof (rule sym, rule ones_sum_unique)
  note p = ones_sum_props [of S]
  have "(S + (65535 - ones_sum S)) mod 65535 = (ones_sum S + (65535 - ones_sum S)) mod 65535"
    using p(2) by (intro mod_add_cong) simp_all
  then show "65535 mod 65535 = (S + (65535 - ones_sum S)) mod 65535" using p(1) by simp
  show "(65535 :: nat) = 0 \<longleftrightarrow> S + (65535 - ones_sum S) = 0" using p by (cases "S = 0") simp_all
qed simp

lemma checksum_fold_ones: "unat (checksum_fold s) = ones_sum (unat s)"
proof (induction s rule: checksum_fold.induct)
  case (1 s)
  show ?case
  proof (cases "drop_bit 16 s = 0")
    case True
    have "unat (drop_bit 16 s) = unat s div 65536" unfolding unat_drop_bit_eq by (simp add: drop_bit_eq_div)
    then have "unat s < 65536" using True by (simp add: div_eq_0_iff)
    then have "unat s = ones_sum (unat s)" by (intro ones_sum_unique) auto
    then show ?thesis using True by (simp add: checksum_fold.simps [of s])
  next
    case False
    have "ones_sum (unat s mod 65536 + unat s div 65536) = ones_sum (unat s)"
    proof (rule ones_sum_cong)
      have "unat s = (unat s mod 65536 + unat s div 65536) + 65535 * (unat s div 65536)" by simp
      then show "(unat s mod 65536 + unat s div 65536) mod 65535 = unat s mod 65535" by (metis mod_mult_self2)
      show "unat s mod 65536 + unat s div 65536 = 0 \<longleftrightarrow> unat s = 0"
        by (metis add_is_0 div_0 mod_0 mod_div_trivial mult_div_mod_eq mult_0_right add_0)
    qed
    then show ?thesis using "1.IH" [OF False] False fold_decreases(1) [OF False]
      by (simp add: checksum_fold.simps [of s])
  qed
qed

section \<open>The sum of a range of memory\<close>

lemma unat16_lt: "unat (x :: u16) \<le> 65535"
  using unsigned_less [of x, where ?'a = nat] by simp

lemma unat_widen: "unat (ucast (x :: u16) :: u32) = unat x"
proof -
  have "unat x < 2 ^ 32" using unat16_lt [of x] by simp
  then show ?thesis by (simp add: unsigned_ucast_eq take_bit_nat_eq_self)
qed

lemma rd16_low: "unat (rd16 m a AND 0xFF) = unat (m a)"
proof -
  have r: "rd16 m a = of_nat (unat (m a) + 256 * unat (m (a + 1)))"
    by (simp add: rd16_def le_word_def load_bytes_Suc numeral_2_eq_2)
  have b: "unat (m x) < 256" for x using unsigned_less [of "m x", where ?'a = nat] by simp
  have "(0xFF :: u16) = mask 8" by (simp add: mask_eq_exp_minus_1)
  then have "rd16 m a AND 0xFF = take_bit 8 (rd16 m a)" by (simp only: take_bit_eq_mask)
  then have "unat (rd16 m a AND 0xFF) = unat (rd16 m a) mod 256"
    by (simp only: unsigned_take_bit_eq) (simp add: take_bit_eq_mod)
  also have "unat (rd16 m a) = unat (m a) + 256 * unat (m (a + 1))"
    unfolding r by (rule unat_of_nat16) (use b [of a] b [of "a + 1"] in simp)
  finally show ?thesis using b [of a] by simp
qed

lemma unat_add32:
  fixes x :: u32
  assumes "unat x + k < 2 ^ 32" and "unat y = k"
  shows "unat (x + ucast (y :: u16)) = unat x + k"
  using assms by (simp add: unat_word_ariths unat_widen)

lemma checksum_sum_nat:
  "unat acc + word_sum m dat len < 2 ^ 32 \<Longrightarrow> unat (checksum_sum m dat len acc) = unat acc + word_sum m dat len"
proof (induction m dat len acc rule: checksum_sum.induct)
  case (2 m dat acc)
  then show ?case using unat_add32 [OF _ rd16_low] by simp
next
  case (3 m dat len acc)
  have "unat (acc + ucast (rd16 m dat)) = unat acc + unat (rd16 m dat)"
    by (rule unat_add32) (use "3.prems" in simp_all)
  then show ?case using "3.IH" "3.prems" by simp
qed simp

lemma word_sum_le: "word_sum m dat len \<le> 65535 * ((len + 1) div 2)"
proof (induction m dat len rule: word_sum.induct)
  case (2 m dat)
  have "unat (m dat) \<le> 255" using unsigned_less [of "m dat", where ?'a = nat] by simp
  then show ?case by simp
next
  case (3 m dat len)
  then show ?case using unat16_lt [of "rd16 m dat"] by simp
qed simp

text \<open>Up to 128 kilobytes the sum fits its 32 bits, and the code computes the one's complement sum.\<close>

lemma checksum_ones:
  assumes "len \<le> 131072"
  shows "unat (checksum m dat len init) = ones_sum (unat init + word_sum m dat len)"
proof -
  have i: "unat (ucast init :: u32) = unat init" by (rule unat_widen)
  have "(len + 1) div 2 \<le> 65536" using assms by simp
  then have "65535 * ((len + 1) div 2) \<le> 65535 * 65536" by (rule mult_le_mono2)
  then have "unat init + word_sum m dat len < 2 ^ 32"
    using word_sum_le [of m dat len] unat16_lt [of init] by simp
  then have "unat (checksum_fold (checksum_sum m dat len (ucast init))) = ones_sum (unat init + word_sum m dat len)"
    by (simp add: checksum_fold_ones checksum_sum_nat i)
  then show ?thesis
    unfolding checksum_def using ones_sum_props(1) [of "unat init + word_sum m dat len"]
    by (simp add: unsigned_ucast_eq take_bit_nat_eq_self)
qed

section \<open>Writing the checksum into a packet\<close>

lemma word_sum_cong: "(\<And>x. x \<in> region dat len \<Longrightarrow> m' x = m x) \<Longrightarrow> word_sum m' dat len = word_sum m dat len"
proof (induction m dat len rule: word_sum.induct)
  case (2 m dat)
  then show ?case by simp
next
  case (3 m dat len)
  have "rd16 m' dat = rd16 m dat"
    using "3.prems" region_mono [of 2 "Suc (Suc len)" dat] by (intro c16.rd_cong) auto
  moreover have "region (dat + 2) len \<subseteq> region dat (Suc (Suc len))"
    using subregion [of 2 len "Suc (Suc len)" dat] by simp
  ultimately show ?case using "3.IH" "3.prems" by auto
qed simp

lemma cell_before:
  assumes "len + 2 < 2 ^ 64"
  shows "region (a + 2) len \<inter> region a 2 = {}"
proof (rule region_disjI)
  have "unat (a - (a + 2)) = 2 ^ 64 - 2" using unat_neg64 [of 2] by simp
  then show "len \<le> unat (a - (a + 2))" using assms by simp
  show "2 \<le> unat (a + 2 - a)" by simp
qed

lemma word_sum_write:
  assumes "2 * j + 2 \<le> len" and "len < 2 ^ 63"
  shows "word_sum (wr16 m (dat + of_nat (2 * j)) v) dat len + unat (rd16 m (dat + of_nat (2 * j))) =
     word_sum m dat len + unat v"
  using assms
proof (induction j arbitrary: dat len)
  case 0
  then have "len = Suc (Suc (len - 2))" by simp
  then obtain l where len: "len = Suc (Suc l)" ..
  have "word_sum (wr16 m dat v) (dat + 2) l = word_sum m (dat + 2) l"
    using cell_before [of l dat] "0.prems"(2) len by (intro word_sum_cong c16.wr_outside) auto
  then show ?case by (simp add: len c16.rd_wr_same)
next
  case (Suc j)
  then have "len = Suc (Suc (len - 2))" by simp
  then obtain l where len: "len = Suc (Suc l)" ..
  have a: "dat + of_nat (2 * Suc j) = dat + 2 + of_nat (2 * j)" by simp
  have "region (dat + 2 + of_nat (2 * j)) 2 \<subseteq> region (dat + 2) l"
    using Suc.prems(1) len by (intro subregion) simp
  then have "rd16 (wr16 m (dat + 2 + of_nat (2 * j)) v) dat = rd16 m dat"
    using cell_before [of l dat] Suc.prems(2) len by (intro c16.rd_wr_disj) auto
  moreover have "word_sum (wr16 m (dat + 2 + of_nat (2 * j)) v) (dat + 2) l + unat (rd16 m (dat + 2 + of_nat (2 * j))) =
      word_sum m (dat + 2) l + unat v"
    using Suc.prems len by (intro Suc.IH) simp_all
  ultimately show ?case unfolding a by (simp add: len)
qed

text \<open>What the code puts into the checksum field of a packet.\<close>

lemma word_sum_length: "word_sum m a 2 = unat (rd16 m a)"
  by (simp add: numeral_2_eq_2)

lemma unat_not16: "unat (NOT s) = 65535 - unat (s :: u16)"
proof -
  have "NOT s = 0xFFFF - s" by (simp add: not_eq_complement)
  moreover have "unat (0xFFFF - s) = 65535 - unat s"
    using unat16_lt [of s] by (simp add: unat_sub_if_size)
  ultimately show ?thesis by simp
qed

lemma ip6_checksum_ones:
  assumes "unat len \<le> 65536"
  shows "unat (net_ip6_checksum m ip typ len) =
     65535 - ones_sum (unat (htons typ) + unat (rd16 m (ip + 4)) + word_sum m (ip + 8) (32 + unat len))"
proof -
  have l: "unat (32 + len) = 32 + unat len"
    using assms unat_add_of_nat [of 32 "unat len"] by simp
  show ?thesis
    using assms
    by (simp add: unat_not16 net_ip6_checksum_def Let_def l checksum_ones ones_sum_add word_sum_length add.assoc)
qed

lemma checksum_in_place:
  assumes "unat len \<le> 65536" and "2 * j + 2 \<le> 32 + unat len" and "chk = ip + 8 + of_nat (2 * j)"
    and "rd16 m chk = 0"
  shows "net_ip6_checksum (wr16 m chk (net_ip6_checksum m ip typ len)) ip typ len = 0"
proof -
  let ?n = "32 + unat len" and ?c = "net_ip6_checksum m ip typ len"
  let ?m = "wr16 m chk ?c"
  define S where "S = unat (htons typ) + unat (rd16 m (ip + 4)) + word_sum m (ip + 8) ?n"
  have c: "unat ?c = 65535 - ones_sum S" unfolding S_def using assms(1) by (rule ip6_checksum_ones)
  have "rd16 ?m (ip + 4) = rd16 m (ip + 4)"
  proof (rule c16.rd_wr_disj, rule region_disjI)
    have d: "unat (chk - (ip + 4)) = 4 + 2 * j"
      using assms(1,2) unat_of_nat64 [of "4 + 2 * j"] by (simp add: assms(3))
    then show "2 \<le> unat (chk - (ip + 4))" by simp
    have "unat (- (chk - (ip + 4))) = 2 ^ 64 - unat (chk - (ip + 4))"
      using d by (intro unat_neg64) auto
    then show "2 \<le> unat (ip + 4 - chk)" using d assms(1,2) by simp
  qed
  moreover have "word_sum ?m (ip + 8) ?n + unat (rd16 m chk) = word_sum m (ip + 8) ?n + unat ?c"
    unfolding assms(3) using assms(1,2) by (intro word_sum_write) simp_all
  ultimately have "unat (net_ip6_checksum ?m ip typ len) = 65535 - ones_sum (S + (65535 - ones_sum S))"
    using assms(1) c by (simp add: ip6_checksum_ones S_def assms(4) add.assoc)
  moreover have "ones_sum (S + (65535 - ones_sum S)) = 65535"
    by (rule ones_sum_complement)
  ultimately show ?thesis by (simp add: unat_eq_zero)
qed

lemma net_ip6_checksum_cong:
  assumes "unat len \<le> 65536" and "\<And>x. x \<in> region ip (40 + unat len) \<Longrightarrow> m' x = m x"
  shows "net_ip6_checksum m' ip typ len = net_ip6_checksum m ip typ len"
proof -
  have "region (ip + of_nat 4) 2 \<subseteq> region ip (40 + unat len)" "region (ip + of_nat 8) (32 + unat len) \<subseteq> region ip (40 + unat len)"
    by (rule subregion, simp)+
  then have "rd16 m' (ip + 4) = rd16 m (ip + 4)" "word_sum m' (ip + 8) (32 + unat len) = word_sum m (ip + 8) (32 + unat len)"
    using assms(2) by (auto intro!: c16.rd_cong word_sum_cong)
  then have "unat (net_ip6_checksum m' ip typ len) = unat (net_ip6_checksum m ip typ len)"
    by (simp add: ip6_checksum_ones [OF assms(1)])
  then show ?thesis by (simp add: word_unat_eq_iff)
qed

text \<open>
  The same sum over a list of bytes, and the test a receiver makes on a frame
  of that list: the one's complement sum of the pseudo header (the two
  addresses, the length and the protocol) and the payload is all ones. In the
  frame the IPv6 length stands at 18 and the addresses from 22 on.
\<close>

fun bytes_sum :: "u8 list \<Rightarrow> nat" where
  "bytes_sum [] = 0"
| "bytes_sum [b] = unat b"
| "bytes_sum (a # b # bs) = unat a + 256 * unat b + bytes_sum bs"

definition checksum_valid :: "u16 \<Rightarrow> u8 list \<Rightarrow> bool" where
  "checksum_valid typ F \<longleftrightarrow>
     ones_sum (unat (htons typ) + bytes_sum (take 2 (drop 18 F)) + bytes_sum (drop 22 F)) = 65535"

lemma rd16_bytes: "unat (rd16 m a) = unat (m a) + 256 * unat (m (a + 1))"
proof -
  have "unat (m a) < 256" "unat (m (a + 1)) < 256"
    using unsigned_less [of "m a", where ?'a = nat] unsigned_less [of "m (a + 1)", where ?'a = nat] by simp_all
  moreover have "rd16 m a = of_nat (unat (m a) + 256 * unat (m (a + 1)))"
    by (simp add: rd16_def le_word_def load_bytes_Suc numeral_2_eq_2)
  ultimately show ?thesis by (simp only: unat_of_nat16)
qed

lemma word_sum_bytes: "word_sum m a n = bytes_sum (load_bytes m a n)"
  by (induction m a n rule: word_sum.induct) (simp_all add: load_bytes_Suc rd16_bytes add.assoc)

lemma ip6_checksum_valid:
  assumes "unat len \<le> 65536"
  shows "net_ip6_checksum m (p + 14) typ len = 0 \<longleftrightarrow> checksum_valid typ (load_bytes m p (54 + unat len))"
proof -
  have "net_ip6_checksum m (p + 14) typ len = 0 \<longleftrightarrow> unat (net_ip6_checksum m (p + 14) typ len) = 0"
    by (simp add: unat_eq_zero)
  moreover have "\<dots> \<longleftrightarrow> checksum_valid typ (load_bytes m p (54 + unat len))"
  proof -
    have "65535 \<le> ones_sum n \<longleftrightarrow> ones_sum n = 65535" for n using ones_sum_props(1) [of n] by linarith
    then show ?thesis
      by (simp add: ip6_checksum_ones [OF assms] checksum_valid_def word_sum_bytes drop_load_bytes take_load_bytes
          add.assoc flip: word_sum_length)
  qed
  ultimately show ?thesis by simp
qed

section \<open>Properties\<close>

text \<open>
  C11: Up to 128 kilobytes, \<^verbatim>\<open>checksum\<close> ends and gives the 16-bit one's complement sum of its start value and
  the little-endian words of the range, an odd last byte padded with zero: the
  one value below 65536 that is congruent to the plain sum modulo 65535 and zero
  only when every word is.
\<close>

theorem checksum_ones_complement:
  assumes "len \<le> 131072"
  shows "unat (checksum m dat len sum_init) mod 65535 = (unat sum_init + word_sum m dat len) mod 65535 \<and>
     (checksum m dat len sum_init = 0 \<longleftrightarrow> unat sum_init + word_sum m dat len = 0)"
proof
  show "unat (checksum m dat len sum_init) mod 65535 = (unat sum_init + word_sum m dat len) mod 65535"
    unfolding checksum_ones [OF assms] by (rule ones_sum_props(2))
  show "checksum m dat len sum_init = 0 \<longleftrightarrow> unat sum_init + word_sum m dat len = 0"
    unfolding unat_eq_zero [symmetric] checksum_ones [OF assms] by (rule ones_sum_props(3))
qed

theorem checksum_ones_complement_witness:
  "unat (checksum (\<lambda>_. 0xFF) 0x1000 3 1) mod 65535 = (1 + word_sum (\<lambda>_. 0xFF) 0x1000 3) mod 65535"
  using checksum_ones_complement [of 3 "\<lambda>_. 0xFF" "0x1000" 1] by simp

text \<open>
  A packet whose checksum field, at an even offset behind the addresses, was zero when the checksum was computed, and
  then got it, passes the receiver's test: computed again over the packet with
  the field in place, the checksum is zero.
\<close>

theorem net_ip6_checksum_verifies:
  assumes "unat len \<le> 65536" and "2 * j + 2 \<le> 32 + unat len" and "chk = ip + 8 + of_nat (2 * j)"
    and "rd16 m chk = 0"
  shows "net_ip6_checksum (wr16 m chk (net_ip6_checksum m ip typ len)) ip typ len = 0"
  using assms by (rule checksum_in_place)

theorem net_ip6_checksum_verifies_witness:
  "net_ip6_checksum (wr16 (\<lambda>_. 0) 0x102E (net_ip6_checksum (\<lambda>_. 0) 0x1000 17 24)) 0x1000 17 24 = 0"
proof -
  have z: "rd16 (\<lambda>_. 0) a = 0" for a by (simp add: rd16_def le_word_def load_bytes_Suc numeral_2_eq_2)
  show ?thesis using net_ip6_checksum_verifies [of 24 19 "0x102E" "0x1000" "\<lambda>_. 0" 17] z by simp
qed

end
