(* ===== verification/Bufpool.thy ===== *)
theory Bufpool
  imports Efi
begin

text \<open>
  The pool of network buffers (\<^verbatim>\<open>net/bufpool.c\<close>): four buffers of 2048 bytes in
  one block of pages, the free ones chained through their first eight bytes.
  A client gets the address behind the link and gives it, or any address in the
  same buffer, back.
\<close>

section \<open>The code\<close>

record 'w pool_machine = "'w machine" +
  eth_bufpool :: addr
  eth_bufpool_avail :: u32
  eth_buffer_phys :: addr

type_synonym ('w, 'z, 'a) pool_run = "(halt, ('w, 'z) pool_machine_scheme, 'a) step"

definition ETH_BUFFERS :: nat where "ETH_BUFFERS = 4"
definition ETH_BUFFERS_PAGES :: u64 where "ETH_BUFFERS_PAGES = (let n = of_nat ETH_BUFFERS in drop_bit 1 n + n mod 2)"
definition ETH_MTU :: u64 where "ETH_MTU = 1514"

text \<open>\<^verbatim>\<open>~2047UL\<close> is an \<^verbatim>\<open>unsigned long\<close> of 32 bits, and widened with zeroes.\<close>

definition buf_mask :: u64 where
  "buf_mask = ucast (NOT (2047 :: u32))"

definition net_bufpool_return :: "'w env \<Rightarrow> addr \<Rightarrow> ('w, 'z, unit) pool_run" where
  "net_bufpool_return B dat =
     andthen (gets eth_buffer_phys) (\<lambda>phys.
     andthen (if dat < phys \<or> phys + ETH_BUFFERS_PAGES * 0x1000 \<le> dat
              then andthen (efi_printf B ''attempt to use buffer outside of allocated range'' []) (\<lambda>_. ret ())
              else ret ()) (\<lambda>_.
     let buf = dat AND buf_mask in
     modify (\<lambda>s. s\<lparr>mem := wr64 (mem s) buf (eth_bufpool s), eth_bufpool_avail := eth_bufpool_avail s + 1,
                  eth_bufpool := buf\<rparr>)))"

text \<open>
  \<^verbatim>\<open>EFIERR\<close> evaluates its argument again for the report, so a failed allocation
  is tried a second time before the loader stops.
\<close>

definition net_bufpool_init :: "'w env \<Rightarrow> ('w, 'z, unit) pool_run" where
  "net_bufpool_init B =
     andthen (fwcall (\<lambda>w. AllocatePages B w 8)) (\<lambda>(status, phys).
     andthen (if EFI_ERROR B status
              then andthen (fwcall (\<lambda>w. AllocatePages B w 8)) (\<lambda>(again, _).
                   andthen (fwcall (\<lambda>w. ((), say (callback B) (error_report ''net/bufpool.c'' 7 again) w))) (\<lambda>_.
                   efi_exit B status))
              else ret ()) (\<lambda>_.
     andthen (modify (\<lambda>s. s\<lparr>eth_buffer_phys := phys\<rparr>)) (\<lambda>_.
     for_from 0 ETH_BUFFERS (\<lambda>i. net_bufpool_return B (phys + of_nat (2048 * i))))))"

definition net_bufpool_get :: "u64 \<Rightarrow> ('w, 'z, addr) pool_run" where
  "net_bufpool_get sz =
     (if ETH_MTU < sz then ret 0
      else
        andthen (gets eth_bufpool) (\<lambda>buf.
        if buf = 0 then ret 0
        else
          andthen (modify (\<lambda>s. s\<lparr>eth_bufpool := rd64 (mem s) buf\<rparr>)) (\<lambda>_.
          andthen (modify (\<lambda>s. s\<lparr>mem := wr64 (mem s) buf 0, eth_bufpool_avail := eth_bufpool_avail s - 1\<rparr>)) (\<lambda>_.
          ret (buf + 8)))))"

section \<open>The pool as a list\<close>

text \<open>The chain of free buffers in memory, and the buffers there are.\<close>

fun chain :: "mem \<Rightarrow> addr \<Rightarrow> addr list \<Rightarrow> bool" where
  "chain m head [] \<longleftrightarrow> head = 0"
| "chain m head (b # bs) \<longleftrightarrow> head = b \<and> b \<noteq> 0 \<and> chain m (rd64 m b) bs"

definition buffer :: "addr \<Rightarrow> nat \<Rightarrow> addr" where
  "buffer phys k = phys + of_nat (2048 * k)"

definition is_buffer :: "addr \<Rightarrow> addr \<Rightarrow> bool" where
  "is_buffer phys b \<longleftrightarrow> (\<exists>k < 4. b = buffer phys k)"

text \<open>The block lies below four gigabytes, where the code's mask keeps addresses whole.\<close>

definition block_ok :: "addr \<Rightarrow> bool" where
  "block_ok phys \<longleftrightarrow> aligned 12 phys \<and> phys \<noteq> 0 \<and> unat phys + 32768 \<le> 2 ^ 32"

definition pool_rep :: "('w, 'z) pool_machine_scheme \<Rightarrow> addr list \<Rightarrow> bool" where
  "pool_rep s bs \<longleftrightarrow>
     block_ok (eth_buffer_phys s) \<and> chain (mem s) (eth_bufpool s) bs \<and> distinct bs \<and>
     (\<forall>b \<in> set bs. is_buffer (eth_buffer_phys s) b) \<and> eth_bufpool_avail s = of_nat (length bs)"

lemma chain_cong:
  "chain m head bs \<Longrightarrow> (\<And>b. b \<in> set bs \<Longrightarrow> rd64 m' b = rd64 m b) \<Longrightarrow> chain m' head bs"
  by (induction bs arbitrary: head) auto

lemma buffer_unat: "block_ok phys \<Longrightarrow> k < 4 \<Longrightarrow> unat (buffer phys k) = unat phys + 2048 * k"
  unfolding buffer_def by (rule unat_add_of_nat) (simp add: block_ok_def)

lemma buffer_nonzero: "block_ok phys \<Longrightarrow> is_buffer phys b \<Longrightarrow> b \<noteq> 0"
proof -
  assume ok: "block_ok phys" and "is_buffer phys b"
  then obtain k where "k < 4" and b: "b = buffer phys k" by (auto simp: is_buffer_def)
  with ok have "unat b = unat phys + 2048 * k" by (simp add: buffer_unat)
  moreover have "0 < unat phys" using ok by (simp add: block_ok_def unat_gt_0)
  ultimately show "b \<noteq> 0" by auto
qed

lemma buffers_apart:
  assumes ok: "block_ok phys" and "is_buffer phys b" "is_buffer phys c" and "b \<noteq> c"
  shows "region b 2048 \<inter> region c 2048 = {}"
proof -
  have al: "aligned 11 x" if "is_buffer phys x" for x
  proof -
    from that obtain k where "k < 4" and "x = buffer phys k" by (auto simp: is_buffer_def)
    then have "unat x = unat phys + 2048 * k" using ok by (simp add: buffer_unat)
    moreover obtain q where "unat phys = 4096 * q" using ok by (auto simp: block_ok_def aligned_def)
    ultimately have "unat x = 2048 * (2 * q + k)" by simp
    then show ?thesis by (simp add: aligned_def)
  qed
  show ?thesis using aligned_disj [OF al al] assms by simp
qed

text \<open>Any address inside a buffer leads back to the buffer.\<close>

lemma buffer_of_data:
  assumes ok: "block_ok phys" and b: "is_buffer phys b" and j: "j < 2048"
  shows "(b + of_nat j) AND buf_mask = b" and "phys \<le> b + of_nat j"
    and "b + of_nat j < phys + ETH_BUFFERS_PAGES * 0x1000"
proof -
  obtain k where k: "k < 4" and "b = buffer phys k" using b by (auto simp: is_buffer_def)
  then have ub: "unat b = unat phys + 2048 * k" using ok by (simp add: buffer_unat)
  have lim: "unat phys + 32768 \<le> 2 ^ 32" using ok by (simp add: block_ok_def)
  have ux: "unat (b + of_nat j) = unat phys + 2048 * k + j"
    using unat_add_of_nat [of b j] ub k j lim by simp
  obtain q where q: "unat phys = 4096 * q" using ok by (auto simp: block_ok_def aligned_def)
  have m: "buf_mask = push_bit 11 (mask 21)" by (simp add: buf_mask_def mask_eq_exp_minus_1 push_bit_eq_mult)
  have "unat ((b + of_nat j) AND buf_mask) = 2 ^ 11 * (unat (b + of_nat j) div 2 ^ 11)"
    unfolding m by (rule unat_and_high) (use ux k j lim in simp)
  also have "\<dots> = unat b"
  proof -
    have "unat (b + of_nat j) = 2048 * (2 * q + k) + j" using ux q by simp
    then have "unat (b + of_nat j) div 2048 = 2 * q + k" using j by simp
    then show ?thesis using ub q by simp
  qed
  finally show "(b + of_nat j) AND buf_mask = b" by (simp only: word_unat_eq_iff)
  show "phys \<le> b + of_nat j" using ux by (simp add: word_le_nat_alt)
  have "unat (phys + ETH_BUFFERS_PAGES * 0x1000) = unat phys + 8192"
    using unat_add_of_nat [of phys 8192] lim by (simp add: ETH_BUFFERS_PAGES_def ETH_BUFFERS_def)
  then show "b + of_nat j < phys + ETH_BUFFERS_PAGES * 0x1000"
    using ux k j by (simp add: word_less_nat_alt)
qed

section \<open>Getting and returning\<close>

lemma get_empty:
  assumes "pool_rep s []" and "sz \<le> ETH_MTU"
  shows "net_bufpool_get sz s = Inr (0, s)"
  using assms by (simp add: net_bufpool_get_def pool_rep_def not_less)

lemma get_first:
  assumes rep: "pool_rep s (b # bs)" and sz: "sz \<le> ETH_MTU"
  shows "\<exists>s'. net_bufpool_get sz s = Inr (b + 8, s') \<and> pool_rep s' bs \<and> fw s' = fw s \<and>
     eth_buffer_phys s' = eth_buffer_phys s \<and> (\<forall>x. x \<notin> region b 8 \<longrightarrow> mem s' x = mem s x)"
proof -
  let ?s' = "s\<lparr>eth_bufpool := rd64 (mem s) b, mem := wr64 (mem s) b 0, eth_bufpool_avail := eth_bufpool_avail s - 1\<rparr>"
  have b: "eth_bufpool s = b" "b \<noteq> 0" "chain (mem s) (rd64 (mem s) b) bs" "b \<notin> set bs"
    using rep by (simp_all add: pool_rep_def)
  have "net_bufpool_get sz s = Inr (b + 8, ?s')" using b leD [OF sz] by (simp add: net_bufpool_get_def)
  moreover have "pool_rep ?s' bs"
  proof -
    have "rd64 (wr64 (mem s) b 0) c = rd64 (mem s) c" if "c \<in> set bs" for c
    proof (rule c64.rd_wr_disj)
      have "region c 2048 \<inter> region b 2048 = {}"
        using rep that b(4) by (intro buffers_apart) (auto simp: pool_rep_def)
      then show "region c 8 \<inter> region b 8 = {}"
        using region_mono [of 8 2048 c] region_mono [of 8 2048 b] by auto
    qed
    then have "chain (wr64 (mem s) b 0) (rd64 (mem s) b) bs" by (rule chain_cong [OF b(3)])
    then show ?thesis using rep by (simp add: pool_rep_def)
  qed
  ultimately show ?thesis by (auto intro: c64.wr_outside)
qed

lemma return_buffer:
  assumes rep: "pool_rep s bs" and b: "is_buffer (eth_buffer_phys s) b" "b \<notin> set bs" and j: "j < 2048"
  shows "\<exists>s'. net_bufpool_return B (b + of_nat j) s = Inr ((), s') \<and> pool_rep s' (b # bs) \<and> fw s' = fw s \<and>
     eth_buffer_phys s' = eth_buffer_phys s \<and> (\<forall>x. x \<notin> region b 8 \<longrightarrow> mem s' x = mem s x)"
proof -
  let ?s' = "s\<lparr>mem := wr64 (mem s) b (eth_bufpool s), eth_bufpool_avail := eth_bufpool_avail s + 1, eth_bufpool := b\<rparr>"
  have ok: "block_ok (eth_buffer_phys s)" using rep by (simp add: pool_rep_def)
  note d = buffer_of_data [OF ok b(1) j]
  have "net_bufpool_return B (b + of_nat j) s = Inr ((), ?s')"
    using d(1) leD [OF d(2)] iffD2 [OF not_le d(3)] by (simp add: net_bufpool_return_def Let_def)
  moreover have "pool_rep ?s' (b # bs)"
  proof -
    have "rd64 (wr64 (mem s) b (eth_bufpool s)) c = rd64 (mem s) c" if "c \<in> set bs" for c
    proof (rule c64.rd_wr_disj)
      have "region c 2048 \<inter> region b 2048 = {}"
        using rep that b by (intro buffers_apart [OF ok]) (auto simp: pool_rep_def)
      then show "region c 8 \<inter> region b 8 = {}"
        using region_mono [of 8 2048 c] region_mono [of 8 2048 b] by auto
    qed
    moreover have "chain (mem s) (eth_bufpool s) bs" using rep by (simp add: pool_rep_def)
    ultimately have "chain (wr64 (mem s) b (eth_bufpool s)) (eth_bufpool s) bs" by (blast intro: chain_cong)
    then show ?thesis
      using rep b buffer_nonzero [OF ok b(1)] by (simp add: pool_rep_def c64.rd_wr_same add.commute)
  qed
  ultimately show ?thesis by (auto intro: c64.wr_outside)
qed

section \<open>The contract of the pool\<close>

text \<open>Getting \<open>n\<close> buffers in a row, and giving a list of buffers back.\<close>

fun get_all :: "('h, 's, addr) step \<Rightarrow> nat \<Rightarrow> ('h, 's, addr list) step" where
  "get_all get 0 = ret []"
| "get_all get (Suc n) = andthen get (\<lambda>a. andthen (get_all get n) (\<lambda>as. ret (a # as)))"

fun put_all_back :: "(addr \<Rightarrow> ('h, 's, unit) step) \<Rightarrow> addr list \<Rightarrow> ('h, 's, unit) step" where
  "put_all_back put [] = ret ()"
| "put_all_back put (a # as) = andthen (put a) (\<lambda>_. put_all_back put as)"

text \<open>
  What a client of the pool relies on: the pool is a stack of free buffers. A
  buffer is known to the client by the address of its data.
\<close>

locale buffer_pool =
  fixes get :: "('h, 's, addr) step"
    and put :: "addr \<Rightarrow> ('h, 's, unit) step"
    and rep :: "'s \<Rightarrow> 'b list \<Rightarrow> bool"
    and buf :: "'s \<Rightarrow> 'b \<Rightarrow> bool"
    and dat :: "'b \<Rightarrow> addr"
  assumes get_Nil: "rep s [] \<Longrightarrow> get s = Inr (0, s)"
    and get_Cons: "rep s (b # bs) \<Longrightarrow> \<exists>s'. get s = Inr (dat b, s') \<and> rep s' bs \<and> buf s' = buf s"
    and put_Cons: "rep s bs \<Longrightarrow> buf s b \<Longrightarrow> b \<notin> set bs \<Longrightarrow>
        \<exists>s'. put (dat b) s = Inr ((), s') \<and> rep s' (b # bs) \<and> buf s' = buf s"
    and rep_distinct: "rep s bs \<Longrightarrow> distinct bs"
    and rep_buf: "rep s bs \<Longrightarrow> b \<in> set bs \<Longrightarrow> buf s b"
begin

lemma get_all_run:
  "rep s (bs @ cs) \<Longrightarrow> \<exists>s'. get_all get (length bs) s = Inr (map dat bs, s') \<and> rep s' cs \<and> buf s' = buf s"
proof (induction bs arbitrary: s)
  case (Cons b bs)
  obtain s1 where "get s = Inr (dat b, s1)" and "rep s1 (bs @ cs)" and "buf s1 = buf s"
    using get_Cons [of s b "bs @ cs"] Cons.prems by auto
  with Cons.IH [of s1] show ?case by (auto simp: andthen_Inr)
qed simp

lemma put_all_run:
  "rep s cs \<Longrightarrow> distinct bs \<Longrightarrow> set bs \<inter> set cs = {} \<Longrightarrow> (\<And>b. b \<in> set bs \<Longrightarrow> buf s b) \<Longrightarrow>
     \<exists>s'. put_all_back put (map dat bs) s = Inr ((), s') \<and> rep s' (rev bs @ cs) \<and> buf s' = buf s"
proof (induction bs arbitrary: s cs)
  case (Cons b bs)
  obtain s1 where "put (dat b) s = Inr ((), s1)" and "rep s1 (b # cs)" and "buf s1 = buf s"
    using put_Cons [of s cs b] Cons.prems by auto
  with Cons.IH [of s1 "b # cs"] Cons.prems show ?case by (auto simp: andthen_Inr)
qed simp

text \<open>A pool of \<open>n\<close> buffers serves \<open>n\<close> requests with different buffers, and no more until one comes back.\<close>

lemma drain_and_refill:
  assumes rep: "rep s bs"
  shows "\<exists>s1 s2. get_all get (length bs) s = Inr (map dat bs, s1) \<and> get s1 = Inr (0, s1) \<and>
     put_all_back put (map dat bs) s1 = Inr ((), s2) \<and> rep s2 (rev bs)"
proof -
  obtain s1 where 1: "get_all get (length bs) s = Inr (map dat bs, s1)" "rep s1 []" "buf s1 = buf s"
    using get_all_run [of s bs "[]"] rep by auto
  obtain s2 where "put_all_back put (map dat bs) s1 = Inr ((), s2)" "rep s2 (rev bs)"
    using put_all_run [of s1 "[]" bs] 1 rep_distinct [OF rep] rep_buf [OF rep] by auto
  with 1 get_Nil [OF 1(2)] show ?thesis by blast
qed

end

interpretation pool: buffer_pool "net_bufpool_get ETH_MTU" "net_bufpool_return B" pool_rep
  "\<lambda>s. is_buffer (eth_buffer_phys s)" "\<lambda>b. b + 8" for B :: "'w env"
proof (unfold_locales, goal_cases)
  case 1
  then show ?case by (simp add: get_empty)
next
  case (2 s b bs)
  then show ?case using get_first [of s b bs ETH_MTU] by auto
next
  case (3 s bs b)
  then show ?case using return_buffer [of s bs b 8 B] by auto
qed (auto simp: pool_rep_def)

section \<open>Initialisation\<close>

lemma buffer_inj: "block_ok phys \<Longrightarrow> i < 4 \<Longrightarrow> k < 4 \<Longrightarrow> buffer phys i = buffer phys k \<longleftrightarrow> i = k"
  by (rule iffI, drule arg_cong [where f = unat], simp_all add: buffer_unat)

lemma init_loop:
  fixes B :: "'w env" and s :: "('w, 'z) pool_machine_scheme"
  assumes ok: "block_ok phys" and rep: "pool_rep s []" and phys: "eth_buffer_phys s = phys"
  shows "\<exists>t. for_from 0 4 (\<lambda>i. net_bufpool_return B (phys + of_nat (2048 * i))) s = Inr ((), t) \<and>
     pool_rep t (map (buffer phys) [3, 2, 1, 0])"
proof -
  let ?I = "\<lambda>k s. k \<le> 4 \<and> pool_rep s (map (buffer phys) (rev [0..<k])) \<and> eth_buffer_phys s = phys"
  have "\<exists>t. for_from 0 4 (\<lambda>i. net_bufpool_return B (phys + of_nat (2048 * i))) s = Inr ((), t) \<and> ?I (0 + 4) t"
  proof (rule for_from_total [where I = ?I])
    show "?I 0 s" using rep phys by simp
    fix k and c :: "('w, 'z) pool_machine_scheme"
    assume k: "0 \<le> k" "k < 0 + 4" and I: "?I k c"
    have new: "buffer phys k \<notin> set (map (buffer phys) (rev [0..<k]))"
      using k buffer_inj [OF ok] by auto
    have "is_buffer (eth_buffer_phys c) (buffer phys k)" using I k by (auto simp: is_buffer_def)
    from return_buffer [OF _ this new, of 0 B] I
    obtain c' where "net_bufpool_return B (buffer phys k) c = Inr ((), c')"
      and "pool_rep c' (buffer phys k # map (buffer phys) (rev [0..<k]))" and "eth_buffer_phys c' = phys"
      by auto
    then show "\<exists>c'. net_bufpool_return B (phys + of_nat (2048 * k)) c = Inr ((), c') \<and> ?I (Suc k) c'"
      using k by (simp add: buffer_def)
  qed
  moreover have "rev [0..<4] = [3, 2, 1, 0]" by (simp add: upt_rec)
  ultimately show ?thesis by auto
qed

lemma init_pool:
  assumes al: "AllocatePages B (fw s) 8 = ((status, phys), w)" and st: "\<not> EFI_ERROR B status"
    and ok: "block_ok phys" and empty: "eth_bufpool s = 0" "eth_bufpool_avail s = 0"
  shows "\<exists>t. net_bufpool_init B s = Inr ((), t) \<and> pool_rep t (map (buffer phys) [3, 2, 1, 0])"
proof -
  let ?s1 = "s\<lparr>fw := w, eth_buffer_phys := phys\<rparr>"
  have "pool_rep ?s1 []" using ok empty by (simp add: pool_rep_def)
  with init_loop [OF ok, of ?s1 B] show ?thesis
    using al st by (simp add: net_bufpool_init_def andthen_def fwcall_def ETH_BUFFERS_def)
qed

section \<open>Properties\<close>

text \<open>
  C8: \<^verbatim>\<open>net_bufpool_get\<close> and \<^verbatim>\<open>net_bufpool_return\<close> implement a stack of buffers: getting takes the buffer on
  top, returning any address inside a buffer that is out puts it back on top, the
  count follows, and no memory but the link of that buffer changes.
\<close>

theorem net_bufpool_refines_stack:
  assumes "pool_rep s bs" and "sz \<le> ETH_MTU"
  shows "(bs = [] \<longrightarrow> net_bufpool_get sz s = Inr (0, s)) \<and>
     (\<forall>b rest. bs = b # rest \<longrightarrow>
        (\<exists>s'. net_bufpool_get sz s = Inr (b + 8, s') \<and> pool_rep s' rest \<and>
              (\<forall>x. x \<notin> region b 8 \<longrightarrow> mem s' x = mem s x))) \<and>
     (\<forall>b j. is_buffer (eth_buffer_phys s) b \<longrightarrow> b \<notin> set bs \<longrightarrow> j < 2048 \<longrightarrow>
        (\<exists>s'. net_bufpool_return B (b + of_nat j) s = Inr ((), s') \<and> pool_rep s' (b # bs) \<and>
              (\<forall>x. x \<notin> region b 8 \<longrightarrow> mem s' x = mem s x)))"
proof (intro conjI allI impI)
  show "net_bufpool_get sz s = Inr (0, s)" if "bs = []" using assms that by (simp add: get_empty)
  show "\<exists>s'. net_bufpool_get sz s = Inr (b + 8, s') \<and> pool_rep s' rest \<and>
      (\<forall>x. x \<notin> region b 8 \<longrightarrow> mem s' x = mem s x)" if "bs = b # rest" for b rest
    using get_first [of s b rest sz] assms that by blast
  show "\<exists>s'. net_bufpool_return B (b + of_nat j) s = Inr ((), s') \<and> pool_rep s' (b # bs) \<and>
      (\<forall>x. x \<notin> region b 8 \<longrightarrow> mem s' x = mem s x)"
    if "is_buffer (eth_buffer_phys s) b" "b \<notin> set bs" "j < 2048" for b j
    using return_buffer [OF assms(1) that, of B] by blast
qed

text \<open>A machine whose pool was never set up.\<close>

definition pool_start :: "sample_state pool_machine" where
  "pool_start = \<lparr>mem = (\<lambda>_. 0), fw = sample_start, cr0 = 0, msr = (\<lambda>_. 0), eth_bufpool = 0,
     eth_bufpool_avail = 0, eth_buffer_phys = 0\<rparr>"

lemma sample_init:
  obtains t where "net_bufpool_init sample_env pool_start = Inr ((), t)"
    and "pool_rep t (map (buffer 0x10000) [3, 2, 1, 0])"
proof -
  have "AllocatePages sample_env (fw pool_start) 8 = ((EFI_SUCCESS, 0x10000), sample_start\<lparr>next_page := 24\<rparr>)"
    by (simp add: sample_env_def pool_start_def sample_start_def)
  moreover have "block_ok 0x10000" by (simp add: block_ok_def aligned_def)
  ultimately show thesis
    using init_pool [of sample_env pool_start EFI_SUCCESS "0x10000"] that
    by (auto simp: sample_env_def pool_start_def)
qed

theorem net_bufpool_refines_stack_witness:
  "\<exists>(s :: sample_state pool_machine) s'. pool_rep s (map (buffer 0x10000) [3, 2, 1, 0]) \<and>
     net_bufpool_get 100 s = Inr (buffer 0x10000 3 + 8, s') \<and> pool_rep s' (map (buffer 0x10000) [2, 1, 0])"
proof -
  obtain s :: "sample_state pool_machine" where s: "pool_rep s (map (buffer 0x10000) [3, 2, 1, 0])"
    using sample_init by blast
  have "(100 :: u64) \<le> ETH_MTU" by (simp add: ETH_MTU_def)
  from net_bufpool_refines_stack [OF s this, of sample_env] s show ?thesis by auto
qed

text \<open>
  C21: Once set up below four gigabytes, the pool serves four requests, each with a buffer of its own, and answers
  the fifth with \<^verbatim>\<open>NULL\<close>; when the four have come back it serves four again.
\<close>

theorem net_bufpool_init_serves_four:
  assumes "AllocatePages B (fw s) 8 = ((status, phys), w)" and "\<not> EFI_ERROR B status" and "block_ok phys"
    and "eth_bufpool s = 0" and "eth_bufpool_avail s = 0"
  shows "\<exists>t bs s1 s2. net_bufpool_init B s = Inr ((), t) \<and> length bs = 4 \<and> distinct bs \<and>
     (\<forall>b \<in> set bs. is_buffer phys b) \<and>
     get_all (net_bufpool_get ETH_MTU) 4 t = Inr (map (\<lambda>b. b + 8) bs, s1) \<and>
     net_bufpool_get ETH_MTU s1 = Inr (0, s1) \<and>
     put_all_back (net_bufpool_return B) (map (\<lambda>b. b + 8) bs) s1 = Inr ((), s2) \<and> pool_rep s2 (rev bs)"
proof -
  let ?bs = "map (buffer phys) [3, 2, 1, 0]"
  obtain t where t: "net_bufpool_init B s = Inr ((), t)" and rep: "pool_rep t ?bs"
    using init_pool [OF assms] by blast
  have "distinct ?bs" using rep by (simp add: pool_rep_def)
  moreover have "\<forall>b \<in> set ?bs. is_buffer phys b" by (auto simp: is_buffer_def intro: exI [of _ 0] exI [of _ 1] exI [of _ 2] exI [of _ 3])
  moreover have "length ?bs = 4" by simp
  ultimately show ?thesis using pool.drain_and_refill [OF rep, of B] t by (metis (no_types, lifting))
qed

theorem net_bufpool_init_serves_four_witness:
  "\<exists>(t :: sample_state pool_machine) as s1. net_bufpool_init sample_env pool_start = Inr ((), t) \<and>
     get_all (net_bufpool_get ETH_MTU) 4 t = Inr (as, s1) \<and> length as = 4 \<and>
     net_bufpool_get ETH_MTU s1 = Inr (0, s1)"
proof -
  have "AllocatePages sample_env (fw pool_start) 8 = ((EFI_SUCCESS, 0x10000), sample_start\<lparr>next_page := 24\<rparr>)"
    by (simp add: sample_env_def pool_start_def sample_start_def)
  moreover have "block_ok 0x10000" by (simp add: block_ok_def aligned_def)
  moreover have "\<not> EFI_ERROR sample_env EFI_SUCCESS" by (simp add: sample_env_def)
  ultimately show ?thesis
    using net_bufpool_init_serves_four [of sample_env pool_start EFI_SUCCESS "0x10000"]
    by (fastforce simp: pool_start_def)
qed

text \<open>
  Above four gigabytes the pool does not work: returning a buffer clears the upper half of its address, so the
  link is written to memory outside the block, and that address heads the list.
\<close>

theorem net_bufpool_return_truncates:
  assumes "2 ^ 32 \<le> unat (eth_buffer_phys s)" and "eth_buffer_phys s \<le> dat"
    and "dat < eth_buffer_phys s + ETH_BUFFERS_PAGES * 0x1000"
  shows "\<exists>s'. net_bufpool_return B dat s = Inr ((), s') \<and> unat (eth_bufpool s') < 2 ^ 32 \<and>
     eth_bufpool s' < eth_buffer_phys s \<and> rd64 (mem s') (eth_bufpool s') = eth_bufpool s"
proof -
  let ?b = "dat AND buf_mask"
  have "unat ?b < 2 ^ 32"
  proof -
    have m: "buf_mask = push_bit 11 (mask 21)"
      by (simp add: buf_mask_def mask_eq_exp_minus_1 push_bit_eq_mult)
    have "n < 32" if "bit buf_mask n" for n
      using that unfolding m bit_push_bit_iff bit_mask_iff by auto
    then have "?b = take_bit 32 ?b"
      by (intro bit_word_eqI) (auto simp: bit_and_iff bit_take_bit_iff)
    then have "unat ?b = take_bit 32 (unat ?b)" by (metis unsigned_take_bit_eq)
    then show ?thesis by (metis take_bit_nat_less_exp)
  qed
  then show ?thesis
    using assms leD [OF assms(2)] iffD2 [OF not_le assms(3)]
    by (simp add: net_bufpool_return_def Let_def c64.rd_wr_same word_less_nat_alt)
qed

theorem net_bufpool_return_truncates_witness:
  "\<exists>s'. net_bufpool_return sample_env 0x100000008 (pool_start\<lparr>eth_buffer_phys := 0x100000000\<rparr>) = Inr ((), s') \<and>
     eth_bufpool s' < 0x100000000"
  using net_bufpool_return_truncates [of "pool_start\<lparr>eth_buffer_phys := 0x100000000\<rparr>" "0x100000008" sample_env]
  by (auto simp: ETH_BUFFERS_PAGES_def ETH_BUFFERS_def)

end
