(* ===== verification/Ip6.thy ===== *)
theory Ip6
  imports Checksum Bufpool
begin

text \<open>
  Addresses and packet headers (\<^verbatim>\<open>net/ip6.c\<close>, and the multicast filters of
  \<^verbatim>\<open>net/net.c\<close>). The global addresses are structures in memory; where the linker
  puts them is the parameter \<open>net_layout\<close>, together with the size of the
  firmware's MAC address type, the places of the local variables whose address
  is taken (\<^verbatim>\<open>mac\<close>, \<^verbatim>\<open>all\<close>, \<^verbatim>\<open>ack\<close>, \<^verbatim>\<open>reply\<close>, \<^verbatim>\<open>data\<close>), the value the uninitialised
  \<^verbatim>\<open>var_size\<close> happens to hold, and the handle of the loader's image.
\<close>

section \<open>The code\<close>

record net_layout =
  ll_mac_addr :: addr
  ip6_ll_addr :: addr
  snm_mac_addr :: addr
  ip6_snm_addr :: addr
  remote_mac_addr :: addr
  remote_ip6_addr :: addr
  ip6_all_nodes :: addr
  mcast_filters :: addr
  efi_mac_addr_size :: u64
  mac_local :: addr
  all_local :: addr
  ack_local :: addr
  reply_local :: addr
  data_local :: addr
  stale_var_size :: u64
  image_handle :: addr

record 'w net_machine = "'w pool_machine" +
  mcast_filter_count :: u32
  snp :: addr

type_synonym ('w, 'z, 'a) net_run = "(halt, ('w, 'z) net_machine_scheme, 'a) step"

definition ETH_ALEN :: nat where "ETH_ALEN = 6"
definition ETH_HLEN :: u64 where "ETH_HLEN = 14"
definition IP6_HEADER_LEN :: u64 where "IP6_HEADER_LEN = 40"

text \<open>\<^verbatim>\<open>for(i = 0; i < 16; i++) if(ip->s6_addr[i]) return false; return true;\<close>\<close>

fun ip6_empty_loop :: "mem \<Rightarrow> addr \<Rightarrow> nat \<Rightarrow> bool" where
  "ip6_empty_loop m ip 0 = True"
| "ip6_empty_loop m ip (Suc n) = (if m ip \<noteq> 0 then False else ip6_empty_loop m (ip + 1) n)"

definition net_ip6_empty :: "mem \<Rightarrow> addr \<Rightarrow> bool" where
  "net_ip6_empty m ip = ip6_empty_loop m ip 16"

definition net_ip6_multicast_from_ip6 :: "mem \<Rightarrow> addr \<Rightarrow> addr \<Rightarrow> mem" where
  "net_ip6_multicast_from_ip6 m0 mac ip =
     (let m = m0(mac := 0x33);
          m = m(mac + 1 := 0x33);
          m = m(mac + 2 := m (ip + 12));
          m = m(mac + 3 := m (ip + 13));
          m = m(mac + 4 := m (ip + 14));
          m = m(mac + 5 := m (ip + 15))
      in m)"

text \<open>\<^verbatim>\<open>ip + 2\<close> is two structures of 16 bytes further on, not two bytes.\<close>

definition net_ip6_ll_addr_from_mac :: "mem \<Rightarrow> addr \<Rightarrow> addr \<Rightarrow> mem" where
  "net_ip6_ll_addr_from_mac m0 ip mac =
     (let m = memset m0 (ip + 2 * 16) 0 6;
          m = m(ip := 0xFE);
          m = m(ip + 1 := 0x80);
          m = m(ip + 8 := m mac XOR 2);
          m = m(ip + 9 := m (mac + 1));
          m = m(ip + 10 := m (mac + 2));
          m = m(ip + 11 := 0xFF);
          m = m(ip + 12 := 0xFE);
          m = m(ip + 13 := m (mac + 3));
          m = m(ip + 14 := m (mac + 4));
          m = m(ip + 15 := m (mac + 5))
      in m)"

definition net_ip6_snm_addr_from_mac :: "mem \<Rightarrow> addr \<Rightarrow> addr \<Rightarrow> mem" where
  "net_ip6_snm_addr_from_mac m0 ip mac =
     (let m = memset m0 (ip + 2) 0 9;
          m = m(ip := 0xFF);
          m = m(ip + 1 := 0x02);
          m = m(ip + 11 := 0x01);
          m = m(ip + 12 := 0xFF);
          m = m(ip + 13 := m (mac + 3));
          m = m(ip + 14 := m (mac + 4));
          m = m(ip + 15 := m (mac + 5))
      in m)"

definition net_ip6_resolve :: "net_layout \<Rightarrow> mem \<Rightarrow> addr \<Rightarrow> addr \<Rightarrow> efi_status \<times> mem" where
  "net_ip6_resolve L m mac ip =
     (if m ip = 0xFF then (EFI_SUCCESS, net_ip6_multicast_from_ip6 m mac ip)
      else if memcmp m ip (remote_ip6_addr L) 16 = 0
      then (EFI_SUCCESS, memcpy m mac (remote_mac_addr L) 6)
      else (EFI_NOT_FOUND, m))"

text \<open>Offsets in a packet: destination 0, source 6, protocol 12, the IPv6 header 14.\<close>

definition net_ip6_packet_setup ::
    "net_layout \<Rightarrow> addr \<Rightarrow> mem \<Rightarrow> addr \<Rightarrow> addr \<Rightarrow> u64 \<Rightarrow> u8 \<Rightarrow> efi_status \<times> mem" where
  "net_ip6_packet_setup L mac m0 p dst len typ =
     (case net_ip6_resolve L m0 mac dst of (status, m) \<Rightarrow>
        if status \<noteq> EFI_SUCCESS then (EFI_NOT_FOUND, m)
        else
          (let m = memcpy m p mac ETH_ALEN;
               m = memcpy m (p + 6) (ll_mac_addr L) ETH_ALEN;
               m = wr16 m (p + 12) (htons 0x86DD);
               m = wr32 m (p + 14) 0x60;
               m = wr16 m (p + 18) (htons (ucast len));
               m = m(p + 20 := typ);
               m = m(p + 21 := 255);
               m = memcpy m (p + 22) (ip6_ll_addr L) 16;
               m = memcpy m (p + 38) dst 16
           in (EFI_SUCCESS, m)))"

definition net_add_mcast_filter :: "'w env \<Rightarrow> net_layout \<Rightarrow> addr \<Rightarrow> ('w, 'z, efi_status) net_run" where
  "net_add_mcast_filter B L a =
     andthen (gets mcast_filter_count) (\<lambda>count.
     andthen (gets (\<lambda>s. MaxMCastFilterCount (SNP B) (fw s) (snp s))) (\<lambda>max_count.
     if 8 \<le> count \<or> max_count \<le> count then ret EFI_INVALID_PARAMETER
     else
       andthen (modify (\<lambda>s. s\<lparr>mem := memcpy (mem s) (mcast_filters L + efi_mac_addr_size L * ucast count) a ETH_ALEN\<rparr>)) (\<lambda>_.
       andthen (modify (\<lambda>s. s\<lparr>mcast_filter_count := count + 1\<rparr>)) (\<lambda>_.
       ret EFI_SUCCESS))))"

text \<open>\<open>everyone\<close> is the address of the local \<^verbatim>\<open>all\<close>.\<close>

definition net_ip6_init :: "'w env \<Rightarrow> net_layout \<Rightarrow> addr \<Rightarrow> addr \<Rightarrow> ('w, 'z, unit) net_run" where
  "net_ip6_init B L everyone mac =
     andthen (modify (\<lambda>s. s\<lparr>mem := memcpy (mem s) (ll_mac_addr L) mac 6\<rparr>)) (\<lambda>_.
     andthen (modify (\<lambda>s. s\<lparr>mem := net_ip6_ll_addr_from_mac (mem s) (ip6_ll_addr L) (ll_mac_addr L)\<rparr>)) (\<lambda>_.
     andthen (modify (\<lambda>s. s\<lparr>mem := net_ip6_snm_addr_from_mac (mem s) (ip6_snm_addr L) (ll_mac_addr L)\<rparr>)) (\<lambda>_.
     andthen (modify (\<lambda>s. s\<lparr>mem := net_ip6_multicast_from_ip6 (mem s) (snm_mac_addr L) (ip6_snm_addr L)\<rparr>)) (\<lambda>_.
     andthen (modify (\<lambda>s. s\<lparr>mem := net_ip6_multicast_from_ip6 (mem s) everyone (ip6_all_nodes L)\<rparr>)) (\<lambda>_.
     andthen (net_add_mcast_filter B L (snm_mac_addr L)) (\<lambda>_.
     andthen (net_add_mcast_filter B L everyone) (\<lambda>_.
     ret ())))))))"

section \<open>What a packet header holds\<close>

definition be_bytes16 :: "u16 \<Rightarrow> u8 list" where
  "be_bytes16 v = [ucast (drop_bit 8 v), ucast v]"

definition ip6_frame :: "u8 list \<Rightarrow> u8 list \<Rightarrow> u8 \<Rightarrow> u16 \<Rightarrow> u8 list \<Rightarrow> u8 list \<Rightarrow> u8 list" where
  "ip6_frame dest source typ len src dst =
     dest @ source @ [0x86, 0xDD] @ [0x60, 0, 0, 0] @ be_bytes16 len @ [typ, 255] @ src @ dst"

text \<open>The MAC address a packet to an IPv6 address goes to.\<close>

definition mac_for :: "net_layout \<Rightarrow> mem \<Rightarrow> addr \<Rightarrow> u8 list option" where
  "mac_for L m dst =
     (if m dst = 0xFF then Some (0x33 # 0x33 # load_bytes m (dst + 12) 4)
      else if load_bytes m dst 16 = load_bytes m (remote_ip6_addr L) 16
      then Some (load_bytes m (remote_mac_addr L) 6)
      else None)"

lemma le_bytes_htons: "le_bytes 2 (htons v) = be_bytes16 v"
proof -
  have 1: "ucast (htons v) = (ucast (drop_bit 8 v) :: u8)"
    by (rule bit_word_eqI) (auto simp: htons_def bit_unsigned_iff bit_or_iff bit_push_bit_iff bit_drop_bit_eq)
  have 2: "ucast (drop_bit 8 (htons v)) = (ucast v :: u8)"
    by (rule bit_word_eqI) (auto simp: htons_def bit_unsigned_iff bit_or_iff bit_push_bit_iff bit_drop_bit_eq)
  show ?thesis by (simp add: numeral_2_eq_2 be_bytes16_def 1 2)
qed

lemma mac_for_cong:
  assumes dst: "load_bytes m' dst 16 = load_bytes m dst 16"
    and "load_bytes m' (remote_ip6_addr L) 16 = load_bytes m (remote_ip6_addr L) 16"
    and "load_bytes m' (remote_mac_addr L) 6 = load_bytes m (remote_mac_addr L) 6"
  shows "mac_for L m' dst = mac_for L m dst"
proof -
  have "m' dst = m dst" using nth_load_bytes [of 0 16 m' dst] nth_load_bytes [of 0 16 m dst] dst by simp
  moreover have "load_bytes m' (dst + 12) 4 = load_bytes m (dst + 12) 4"
    using arg_cong [OF dst, of "drop 12"] by (simp add: drop_load_bytes)
  ultimately show ?thesis using assms by (simp add: mac_for_def)
qed

lemma ip6_empty_zero: "net_ip6_empty m ip \<longleftrightarrow> load_bytes m ip 16 = replicate 16 0"
proof -
  have "ip6_empty_loop m ip n \<longleftrightarrow> load_bytes m ip n = replicate n 0" for n
    by (induction n arbitrary: ip) (auto simp: load_bytes_Suc)
  then show ?thesis by (simp add: net_ip6_empty_def)
qed

section \<open>Header set-up\<close>

text \<open>
  What a packet is made from, the local \<^verbatim>\<open>mac\<close> and the 54 bytes of the packet's
  headers lie apart.
\<close>

definition setup_sep :: "net_layout \<Rightarrow> addr \<Rightarrow> addr \<Rightarrow> addr \<Rightarrow> bool" where
  "setup_sep L mac p dst \<longleftrightarrow>
     region mac 6 \<inter> region p 54 = {} \<and>
     (\<forall>(a, n) \<in> {(ll_mac_addr L, 6), (ip6_ll_addr L, 16), (remote_mac_addr L, 6), (dst, 16)}.
        region a n \<inter> region mac 6 = {} \<and> region a n \<inter> region p 54 = {})"

lemma setup_sepD:
  assumes "setup_sep L mac p dst"
  shows "region mac 6 \<inter> region p 54 = {}"
    and "region (ll_mac_addr L) 6 \<inter> region mac 6 = {}" and "region (ll_mac_addr L) 6 \<inter> region p 54 = {}"
    and "region (ip6_ll_addr L) 16 \<inter> region mac 6 = {}" and "region (ip6_ll_addr L) 16 \<inter> region p 54 = {}"
    and "region (remote_mac_addr L) 6 \<inter> region mac 6 = {}"
    and "region dst 16 \<inter> region mac 6 = {}" and "region dst 16 \<inter> region p 54 = {}"
  using assms unfolding setup_sep_def by auto

lemma upd_next:
  "q = p + of_nat (length bs) \<Longrightarrow> length bs < 2 ^ 64 \<Longrightarrow> (store_bytes m p bs)(q := v) = store_bytes m p (bs @ [v])"
  by (simp add: upd_store store_next)

lemma multicast_mac:
  assumes "region (ip + 12) 4 \<inter> region mac 6 = {}"
  shows "net_ip6_multicast_from_ip6 m mac ip = store_bytes m mac (0x33 # 0x33 # load_bytes m (ip + 12) 4)"
proof -
  have rd: "store_bytes m mac bs (ip + 12 + of_nat i) = m (ip + 12 + of_nat i)" if "length bs \<le> 6" "i < 4" for bs i
  proof (rule store_outside)
    have "ip + 12 + of_nat i \<in> region (ip + 12) 4" using that(2) by (rule in_region)
    then show "ip + 12 + of_nat i \<notin> region mac (length bs)"
      using assms region_mono [OF that(1), of mac] by blast
  qed
  have rds: "store_bytes m mac bs (ip + 12) = m (ip + 12)" "store_bytes m mac bs (ip + 13) = m (ip + 13)"
    "store_bytes m mac bs (ip + 14) = m (ip + 14)" "store_bytes m mac bs (ip + 15) = m (ip + 15)"
    if "length bs \<le> 6" for bs
    using rd [OF that, of 0] rd [OF that, of 1] rd [OF that, of 2] rd [OF that, of 3] by (simp_all add: add.assoc)
  have e: "load_bytes m (ip + 12) 4 = [m (ip + 12), m (ip + 13), m (ip + 14), m (ip + 15)]"
    by (simp add: load_bytes_def upt_rec add.assoc)
  show ?thesis
    unfolding net_ip6_multicast_from_ip6_def e
    by (simp add: Let_def rds upd_next upd_store [of m] del: fun_upd_apply)
qed

lemma packet_setup_run:
  assumes sep: "setup_sep L mac p dst"
  shows "net_ip6_packet_setup L mac m p dst len typ =
    (case mac_for L m dst of
       None \<Rightarrow> (EFI_NOT_FOUND, m)
     | Some d \<Rightarrow> (EFI_SUCCESS, store_bytes (store_bytes m mac d) p
         (ip6_frame d (load_bytes m (ll_mac_addr L) 6) typ (ucast len) (load_bytes m (ip6_ll_addr L) 16) (load_bytes m dst 16))))"
proof (cases "mac_for L m dst")
  case None
  then show ?thesis
    by (auto simp: net_ip6_packet_setup_def net_ip6_resolve_def mac_for_def memcmp_eq_0 split: if_splits)
next
  case (Some d)
  note sepD = setup_sepD [OF sep]
  have "region (dst + of_nat 12) 4 \<subseteq> region dst 16" by (rule subregion) simp
  then have "region (dst + 12) 4 \<inter> region mac 6 = {}" using sepD(7) by auto
  then have res: "net_ip6_resolve L m mac dst = (EFI_SUCCESS, store_bytes m mac d)" and d: "length d = 6"
    using Some memcpy_store [OF sepD(6), of m]
    by (auto simp: net_ip6_resolve_def mac_for_def memcmp_eq_0 multicast_mac split: if_splits)
  have rd: "load_bytes (store_bytes m mac d) a n = load_bytes m a n" if "region a n \<inter> region mac 6 = {}" for a n
    using that d by (simp add: load_store_disj)
  have own: "load_bytes (store_bytes m mac d) mac 6 = d" using d by (simp add: load_store_same)
  have first: "memcpy (store_bytes m mac d) p mac 6 = store_bytes (store_bytes m mac d) p d"
    using copy_next [of mac 6 p 54 "[]" p "store_bytes m mac d"] sepD(1) own by simp
  define M where "M = store_bytes m mac d"
  have "net_ip6_packet_setup L mac m p dst len typ = (EFI_SUCCESS, store_bytes M p
      (ip6_frame d (load_bytes M (ll_mac_addr L) 6) typ (ucast len) (load_bytes M (ip6_ll_addr L) 16) (load_bytes M dst 16)))"
  proof -
    note next_field = store_next upd_next copy_next [OF sepD(3)] copy_next [OF sepD(5)] copy_next [OF sepD(8)]
    have flow: "le_bytes 4 (0x60 :: u32) = [0x60, 0, 0, 0]" by code_simp
    have proto: "be_bytes16 0x86DD = [0x86, 0xDD]" by (simp add: be_bytes16_def)
    have be: "length (be_bytes16 v) = 2" for v by (simp add: be_bytes16_def)
    show ?thesis
      by (simp add: net_ip6_packet_setup_def res [folded M_def] first [folded M_def] Let_def ETH_ALEN_def
          ip6_frame_def wr16_def wr32_def le_bytes_htons flow proto be d next_field del: fun_upd_apply)
  qed
  then show ?thesis using Some sepD by (simp add: M_def rd)
qed

section \<open>The loader's own addresses\<close>

text \<open>The interface identifier made from a MAC address, and the addresses the loader listens on.\<close>

definition eui64 :: "u8 list \<Rightarrow> u8 list" where
  "eui64 mac = [mac ! 0 XOR 2, mac ! 1, mac ! 2, 0xFF, 0xFE, mac ! 3, mac ! 4, mac ! 5]"

definition snm_addr :: "u8 list \<Rightarrow> u8 list" where
  "snm_addr mac = [0xFF, 0x02, 0, 0, 0, 0, 0, 0, 0, 0, 0, 0x01, 0xFF, mac ! 3, mac ! 4, mac ! 5]"

lemma read_six:
  fixes mac :: addr
  assumes "\<And>x. x \<in> region mac 6 \<Longrightarrow> m' x = m x"
  shows "m' mac = load_bytes m mac 6 ! 0" "m' (mac + 1) = load_bytes m mac 6 ! 1" "m' (mac + 2) = load_bytes m mac 6 ! 2"
    "m' (mac + 3) = load_bytes m mac 6 ! 3" "m' (mac + 4) = load_bytes m mac 6 ! 4" "m' (mac + 5) = load_bytes m mac 6 ! 5"
  using assms [OF in_region [of 0 6]] assms [OF in_region [of 1 6]] assms [OF in_region [of 2 6]]
    assms [OF in_region [of 3 6]] assms [OF in_region [of 4 6]] assms [OF in_region [of 5 6]] by simp_all

lemma ll_addr_run:
  assumes "region mac 6 \<inter> region ip 16 = {}" and "region mac 6 \<inter> region (ip + 32) 6 = {}"
  shows "net_ip6_ll_addr_from_mac m ip mac =
     store_bytes (store_bytes (store_bytes m (ip + 32) (replicate 6 0)) ip [0xFE, 0x80]) (ip + 8) (eui64 (load_bytes m mac 6))"
proof -
  define N where "N = store_bytes (store_bytes m (ip + 32) (replicate 6 0)) ip [0xFE, 0x80]"
  have sub: "region ip 2 \<subseteq> region ip 16" "region (ip + 8) k \<subseteq> region ip 16" if "k \<le> 8" for k
    using that subregion [of 0 2 16 ip] subregion [of 8 k 16 ip] by simp_all
  have out: "store_bytes N (ip + 8) bs x = m x" if "x \<in> region mac 6" "length bs \<le> 8" for bs x
  proof -
    have "x \<notin> region ip 2" "x \<notin> region (ip + 8) (length bs)" "x \<notin> region (ip + 32) 6"
      using that assms sub [of "length bs"] by blast+
    then show ?thesis by (simp add: N_def store_outside numeral_2_eq_2)
  qed
  note rd = read_six [of mac "store_bytes N (ip + 8) bs" m for bs, OF out]
  have N: "(memset m (ip + 32) 0 6)(ip := 0xFE, ip + 1 := 0x80) = store_bytes N (ip + 8) []"
    by (simp add: N_def memset_store upd_store [of _ ip] upd_next del: fun_upd_apply)
  show ?thesis
    unfolding net_ip6_ll_addr_from_mac_def Let_def eui64_def N_def [symmetric]
    by (simp add: N rd upd_next del: fun_upd_apply store_Nil)
qed

lemma snm_addr_run:
  assumes "region mac 6 \<inter> region ip 16 = {}"
  shows "net_ip6_snm_addr_from_mac m ip mac = store_bytes m ip (snm_addr (load_bytes m mac 6))"
proof -
  have "region ip 2 \<inter> region (ip + of_nat 2) 9 = {}"
    by (rule region_disjI) (simp_all add: unat_neg64)
  then have "region ip (Suc (Suc 0)) \<inter> region (ip + 2) 9 = {}" by (simp add: numeral_2_eq_2)
  then have "store_bytes (store_bytes m (ip + 2) (replicate 9 0)) ip [0xFF, 0x02] = store_bytes m ip (0xFF # 0x02 # replicate 9 0)"
    using store_comm [of ip "[0xFF, 0x02]" "ip + 2" "replicate 9 0" m] by (simp add: store_next)
  then have z: "(memset m (ip + 2) 0 9)(ip := 0xFF, ip + 1 := 0x02) = store_bytes m ip (0xFF # 0x02 # replicate 9 0)"
    by (simp add: memset_store upd_store [of _ ip] upd_next del: fun_upd_apply)
  have out: "store_bytes m ip bs x = m x" if "x \<in> region mac 6" "length bs \<le> 16" for bs x
    using that assms region_mono [of "length bs" 16 ip] by (intro store_outside) blast
  note rd = read_six [of mac "store_bytes m ip bs" m for bs, OF out]
  show ?thesis
    unfolding net_ip6_snm_addr_from_mac_def Let_def snm_addr_def
    by (simp add: z rd upd_next del: fun_upd_apply) (simp add: numeral_eq_Suc)
qed

section \<open>Multicast filters\<close>

text \<open>There is room for another filter in the array and in the interface.\<close>

definition filter_room :: "'w env \<Rightarrow> ('w, 'z) net_machine_scheme \<Rightarrow> bool" where
  "filter_room B s \<longleftrightarrow>
     mcast_filter_count s < 8 \<and> mcast_filter_count s < MaxMCastFilterCount (SNP B) (fw s) (snp s)"

definition filter_slot :: "net_layout \<Rightarrow> u32 \<Rightarrow> addr" where
  "filter_slot L k = mcast_filters L + efi_mac_addr_size L * ucast k"

definition filters_size :: "net_layout \<Rightarrow> nat" where
  "filters_size L = 8 * unat (efi_mac_addr_size L)"

text \<open>A MAC address of the firmware has room for six bytes, and the array does not wrap.\<close>

definition filters_ok :: "net_layout \<Rightarrow> bool" where
  "filters_ok L \<longleftrightarrow> 6 \<le> efi_mac_addr_size L \<and> filters_size L < 2 ^ 64"

lemma filter_slot_inside:
  assumes ok: "filters_ok L" and k: "k < 8"
  shows "region (filter_slot L k) 6 \<subseteq> region (mcast_filters L) (filters_size L)"
proof -
  let ?z = "efi_mac_addr_size L"
  have z: "6 \<le> unat ?z" and lim: "8 * unat ?z < 2 ^ 64" using ok by (auto simp: filters_ok_def filters_size_def word_le_nat_alt)
  have k8: "unat k < 8" using k by (simp add: word_less_nat_alt)
  have "filter_slot L k = mcast_filters L + of_nat (unat ?z * unat k)"
    by (simp add: filter_slot_def unsigned_ucast_eq)
  moreover have "unat ?z * unat k + 6 \<le> filters_size L"
  proof -
    have "unat ?z * unat k \<le> unat ?z * 7" using k8 by (intro mult_le_mono2) simp
    then show ?thesis using z unfolding filters_size_def by linarith
  qed
  ultimately show ?thesis by (simp only: subregion)
qed

lemma filter_slots_apart:
  assumes ok: "filters_ok L"
  shows "region (filter_slot L 0) 6 \<inter> region (filter_slot L 1) 6 = {}"
proof -
  let ?z = "efi_mac_addr_size L"
  have z: "6 \<le> unat ?z" "8 * unat ?z < 2 ^ 64" using ok by (auto simp: filters_ok_def filters_size_def word_le_nat_alt)
  show ?thesis
  proof (rule region_disjI)
    show "6 \<le> unat (filter_slot L 1 - filter_slot L 0)" using z by (simp add: filter_slot_def)
    have "?z \<noteq> 0" using z by auto
    then show "6 \<le> unat (filter_slot L 0 - filter_slot L 1)" using z unat_neg64 [of ?z] by (simp add: filter_slot_def)
  qed
qed

lemma add_mcast_filter_run:
  assumes "filters_ok L" and "region a 6 \<inter> region (mcast_filters L) (filters_size L) = {}"
  shows "net_add_mcast_filter B L a s =
     (if filter_room B s
      then Inr (EFI_SUCCESS, s\<lparr>mem := store_bytes (mem s) (filter_slot L (mcast_filter_count s)) (load_bytes (mem s) a 6),
                               mcast_filter_count := mcast_filter_count s + 1\<rparr>)
      else Inr (EFI_INVALID_PARAMETER, s))"
proof (cases "filter_room B s")
  case True
  then have "mcast_filter_count s < 8" by (simp add: filter_room_def)
  then have "region a 6 \<inter> region (filter_slot L (mcast_filter_count s)) 6 = {}"
    using filter_slot_inside [OF assms(1)] assms(2) by blast
  then have "memcpy (mem s) (filter_slot L (mcast_filter_count s)) a 6 =
      store_bytes (mem s) (filter_slot L (mcast_filter_count s)) (load_bytes (mem s) a 6)"
    by (intro memcpy_store) simp_all
  with True show ?thesis
    by (simp add: net_add_mcast_filter_def filter_room_def filter_slot_def ETH_ALEN_def not_le)
next
  case False
  then show ?thesis by (auto simp: net_add_mcast_filter_def filter_room_def not_le)
qed

section \<open>Initialisation\<close>

text \<open>
  What \<^verbatim>\<open>net_ip6_init\<close> works on. The six bytes that \<^verbatim>\<open>memset(ip + 2, 0, 6)\<close> clears
  behind the link-local address must miss the two addresses that are still to be
  read; where else they fall is left open.
\<close>

definition init_sep :: "net_layout \<Rightarrow> addr \<Rightarrow> addr \<Rightarrow> bool" where
  "init_sep L everyone mac \<longleftrightarrow>
     apart [(mac, 6), (ll_mac_addr L, 6), (ip6_ll_addr L, 16), (ip6_snm_addr L, 16), (snm_mac_addr L, 6), (everyone, 6),
            (ip6_all_nodes L, 16), (mcast_filters L, filters_size L)] \<and>
     region (ll_mac_addr L) 6 \<inter> region (ip6_ll_addr L + 32) 6 = {} \<and>
     region (ip6_all_nodes L) 16 \<inter> region (ip6_ll_addr L + 32) 6 = {} \<and> filters_ok L"

definition init_mem :: "net_layout \<Rightarrow> addr \<Rightarrow> addr \<Rightarrow> mem \<Rightarrow> mem" where
  "init_mem L everyone mac m =
     (let M = load_bytes m mac 6;
          m = store_bytes m (ll_mac_addr L) M;
          m = store_bytes m (ip6_ll_addr L + 32) (replicate 6 0);
          m = store_bytes m (ip6_ll_addr L) [0xFE, 0x80];
          m = store_bytes m (ip6_ll_addr L + 8) (eui64 M);
          m = store_bytes m (ip6_snm_addr L) (snm_addr M);
          m = store_bytes m (snm_mac_addr L) [0x33, 0x33, 0xFF, M ! 3, M ! 4, M ! 5]
      in store_bytes m everyone (0x33 # 0x33 # load_bytes m (ip6_all_nodes L + 12) 4))"

lemma six_in_sixteen: "region (a + 2) 6 \<subseteq> region a 16" "region (a + 8) 8 \<subseteq> region a 16" "region (a + 12) 4 \<subseteq> region a 16"
  "region a 2 \<subseteq> region a 16"
  using subregion [of 2 6 16 a] subregion [of 8 8 16 a] subregion [of 12 4 16 a] subregion [of 0 2 16 a] by simp_all

lemma ip6_init_run:
  assumes sep: "init_sep L everyone mac"
  shows "net_ip6_init B L everyone mac s =
     andthen (net_add_mcast_filter B L (snm_mac_addr L)) (\<lambda>_. andthen (net_add_mcast_filter B L everyone) (\<lambda>_. ret ()))
       (s\<lparr>mem := init_mem L everyone mac (mem s)\<rparr>)"
proof -
  have ap: "region mac 6 \<inter> region (ll_mac_addr L) 6 = {}" "region (ll_mac_addr L) 6 \<inter> region (ip6_ll_addr L) 16 = {}"
    "region (ll_mac_addr L) 6 \<inter> region (ip6_ll_addr L + 32) 6 = {}"
    "region (ll_mac_addr L) 6 \<inter> region (ip6_snm_addr L) 16 = {}"
    "region (ip6_snm_addr L) 16 \<inter> region (snm_mac_addr L) 6 = {}" "region (ip6_all_nodes L) 16 \<inter> region everyone 6 = {}"
    using sep unfolding init_sep_def by auto
  let ?M = "load_bytes (mem s) mac 6"
  define m1 where "m1 = store_bytes (mem s) (ll_mac_addr L) ?M"
  define m2 where "m2 = store_bytes (store_bytes (store_bytes m1 (ip6_ll_addr L + 32) (replicate 6 0)) (ip6_ll_addr L) [0xFE, 0x80]) (ip6_ll_addr L + 8) (eui64 ?M)"
  define m3 where "m3 = store_bytes m2 (ip6_snm_addr L) (snm_addr ?M)"
  have 1: "memcpy (mem s) (ll_mac_addr L) mac 6 = m1" unfolding m1_def using ap(1) by (simp add: memcpy_store)
  have M1: "load_bytes m1 (ll_mac_addr L) 6 = ?M" by (simp add: m1_def load_store_same)
  have 2: "net_ip6_ll_addr_from_mac m1 (ip6_ll_addr L) (ll_mac_addr L) = m2"
    using ap(2,3) by (simp add: ll_addr_run m2_def M1)
  have "region (ll_mac_addr L) 6 \<inter> region (ip6_ll_addr L + 8) 8 = {}" using ap(2) six_in_sixteen by blast
  then have "load_bytes m2 (ll_mac_addr L) 6 = load_bytes m1 (ll_mac_addr L) 6"
    using ap(2,3) by (simp add: m2_def load_store_disj_le [where k = 8] load_store_disj_le [where k = 16]
        load_store_disj_le [where k = 6] eui64_def)
  then have 3: "net_ip6_snm_addr_from_mac m2 (ip6_snm_addr L) (ll_mac_addr L) = m3"
    using ap(4) M1 by (simp add: snm_addr_run m3_def)
  have "load_bytes m3 (ip6_snm_addr L + 12) 4 = drop 12 (load_bytes m3 (ip6_snm_addr L) 16)" by (simp add: drop_load_bytes)
  also have "\<dots> = drop 12 (snm_addr ?M)" by (simp add: m3_def load_store_same snm_addr_def)
  finally have 4: "load_bytes m3 (ip6_snm_addr L + 12) 4 = [0xFF, ?M ! 3, ?M ! 4, ?M ! 5]" by (simp add: snm_addr_def)
  have "region (ip6_snm_addr L + 12) 4 \<inter> region (snm_mac_addr L) 6 = {}" "region (ip6_all_nodes L + 12) 4 \<inter> region everyone 6 = {}"
    using ap(5,6) six_in_sixteen by blast+
  then show ?thesis
    by (simp add: net_ip6_init_def 1 2 3 multicast_mac 4 init_mem_def Let_def flip: m1_def m2_def m3_def)
qed

lemmas load_past = load_store_disj_le [where k = 6] load_store_disj_le [where k = 8] load_store_disj_le [where k = 16]

lemma init_mem_loads:
  fixes m :: mem
  assumes sep: "init_sep L everyone mac"
  defines "M \<equiv> load_bytes m mac 6" and "I \<equiv> init_mem L everyone mac m"
  shows "load_bytes I (ll_mac_addr L) 6 = M"
    and "load_bytes I (ip6_ll_addr L) 16 = [0xFE, 0x80] @ load_bytes m (ip6_ll_addr L + 2) 6 @ eui64 M"
    and "load_bytes I (ip6_snm_addr L) 16 = snm_addr M"
    and "load_bytes I (snm_mac_addr L) 6 = [0x33, 0x33, 0xFF, M ! 3, M ! 4, M ! 5]"
    and "load_bytes I everyone 6 = 0x33 # 0x33 # load_bytes m (ip6_all_nodes L + 12) 4"
proof -
  let ?ll = "ip6_ll_addr L"
  have ap: "apart [(mac, 6), (ll_mac_addr L, 6), (?ll, 16), (ip6_snm_addr L, 16), (snm_mac_addr L, 6), (everyone, 6),
      (ip6_all_nodes L, 16), (mcast_filters L, filters_size L)]"
    and far: "region (ll_mac_addr L) 6 \<inter> region (?ll + 32) 6 = {}" "region (ip6_all_nodes L) 16 \<inter> region (?ll + 32) 6 = {}"
    using sep unfolding init_sep_def by blast+
  note disj = ap [simplified] far
  have eight: "region a n \<inter> region (?ll + 8) 8 = {}" if "region a n \<inter> region ?ll 16 = {}" for a n
    using that six_in_sixteen(2) [of ?ll] by blast
  have sub: "region (?ll + 2) 6 \<inter> region b k = {}" if "region ?ll 16 \<inter> region b k = {}" for b k
    using that six_in_sixteen(1) [of ?ll] by blast
  have nodes: "region (ip6_all_nodes L + 12) 4 \<inter> region b k = {}" if "region (ip6_all_nodes L) 16 \<inter> region b k = {}" for b k
    using that six_in_sixteen(3) [of "ip6_all_nodes L"] by blast
  have M: "length M = 6" by (simp add: M_def)
  note defs = I_def init_mem_def Let_def M_def [symmetric] eui64_def snm_addr_def
  show "load_bytes I (ll_mac_addr L) 6 = M"
    using disj eight [of "ll_mac_addr L" 6] by (simp add: defs load_past M) (simp add: load_store_same M)
  show "load_bytes I (ip6_snm_addr L) 16 = snm_addr M"
    using disj by (simp add: defs load_past load_store_same)
  show "load_bytes I (snm_mac_addr L) 6 = [0x33, 0x33, 0xFF, M ! 3, M ! 4, M ! 5]"
    using disj by (simp add: defs load_past load_store_same)
  show "load_bytes I everyone 6 = 0x33 # 0x33 # load_bytes m (ip6_all_nodes L + 12) 4"
    using disj nodes eight [OF nodes] by (simp add: defs load_past load_store_same M)
  have "region ?ll 16 \<inter> region (?ll + of_nat 32) 6 = {}" by (rule region_disjI) (simp_all add: unat_neg64)
  moreover define N where "N = store_bytes (store_bytes m (ll_mac_addr L) M) (?ll + 32) (replicate 6 0)"
  ultimately have old: "load_bytes N (?ll + 2) 6 = load_bytes m (?ll + 2) 6"
    using disj sub by (simp add: load_past M)
  have "load_bytes I ?ll 16 = load_bytes (store_bytes (store_bytes N ?ll [0xFE, 0x80]) (?ll + 8) (eui64 M)) ?ll 16"
    using disj by (simp add: I_def init_mem_def Let_def M_def [symmetric] N_def load_past snm_addr_def)
  also have "\<dots> = load_bytes (store_bytes N ?ll [0xFE, 0x80]) ?ll 8 @ eui64 M"
    using load_store_slice [of 8 "eui64 M" 16 "store_bytes N ?ll [0xFE, 0x80]" ?ll] by (simp add: eui64_def)
  also have "load_bytes (store_bytes N ?ll [0xFE, 0x80]) ?ll 8 = [0xFE, 0x80] @ load_bytes m (?ll + 2) 6"
    using load_store_slice [of 0 "[0xFE, 0x80]" 8 N ?ll] old by simp
  finally show "load_bytes I ?ll 16 = [0xFE, 0x80] @ load_bytes m (?ll + 2) 6 @ eui64 M" by simp
qed

section \<open>Properties\<close>

text \<open>
  \<^verbatim>\<open>net_ip6_packet_setup\<close> fills the 54 header bytes of a packet with a well-formed
  Ethernet and IPv6 header: the destination MAC address is the multicast address
  of a multicast destination, or the cached one when the destination is the
  cached peer; source, protocol, length in network order, type, hop limit 255 and
  the two IPv6 addresses follow, and nothing else changes but the local copy of the
  MAC address. For any other destination it gives \<^verbatim>\<open>EFI_NOT_FOUND\<close> and changes
  nothing.
\<close>

theorem net_ip6_packet_setup_header:
  assumes "setup_sep L mac p dst" and "net_ip6_packet_setup L mac m p dst len typ = (status, m')"
  shows "(mac_for L m dst = None \<longrightarrow> status = EFI_NOT_FOUND \<and> m' = m) \<and>
    (\<forall>d. mac_for L m dst = Some d \<longrightarrow> status = EFI_SUCCESS \<and>
       load_bytes m' p 54 = ip6_frame d (load_bytes m (ll_mac_addr L) 6) typ (ucast len)
         (load_bytes m (ip6_ll_addr L) 16) (load_bytes m dst 16) \<and>
       (\<forall>x. x \<notin> region p 54 \<longrightarrow> x \<notin> region mac 6 \<longrightarrow> m' x = m x))"
proof (intro conjI impI allI)
  note run = packet_setup_run [OF assms(1), of m len "typ", unfolded assms(2)]
  show "status = EFI_NOT_FOUND" "m' = m" if "mac_for L m dst = None" using run that by simp_all
  fix d assume d: "mac_for L m dst = Some d"
  let ?F = "ip6_frame d (load_bytes m (ll_mac_addr L) 6) typ (ucast len) (load_bytes m (ip6_ll_addr L) 16) (load_bytes m dst 16)"
  from run d have s: "status = EFI_SUCCESS" and m': "m' = store_bytes (store_bytes m mac d) p ?F" by simp_all
  have l: "length d = 6" using d by (auto simp: mac_for_def split: if_splits)
  then have F: "length ?F = 54" by (simp add: ip6_frame_def be_bytes16_def)
  show "status = EFI_SUCCESS" by (rule s)
  show "load_bytes m' p 54 = ?F" using F by (simp add: m' load_store_same)
  show "m' x = m x" if "x \<notin> region p 54" "x \<notin> region mac 6" for x
    using that F l by (simp add: m' store_outside)
qed

text \<open>A layout for the witnesses, and a memory that holds the addresses of a machine and its peer.\<close>

definition sample_layout :: net_layout where
  "sample_layout = \<lparr>ll_mac_addr = 0x1000, ip6_ll_addr = 0x1010, snm_mac_addr = 0x1040, ip6_snm_addr = 0x1050,
     remote_mac_addr = 0x1060, remote_ip6_addr = 0x1070, ip6_all_nodes = 0x1080, mcast_filters = 0x1100,
     efi_mac_addr_size = 32, mac_local = 0x2000, all_local = 0x2010, ack_local = 0x2020, reply_local = 0x2040,
     data_local = 0x8000, stale_var_size = 0, image_handle = 0x3700\<rparr>"

definition all_nodes :: "u8 list" where
  "all_nodes = [0xFF, 0x02, 0, 0, 0, 0, 0, 0, 0, 0, 0, 0, 0, 0, 0, 1]"

definition sample_net_mem :: mem where
  "sample_net_mem = store_bytes (store_bytes (\<lambda>_. 0) 0x1080 all_nodes) 0x3000 [2, 0x11, 0x22, 0x33, 0x44, 0x55]"

lemma sample_setup_sep: "setup_sep sample_layout 0x2000 0x5008 0x1080"
proof -
  have "apart [(0x1000, 6), (0x1010, 16), (0x1060, 6), (0x1080, 16), (0x2000, 6), (0x5008, 54)]"
    by (rule apart_ascending [of 0]) simp
  then show ?thesis by (simp add: setup_sep_def sample_layout_def)
qed

lemma sample_all_nodes: "load_bytes sample_net_mem 0x1080 16 = all_nodes"
proof -
  have "apart [(0x1080, 16), (0x3000, 6)]" by (rule apart_ascending [of 0]) simp
  then show ?thesis by (simp add: sample_net_mem_def load_past load_store_same all_nodes_def)
qed

lemma sample_mac_for: "mac_for sample_layout sample_net_mem 0x1080 = Some [0x33, 0x33, 0, 0, 0, 1]"
proof -
  have "sample_net_mem 0x1080 = 0xFF"
    using nth_load_bytes [of 0 16 sample_net_mem "0x1080"] by (simp add: sample_all_nodes all_nodes_def)
  moreover have "load_bytes sample_net_mem (0x1080 + 12) 4 = [0, 0, 0, 1]"
    using arg_cong [OF sample_all_nodes, of "drop 12"] by (simp add: drop_load_bytes all_nodes_def)
  ultimately show ?thesis by (simp add: mac_for_def)
qed

theorem net_ip6_packet_setup_header_witness:
  "load_bytes (snd (net_ip6_packet_setup sample_layout 0x2000 sample_net_mem 0x5008 0x1080 24 17)) 0x5008 6 =
     [0x33, 0x33, 0, 0, 0, 1]"
proof -
  let ?m' = "snd (net_ip6_packet_setup sample_layout 0x2000 sample_net_mem 0x5008 0x1080 24 17)"
  have "load_bytes ?m' 0x5008 54 = ip6_frame [0x33, 0x33, 0, 0, 0, 1] (load_bytes sample_net_mem (ll_mac_addr sample_layout) 6) 17 (ucast (24 :: u64))
      (load_bytes sample_net_mem (ip6_ll_addr sample_layout) 16) (load_bytes sample_net_mem 0x1080 16)"
    using net_ip6_packet_setup_header [OF sample_setup_sep, of sample_net_mem 24 17 _ ?m'] sample_mac_for by (metis prod.collapse)
  then have "take 6 (load_bytes ?m' 0x5008 54) = [0x33, 0x33, 0, 0, 0, 1]" by (simp only: ip6_frame_def) simp
  then show ?thesis by (simp add: take_load_bytes)
qed

text \<open>
  C30: \<^verbatim>\<open>net_ip6_init\<close> gives the loader its addresses: the interface's MAC address, the
  link-local address \<^verbatim>\<open>FE80\<close> with the EUI-64 identifier of that MAC address (bytes two
  to seven keep what they held), the solicited-node multicast address, and, when
  the interface has room for two filters, filters for the solicited-node and the
  all-nodes MAC addresses, in this order.
\<close>

theorem net_ip6_init_addresses:
  assumes sep: "init_sep L everyone mac" and nodes: "load_bytes (mem s) (ip6_all_nodes L) 16 = all_nodes"
    and count: "mcast_filter_count s = 0" and room: "2 \<le> MaxMCastFilterCount (SNP B) (fw s) (snp s)"
    and M: "M = load_bytes (mem s) mac 6"
  shows "\<exists>t. net_ip6_init B L everyone mac s = Inr ((), t) \<and>
     load_bytes (mem t) (ll_mac_addr L) 6 = M \<and>
     load_bytes (mem t) (ip6_ll_addr L) 16 = [0xFE, 0x80] @ load_bytes (mem s) (ip6_ll_addr L + 2) 6 @ eui64 M \<and>
     load_bytes (mem t) (ip6_snm_addr L) 16 = snm_addr M \<and>
     mcast_filter_count t = 2 \<and>
     load_bytes (mem t) (filter_slot L 0) 6 = [0x33, 0x33, 0xFF, M ! 3, M ! 4, M ! 5] \<and>
     load_bytes (mem t) (filter_slot L 1) 6 = [0x33, 0x33, 0, 0, 0, 1]"
proof -
  let ?I = "init_mem L everyone mac (mem s)"
  note I = init_mem_loads [OF sep, of "mem s", folded M]
  have disj: "apart [(mac, 6), (ll_mac_addr L, 6), (ip6_ll_addr L, 16), (ip6_snm_addr L, 16), (snm_mac_addr L, 6), (everyone, 6),
      (ip6_all_nodes L, 16), (mcast_filters L, filters_size L)]" and fok: "filters_ok L"
    using sep by (auto simp: init_sep_def)
  have slot: "region a n \<inter> region (filter_slot L k) 6 = {}"
    if "region a n \<inter> region (mcast_filters L) (filters_size L) = {}" "k < 8" for a n k
    using that filter_slot_inside [OF fok that(2)] by blast
  define m1 where "m1 = store_bytes ?I (filter_slot L 0) (load_bytes ?I (snm_mac_addr L) 6)"
  define m2 where "m2 = store_bytes m1 (filter_slot L 1) (load_bytes m1 everyone 6)"
  have run: "net_ip6_init B L everyone mac s = Inr ((), s\<lparr>mem := m2, mcast_filter_count := 2\<rparr>)"
  proof -
    have "filter_room B (s\<lparr>mem := ?I\<rparr>)" "filter_room B (s\<lparr>mem := m1, mcast_filter_count := 1\<rparr>)"
      using count room by (auto simp: filter_room_def word_le_nat_alt word_less_nat_alt)
    then show ?thesis
      using disj count
      by (simp add: ip6_init_run [OF sep] andthen_def add_mcast_filter_run [OF fok] flip: m1_def) (simp flip: m2_def)
  qed
  have keep: "load_bytes m2 a n = load_bytes ?I a n" if "region a n \<inter> region (mcast_filters L) (filters_size L) = {}" for a n
    using slot [OF that, of 0] slot [OF that, of 1] by (simp add: m2_def m1_def load_past)
  have "drop 12 (load_bytes (mem s) (ip6_all_nodes L) 16) = [0, 0, 0, 1]" by (simp add: nodes all_nodes_def)
  then have nodes12: "load_bytes (mem s) (ip6_all_nodes L + 12) 4 = [0, 0, 0, 1]" by (simp add: drop_load_bytes)
  have f1: "load_bytes m2 (filter_slot L 1) 6 = [0x33, 0x33, 0, 0, 0, 1]"
  proof -
    have "load_bytes m1 everyone 6 = load_bytes ?I everyone 6" using disj slot [of everyone 6 0] by (simp add: m1_def load_past)
    then show ?thesis by (simp add: m2_def load_store_same I(5) nodes12)
  qed
  have "load_bytes m2 (filter_slot L 0) 6 = load_bytes m1 (filter_slot L 0) 6"
    using filter_slots_apart [OF fok] by (simp add: m2_def load_past)
  then have f0: "load_bytes m2 (filter_slot L 0) 6 = [0x33, 0x33, 0xFF, M ! 3, M ! 4, M ! 5]"
    by (simp add: m1_def load_store_same I(4))
  show ?thesis using disj by (simp add: run keep I f0 f1)
qed

definition sample_net_machine :: "sample_state net_machine" where
  "sample_net_machine = \<lparr>mem = sample_net_mem, fw = sample_start, cr0 = 0, msr = (\<lambda>_. 0), eth_bufpool = 0,
     eth_bufpool_avail = 0, eth_buffer_phys = 0, mcast_filter_count = 0, snp = 0x3200\<rparr>"

lemma sample_init_sep: "init_sep sample_layout 0x2010 0x3000"
proof -
  have "apart [(0x1000, 6), (0x1010, 16), (0x1030, 6), (0x1040, 6), (0x1050, 16), (0x1080, 16), (0x1100, 256), (0x2010, 6), (0x3000, 6)]"
    by (rule apart_ascending [of 0]) simp
  then show ?thesis by (simp add: init_sep_def sample_layout_def filters_ok_def filters_size_def)
qed

theorem net_ip6_init_addresses_witness:
  "\<exists>t. net_ip6_init sample_env sample_layout 0x2010 0x3000 sample_net_machine = Inr ((), t) \<and>
     load_bytes (mem t) 0x1000 6 = [2, 0x11, 0x22, 0x33, 0x44, 0x55] \<and>
     load_bytes (mem t) 0x1050 16 = [0xFF, 2, 0, 0, 0, 0, 0, 0, 0, 0, 0, 1, 0xFF, 0x33, 0x44, 0x55]"
proof -
  have M: "[2, 0x11, 0x22, 0x33, 0x44, 0x55] = load_bytes (mem sample_net_machine) 0x3000 6"
    by (simp add: sample_net_machine_def sample_net_mem_def load_store_same)
  show ?thesis
    using net_ip6_init_addresses [OF sample_init_sep, of sample_net_machine sample_env, OF _ _ _ M]
    by (auto simp: sample_all_nodes sample_net_machine_def sample_layout_def sample_env_def sample_snp_def snm_addr_def)
qed

text \<open>
  \<^verbatim>\<open>net_ip6_ll_addr_from_mac\<close> does not clear the middle of the address it makes: bytes two to seven keep their
  content, and six bytes behind the address, at offsets 32 to 37, are set to zero
  instead.
\<close>

theorem net_ip6_ll_addr_clears_elsewhere:
  assumes "region mac 6 \<inter> region ip 16 = {}" and "region mac 6 \<inter> region (ip + 32) 6 = {}"
  shows "load_bytes (net_ip6_ll_addr_from_mac m ip mac) (ip + 2) 6 = load_bytes m (ip + 2) 6 \<and>
    load_bytes (net_ip6_ll_addr_from_mac m ip mac) (ip + 32) 6 = [0, 0, 0, 0, 0, 0]"
proof
  note dd = offsets_apart [of 0 2 2 6 ip] offsets_apart [of 2 6 8 8 ip] offsets_apart [of 2 6 32 6 ip]
    offsets_apart [of 0 2 32 6 ip] offsets_apart [of 8 8 32 6 ip]
  show "load_bytes (net_ip6_ll_addr_from_mac m ip mac) (ip + 2) 6 = load_bytes m (ip + 2) 6"
    using dd by (simp add: ll_addr_run [OF assms] load_past Int_commute load_store_disj_le [where k = 2] eui64_def)
  show "load_bytes (net_ip6_ll_addr_from_mac m ip mac) (ip + 32) 6 = [0, 0, 0, 0, 0, 0]"
    using dd by (simp add: ll_addr_run [OF assms] load_past Int_commute load_store_disj_le [where k = 2] load_store_same eui64_def)
      (simp add: numeral_eq_Suc)
qed

theorem net_ip6_ll_addr_clears_elsewhere_witness:
  "load_bytes (net_ip6_ll_addr_from_mac (\<lambda>_. 7) 0x1010 0x3000) 0x1030 6 = [0, 0, 0, 0, 0, 0]"
proof -
  have "apart [(0x1010, 16), (0x1030, 6), (0x3000, 6)]" by (rule apart_ascending [of 0]) simp
  then show ?thesis using net_ip6_ll_addr_clears_elsewhere [of "0x3000" "0x1010" "\<lambda>_. 7"] by simp
qed

end
