(* ===== verification/Transport.thy ===== *)
theory Transport
  imports Ip6
begin

text \<open>
  Sending: Ethernet frames (\<^verbatim>\<open>net_eth_send\<close> of \<^verbatim>\<open>net/eth.c\<close>), ICMPv6 messages
  (\<^verbatim>\<open>net_icmp6_send\<close> of \<^verbatim>\<open>net/icmp6.c\<close>) and UDP datagrams (\<^verbatim>\<open>net_udp6_send\<close> of
  \<^verbatim>\<open>net/udp6.c\<close>). A packet is built in a buffer of the pool; the buffer belongs to
  the interface once \<^verbatim>\<open>Transmit\<close> has accepted it, and goes back to the pool on
  every other path. The parameter \<open>mac\<close> is the address of the local of that name
  in \<^verbatim>\<open>net_ip6_packet_setup\<close>.
\<close>

section \<open>The code\<close>

definition UDP_HEADER_LEN :: u64 where "UDP_HEADER_LEN = 8"
definition IPPROTO_UDP :: u8 where "IPPROTO_UDP = 17"
definition IPPROTO_ICMP6 :: u8 where "IPPROTO_ICMP6 = 58"
definition ICMP6_MAX_LENGTH :: u64 where "ICMP6_MAX_LENGTH = ETH_MTU - ETH_HLEN - IP6_HEADER_LEN"

definition net_eth_send :: "'w env \<Rightarrow> addr \<Rightarrow> u64 \<Rightarrow> ('w, 'z, efi_status) net_run" where
  "net_eth_send B dat len =
     andthen (gets (\<lambda>s. (snp s, load_bytes (mem s) dat (unat len)))) (\<lambda>(i, bytes).
     andthen (fwcall (\<lambda>w. Transmit (SNP B) w i dat bytes)) (\<lambda>status.
     if EFI_ERROR B status
     then andthen (net_bufpool_return B dat) (\<lambda>_. ret EFI_DEVICE_ERROR)
     else ret EFI_SUCCESS))"

definition net_icmp6_send :: "'w env \<Rightarrow> net_layout \<Rightarrow> addr \<Rightarrow> addr \<Rightarrow> u64 \<Rightarrow> addr \<Rightarrow> ('w, 'z, efi_status) net_run" where
  "net_icmp6_send B L mac dat len daddr =
     andthen (net_bufpool_get ETH_MTU) (\<lambda>p.
     if p = 0 then ret EFI_ABORTED
     else
       let icmp = p + 54;
           fail = andthen (net_bufpool_return B p) (\<lambda>_. ret EFI_ABORTED)
       in
       if ICMP6_MAX_LENGTH < len
       then andthen (efi_printf B (''Internal error: ICMP write request is too long'' @ [CHR 0x0A]) []) (\<lambda>_. fail)
       else
         andthen (on_mem (\<lambda>m. net_ip6_packet_setup L mac m p daddr len IPPROTO_ICMP6)) (\<lambda>status.
         if status \<noteq> EFI_SUCCESS
         then andthen (efi_printf B (''Error: ip6_setup failed!'' @ [CHR 0x0A]) []) (\<lambda>_. fail)
         else
           andthen (set_mem (\<lambda>m. memcpy m icmp dat (unat len))) (\<lambda>_.
           andthen (set_mem (\<lambda>m. wr16 m (icmp + 2) (net_ip6_checksum m (p + 14) (ucast IPPROTO_ICMP6) len))) (\<lambda>_.
           net_eth_send B p (ETH_HLEN + IP6_HEADER_LEN + len)))))"

text \<open>The fields of a UDP header at 54: source port, destination port, length, checksum; the data at 62.\<close>

definition net_udp6_send ::
    "'w env \<Rightarrow> net_layout \<Rightarrow> addr \<Rightarrow> addr \<Rightarrow> u64 \<Rightarrow> addr \<Rightarrow> u16 \<Rightarrow> u16 \<Rightarrow> ('w, 'z, efi_status) net_run" where
  "net_udp6_send B L mac dat len a dest_port source_port =
     (let total = len + UDP_HEADER_LEN in
     andthen (net_bufpool_get ETH_MTU) (\<lambda>p.
     if p = 0 then ret EFI_ABORTED
     else
       andthen (on_mem (\<lambda>m. net_ip6_packet_setup L mac m p a total IPPROTO_UDP)) (\<lambda>status.
       if status \<noteq> EFI_SUCCESS
       then andthen (efi_printf B ''net_ip6_packet_setup failed'' []) (\<lambda>_.
            andthen (net_bufpool_return B p) (\<lambda>_. ret EFI_ABORTED))
       else
         andthen (set_mem (\<lambda>m. wr16 m (p + 54) (htons source_port))) (\<lambda>_.
         andthen (set_mem (\<lambda>m. wr16 m (p + 56) (htons dest_port))) (\<lambda>_.
         andthen (set_mem (\<lambda>m. wr16 m (p + 58) (htons (ucast total)))) (\<lambda>_.
         andthen (set_mem (\<lambda>m. wr16 m (p + 60) 0)) (\<lambda>_.
         andthen (set_mem (\<lambda>m. memcpy m (p + 62) dat (unat len))) (\<lambda>_.
         andthen (set_mem (\<lambda>m. wr16 m (p + 60) (net_ip6_checksum m (p + 14) (ucast IPPROTO_UDP) total))) (\<lambda>_.
         net_eth_send B p (ETH_HLEN + IP6_HEADER_LEN + total)))))))))) "

section \<open>Filling in a checksum\<close>

lemma checksum_fill:
  assumes F0: "length F0 = 54 + unat len" and len: "unat len \<le> 65536" and k: "k = 22 + 2 * j" "k + 2 \<le> length F0"
    and zero: "take 2 (drop k F0) = [0, 0]"
    and c: "c = net_ip6_checksum (store_bytes N p F0) (p + 14) typ len"
    and F: "F = take k F0 @ le_bytes 2 c @ drop (k + 2) F0"
  shows "wr16 (store_bytes N p F0) (p + of_nat k) c = store_bytes N p F"
    and "checksum_valid typ F" and "length F = length F0"
proof -
  let ?M = "store_bytes N p F0"
  show l: "length F = length F0" using k F0 by (simp add: F)
  show w: "wr16 ?M (p + of_nat k) c = store_bytes N p F"
    using k F0 len store_slice [of k "le_bytes 2 c" F0 N p] by (simp add: wr16_def F)
  have M: "load_bytes ?M p (length F0) = F0" using F0 len by (simp add: load_store_same)
  have "load_bytes ?M (p + of_nat k) 2 = take 2 (drop k (load_bytes ?M p (length F0)))"
  proof -
    have "min 2 (length F0 - k) = 2" using k by simp
    then show ?thesis by (simp only: drop_load_bytes take_load_bytes)
  qed
  then have "rd16 ?M (p + of_nat k) = 0" using zero by (simp only: M rd16_def) (simp add: le_word_def)
  moreover have "p + of_nat k = p + 14 + 8 + of_nat (2 * j)" by (simp add: k add.assoc)
  moreover have "2 * j + 2 \<le> 32 + unat len" using k F0 by simp
  ultimately have "net_ip6_checksum (wr16 ?M (p + of_nat k) c) (p + 14) typ len = 0"
    unfolding c using checksum_in_place [OF len] by blast
  then have "checksum_valid typ (load_bytes (store_bytes N p F) p (54 + unat len))"
    by (simp add: w ip6_checksum_valid [OF len])
  then show "checksum_valid typ F" using F0 l len by (simp add: load_store_same)
qed

section \<open>Where things lie\<close>

text \<open>The network code's globals, the local \<^verbatim>\<open>mac\<close> and the block of buffers lie apart.\<close>

definition net_apart :: "net_layout \<Rightarrow> addr \<Rightarrow> addr \<Rightarrow> bool" where
  "net_apart L mac phys \<longleftrightarrow>
     apart [(ll_mac_addr L, 6), (ip6_ll_addr L, 16), (ip6_snm_addr L, 16), (remote_mac_addr L, 6), (remote_ip6_addr L, 16),
            (ip6_all_nodes L, 16), (mac, 6), (phys, 8192)]"

text \<open>A run that is neither in the block nor in the local.\<close>

definition clear_of :: "addr \<Rightarrow> addr \<Rightarrow> addr \<Rightarrow> nat \<Rightarrow> bool" where
  "clear_of mac phys a n \<longleftrightarrow> region a n \<inter> region mac 6 = {} \<and> region a n \<inter> region phys 8192 = {}"

lemma net_apart_clear:
  assumes "net_apart L mac phys"
  shows "clear_of mac phys (ll_mac_addr L) 6" "clear_of mac phys (ip6_ll_addr L) 16" "clear_of mac phys (ip6_snm_addr L) 16"
    "clear_of mac phys (remote_mac_addr L) 6" "clear_of mac phys (remote_ip6_addr L) 16"
    "clear_of mac phys (ip6_all_nodes L) 16" and "region mac 6 \<inter> region phys 8192 = {}"
  using assms unfolding net_apart_def clear_of_def by simp_all

lemma buffer_in_block: "is_buffer phys b \<Longrightarrow> region b 2048 \<subseteq> region phys 8192"
proof -
  assume "is_buffer phys b"
  then obtain k where "k < 4" and b: "b = phys + of_nat (2048 * k)" by (auto simp: is_buffer_def buffer_def)
  then show ?thesis unfolding b by (intro subregion) simp
qed

lemma packet_in_buffer: "k + n \<le> 2040 \<Longrightarrow> region (b + 8 + of_nat k) n \<subseteq> region b 2048"
  using subregion [of "8 + k" n 2048 b] by (simp add: add.assoc)

lemma buffer_setup_sep:
  assumes ap: "net_apart L mac phys" and ok: "is_buffer phys b" and dst: "clear_of mac phys dst 16"
  shows "setup_sep L mac (b + 8) dst"
proof -
  have "region (b + 8) 54 \<subseteq> region phys 8192"
    using packet_in_buffer [of 0 54 b] buffer_in_block [OF ok] by simp
  then show ?thesis
    using net_apart_clear [OF ap] dst unfolding setup_sep_def clear_of_def by auto
qed

text \<open>
  What a send may change: the firmware, the pool's variables, and memory in \<open>A\<close>.
\<close>

definition net_frame :: "addr set \<Rightarrow> ('w, 'z) pool_machine_scheme \<Rightarrow> ('w, 'z) pool_machine_scheme \<Rightarrow> bool" where
  "net_frame A s s' \<longleftrightarrow>
     (\<exists>m w h n. s' = s\<lparr>mem := m, fw := w, eth_bufpool := h, eth_bufpool_avail := n\<rparr> \<and> (\<forall>x. x \<notin> A \<longrightarrow> m x = mem s x))"

lemma net_frame_refl [simp]: "net_frame A s s"
  by (auto simp: net_frame_def intro!: exI [of _ "mem s"] exI [of _ "fw s"] exI [of _ "eth_bufpool s"] exI [of _ "eth_bufpool_avail s"])

lemma net_frame_trans: "net_frame A s t \<Longrightarrow> net_frame A t u \<Longrightarrow> net_frame A s u"
  unfolding net_frame_def by (elim exE conjE) (auto intro!: exI)

lemma net_frame_mono: "net_frame A s t \<Longrightarrow> A \<subseteq> C \<Longrightarrow> net_frame C s t"
  unfolding net_frame_def by (elim ex_forward) auto

lemma net_frame_fw [simp]: "net_frame A s (s\<lparr>fw := w\<rparr>)"
  by (auto simp: net_frame_def intro!: exI [of _ "mem s"] exI [of _ w] exI [of _ "eth_bufpool s"] exI [of _ "eth_bufpool_avail s"])

lemma link_in_buffer: "region b 8 \<subseteq> region b 2048 \<union> C"
  using region_mono [of 8 2048 b] by auto

lemma net_frame_fields:
  assumes "net_frame A s s'"
  shows "eth_buffer_phys s' = eth_buffer_phys s" and "x \<notin> A \<Longrightarrow> mem s' x = mem s x"
    and "region a n \<inter> A = {} \<Longrightarrow> load_bytes (mem s') a n = load_bytes (mem s) a n"
  using assms by (auto simp: net_frame_def intro!: load_cong)

lemma net_frame_net:
  fixes s :: "('w, 'z) net_machine_scheme"
  assumes "net_frame A s s'"
  shows "snp s' = snp s" and "mcast_filter_count s' = mcast_filter_count s" and "net_machine.more s' = net_machine.more s"
  using assms by (auto simp: net_frame_def)

lemma get_frame: "net_bufpool_get sz s = Inr (p, s') \<Longrightarrow> (\<And>x. x \<notin> A \<Longrightarrow> mem s' x = mem s x) \<Longrightarrow> net_frame A s s'"
  by (auto simp: net_bufpool_get_def net_frame_def split: if_splits
      intro!: exI [of _ "mem s'"] exI [of _ "fw s'"] exI [of _ "eth_bufpool s'"] exI [of _ "eth_bufpool_avail s'"])

lemma return_frame:
  "net_bufpool_return B dat s = Inr (u, s') \<Longrightarrow> (\<And>x. x \<notin> A \<Longrightarrow> mem s' x = mem s x) \<Longrightarrow> net_frame A s s'"
  by (auto simp: net_bufpool_return_def net_frame_def efi_printf_def Let_def andthen_def split: if_splits sum.splits
      intro!: exI [of _ "mem s'"] exI [of _ "fw s'"] exI [of _ "eth_bufpool s'"] exI [of _ "eth_bufpool_avail s'"])

lemma pool_rep_write:
  assumes rep: "pool_rep s bs" and b: "is_buffer (eth_buffer_phys s) b" "b \<notin> set bs"
    and sep: "region mac 6 \<inter> region (eth_buffer_phys s) 8192 = {}"
    and same: "eth_buffer_phys s' = eth_buffer_phys s" "eth_bufpool s' = eth_bufpool s" "eth_bufpool_avail s' = eth_bufpool_avail s"
    and mem: "\<And>x. x \<notin> region b 2048 \<Longrightarrow> x \<notin> region mac 6 \<Longrightarrow> mem s' x = mem s x"
  shows "pool_rep s' bs"
proof -
  let ?phys = "eth_buffer_phys s"
  have "rd64 (mem s') c = rd64 (mem s) c" if c: "c \<in> set bs" for c
  proof (rule c64.rd_cong)
    fix x assume x: "x \<in> region c 8"
    have ok: "block_ok ?phys" "is_buffer ?phys c" "c \<noteq> b" using rep c b by (auto simp: pool_rep_def)
    have "x \<in> region c 2048" using x region_mono [of 8 2048 c] by auto
    then have "x \<notin> region b 2048" "x \<notin> region mac 6"
      using buffers_apart [OF ok(1,2) b(1) ok(3)] buffer_in_block [OF ok(2)] sep by blast+
    then show "mem s' x = mem s x" by (rule mem)
  qed
  moreover have "chain (mem s) (eth_bufpool s) bs" using rep by (simp add: pool_rep_def)
  ultimately have "chain (mem s') (eth_bufpool s) bs" using chain_cong by blast
  then show ?thesis using rep same by (simp add: pool_rep_def)
qed

section \<open>Sending a frame\<close>

text \<open>An accepted frame leaves with its buffer; a refused one gives the buffer back.\<close>

lemma eth_send_run:
  assumes rep: "pool_rep s bs" and b: "is_buffer (eth_buffer_phys s) b" "b \<notin> set bs"
    and tx: "Transmit (SNP B) (fw s) (snp s) (b + 8) (load_bytes (mem s) (b + 8) (unat len)) = (status, w)"
  shows "\<not> EFI_ERROR B status \<Longrightarrow> net_eth_send B (b + 8) len s = Inr (EFI_SUCCESS, s\<lparr>fw := w\<rparr>)"
    and "EFI_ERROR B status \<Longrightarrow> \<exists>s'. net_eth_send B (b + 8) len s = Inr (EFI_DEVICE_ERROR, s') \<and>
       pool_rep s' (b # bs) \<and> fw s' = w \<and> net_frame (region b 8) s s'"
proof -
  assume "\<not> EFI_ERROR B status"
  then show "net_eth_send B (b + 8) len s = Inr (EFI_SUCCESS, s\<lparr>fw := w\<rparr>)"
    using tx by (simp add: net_eth_send_def andthen_def fwcall_def)
next
  assume err: "EFI_ERROR B status"
  have rep1: "pool_rep (s\<lparr>fw := w\<rparr>) bs" using rep by (simp add: pool_rep_def)
  obtain s' where s': "net_bufpool_return B (b + 8) (s\<lparr>fw := w\<rparr>) = Inr ((), s')" "pool_rep s' (b # bs)" "fw s' = w"
      "\<And>x. x \<notin> region b 8 \<Longrightarrow> mem s' x = mem s x"
    using return_buffer [OF rep1 _ b(2), of 8 B] b(1) by auto
  have "net_frame (region b 8) (s\<lparr>fw := w\<rparr>) s'" using s'(4) by (intro return_frame [OF s'(1)]) simp
  with net_frame_fw have "net_frame (region b 8) s s'" by (rule net_frame_trans)
  then show "\<exists>s'. net_eth_send B (b + 8) len s = Inr (EFI_DEVICE_ERROR, s') \<and>
      pool_rep s' (b # bs) \<and> fw s' = w \<and> net_frame (region b 8) s s'"
    using s' err tx by (simp add: net_eth_send_def andthen_def fwcall_def)
qed

text \<open>
  A packet whose headers are in place: the buffer taken from the pool and filled
  with the headers, or with nothing when there is no way to the destination.
\<close>

definition fresh_packet ::
    "net_layout \<Rightarrow> addr \<Rightarrow> addr \<Rightarrow> addr \<Rightarrow> addr list \<Rightarrow> ('w, 'z) pool_machine_scheme \<Rightarrow> ('w, 'z) pool_machine_scheme \<Rightarrow> bool" where
  "fresh_packet L mac dst b bs s s0 \<longleftrightarrow>
     net_bufpool_get ETH_MTU s = Inr (b + 8, s0) \<and> pool_rep s0 bs \<and> is_buffer (eth_buffer_phys s) b \<and> b \<notin> set bs \<and>
     b + 8 \<noteq> 0 \<and> fw s0 = fw s \<and> net_frame (region b 8) s s0 \<and>
     (\<forall>len typ. net_ip6_packet_setup L mac (mem s0) (b + 8) dst len typ =
      (case mac_for L (mem s) dst of
         None \<Rightarrow> (EFI_NOT_FOUND, mem s0)
       | Some d \<Rightarrow> (EFI_SUCCESS, store_bytes (store_bytes (mem s0) mac d) (b + 8)
           (ip6_frame d (load_bytes (mem s) (ll_mac_addr L) 6) typ (ucast len) (load_bytes (mem s) (ip6_ll_addr L) 16)
              (load_bytes (mem s) dst 16)))))"

lemma fresh_packetD:
  assumes "fresh_packet L mac dst b bs s s0"
  shows "net_bufpool_get ETH_MTU s = Inr (b + 8, s0)" and "pool_rep s0 bs" and "is_buffer (eth_buffer_phys s) b" and "b \<notin> set bs"
    and "b + 8 \<noteq> 0" and "fw s0 = fw s" and "net_frame (region b 8) s s0"
    and "net_ip6_packet_setup L mac (mem s0) (b + 8) dst len typ =
      (case mac_for L (mem s) dst of
         None \<Rightarrow> (EFI_NOT_FOUND, mem s0)
       | Some d \<Rightarrow> (EFI_SUCCESS, store_bytes (store_bytes (mem s0) mac d) (b + 8)
           (ip6_frame d (load_bytes (mem s) (ll_mac_addr L) 6) typ (ucast len) (load_bytes (mem s) (ip6_ll_addr L) 16)
              (load_bytes (mem s) dst 16))))"
  using assms unfolding fresh_packet_def by blast+

lemma packet_started:
  fixes s :: "('w, 'z) pool_machine_scheme"
  assumes rep: "pool_rep s (b # bs)" and ap: "net_apart L mac (eth_buffer_phys s)" and dst: "clear_of mac (eth_buffer_phys s) dst 16"
  obtains s0 :: "('w, 'z) pool_machine_scheme" where "fresh_packet L mac dst b bs s s0"
proof -
  let ?phys = "eth_buffer_phys s"
  obtain s0 where get: "net_bufpool_get ETH_MTU s = Inr (b + 8, s0)" and rep0: "pool_rep s0 bs" and fw0: "fw s0 = fw s"
    and m0: "\<And>x. x \<notin> region b 8 \<Longrightarrow> mem s0 x = mem s x"
    using get_first [OF rep, of ETH_MTU] by auto
  have b: "block_ok ?phys" "is_buffer ?phys b" "b \<notin> set bs" using rep by (auto simp: pool_rep_def)
  have fr: "net_frame (region b 8) s s0" using get m0 by (rule get_frame)
  have ld: "load_bytes (mem s0) a n = load_bytes (mem s) a n" if "clear_of mac ?phys a n" for a n
    using that buffer_in_block [OF b(2)] region_mono [of 8 2048 b]
    by (intro net_frame_fields(3) [OF fr]) (auto simp: clear_of_def)
  note cl = net_apart_clear [OF ap]
  have mf: "mac_for L (mem s0) dst = mac_for L (mem s) dst" by (rule mac_for_cong) (simp_all add: ld dst cl)
  have sep: "setup_sep L mac (b + 8) dst" using ap b(2) dst by (rule buffer_setup_sep)
  have "b + 8 \<noteq> 0"
  proof -
    have "phys' \<le> b + of_nat 8" if "phys' = ?phys" for phys' using buffer_of_data(2) [OF b(1,2), of 8] that by simp
    moreover have "0 < ?phys" using b(1) by (simp add: block_ok_def word_neq_0_conv)
    ultimately show ?thesis by (metis of_nat_numeral word_le_0_iff not_less_iff_gr_or_eq)
  qed
  moreover note packet_setup_run [OF sep, of "mem s0", unfolded mf ld [OF cl(1)] ld [OF cl(2)] ld [OF dst]]
  ultimately show thesis using that [of s0] get rep0 b(2,3) fw0 fr unfolding fresh_packet_def by blast
qed

text \<open>A buffer taken and not used, with something printed in between, comes back.\<close>

lemma returned:
  fixes s0 :: "('w, 'z) pool_machine_scheme"
  assumes rep0: "pool_rep s0 bs" and b: "is_buffer (eth_buffer_phys s) b" "b \<notin> set bs" and fr0: "net_frame (region b 8) s s0"
  shows "\<exists>s'. net_bufpool_return B (b + 8) (s0\<lparr>fw := w\<rparr>) = Inr ((), s') \<and> pool_rep s' (b # bs) \<and>
     net_frame (region b 2048 \<union> region mac 6) s s'"
proof -
  have ph: "eth_buffer_phys s0 = eth_buffer_phys s" using fr0 by (rule net_frame_fields(1))
  have "pool_rep (s0\<lparr>fw := w\<rparr>) bs" using rep0 by (simp add: pool_rep_def)
  from return_buffer [OF this, of b 8 B] obtain s' where s': "net_bufpool_return B (b + 8) (s0\<lparr>fw := w\<rparr>) = Inr ((), s')"
      "pool_rep s' (b # bs)" "\<And>x. x \<notin> region b 8 \<Longrightarrow> mem s' x = mem s0 x"
    using b ph by auto
  have "net_frame (region b 8) (s0\<lparr>fw := w\<rparr>) s'" using s'(3) by (intro return_frame [OF s'(1)]) simp
  with net_frame_fw have "net_frame (region b 8) s0 s'" by (rule net_frame_trans)
  with fr0 have "net_frame (region b 8) s s'" by (rule net_frame_trans)
  then show ?thesis using s'(1,2) net_frame_mono [OF _ link_in_buffer] by blast
qed

text \<open>
  The outcome of a send. The buffer \<open>b\<close> is out when the frame was accepted and back
  on top of the free ones otherwise.
\<close>

definition sent_frame ::
    "'w env \<Rightarrow> addr \<Rightarrow> addr \<Rightarrow> addr list \<Rightarrow> u8 list \<Rightarrow> efi_status \<Rightarrow> ('w, 'z) net_machine_scheme \<Rightarrow> ('w, 'z) net_machine_scheme \<Rightarrow> bool" where
  "sent_frame B mac b bs F status s s' \<longleftrightarrow>
     net_frame (region b 2048 \<union> region mac 6) s s' \<and>
     (\<exists>answer. Transmit (SNP B) (fw s) (snp s) (b + 8) F = (answer, fw s') \<and>
        (if EFI_ERROR B answer then status = EFI_DEVICE_ERROR \<and> pool_rep s' (b # bs)
         else status = EFI_SUCCESS \<and> pool_rep s' bs))"

lemma eth_send_sent:
  assumes rep: "pool_rep s1 bs" and b: "is_buffer (eth_buffer_phys s1) b" "b \<notin> set bs" and fw1: "fw s1 = fw s"
    and fr: "net_frame (region b 2048 \<union> region mac 6) s s1" and F: "load_bytes (mem s1) (b + 8) (unat len) = F"
  shows "\<exists>status s'. net_eth_send B (b + 8) len s1 = Inr (status, s') \<and> sent_frame B mac b bs F status s s'"
proof -
  obtain answer w where tx: "Transmit (SNP B) (fw s1) (snp s1) (b + 8) (load_bytes (mem s1) (b + 8) (unat len)) = (answer, w)" by force
  have tx': "Transmit (SNP B) (fw s) (snp s) (b + 8) F = (answer, w)" using tx F fw1 net_frame_net(1) [OF fr] by simp
  note run = eth_send_run [OF rep b tx]
  show ?thesis
  proof (cases "EFI_ERROR B answer")
    case True
    obtain s' where s': "net_eth_send B (b + 8) len s1 = Inr (EFI_DEVICE_ERROR, s')" "pool_rep s' (b # bs)" "fw s' = w" "net_frame (region b 8) s1 s'"
      using run(2) [OF True] by blast
    have "net_frame (region b 2048 \<union> region mac 6) s1 s'" using s'(4) link_in_buffer by (rule net_frame_mono)
    then have "net_frame (region b 2048 \<union> region mac 6) s s'" using fr net_frame_trans by blast
    then show ?thesis using s' True tx' by (auto simp: sent_frame_def)
  next
    case False
    have "net_frame (region b 2048 \<union> region mac 6) s (s1\<lparr>fw := w\<rparr>)" using fr net_frame_fw by (rule net_frame_trans)
    moreover have "pool_rep (s1\<lparr>fw := w\<rparr>) bs" using rep by (simp add: pool_rep_def)
    ultimately show ?thesis using run(1) [OF False] False tx' by (auto simp: sent_frame_def)
  qed
qed

section \<open>UDP\<close>

definition udp_segment :: "u16 \<Rightarrow> u16 \<Rightarrow> u16 \<Rightarrow> u8 list \<Rightarrow> u8 list" where
  "udp_segment source_port dest_port chk dat =
     be_bytes16 source_port @ be_bytes16 dest_port @ be_bytes16 (of_nat (8 + length dat)) @ le_bytes 2 chk @ dat"

text \<open>A frame from one node to another, with a payload of the given protocol.\<close>

definition frame_to :: "net_layout \<Rightarrow> mem \<Rightarrow> addr \<Rightarrow> u8 list \<Rightarrow> u8 \<Rightarrow> u8 list \<Rightarrow> u8 list" where
  "frame_to L m dst d typ payload =
     ip6_frame d (load_bytes m (ll_mac_addr L) 6) typ (of_nat (length payload)) (load_bytes m (ip6_ll_addr L) 16) (load_bytes m dst 16)
     @ payload"

lemma length_be [simp]: "length (be_bytes16 v) = 2"
  by (simp add: be_bytes16_def)

lemma length_frame: "length d = 6 \<Longrightarrow> length src = 16 \<Longrightarrow> length dst = 16 \<Longrightarrow> length sm = 6 \<Longrightarrow> length (ip6_frame d sm typ len src dst) = 54"
  by (simp add: ip6_frame_def)

lemma mac_for_length: "mac_for L m dst = Some d \<Longrightarrow> length d = 6"
  by (auto simp: mac_for_def split: if_splits)


text \<open>The headers, the payload with a zero checksum, and the checksum filled in.\<close>

lemma udp_fill:
  assumes H: "length H = 54" and len: "unat len \<le> 1978" and sep: "region dat (unat len) \<inter> region p 2040 = {}"
    and D: "load_bytes N dat (unat len) = D"
  shows "\<exists>chk F. F = H @ udp_segment source_port dest_port chk D \<and> checksum_valid 17 F \<and>
     (let m = wr16 (store_bytes N p H) (p + 54) (htons source_port);
          m = wr16 m (p + 56) (htons dest_port);
          m = wr16 m (p + 58) (htons (ucast (len + 8)));
          m = wr16 m (p + 60) 0;
          m = memcpy m (p + 62) dat (unat len)
      in wr16 m (p + 60) (net_ip6_checksum m (p + 14) 17 (len + 8)) = store_bytes N p F)"
proof -
  have total: "unat (len + 8) = unat len + 8" using len unat_add_of_nat [of len 8] by simp
  have u: "(ucast (len + 8) :: u16) = of_nat (8 + unat len)" using total by (metis of_nat_unat add.commute)
  have le0: "le_bytes 2 (0 :: u16) = [0, 0]" by (simp add: numeral_2_eq_2)
  have lD: "length D = unat len" by (subst D [symmetric]) (rule length_load_bytes)
  define F0 where "F0 = H @ udp_segment source_port dest_port 0 D"
  have F0: "length F0 = 54 + unat (len + 8)" using H lD by (simp add: F0_def udp_segment_def total)
  have built: "memcpy (wr16 (wr16 (wr16 (wr16 (store_bytes N p H) (p + 54) (htons source_port)) (p + 56) (htons dest_port))
      (p + 58) (htons (ucast (len + 8)))) (p + 60) 0) (p + 62) dat (unat len) = store_bytes N p F0"
    using H len
    by (simp add: u wr16_def le_bytes_htons le0 store_next copy_next [OF sep] D F0_def udp_segment_def lD)
  define c where "c = net_ip6_checksum (store_bytes N p F0) (p + 14) 17 (len + 8)"
  define F where "F = take 60 F0 @ le_bytes 2 c @ drop 62 F0"
  have "take 2 (drop 60 F0) = [0, 0]" using H by (simp add: F0_def udp_segment_def le0)
  from checksum_fill [OF F0 _ _ _ this c_def] F0 total len
  have "wr16 (store_bytes N p F0) (p + of_nat 60) c = store_bytes N p F" and "checksum_valid 17 F"
    by (simp_all add: F_def)
  moreover have "F = H @ udp_segment source_port dest_port c D"
    using H by (simp add: F_def F0_def udp_segment_def le0)
  ultimately show ?thesis unfolding Let_def built by (auto simp: c_def)
qed

text \<open>What a packet written into the buffer taken leaves as it was.\<close>

lemma packet_written:
  fixes s0 :: "('w, 'z) pool_machine_scheme"
  assumes rep0: "pool_rep s0 bs" and b: "is_buffer (eth_buffer_phys s) b" "b \<notin> set bs" and fr0: "net_frame (region b 8) s s0"
    and sep: "region mac 6 \<inter> region (eth_buffer_phys s) 8192 = {}" and s1: "s1 = s0\<lparr>mem := m1\<rparr>"
    and out: "\<And>x. x \<notin> region (b + 8) 2040 \<Longrightarrow> x \<notin> region mac 6 \<Longrightarrow> m1 x = mem s0 x"
  shows "pool_rep s1 bs" and "net_frame (region b 2048 \<union> region mac 6) s s1" and "is_buffer (eth_buffer_phys s1) b"
proof -
  have in_b: "region (b + 8) 2040 \<subseteq> region b 2048" using packet_in_buffer [of 0 2040 b] by simp
  have m1: "mem s1 x = mem s0 x" if "x \<notin> region b 2048" "x \<notin> region mac 6" for x
    using that in_b out by (auto simp: s1)
  have ph: "eth_buffer_phys s0 = eth_buffer_phys s" using fr0 by (rule net_frame_fields(1))
  show "pool_rep s1 bs"
    using rep0 _ b(2) _ _ _ _ m1 by (rule pool_rep_write) (use b(1) ph sep in \<open>simp_all add: s1\<close>)
  show "net_frame (region b 2048 \<union> region mac 6) s s1"
  proof (rule net_frame_trans)
    show "net_frame (region b 2048 \<union> region mac 6) s s0"
      using fr0 link_in_buffer by (rule net_frame_mono)
    show "net_frame (region b 2048 \<union> region mac 6) s0 s1" using m1 unfolding net_frame_def
      by (auto simp: s1 intro!: exI [of _ "mem s1"] exI [of _ "fw s0"] exI [of _ "eth_bufpool s0"] exI [of _ "eth_bufpool_avail s0"])
  qed
  show "is_buffer (eth_buffer_phys s1) b" using b(1) ph by (simp add: s1)
qed

lemma written_outside:
  "length F \<le> 2040 \<Longrightarrow> length d = 6 \<Longrightarrow> x \<notin> region p 2040 \<Longrightarrow> x \<notin> region mac 6 \<Longrightarrow>
     store_bytes (store_bytes m mac d) p F x = m x"
  by (simp add: store_outside_le [where n = 2040] store_outside_le [where n = 6])

lemma clear_load:
  assumes "clear_of mac phys a n" and "is_buffer phys b" and "net_frame (region b 8) s s0" and "length d = 6"
  shows "load_bytes (store_bytes (mem s0) mac d) a n = load_bytes (mem s) a n" and "region a n \<inter> region (b + 8) 2040 = {}"
proof -
  have in_b: "region (b + 8) 2040 \<subseteq> region b 2048" using packet_in_buffer [of 0 2040 b] by simp
  have "region a n \<inter> region b 8 = {}" and "region a n \<inter> region mac 6 = {}" and "region a n \<inter> region (b + 8) 2040 = {}"
    using assms(1) buffer_in_block [OF assms(2)] region_mono [of 8 2048 b] in_b by (auto simp: clear_of_def)
  then show "load_bytes (store_bytes (mem s0) mac d) a n = load_bytes (mem s) a n" and "region a n \<inter> region (b + 8) 2040 = {}"
    using assms(4) net_frame_fields(3) [OF assms(3)] by (simp_all add: load_past)
qed

lemma udp6_send_sent:
  fixes s :: "('w, 'z) net_machine_scheme"
  assumes rep: "pool_rep s (b # bs)" and ap: "net_apart L mac (eth_buffer_phys s)" and dst: "clear_of mac (eth_buffer_phys s) dst 16"
    and dat: "clear_of mac (eth_buffer_phys s) dat (unat len)" and len: "unat len \<le> 1978" and d: "mac_for L (mem s) dst = Some d"
  shows "\<exists>chk F status s'. F = frame_to L (mem s) dst d IPPROTO_UDP (udp_segment source_port dest_port chk (load_bytes (mem s) dat (unat len))) \<and>
     checksum_valid 17 F \<and> net_udp6_send B L mac dat len dst dest_port source_port s = Inr (status, s') \<and>
     sent_frame B mac b bs F status s s'"
  using rep ap dst
proof (rule packet_started)
  let ?D = "load_bytes (mem s) dat (unat len)"
  fix s0 :: "('w, 'z) net_machine_scheme"
  assume "fresh_packet L mac dst b bs s s0"
  note fp = fresh_packetD [OF this]
  note get = fp(1) and rep0 = fp(2) and b = fp(3-5) and fw0 = fp(6) and fr0 = fp(7) and hdr = fp(8)
  have d6: "length d = 6" using d by (rule mac_for_length)
  define N where "N = store_bytes (mem s0) mac d"
  define H where "H = ip6_frame d (load_bytes (mem s) (ll_mac_addr L) 6) IPPROTO_UDP (ucast (len + 8)) (load_bytes (mem s) (ip6_ll_addr L) 16) (load_bytes (mem s) dst 16)"
  have H: "length H = 54" using d6 by (simp add: H_def length_frame)
  note D = clear_load [OF dat b(1) fr0 d6, folded N_def]
  obtain chk F where F: "F = H @ udp_segment source_port dest_port chk ?D" and val: "checksum_valid 17 F"
    and fill: "let m = wr16 (store_bytes N (b + 8) H) (b + 8 + 54) (htons source_port);
          m = wr16 m (b + 8 + 56) (htons dest_port);
          m = wr16 m (b + 8 + 58) (htons (ucast (len + 8)));
          m = wr16 m (b + 8 + 60) 0;
          m = memcpy m (b + 8 + 62) dat (unat len)
      in wr16 m (b + 8 + 60) (net_ip6_checksum m (b + 8 + 14) 17 (len + 8)) = store_bytes N (b + 8) F"
    using udp_fill [OF H len D(2,1)] by blast
  have total: "unat (len + 8) = unat len + 8" and all: "unat (62 + len) = length F"
    using len H unat_add_of_nat [of len 8] unat_add_of_nat [of 62 "unat len"] by (simp_all add: F udp_segment_def)
  then have "(ucast (len + 8) :: u16) = of_nat (8 + unat len)" by (metis of_nat_unat add.commute)
  then have FF: "F = frame_to L (mem s) dst d IPPROTO_UDP (udp_segment source_port dest_port chk ?D)"
    by (simp only: F H_def frame_to_def) (simp add: udp_segment_def)
  define s1 where "s1 = s0\<lparr>mem := store_bytes N (b + 8) F\<rparr>"
  have run: "net_udp6_send B L mac dat len dst dest_port source_port s = net_eth_send B (b + 8) (62 + len) s1"
    using get b(3) fill
    by (simp add: net_udp6_send_def Let_def andthen_Inr hdr d UDP_HEADER_LEN_def IPPROTO_UDP_def s1_def
        ETH_HLEN_def IP6_HEADER_LEN_def add.assoc flip: N_def H_def [unfolded IPPROTO_UDP_def])
  have short: "length F \<le> 2040" using H len by (simp add: F udp_segment_def)
  note written = packet_written [OF rep0 b(1,2) fr0 net_apart_clear(7) [OF ap] s1_def [unfolded N_def] written_outside [OF short d6]]
  have ld: "load_bytes (mem s1) (b + 8) (unat (62 + len)) = F" using short by (simp add: s1_def all load_store_same)
  have "fw s1 = fw s" using fw0 by (simp add: s1_def)
  from eth_send_sent [OF written(1,3) b(2) this written(2) ld, of B] show ?thesis using FF val run by auto
qed

text \<open>Without a way to the destination, or without a buffer, nothing is sent and nothing is lost.\<close>

lemma udp6_send_unresolved:
  fixes s :: "('w, 'z) net_machine_scheme"
  assumes rep: "pool_rep s (b # bs)" and ap: "net_apart L mac (eth_buffer_phys s)" and dst: "clear_of mac (eth_buffer_phys s) dst 16"
    and d: "mac_for L (mem s) dst = None"
  shows "\<exists>s'. net_udp6_send B L mac dat len dst dest_port source_port s = Inr (EFI_ABORTED, s') \<and> pool_rep s' (b # bs) \<and>
     net_frame (region b 2048 \<union> region mac 6) s s'"
  using rep ap dst
proof (rule packet_started)
  fix s0 :: "('w, 'z) net_machine_scheme"
  assume "fresh_packet L mac dst b bs s s0"
  note fp = fresh_packetD [OF this]
  note get = fp(1) and rep0 = fp(2) and b = fp(3-5) and fw0 = fp(6) and fr0 = fp(7) and hdr = fp(8)
  let ?s1 = "s0\<lparr>fw := say (callback B) [''net_ip6_packet_setup failed''] (fw s0)\<rparr>"
  obtain s' where "net_bufpool_return B (b + 8) ?s1 = Inr ((), s')" and "pool_rep s' (b # bs)"
      and "net_frame (region b 2048 \<union> region mac 6) s s'"
    using returned [OF rep0 b(1,2) fr0] by blast
  then show ?thesis
    using get b(3) by (auto simp: net_udp6_send_def Let_def andthen_Inr hdr d efi_printf_plain)
qed

text \<open>Data of any length is copied behind the header; what is behind the buffer is overwritten.\<close>

lemma eth_send_returns:
  assumes "dat AND buf_mask = b"
  shows "\<exists>status s'. net_eth_send B dat len s = Inr (status, s') \<and> (\<forall>x. x \<notin> region b 8 \<longrightarrow> mem s' x = mem s x)"
  using assms by (simp add: net_eth_send_def net_bufpool_return_def andthen_def fwcall_def efi_printf_plain Let_def c64.wr_outside split: prod.split)

lemma udp_data_copied:
  fixes m :: mem
  assumes same: "\<And>x. x \<in> region dat n \<Longrightarrow> m x = m0 x" and sep: "region dat n \<inter> region (p + 62) n = {}" and n: "n \<le> 2 ^ 32" and i: "i < n"
  shows "wr16 (memcpy m (p + 62) dat n) (p + 60) c (p + 62 + of_nat i) = m0 (dat + of_nat i)"
proof -
  have "region (p + of_nat 60) 2 \<inter> region (p + of_nat 62) n = {}" using n by (intro offsets_apart) simp_all
  then have "p + 62 + of_nat i \<notin> region (p + 60) 2" using in_region [OF i, of "p + 62"] by auto
  then have "wr16 (memcpy m (p + 62) dat n) (p + 60) c (p + 62 + of_nat i) = memcpy m (p + 62) dat n (p + 62 + of_nat i)" by (rule c16.wr_outside)
  also have "\<dots> = store_bytes m (p + 62) (load_bytes m dat n) (p + 62 + of_nat i)" using sep n by (subst memcpy_store) simp_all
  also have "\<dots> = m (dat + of_nat i)" using i n by (subst store_inside) simp_all
  also have "\<dots> = m0 (dat + of_nat i)" using in_region [OF i, of dat] by (rule same)
  finally show ?thesis .
qed

lemma udp6_send_long:
  fixes s :: "('w, 'z) net_machine_scheme"
  assumes rep: "pool_rep s (b # bs)" and ap: "net_apart L mac (eth_buffer_phys s)" and dst: "clear_of mac (eth_buffer_phys s) dst 16"
    and dat: "clear_of mac (eth_buffer_phys s) dat (unat len)" and sep: "region dat (unat len) \<inter> region (b + 70) (unat len) = {}"
    and len: "unat len \<le> 2 ^ 32" and i: "i < unat len" and d: "mac_for L (mem s) dst = Some d"
  shows "\<exists>status s'. net_udp6_send B L mac dat len dst dest_port source_port s = Inr (status, s') \<and>
     mem s' (b + 70 + of_nat i) = mem s (dat + of_nat i)"
  using rep ap dst
proof (rule packet_started)
  fix s0 :: "('w, 'z) net_machine_scheme"
  assume "fresh_packet L mac dst b bs s s0"
  note fp = fresh_packetD [OF this]
  note get = fp(1) and b = fp(3-5) and fr0 = fp(7) and hdr = fp(8)
  have d6: "length d = 6" using d by (rule mac_for_length)
  define H where "H = ip6_frame d (load_bytes (mem s) (ll_mac_addr L) 6) IPPROTO_UDP (ucast (len + UDP_HEADER_LEN)) (load_bytes (mem s) (ip6_ll_addr L) 16) (load_bytes (mem s) dst 16)"
  have H: "length H = 54" using d6 by (simp add: H_def length_frame)
  let ?p = "b + 8"
  define m where "m = wr16 (wr16 (wr16 (wr16 (store_bytes (store_bytes (mem s0) mac d) ?p H) (?p + 54) (htons source_port)) (?p + 56) (htons dest_port))
      (?p + 58) (htons (ucast (len + UDP_HEADER_LEN)))) (?p + 60) 0"
  have parts: "region (?p + 54) 2 \<subseteq> region b 2048" "region (?p + 56) 2 \<subseteq> region b 2048" "region (?p + 58) 2 \<subseteq> region b 2048"
      "region (?p + 60) 2 \<subseteq> region b 2048" "region ?p 54 \<subseteq> region b 2048"
    using packet_in_buffer [of 54 2 b] packet_in_buffer [of 56 2 b] packet_in_buffer [of 58 2 b] packet_in_buffer [of 60 2 b] packet_in_buffer [of 0 54 b] by simp_all
  have same: "m x = mem s x" if "x \<in> region dat (unat len)" for x
  proof -
    have x: "x \<notin> region b 2048" "x \<notin> region mac 6" using that dat buffer_in_block [OF b(1)] by (auto simp: clear_of_def)
    then have "m x = store_bytes (store_bytes (mem s0) mac d) ?p H x" using parts unfolding m_def by (subst c16.wr_outside, blast)+ (rule refl)
    also have "\<dots> = mem s0 x" using x parts(5) H d6 by (subst store_outside, force)+ simp
    also have "\<dots> = mem s x" using x region_mono [of 8 2048 b] by (intro net_frame_fields(2) [OF fr0]) auto
    finally show ?thesis .
  qed
  let ?m1 = "memcpy m (?p + 62) dat (unat len)"
  let ?m2 = "wr16 ?m1 (?p + 60) (net_ip6_checksum ?m1 (?p + 14) (ucast IPPROTO_UDP) (len + UDP_HEADER_LEN))"
  have run: "net_udp6_send B L mac dat len dst dest_port source_port s = net_eth_send B ?p (ETH_HLEN + IP6_HEADER_LEN + (len + UDP_HEADER_LEN)) (s0\<lparr>mem := ?m2\<rparr>)"
    using get b(3) by (simp add: net_udp6_send_def Let_def andthen_Inr hdr d m_def H_def)
  have "block_ok (eth_buffer_phys s)" using rep by (simp add: pool_rep_def)
  from buffer_of_data(1) [OF this b(1), of 8] have "?p AND buf_mask = b" by simp
  from eth_send_returns [OF this] obtain status s' where
    s': "net_udp6_send B L mac dat len dst dest_port source_port s = Inr (status, s')" "\<And>x. x \<notin> region b 8 \<Longrightarrow> mem s' x = ?m2 x"
    unfolding run by fastforce
  have "region (b + of_nat 0) 8 \<inter> region (b + of_nat 70) (unat len) = {}" using len by (intro offsets_apart) simp_all
  then have out: "b + 70 + of_nat i \<notin> region b 8" using in_region [OF i, of "b + 70"] by auto
  have p: "?p + 62 = b + 70" by simp
  have got: "?m2 (?p + 62 + of_nat i) = mem s (dat + of_nat i)" by (rule udp_data_copied [OF same _ len i], assumption) (unfold p, rule sep)
  have "mem s' (b + 70 + of_nat i) = mem s (dat + of_nat i)" using s'(2) [OF out] got unfolding p by (rule trans)
  then show ?thesis using s'(1) by blast
qed

section \<open>ICMP\<close>

text \<open>A message whose checksum field was zero, with the checksum filled in.\<close>

definition icmp_message :: "u16 \<Rightarrow> u8 list \<Rightarrow> u8 list" where
  "icmp_message chk dat = take 2 dat @ le_bytes 2 chk @ drop 4 dat"

lemma icmp_fill:
  assumes H: "length H = 54" and len: "4 \<le> unat len" "unat len \<le> 1460" and sep: "region dat (unat len) \<inter> region p 2040 = {}"
    and D: "load_bytes N dat (unat len) = D"
  shows "\<exists>chk F. F = H @ icmp_message chk D \<and> (take 2 (drop 2 D) = [0, 0] \<longrightarrow> checksum_valid 58 F) \<and>
     (let m = memcpy (store_bytes N p H) (p + 54) dat (unat len)
      in wr16 m (p + 54 + 2) (net_ip6_checksum m (p + 14) 58 len) = store_bytes N p F)"
proof -
  have lD: "length D = unat len" by (subst D [symmetric]) (rule length_load_bytes)
  define F0 where "F0 = H @ D"
  have F0: "length F0 = 54 + unat len" using H lD by (simp add: F0_def)
  have built: "memcpy (store_bytes N p H) (p + 54) dat (unat len) = store_bytes N p F0"
    using H len by (simp add: copy_next [OF sep] D F0_def)
  define c where "c = net_ip6_checksum (store_bytes N p F0) (p + 14) 58 len"
  define F where "F = take 56 F0 @ le_bytes 2 c @ drop 58 F0"
  have "wr16 (store_bytes N p F0) (p + of_nat 56) c = store_bytes N p F"
    using F0 len store_slice [of 56 "le_bytes 2 c" F0 N p] by (simp add: wr16_def F_def)
  then have "wr16 (store_bytes N p F0) (p + 54 + 2) c = store_bytes N p F" by (simp add: add.assoc)
  moreover have "checksum_valid 58 F" if "take 2 (drop 2 D) = [0, 0]"
  proof -
    have "take 2 (drop 56 F0) = [0, 0]" using that H by (simp add: F0_def)
    from checksum_fill(2) [OF F0 _ _ _ this c_def] F0 len show ?thesis by (simp add: F_def)
  qed
  moreover have "F = H @ icmp_message c D" using H by (simp add: F_def F0_def icmp_message_def)
  ultimately show ?thesis unfolding Let_def built by (auto simp: c_def)
qed

lemma icmp6_send_sent:
  fixes s :: "('w, 'z) net_machine_scheme"
  assumes rep: "pool_rep s (b # bs)" and ap: "net_apart L mac (eth_buffer_phys s)" and dst: "clear_of mac (eth_buffer_phys s) dst 16"
    and dat: "clear_of mac (eth_buffer_phys s) dat (unat len)" and len: "4 \<le> unat len" "unat len \<le> 1460" and d: "mac_for L (mem s) dst = Some d"
  shows "\<exists>chk F status s'. F = frame_to L (mem s) dst d IPPROTO_ICMP6 (icmp_message chk (load_bytes (mem s) dat (unat len))) \<and>
     (take 2 (drop 2 (load_bytes (mem s) dat (unat len))) = [0, 0] \<longrightarrow> checksum_valid 58 F) \<and>
     net_icmp6_send B L mac dat len dst s = Inr (status, s') \<and> sent_frame B mac b bs F status s s'"
  using rep ap dst
proof (rule packet_started)
  let ?D = "load_bytes (mem s) dat (unat len)"
  fix s0 :: "('w, 'z) net_machine_scheme"
  assume "fresh_packet L mac dst b bs s s0"
  note fp = fresh_packetD [OF this]
  note get = fp(1) and rep0 = fp(2) and b = fp(3-5) and fw0 = fp(6) and fr0 = fp(7) and hdr = fp(8)
  have d6: "length d = 6" using d by (rule mac_for_length)
  define N where "N = store_bytes (mem s0) mac d"
  define H where "H = ip6_frame d (load_bytes (mem s) (ll_mac_addr L) 6) IPPROTO_ICMP6 (ucast len) (load_bytes (mem s) (ip6_ll_addr L) 16) (load_bytes (mem s) dst 16)"
  have H: "length H = 54" using d6 by (simp add: H_def length_frame)
  note D = clear_load [OF dat b(1) fr0 d6, folded N_def]
  obtain chk F where F: "F = H @ icmp_message chk ?D" and val: "take 2 (drop 2 ?D) = [0, 0] \<longrightarrow> checksum_valid 58 F"
    and fill: "let m = memcpy (store_bytes N (b + 8) H) (b + 8 + 54) dat (unat len)
      in wr16 m (b + 8 + 54 + 2) (net_ip6_checksum m (b + 8 + 14) 58 len) = store_bytes N (b + 8) F"
    using icmp_fill [OF H len D(2,1)] by blast
  have lm: "length (icmp_message chk ?D) = unat len" using len by (simp add: icmp_message_def)
  have all: "unat (54 + len) = length F" using len H lm unat_add_of_nat [of 54 "unat len"] by (simp add: F)
  have FF: "F = frame_to L (mem s) dst d IPPROTO_ICMP6 (icmp_message chk ?D)" using lm by (simp add: F H_def frame_to_def)
  define s1 where "s1 = s0\<lparr>mem := store_bytes N (b + 8) F\<rparr>"
  have "\<not> ICMP6_MAX_LENGTH < len"
    using len by (simp add: ICMP6_MAX_LENGTH_def ETH_MTU_def ETH_HLEN_def IP6_HEADER_LEN_def word_less_nat_alt)
  then have run: "net_icmp6_send B L mac dat len dst s = net_eth_send B (b + 8) (54 + len) s1"
    using get b(3) fill
    by (simp add: net_icmp6_send_def Let_def andthen_Inr hdr d IPPROTO_ICMP6_def s1_def
        ETH_HLEN_def IP6_HEADER_LEN_def add.assoc flip: N_def H_def [unfolded IPPROTO_ICMP6_def])
  have short: "length F \<le> 2040" using H len lm by (simp add: F)
  note written = packet_written [OF rep0 b(1,2) fr0 net_apart_clear(7) [OF ap] s1_def [unfolded N_def] written_outside [OF short d6]]
  have ld: "load_bytes (mem s1) (b + 8) (unat (54 + len)) = F" using short by (simp add: s1_def all load_store_same)
  have "fw s1 = fw s" using fw0 by (simp add: s1_def)
  from eth_send_sent [OF written(1,3) b(2) this written(2) ld, of B] show ?thesis using FF val run by auto
qed

text \<open>
  A message of fewer than four bytes: the checksum is written behind it, still
  inside the buffer.
\<close>

lemma icmp6_send_short:
  fixes s :: "('w, 'z) net_machine_scheme"
  assumes rep: "pool_rep s (b # bs)" and ap: "net_apart L mac (eth_buffer_phys s)" and dst: "clear_of mac (eth_buffer_phys s) dst 16"
    and dat: "clear_of mac (eth_buffer_phys s) dat (unat len)" and len: "unat len < 4" and d: "mac_for L (mem s) dst = Some d"
  shows "\<exists>F status s'. net_icmp6_send B L mac dat len dst s = Inr (status, s') \<and> sent_frame B mac b bs F status s s'"
  using rep ap dst
proof (rule packet_started)
  fix s0 :: "('w, 'z) net_machine_scheme"
  assume "fresh_packet L mac dst b bs s s0"
  note fp = fresh_packetD [OF this]
  note get = fp(1) and rep0 = fp(2) and b = fp(3-5) and fw0 = fp(6) and fr0 = fp(7) and hdr = fp(8)
  have d6: "length d = 6" using d by (rule mac_for_length)
  define N where "N = store_bytes (mem s0) mac d"
  define H where "H = ip6_frame d (load_bytes (mem s) (ll_mac_addr L) 6) IPPROTO_ICMP6 (ucast len) (load_bytes (mem s) (ip6_ll_addr L) 16) (load_bytes (mem s) dst 16)"
  have H: "length H = 54" using d6 by (simp add: H_def length_frame)
  note D = clear_load [OF dat b(1) fr0 d6, folded N_def]
  define F where "F = H @ load_bytes N dat (unat len)"
  have built: "memcpy (store_bytes N (b + 8) H) (b + 8 + 54) dat (unat len) = store_bytes N (b + 8) F"
    using H len by (simp add: copy_next [OF D(2)] F_def)
  define m1 where "m1 = wr16 (store_bytes N (b + 8) F) (b + 8 + 54 + 2) (net_ip6_checksum (store_bytes N (b + 8) F) (b + 8 + 14) 58 len)"
  define s1 where "s1 = s0\<lparr>mem := m1\<rparr>"
  have "\<not> ICMP6_MAX_LENGTH < len"
    using len by (simp add: ICMP6_MAX_LENGTH_def ETH_MTU_def ETH_HLEN_def IP6_HEADER_LEN_def word_less_nat_alt)
  then have run: "net_icmp6_send B L mac dat len dst s = net_eth_send B (b + 8) (54 + len) s1"
    using get b(3) built
    by (simp add: net_icmp6_send_def Let_def andthen_Inr hdr d IPPROTO_ICMP6_def s1_def m1_def
        ETH_HLEN_def IP6_HEADER_LEN_def add.assoc flip: N_def H_def [unfolded IPPROTO_ICMP6_def])
  have "length F \<le> 2040" using H len by (simp add: F_def)
  note out = written_outside [OF this d6, of _ "b + 8" mac "mem s0", folded N_def]
  have "region (b + 8 + of_nat 56) 2 \<subseteq> region (b + 8) 2040" by (rule subregion) simp
  then have "m1 x = mem s0 x" if "x \<notin> region (b + 8) 2040" "x \<notin> region mac 6" for x
    using that out [OF that] unfolding m1_def by (subst c16.wr_outside) (auto simp: add.assoc)
  note written = packet_written [OF rep0 b(1,2) fr0 net_apart_clear(7) [OF ap] s1_def this]
  have "fw s1 = fw s" using fw0 by (simp add: s1_def)
  from eth_send_sent [OF written(1,3) b(2) this written(2) refl, of B "54 + len"] show ?thesis using run by auto
qed

lemma icmp6_send_refused:
  fixes s :: "('w, 'z) net_machine_scheme"
  assumes rep: "pool_rep s (b # bs)" and ap: "net_apart L mac (eth_buffer_phys s)" and dst: "clear_of mac (eth_buffer_phys s) dst 16"
    and no: "mac_for L (mem s) dst = None \<or> 1460 < unat len"
  shows "\<exists>s'. net_icmp6_send B L mac dat len dst s = Inr (EFI_ABORTED, s') \<and> pool_rep s' (b # bs) \<and>
     net_frame (region b 2048 \<union> region mac 6) s s'"
  using rep ap dst
proof (rule packet_started)
  fix s0 :: "('w, 'z) net_machine_scheme"
  assume "fresh_packet L mac dst b bs s s0"
  note fp = fresh_packetD [OF this]
  note get = fp(1) and rep0 = fp(2) and b = fp(3-5) and fr0 = fp(7) and hdr = fp(8)
  have gone_back: "\<exists>s'. net_bufpool_return B (b + 8) (s0\<lparr>fw := w\<rparr>) = Inr ((), s') \<and> pool_rep s' (b # bs) \<and>
      net_frame (region b 2048 \<union> region mac 6) s s'" for w
    using rep0 b(1,2) fr0 by (rule returned)
  have lim: "ICMP6_MAX_LENGTH < len \<longleftrightarrow> 1460 < unat len"
    by (simp add: ICMP6_MAX_LENGTH_def ETH_MTU_def ETH_HLEN_def IP6_HEADER_LEN_def word_less_nat_alt)
  show ?thesis
  proof (cases "1460 < unat len")
    case True
    with get b(3) gone_back [of "say (callback B) [''Internal error: ICMP write request is too long'' @ [CHR 0x0A]] (fw s0)"] lim
    show ?thesis by (auto simp: net_icmp6_send_def Let_def andthen_Inr efi_printf_plain)
  next
    case False
    with get b(3) no gone_back [of "say (callback B) [''Error: ip6_setup failed!'' @ [CHR 0x0A]] (fw s0)"] lim
    show ?thesis by (auto simp: net_icmp6_send_def Let_def andthen_Inr efi_printf_plain hdr)
  qed
qed

section \<open>Every send returns\<close>

text \<open>
  The result of a send on any path: a buffer is gone from the pool exactly when
  the send succeeded, and memory outside the block and the local is as before.
\<close>

definition send_result :: "addr \<Rightarrow> addr list \<Rightarrow> efi_status \<Rightarrow> ('w, 'z) pool_machine_scheme \<Rightarrow> ('w, 'z) pool_machine_scheme \<Rightarrow> bool" where
  "send_result mac bs status s s' \<longleftrightarrow>
     net_frame (region (eth_buffer_phys s) 8192 \<union> region mac 6) s s' \<and>
     pool_rep s' (if status = EFI_SUCCESS then tl bs else bs)"

lemma send_resultI:
  assumes rep: "pool_rep s (b # bs)" and fr: "net_frame (region b 2048 \<union> region mac 6) s s'"
    and rep': "pool_rep s' (if status = EFI_SUCCESS then bs else b # bs)"
  shows "send_result mac (b # bs) status s s'"
proof -
  have "region b 2048 \<subseteq> region (eth_buffer_phys s) 8192" using rep by (intro buffer_in_block) (simp add: pool_rep_def)
  then have "net_frame (region (eth_buffer_phys s) 8192 \<union> region mac 6) s s'" using fr by (elim net_frame_mono) auto
  then show ?thesis using rep' by (simp add: send_result_def split: if_splits)
qed

lemma sent_result: "pool_rep s (b # bs) \<Longrightarrow> sent_frame B mac b bs F status s s' \<Longrightarrow> send_result mac (b # bs) status s s'"
  by (rule send_resultI) (auto simp: sent_frame_def split: if_splits)

lemma send_without_buffer:
  assumes "pool_rep s []"
  shows "net_udp6_send B L mac dat len dst dest_port source_port s = Inr (EFI_ABORTED, s)"
    and "net_icmp6_send B L mac dat len dst s = Inr (EFI_ABORTED, s)"
  using assms get_empty [of s ETH_MTU] by (simp_all add: net_udp6_send_def net_icmp6_send_def Let_def andthen_Inr)

lemma udp6_send_total:
  assumes rep: "pool_rep s bs" and ap: "net_apart L mac (eth_buffer_phys s)" and dst: "clear_of mac (eth_buffer_phys s) dst 16"
    and dat: "clear_of mac (eth_buffer_phys s) dat (unat len)" and len: "unat len \<le> 1978"
  shows "\<exists>status s'. net_udp6_send B L mac dat len dst dest_port source_port s = Inr (status, s') \<and> send_result mac bs status s s'"
proof (cases bs)
  case Nil
  then have "send_result mac bs EFI_ABORTED s s" using rep by (simp add: send_result_def)
  then show ?thesis using send_without_buffer [OF rep [unfolded Nil]] by blast
next
  case (Cons b rest)
  note rep' = rep [unfolded Cons]
  show ?thesis
  proof (cases "mac_for L (mem s) dst")
    case None
    from udp6_send_unresolved [OF rep' ap dst this, of B dat len dest_port source_port]
    show ?thesis using send_resultI [OF rep', of mac _ EFI_ABORTED] unfolding Cons by auto
  next
    case (Some d)
    from udp6_send_sent [OF rep' ap dst dat len this, of source_port dest_port B]
    show ?thesis using sent_result [OF rep'] unfolding Cons by blast
  qed
qed

lemma icmp6_send_total:
  assumes rep: "pool_rep s bs" and ap: "net_apart L mac (eth_buffer_phys s)" and dst: "clear_of mac (eth_buffer_phys s) dst 16"
    and dat: "clear_of mac (eth_buffer_phys s) dat (unat len)"
  shows "\<exists>status s'. net_icmp6_send B L mac dat len dst s = Inr (status, s') \<and> send_result mac bs status s s'"
proof (cases bs)
  case Nil
  then have "send_result mac bs EFI_ABORTED s s" using rep by (simp add: send_result_def)
  then show ?thesis using send_without_buffer [OF rep [unfolded Nil]] by blast
next
  case (Cons b rest)
  note rep' = rep [unfolded Cons]
  consider (no) "mac_for L (mem s) dst = None \<or> 1460 < unat len" | (short) d where "mac_for L (mem s) dst = Some d" "unat len < 4"
    | (ok) d where "mac_for L (mem s) dst = Some d" "4 \<le> unat len" "unat len \<le> 1460"
    by (cases "mac_for L (mem s) dst"; cases "unat len < 4"; cases "1460 < unat len") auto
  then show ?thesis
  proof cases
    case no
    from icmp6_send_refused [OF rep' ap dst no, of B dat]
    show ?thesis using send_resultI [OF rep', of mac _ EFI_ABORTED] unfolding Cons by auto
  next
    case short
    from icmp6_send_short [OF rep' ap dst dat short(2,1), of B]
    show ?thesis using sent_result [OF rep'] unfolding Cons by blast
  next
    case ok
    from icmp6_send_sent [OF rep' ap dst dat ok(2,3,1), of B]
    show ?thesis using sent_result [OF rep'] unfolding Cons by blast
  qed
qed

section \<open>What a send keeps\<close>

lemma keeps_efi_printf [keeps_intros]: "(\<And>s w. Q s \<Longrightarrow> Q (s\<lparr>fw := w\<rparr>)) \<Longrightarrow> keeps Q (efi_printf B format args)"
  by (rule keepsI) (auto simp: efi_printf_def split: sum.splits)

lemma keeps_net_bufpool_get [keeps_intros]:
  "(\<And>s m h n. Q s \<Longrightarrow> Q (s\<lparr>mem := m, eth_bufpool := h, eth_bufpool_avail := n\<rparr>)) \<Longrightarrow> keeps Q (net_bufpool_get sz)"
proof (rule keepsI)
  fix s x t assume Q: "\<And>s m h n. Q s \<Longrightarrow> Q (s\<lparr>mem := m, eth_bufpool := h, eth_bufpool_avail := n\<rparr>)"
    and run: "net_bufpool_get sz s = Inr (x, t)" and "Q s"
  have "t = s \<or> (\<exists>m h n. t = s\<lparr>mem := m, eth_bufpool := h, eth_bufpool_avail := n\<rparr>)"
    using run by (auto simp: net_bufpool_get_def split: if_splits
      intro!: exI [of _ "mem t"] exI [of _ "eth_bufpool t"] exI [of _ "eth_bufpool_avail t"])
  then show "Q t" using Q \<open>Q s\<close> by auto
qed

text \<open>A property of the firmware that output and transmission do not disturb.\<close>

definition io_closed :: "'w env \<Rightarrow> ('w \<Rightarrow> bool) \<Rightarrow> bool" where
  "io_closed B P \<longleftrightarrow> (\<forall>w us. P w \<longrightarrow> P (snd (OutputString B w us))) \<and>
     (\<forall>w i a bs. P w \<longrightarrow> P (snd (Transmit (SNP B) w i a bs)))"

lemma io_closed_transmit: "io_closed B P \<Longrightarrow> Transmit (SNP B) w i a bs = (status, w') \<Longrightarrow> P w \<Longrightarrow> P w'"
  unfolding io_closed_def by (metis snd_conv)

lemma keeps_plain_printf:
  assumes "io_closed B P" and "CHR ''%'' \<notin> set str" and "str \<noteq> []" and "length str < 2 ^ 31"
  shows "keeps (\<lambda>s. P (fw s)) (efi_printf B str args)"
proof (rule keepsI)
  fix s x t assume "efi_printf B str args s = Inr (x, t)" and P: "P (fw s)"
  then have "fw t = say (callback B) [str] (fw s)" by (auto simp: efi_printf_plain [OF assms(2-4)])
  moreover have "P (say (callback B) [str] (fw s))" by (rule say_inv [where Q = P]) (use assms(1) P in \<open>simp_all add: io_closed_def\<close>)
  ultimately show "P (fw t)" by simp
qed

lemma keeps_return_fw: "io_closed B P \<Longrightarrow> keeps (\<lambda>s. P (fw s)) (net_bufpool_return B dat)"
  unfolding net_bufpool_return_def Let_def by (intro keeps_intros keeps_plain_printf) simp_all

lemma keeps_eth_send_fw: "io_closed B P \<Longrightarrow> keeps (\<lambda>s. P (fw s)) (net_eth_send B dat len)"
  unfolding net_eth_send_def
  by (intro keeps_intros keeps_return_fw) (simp_all add: io_closed_transmit)

lemma keeps_udp6_send_fw: "io_closed B P \<Longrightarrow> keeps (\<lambda>s. P (fw s)) (net_udp6_send B L mac dat len dst dp sp)"
  unfolding net_udp6_send_def Let_def by (intro keeps_intros keeps_plain_printf keeps_return_fw keeps_eth_send_fw) simp_all

lemma keeps_icmp6_send_fw: "io_closed B P \<Longrightarrow> keeps (\<lambda>s. P (fw s)) (net_icmp6_send B L mac dat len dst)"
  unfolding net_icmp6_send_def Let_def by (intro keeps_intros keeps_plain_printf keeps_return_fw keeps_eth_send_fw) simp_all

text \<open>No send touches what later components add to the state.\<close>

lemma keeps_return_more: "keeps (\<lambda>s. Q (net_machine.more s)) (net_bufpool_return B dat)"
  unfolding net_bufpool_return_def Let_def by (intro keeps_intros) simp_all

lemma keeps_eth_send_more: "keeps (\<lambda>s. Q (net_machine.more s)) (net_eth_send B dat len)"
  unfolding net_eth_send_def by (intro keeps_intros keeps_return_more) simp_all

lemma keeps_udp6_send_more: "keeps (\<lambda>s. Q (net_machine.more s)) (net_udp6_send B L mac dat len dst dp sp)"
  unfolding net_udp6_send_def Let_def by (intro keeps_intros keeps_return_more keeps_eth_send_more) simp_all

lemma keeps_icmp6_send_more: "keeps (\<lambda>s. Q (net_machine.more s)) (net_icmp6_send B L mac dat len dst)"
  unfolding net_icmp6_send_def Let_def by (intro keeps_intros keeps_return_more keeps_eth_send_more) simp_all

section \<open>Properties\<close>

text \<open>
  C10: For at most 1978 bytes of data, which is what fits in a buffer behind the headers, \<^verbatim>\<open>net_udp6_send\<close> hands the interface one frame when a buffer is free and the
  destination is known: Ethernet and IPv6 headers for that destination, the UDP
  header with ports and length in network order, and the data; the frame passes
  the receiver's checksum test. The buffer is the one from the top of the pool;
  it is out when the interface takes the frame and back when it does not, and
  \<^verbatim>\<open>EFI_SUCCESS\<close> is returned exactly in the first case.
\<close>

theorem net_udp6_send_frame:
  assumes "pool_rep s (b # bs)" and "net_apart L mac (eth_buffer_phys s)" and "clear_of mac (eth_buffer_phys s) dst 16"
    and "clear_of mac (eth_buffer_phys s) dat (unat len)" and "unat len \<le> 1978" and "mac_for L (mem s) dst = Some d"
  shows "\<exists>chk F status s'. F = frame_to L (mem s) dst d IPPROTO_UDP (udp_segment source_port dest_port chk (load_bytes (mem s) dat (unat len))) \<and>
     checksum_valid 17 F \<and> net_udp6_send B L mac dat len dst dest_port source_port s = Inr (status, s') \<and>
     sent_frame B mac b bs F status s s'"
  using assms by (rule udp6_send_sent)

text \<open>A machine that is ready to send: one free buffer at \<^verbatim>\<open>0x10000\<close>.\<close>

definition sample_sender :: "sample_state net_machine" where
  "sample_sender = sample_net_machine\<lparr>eth_bufpool := 0x10000, eth_bufpool_avail := 1, eth_buffer_phys := 0x10000\<rparr>"

lemma sample_sender_pool: "pool_rep sample_sender [0x10000]"
proof -
  have "apart [(0x1080, 16), (0x3000, 6), (0x10000, 8)]" by (rule apart_ascending [of 0]) simp
  then have "load_bytes sample_net_mem 0x10000 8 = load_bytes (\<lambda>_. 0) 0x10000 8"
    by (simp add: sample_net_mem_def load_past all_nodes_def)
  then have "rd64 sample_net_mem 0x10000 = 0"
    by (simp add: rd64_def) (simp add: load_bytes_def upt_rec le_word_def)
  moreover have "is_buffer 0x10000 0x10000" unfolding is_buffer_def buffer_def by (rule exI [of _ 0]) simp
  ultimately show ?thesis
    by (simp add: pool_rep_def sample_sender_def sample_net_machine_def block_ok_def aligned_def)
qed

lemma sample_net_apart: "net_apart sample_layout 0x2000 0x10000"
proof -
  have "apart [(0x1000, 6), (0x1010, 16), (0x1050, 16), (0x1060, 6), (0x1070, 16), (0x1080, 16), (0x2000, 6), (0x10000, 8192)]"
    by (rule apart_ascending [of 0]) simp
  then show ?thesis by (simp add: net_apart_def sample_layout_def)
qed

lemma sample_clear: "clear_of 0x2000 0x10000 0x1080 16" "clear_of 0x2000 0x10000 0x3000 16"
proof -
  have "apart [(0x1080, 16), (0x2000, 6), (0x3000, 16), (0x10000, 8192)]" by (rule apart_ascending [of 0]) simp
  then show "clear_of 0x2000 0x10000 0x1080 16" "clear_of 0x2000 0x10000 0x3000 16" by (simp_all add: clear_of_def)
qed

theorem net_udp6_send_frame_witness:
  "\<exists>F s'. net_udp6_send sample_env sample_layout 0x2000 0x3000 6 0x1080 57778 57777 sample_sender = Inr (EFI_SUCCESS, s') \<and>
     wire (fw s') = [F] \<and> length F = 68 \<and> checksum_valid 17 F \<and> pool_rep s' []"
proof -
  have phys: "eth_buffer_phys sample_sender = 0x10000" "mem sample_sender = sample_net_mem" "fw sample_sender = sample_start"
    by (simp_all add: sample_sender_def sample_net_machine_def)
  have dat: "clear_of 0x2000 0x10000 0x3000 (unat (6 :: u64))"
    using sample_clear(2) region_mono [of 6 16 "0x3000"] by (auto simp: clear_of_def)
  obtain chk F status s' where F: "F = frame_to sample_layout sample_net_mem 0x1080 [0x33, 0x33, 0, 0, 0, 1] IPPROTO_UDP
        (udp_segment 57777 57778 chk (load_bytes sample_net_mem 0x3000 (unat (6 :: u64))))" "checksum_valid 17 F"
      and run: "net_udp6_send sample_env sample_layout 0x2000 0x3000 6 0x1080 57778 57777 sample_sender = Inr (status, s')"
      and sent: "sent_frame sample_env 0x2000 0x10000 [] F status sample_sender s'"
    using net_udp6_send_frame [OF sample_sender_pool, of sample_layout "0x2000" "0x1080" "0x3000" 6 "[0x33, 0x33, 0, 0, 0, 1]" 57777 57778 sample_env]
      sample_net_apart sample_clear(1) dat sample_mac_for by (auto simp: phys)
  have "Transmit (SNP sample_env) (fw sample_sender) (snp sample_sender) (0x10000 + 8) F = (EFI_SUCCESS, sample_start\<lparr>wire := [F]\<rparr>)"
    by (simp add: sample_env_def sample_snp_def phys) (simp add: sample_start_def)
  then have "status = EFI_SUCCESS" "pool_rep s' []" "fw s' = sample_start\<lparr>wire := [F]\<rparr>"
    using sent by (auto simp: sent_frame_def sample_env_def)
  then have "status = EFI_SUCCESS" "pool_rep s' []" "wire (fw s') = [F]" by simp_all
  moreover have "length F = 68" by (simp add: F(1) frame_to_def length_frame udp_segment_def)
  ultimately show ?thesis using run F(2) by blast
qed

text \<open>
  C24: \<^verbatim>\<open>net_icmp6_send\<close> for data of any length, and \<^verbatim>\<open>net_udp6_send\<close>, which unlike it does not check the length, for at most the 1978 bytes that fit in a
  buffer, return whatever the pool, the destination and the interface do, and lose no buffer: one is missing afterwards exactly when the send reports
  success. Apart from the pool's variables they change memory only in the
  block of buffers and in the local MAC address.
\<close>

theorem net_sends_keep_buffers:
  assumes "pool_rep s bs" and "net_apart L mac (eth_buffer_phys s)" and "clear_of mac (eth_buffer_phys s) dst 16"
    and "clear_of mac (eth_buffer_phys s) dat (unat len)"
  shows "(\<exists>status s'. net_icmp6_send B L mac dat len dst s = Inr (status, s') \<and> send_result mac bs status s s') \<and>
    (unat len \<le> 1978 \<longrightarrow>
       (\<exists>status s'. net_udp6_send B L mac dat len dst dest_port source_port s = Inr (status, s') \<and> send_result mac bs status s s'))"
  using icmp6_send_total [OF assms] udp6_send_total [OF assms] by blast

theorem net_sends_keep_buffers_witness:
  "\<exists>status s'. net_udp6_send sample_env sample_layout 0x2000 0x3000 16 0x1080 57778 57777 sample_sender = Inr (status, s') \<and>
     send_result 0x2000 [0x10000] status sample_sender s'"
  using net_sends_keep_buffers [OF sample_sender_pool, of sample_layout "0x2000" "0x1080" "0x3000" 16 sample_env 57778 57777]
    sample_net_apart sample_clear by (simp add: sample_sender_def)

text \<open>
  C29: \<^verbatim>\<open>net_udp6_send\<close> does not check the length of the data: of more than 1978 bytes those that no longer fit are written
  behind the 2048 bytes of the buffer, into the next buffer or behind the block.
\<close>

theorem net_udp6_send_overruns:
  assumes "pool_rep s (b # bs)" and "net_apart L mac (eth_buffer_phys s)" and "clear_of mac (eth_buffer_phys s) dst 16"
    and "clear_of mac (eth_buffer_phys s) dat (unat len)" and "region dat (unat len) \<inter> region (b + 70) (unat len) = {}"
    and "unat len \<le> 2 ^ 32" and "1978 \<le> i" and "i < unat len" and "mac_for L (mem s) dst = Some d"
  shows "\<exists>status s'. net_udp6_send B L mac dat len dst dest_port source_port s = Inr (status, s') \<and>
     b + 70 + of_nat i \<notin> region b 2048 \<and> mem s' (b + 70 + of_nat i) = mem s (dat + of_nat i)"
proof -
  have "region (b + of_nat 0) 2048 \<inter> region (b + of_nat (70 + i)) 1 = {}" using assms(6-8) by (intro offsets_apart) simp_all
  then have "b + 70 + of_nat i \<notin> region b 2048" using in_region [of 0 1 "b + of_nat (70 + i)"] by (auto simp: add.assoc)
  then show ?thesis using udp6_send_long [OF assms(1-6,8,9), of B dest_port source_port] by blast
qed

text \<open>Two thousand bytes that end behind the MAC address at \<^verbatim>\<open>0x3000\<close>: its first byte is the first one behind the buffer.\<close>

theorem net_udp6_send_overruns_witness:
  "\<exists>status s'. net_udp6_send sample_env sample_layout 0x2000 0x2846 2000 0x1080 57778 57777 sample_sender = Inr (status, s') \<and>
     mem sample_sender 0x10800 = 0 \<and> mem s' 0x10800 = 2"
proof -
  have "apart [(0x2000, 6), (0x2846, 2000), (0x10000, 8192)]" "apart [(0x2846, 2000), (0x10046, 2000)]" by (rule apart_ascending [of 0]; simp)+
  then have far: "clear_of 0x2000 0x10000 0x2846 (unat (2000 :: u64))" "region 0x2846 (unat (2000 :: u64)) \<inter> region (0x10000 + 70) (unat (2000 :: u64)) = {}"
    by (auto simp: clear_of_def)
  have phys: "eth_buffer_phys sample_sender = 0x10000" "mem sample_sender = sample_net_mem" by (simp_all add: sample_sender_def sample_net_machine_def)
  have "0x3000 \<notin> region 0x1080 16" by (subst region_below) simp_all
  then have "sample_net_mem 0x3000 = 2" by (simp add: sample_net_mem_def store_bytes_def all_nodes_def)
  moreover have "apart [(0x1080, 16), (0x3000, 6), (0x10800, 1)]" by (rule apart_ascending [of 0]) simp
  then have "load_bytes sample_net_mem 0x10800 1 = load_bytes (\<lambda>_. 0) 0x10800 1" by (simp add: sample_net_mem_def load_past all_nodes_def)
  then have "sample_net_mem 0x10800 = 0" by (simp add: load_bytes_Suc)
  moreover obtain status s' where "net_udp6_send sample_env sample_layout 0x2000 0x2846 2000 0x1080 57778 57777 sample_sender = Inr (status, s')"
      "mem s' (0x10000 + 70 + of_nat 1978) = sample_net_mem (0x2846 + of_nat 1978)"
    using net_udp6_send_overruns [OF sample_sender_pool, of sample_layout "0x2000" "0x1080" "0x2846" 2000 1978 "[0x33, 0x33, 0, 0, 0, 1]" sample_env 57778 57777]
      sample_net_apart sample_clear(1) far sample_mac_for by (auto simp: phys)
  ultimately show ?thesis by (auto simp: phys)
qed

end
