(* ===== verification/Netboot.thy ===== *)
theory Netboot
  imports Transport Ucs2
begin

text \<open>
  The netboot protocol (\<^verbatim>\<open>net/netboot.c\<close>): messages to the server, and the handler
  for the messages from it, which receives a file fragment by fragment, writes it
  to disk when it is complete, and obeys the control commands.
\<close>

section \<open>The code\<close>

definition CMD_ADVERTISE :: u32 where "CMD_ADVERTISE = 0"
definition CMD_STOP_ADVERTISING :: u32 where "CMD_STOP_ADVERTISING = 1"
definition CMD_SHUTDOWN :: u32 where "CMD_SHUTDOWN = 2"
definition CMD_FWSETUP :: u32 where "CMD_FWSETUP = 3"
definition CMD_REBOOT :: u32 where "CMD_REBOOT = 4"
definition CMD_FILE_SEND_INIT :: u32 where "CMD_FILE_SEND_INIT = 5"
definition CMD_FILE_FRAGMENT :: u32 where "CMD_FILE_FRAGMENT = 6"
definition CMD_ACK :: u32 where "CMD_ACK = 7"
definition CMD_BOOT :: u32 where "CMD_BOOT = 8"

lemmas cmd_defs = CMD_ADVERTISE_def CMD_STOP_ADVERTISING_def CMD_SHUTDOWN_def CMD_FWSETUP_def CMD_REBOOT_def
  CMD_FILE_SEND_INIT_def CMD_FILE_FRAGMENT_def CMD_ACK_def CMD_BOOT_def

datatype vy_netboot_state = STATE_PREINIT | STATE_ADVERTISING | STATE_CMD_WAIT | STATE_FILE_TRANSFER

record vy_netboot =
  nb_state :: vy_netboot_state
  file_info :: addr
  file_buffer :: addr
  file_bytes_transferred :: u64
  file_packets_transferred :: u64

text \<open>
  The static state of \<^verbatim>\<open>netboot.c\<close> and the flags and the timer of \<^verbatim>\<open>net.c\<close>. The initial
  state \<^verbatim>\<open>{}\<close> is all zeroes.
\<close>

record 'w netboot_machine = "'w net_machine" +
  netboot_state :: vy_netboot
  net_poll_continue :: bool
  net_advertised :: bool
  net_stop_advertising :: bool
  net_timer :: addr

type_synonym ('w, 'z, 'a) nb_run = "(halt, ('w, 'z) netboot_machine_scheme, 'a) step"

definition netboot_initial :: vy_netboot where
  "netboot_initial = \<lparr>nb_state = STATE_PREINIT, file_info = 0, file_buffer = 0, file_bytes_transferred = 0, file_packets_transferred = 0\<rparr>"

text \<open>
  A message has its command at 0, its length at 8 and its data at 16; an acknowledgement
  its type at 0 and the fragment at 8; a fragment its number at 0, its length at 8 and
  its data at 16; a file description the size at 0, the bytes per packet at 8, and the
  path at 32.
\<close>

definition NETBOOT_MSG_LEN :: "u64 \<Rightarrow> u64" where "NETBOOT_MSG_LEN x = 16 + x"

definition netboot_cmd_send :: "'w env \<Rightarrow> net_layout \<Rightarrow> u32 \<Rightarrow> addr \<Rightarrow> u64 \<Rightarrow> ('w, 'z, unit) net_run" where
  "netboot_cmd_send B L cmd dat data_len =
     andthen (malloc B (NETBOOT_MSG_LEN data_len)) (\<lambda>msg.
     andthen (set_mem (\<lambda>m. wr32 m msg cmd)) (\<lambda>_.
     andthen (set_mem (\<lambda>m. wr64 m (msg + 8) (NETBOOT_MSG_LEN data_len))) (\<lambda>_.
     andthen (if dat \<noteq> 0 then set_mem (\<lambda>m. memcpy m (msg + 16) dat (unat data_len)) else ret ()) (\<lambda>_.
     andthen (gets (\<lambda>s. (rd64 (mem s) (msg + 8), net_ip6_empty (mem s) (remote_ip6_addr L)))) (\<lambda>(message_length, unknown).
     andthen (if \<not> unknown
              then net_udp6_send B L (mac_local L) msg message_length (remote_ip6_addr L) 57778 57777
              else net_udp6_send B L (mac_local L) msg message_length (ip6_all_nodes L) 57778 57777) (\<lambda>_.
     free B msg))))))"

text \<open>Acknowledging: the local \<^verbatim>\<open>ack\<close> of 16 bytes is filled in and sent.\<close>

definition ack_init :: "net_layout \<Rightarrow> u32 \<Rightarrow> mem \<Rightarrow> mem" where
  "ack_init L typ m = wr64 (wr32 m (ack_local L) typ) (ack_local L + 8) 0"

definition update_netboot :: "(vy_netboot \<Rightarrow> vy_netboot) \<Rightarrow> ('w, 'z, unit) nb_run" where
  "update_netboot f = modify (\<lambda>s. s\<lparr>netboot_state := f (netboot_state s)\<rparr>)"

definition netboot_fragment :: "'w env \<Rightarrow> net_layout \<Rightarrow> addr \<Rightarrow> ('w, 'z, unit) nb_run" where
  "netboot_fragment B L msg =
     (let fragment = msg + 16 in
     andthen (gets (\<lambda>s. (rd64 (mem s) fragment, rd64 (mem s) (fragment + 8), rd64 (mem s) (file_info (netboot_state s) + 8)))) (\<lambda>(i, len, data_per_packet).
     andthen (if data_per_packet < len
              then andthen (efi_printf B (''unexpected fragment (%zu) data length: %zu instead of %zu'' @ [CHR 0x0A]) [i, len, data_per_packet]) (\<lambda>_. ret ())
              else ret ()) (\<lambda>_.
     andthen (set_mem (ack_init L CMD_FILE_FRAGMENT)) (\<lambda>_.
     andthen (gets (\<lambda>s. (rd64 (mem s) fragment, file_packets_transferred (netboot_state s)))) (\<lambda>(fragment_id, transferred).
     andthen (if fragment_id \<noteq> transferred
              then set_mem (\<lambda>m. wr64 m (ack_local L + 8) (if rd64 m fragment < transferred then rd64 m fragment else transferred))
              else
                andthen (gets netboot_state) (\<lambda>n.
                andthen (set_mem (\<lambda>m. memcpy m (file_buffer n + file_bytes_transferred n) (fragment + 16) (unat (rd64 m (fragment + 8))))) (\<lambda>_.
                andthen (set_mem (\<lambda>m. wr64 m (ack_local L + 8) transferred)) (\<lambda>_.
                andthen (gets (\<lambda>s. rd64 (mem s) (fragment + 8))) (\<lambda>data_len.
                update_netboot (\<lambda>n. n\<lparr>file_bytes_transferred := file_bytes_transferred n + data_len,
                                      file_packets_transferred := file_packets_transferred n + 1\<rparr>)))))) (\<lambda>_.
     netboot_cmd_send B L CMD_ACK (ack_local L) 16))))))"

text \<open>
  The file is complete: it is written to the volume the loader came from. A path that
  does not end is read for ever.
\<close>

definition netboot_file_done :: "'w env \<Rightarrow> net_layout \<Rightarrow> ('w, 'z, unit) nb_run" where
  "netboot_file_done B L =
     andthen (gets (\<lambda>s. file_info (netboot_state s))) (\<lambda>info.
     andthen (gets (\<lambda>s. strlen (mem s) (info + 32))) (\<lambda>len.
     andthen (or_undefined len) (\<lambda>path_len.
     andthen (malloc B (push_bit 1 (path_len + 1))) (\<lambda>ucs2_path.
     andthen (gets (\<lambda>s. uefi_to_ucs2 (mem s) (info + 32) ucs2_path)) (\<lambda>converted.
     andthen (or_undefined converted) (\<lambda>m.
     andthen (set_mem (\<lambda>_. m)) (\<lambda>_.
     andthen (fwcall (\<lambda>w. HandleProtocol (HND B) w (image_handle L) LoadedImageProtocol)) (\<lambda>(status, loaded_image).
     andthen (EFIERR B ''net/netboot.c'' 70 status) (\<lambda>_.
     andthen (fwcall (\<lambda>w. HandleProtocol (HND B) w (LoadedImage_DeviceHandle (HND B) w loaded_image) SimpleFileSystemProtocol)) (\<lambda>(status, sfs).
     andthen (EFIERR B ''net/netboot.c'' 73 status) (\<lambda>_.
     andthen (fwcall (\<lambda>w. OpenVolume (VOL B) w sfs)) (\<lambda>(status, root).
     andthen (EFIERR B ''net/netboot.c'' 76 status) (\<lambda>_.
     andthen (gets (\<lambda>s. efi_strlen (mem s) ucs2_path)) (\<lambda>len.
     andthen (or_undefined len) (\<lambda>units.
     andthen (gets (\<lambda>s. map (\<lambda>i. rd16 (mem s) (ucs2_path + 2 * of_nat i)) [0..<unat units])) (\<lambda>path.
     andthen (fwcall (\<lambda>w. File_Open (VOL B) w root path MODE_CREATE_READ_WRITE)) (\<lambda>(status, handle).
     andthen (EFIERR B ''net/netboot.c'' 79 status) (\<lambda>_.
     andthen (gets (\<lambda>s. load_bytes (mem s) (file_buffer (netboot_state s)) (unat (rd64 (mem s) info)))) (\<lambda>bytes.
     andthen (fwcall (\<lambda>w. File_Write (VOL B) w handle bytes)) (\<lambda>(status, written).
     andthen (set_mem (\<lambda>m. wr64 m info written)) (\<lambda>_.
     andthen (EFIERR B ''net/netboot.c'' 82 status) (\<lambda>_.
     andthen (fwcall (\<lambda>w. File_Close (VOL B) w handle)) (\<lambda>_.
     andthen (efi_printf B (''Transferred file %s'' @ [CHR 0x0A]) [info + 32]) (\<lambda>_.
     update_netboot (\<lambda>n. n\<lparr>nb_state := STATE_CMD_WAIT, file_info := 0, file_buffer := 0,
                           file_bytes_transferred := 0, file_packets_transferred := 0\<rparr>))))))))))))))))))))))))) "

definition netboot_transfer :: "'w env \<Rightarrow> net_layout \<Rightarrow> addr \<Rightarrow> ('w, 'z, unit) nb_run" where
  "netboot_transfer B L msg =
     andthen (gets (\<lambda>s. rd32 (mem s) msg)) (\<lambda>cmd.
     if cmd = CMD_FILE_FRAGMENT
     then
       andthen (netboot_fragment B L msg) (\<lambda>_.
       andthen (gets (\<lambda>s. (file_bytes_transferred (netboot_state s), rd64 (mem s) (file_info (netboot_state s))))) (\<lambda>(got, file_size).
       if got = file_size then netboot_file_done B L else ret ()))
     else andthen (efi_printf B (''unexpected command in file transfer'' @ [CHR 0x0A]) []) (\<lambda>_. ret ()))"

definition reset_system :: "'w env \<Rightarrow> efi_reset_type \<Rightarrow> ('w, 'z, unit) run" where
  "reset_system B typ s =
     (case ResetSystem (RT B) (fw s) typ of None \<Rightarrow> Inl (Reset typ, s) | Some w \<Rightarrow> Inr ((), s\<lparr>fw := w\<rparr>))"

definition stop_polling :: "('w, 'z, unit) nb_run" where
  "stop_polling = modify (\<lambda>s. s\<lparr>net_poll_continue := False\<rparr>)"

definition netboot_fwsetup :: "'w env \<Rightarrow> net_layout \<Rightarrow> ('w, 'z, unit) nb_run" where
  "netboot_fwsetup B L =
     andthen stop_polling (\<lambda>_.
     andthen (fwcall (\<lambda>w. GetVariable (RT B) w ''OsIndicationsSupported'' (stale_var_size L))) (\<lambda>(status, var_size).
     if EFI_ERROR B status then ret ()
     else
       andthen (fwcall (\<lambda>w. SetVariable (RT B) w ''OsIndications'' var_size 1)) (\<lambda>_.
       reset_system B EfiResetWarm)))"

definition netboot_send_init :: "'w env \<Rightarrow> net_layout \<Rightarrow> addr \<Rightarrow> ('w, 'z, unit) nb_run" where
  "netboot_send_init B L msg =
     andthen (gets (\<lambda>s. rd64 (mem s) (msg + 8) - 16)) (\<lambda>len.
     andthen (fwcall (\<lambda>w. AllocatePool B w len)) (\<lambda>(_, info).
     andthen (update_netboot (\<lambda>n. n\<lparr>file_info := info\<rparr>)) (\<lambda>_.
     andthen (set_mem (\<lambda>m. memcpy m info (msg + 16) (unat (rd64 m (msg + 8) - 16)))) (\<lambda>_.
     andthen (update_netboot (\<lambda>n. n\<lparr>nb_state := STATE_FILE_TRANSFER\<rparr>)) (\<lambda>_.
     andthen (gets (\<lambda>s. rd64 (mem s) info)) (\<lambda>file_size.
     andthen (fwcall (\<lambda>w. AllocatePool B w file_size)) (\<lambda>(_, buf).
     andthen (update_netboot (\<lambda>n. n\<lparr>file_buffer := buf\<rparr>)) (\<lambda>_.
     andthen (set_mem (ack_init L CMD_FILE_SEND_INIT)) (\<lambda>_.
     netboot_cmd_send B L CMD_ACK (ack_local L) 16)))))))))"

definition netboot_command :: "'w env \<Rightarrow> net_layout \<Rightarrow> addr \<Rightarrow> ('w, 'z, unit) nb_run" where
  "netboot_command B L msg =
     andthen (gets (\<lambda>s. rd32 (mem s) msg)) (\<lambda>cmd.
     if cmd = CMD_FWSETUP then netboot_fwsetup B L
     else if cmd = CMD_STOP_ADVERTISING then modify (\<lambda>s. s\<lparr>net_stop_advertising := True\<rparr>)
     else if cmd = CMD_SHUTDOWN then andthen stop_polling (\<lambda>_. reset_system B EfiResetShutdown)
     else if cmd = CMD_REBOOT then andthen stop_polling (\<lambda>_. reset_system B EfiResetWarm)
     else if cmd = CMD_FILE_SEND_INIT then netboot_send_init B L msg
     else if cmd = CMD_BOOT then stop_polling
     else ret ())"

definition netboot_cmd_receive :: "'w env \<Rightarrow> net_layout \<Rightarrow> addr \<Rightarrow> ('w, 'z, efi_status) nb_run" where
  "netboot_cmd_receive B L msg =
     andthen (gets (\<lambda>s. nb_state (netboot_state s))) (\<lambda>state.
     andthen (if state = STATE_FILE_TRANSFER then netboot_transfer B L msg else ret ()) (\<lambda>_.
     andthen (netboot_command B L msg) (\<lambda>_.
     ret EFI_SUCCESS)))"

section \<open>Building a message\<close>

text \<open>The four bytes behind the command are padding and hold what the pool memory held.\<close>

definition netboot_message :: "u32 \<Rightarrow> u8 list \<Rightarrow> u8 list \<Rightarrow> u8 list" where
  "netboot_message cmd pad dat = le_bytes 4 cmd @ pad @ le_bytes 8 (NETBOOT_MSG_LEN (of_nat (length dat))) @ dat"

lemma length_message: "length pad = 4 \<Longrightarrow> length (netboot_message cmd pad dat) = 16 + length dat"
  by (simp add: netboot_message_def)

lemma header_written:
  "wr64 (wr32 m msg cmd) (msg + 8) len = store_bytes m msg (le_bytes 4 cmd @ load_bytes m (msg + 4) 4 @ le_bytes 8 len)"
proof -
  let ?F = "load_bytes m msg 16"
  have "wr32 m msg cmd = store_bytes (store_bytes m msg ?F) (msg + of_nat 0) (le_bytes 4 cmd)"
    by (simp add: wr32_def store_load_same)
  also have "\<dots> = store_bytes m msg (le_bytes 4 cmd @ drop 4 ?F)" by (subst store_slice) simp_all
  finally have "wr64 (wr32 m msg cmd) (msg + 8) len =
      store_bytes (store_bytes m msg (le_bytes 4 cmd @ drop 4 ?F)) (msg + of_nat 8) (le_bytes 8 len)" by (simp add: wr64_def)
  also have "\<dots> = store_bytes m msg (take 8 (le_bytes 4 cmd @ drop 4 ?F) @ le_bytes 8 len)" by (subst store_slice) simp_all
  also have "take 8 (le_bytes 4 cmd @ drop 4 ?F) = le_bytes 4 cmd @ load_bytes m (msg + 4) 4"
    by (simp add: drop_load_bytes take_load_bytes)
  finally show ?thesis by simp
qed

lemma message_built:
  fixes m :: mem and cmd :: u32
  assumes n: "n = unat len" "n \<le> 1900" and sep: "dat \<noteq> 0 \<Longrightarrow> region dat n \<inter> region msg (16 + n) = {}" and none: "dat = 0 \<Longrightarrow> n = 0"
  defines "m1 \<equiv> (if dat \<noteq> 0 then memcpy (wr64 (wr32 m msg cmd) (msg + 8) (NETBOOT_MSG_LEN len)) (msg + 16) dat n
                  else wr64 (wr32 m msg cmd) (msg + 8) (NETBOOT_MSG_LEN len))"
  shows "m1 = store_bytes m msg (netboot_message cmd (load_bytes m (msg + 4) 4) (load_bytes m dat n))"
    and "rd64 m1 (msg + 8) = NETBOOT_MSG_LEN len"
proof -
  let ?M = "netboot_message cmd (load_bytes m (msg + 4) 4) (load_bytes m dat n)"
  have l: "(of_nat n :: u64) = len" using n by simp
  show m1: "m1 = store_bytes m msg ?M"
  proof (cases "dat = 0")
    case True
    then show ?thesis using none by (simp add: m1_def header_written netboot_message_def l [symmetric])
  next
    case False
    then show ?thesis
      using n(2) by (simp add: m1_def header_written netboot_message_def l copy_next [OF sep])
  qed
  have "load_bytes m1 (msg + of_nat 8) 8 = take 8 (drop 8 (load_bytes m1 msg 16))"
    by (simp only: drop_load_bytes take_load_bytes) simp
  also have "load_bytes m1 msg 16 = take 16 (load_bytes m1 msg (16 + n))" by (simp add: take_load_bytes)
  also have "load_bytes m1 msg (16 + n) = ?M"
    unfolding m1 using n(2) by (intro load_store_same) (simp_all add: length_message)
  finally show "rd64 m1 (msg + 8) = NETBOOT_MSG_LEN len"
    by (simp add: rd64_def netboot_message_def l le_word_le_bytes)
qed

section \<open>Sending a message\<close>

text \<open>The states of the firmware that printing and transmitting lead to.\<close>

inductive io_reach :: "'w env \<Rightarrow> 'w \<Rightarrow> 'w \<Rightarrow> bool" for B w where
  start: "io_reach B w w"
| prints: "io_reach B w w' \<Longrightarrow> io_reach B w (snd (OutputString B w' us))"
| transmits: "io_reach B w w' \<Longrightarrow> io_reach B w (snd (Transmit (SNP B) w' i a bs))"

lemma io_reach_closed: "io_reach B w w' \<Longrightarrow> io_closed B P \<Longrightarrow> P w \<Longrightarrow> P w'"
  by (induction rule: io_reach.induct) (auto simp: io_closed_def)

lemma io_closed_reach: "io_closed B (io_reach B w)"
  by (simp add: io_closed_def io_reach.prints io_reach.transmits)

text \<open>
  What sending relies on from the firmware: while \<open>P (Suc k)\<close> holds, a small request
  for pool memory is served from outside the memory \<open>R\<close> that is in use, and
  leaves \<open>P k\<close>; the memory so obtained can be given back, also after printing and transmitting, and that
  leaves \<open>P k\<close> as it is, like printing and transmitting do. \<open>k\<close> counts
  the requests that can still be made.
\<close>

definition pool_serves :: "'w env \<Rightarrow> addr set \<Rightarrow> (nat \<Rightarrow> 'w \<Rightarrow> bool) \<Rightarrow> bool" where
  "pool_serves B R P \<longleftrightarrow>
     (\<forall>k w n. P (Suc k) w \<longrightarrow> unat n < 4096 \<longrightarrow>
        (case AllocatePool B w n of ((status, a), w') \<Rightarrow> \<not> EFI_ERROR B status \<and> P k w' \<and> region a (unat n) \<inter> R = {} \<and>
           (\<forall>w2. io_reach B w' w2 \<longrightarrow> (case FreePool B w2 a of (status, w3) \<Rightarrow> \<not> EFI_ERROR B status \<and> P k w3)))) \<and>
     (\<forall>k. io_closed B (P k))"

lemma pool_servesD:
  assumes "pool_serves B R P"
  shows "P (Suc k) w \<Longrightarrow> unat n < 4096 \<Longrightarrow> AllocatePool B w n = ((status, a), w') \<Longrightarrow>
      \<not> EFI_ERROR B status \<and> P k w' \<and> region a (unat n) \<inter> R = {}"
    and "P (Suc k) w \<Longrightarrow> unat n < 4096 \<Longrightarrow> AllocatePool B w n = ((status, a), w') \<Longrightarrow> io_reach B w' w2 \<Longrightarrow> FreePool B w2 a = (answer, w3) \<Longrightarrow>
      \<not> EFI_ERROR B answer \<and> P k w3"
    and "io_closed B (P k)"
proof -
  note A = assms [unfolded pool_serves_def]
  note al = conjunct1 [OF A, rule_format, of k w n]
  show "P (Suc k) w \<Longrightarrow> unat n < 4096 \<Longrightarrow> AllocatePool B w n = ((status, a), w') \<Longrightarrow>
      \<not> EFI_ERROR B status \<and> P k w' \<and> region a (unat n) \<inter> R = {}"
    using al by simp
  show "P (Suc k) w \<Longrightarrow> unat n < 4096 \<Longrightarrow> AllocatePool B w n = ((status, a), w') \<Longrightarrow> io_reach B w' w2 \<Longrightarrow> FreePool B w2 a = (answer, w3) \<Longrightarrow>
      \<not> EFI_ERROR B answer \<and> P k w3"
    using al by fastforce
  show "io_closed B (P k)" using A by blast
qed

text \<open>The memory of the network code.\<close>

definition net_mem :: "net_layout \<Rightarrow> addr \<Rightarrow> addr set" where
  "net_mem L phys =
     region (ll_mac_addr L) 6 \<union> region (ip6_ll_addr L) 16 \<union> region (ip6_snm_addr L) 16 \<union> region (remote_mac_addr L) 6 \<union>
     region (remote_ip6_addr L) 16 \<union> region (ip6_all_nodes L) 16 \<union> region (mac_local L) 6 \<union> region phys 8192"

text \<open>The part of it that a send writes.\<close>

definition send_mem :: "net_layout \<Rightarrow> addr \<Rightarrow> addr set" where
  "send_mem L phys = region phys 8192 \<union> region (mac_local L) 6"

definition net_ready :: "net_layout \<Rightarrow> addr set \<Rightarrow> ('w, 'z) net_machine_scheme \<Rightarrow> addr list \<Rightarrow> bool" where
  "net_ready L R s bs \<longleftrightarrow>
     pool_rep s bs \<and> net_apart L (mac_local L) (eth_buffer_phys s) \<and> net_mem L (eth_buffer_phys s) \<subseteq> R"

lemma net_ready_cong:
  assumes "net_ready L R s bs" and "eth_buffer_phys s' = eth_buffer_phys s" "eth_bufpool s' = eth_bufpool s" "eth_bufpool_avail s' = eth_bufpool_avail s"
    and "\<And>x. x \<in> region (eth_buffer_phys s) 8192 \<Longrightarrow> mem s' x = mem s x"
  shows "net_ready L R s' bs"
proof -
  have rep: "pool_rep s bs" using assms(1) by (simp add: net_ready_def)
  have "rd64 (mem s') b = rd64 (mem s) b" if "b \<in> set bs" for b
  proof (rule c64.rd_cong)
    fix x assume "x \<in> region b 8"
    moreover have "region b 8 \<subseteq> region (eth_buffer_phys s) 8192"
      using rep that buffer_in_block region_mono [of 8 2048 b] by (fastforce simp: pool_rep_def)
    ultimately show "mem s' x = mem s x" using assms(5) by blast
  qed
  then have "chain (mem s') (eth_bufpool s) bs" using rep chain_cong by (fastforce simp: pool_rep_def)
  then show ?thesis using assms by (simp add: net_ready_def pool_rep_def)
qed

text \<open>Where a message goes: to the known server, or to all nodes.\<close>

definition message_dest :: "net_layout \<Rightarrow> mem \<Rightarrow> addr" where
  "message_dest L m = (if net_ip6_empty m (remote_ip6_addr L) then ip6_all_nodes L else remote_ip6_addr L)"

definition data_in_use :: "net_layout \<Rightarrow> addr set \<Rightarrow> addr \<Rightarrow> addr \<Rightarrow> nat \<Rightarrow> bool" where
  "data_in_use L R phys dat n \<longleftrightarrow> (if dat = 0 then n = 0 else region dat n \<subseteq> R) \<and> n \<le> 1900"

lemma cmd_send_started:
  fixes s :: "('w, 'z) net_machine_scheme"
  assumes serves: "pool_serves B R P" and P: "P (Suc k) (fw s)" and ready: "net_ready L R s bs"
    and dat: "data_in_use L R (eth_buffer_phys s) dat (unat len)"
  obtains status msg w1 M and s1 :: "('w, 'z) net_machine_scheme"
    where "AllocatePool B (fw s) (NETBOOT_MSG_LEN len) = ((status, msg), w1)" and "P k w1"
      and "M = netboot_message cmd (load_bytes (mem s) (msg + 4) 4) (load_bytes (mem s) dat (unat len))"
      and "s1 = s\<lparr>fw := w1, mem := store_bytes (mem s) msg M\<rparr>" and "net_ready L R s1 bs"
      and "netboot_cmd_send B L cmd dat len s =
         andthen (net_udp6_send B L (mac_local L) msg (NETBOOT_MSG_LEN len) (message_dest L (mem s)) 57778 57777) (\<lambda>_. free B msg) s1"
      and "clear_of (mac_local L) (eth_buffer_phys s) msg (unat (NETBOOT_MSG_LEN len))"
      and "unat (NETBOOT_MSG_LEN len) = length M" and "length M \<le> 1978" and "\<And>x. x \<in> R \<Longrightarrow> mem s1 x = mem s x"
proof -
  let ?n = "unat len" and ?len = "NETBOOT_MSG_LEN len" and ?phys = "eth_buffer_phys s"
  have n: "?n \<le> 1900" using dat by (simp add: data_in_use_def)
  then have ulen: "unat ?len = 16 + ?n" using unat_add_of_nat [of 16 ?n] by (simp add: NETBOOT_MSG_LEN_def)
  obtain status msg w1 where al: "AllocatePool B (fw s) ?len = ((status, msg), w1)" by (metis surj_pair)
  have ok: "\<not> EFI_ERROR B status" "P k w1" "region msg (16 + ?n) \<inter> R = {}"
    using pool_servesD(1) [OF serves P _ al] ulen n by simp_all
  define M where "M = netboot_message cmd (load_bytes (mem s) (msg + 4) 4) (load_bytes (mem s) dat ?n)"
  have lM: "length M = 16 + ?n" by (simp add: M_def length_message)
  define s1 where "s1 = s\<lparr>fw := w1, mem := store_bytes (mem s) msg M\<rparr>"
  have keep: "mem s1 x = mem s x" if "x \<in> R" for x
    using ok(3) that lM by (auto simp: s1_def intro!: store_outside)
  have blk: "net_mem L ?phys \<subseteq> R" using ready by (simp add: net_ready_def)
  have "net_ready L R s1 bs"
    using ready by (rule net_ready_cong) (use blk keep in \<open>auto simp: s1_def net_mem_def\<close>)
  moreover have "clear_of (mac_local L) ?phys msg (unat ?len)"
    using ok(3) blk unfolding clear_of_def ulen net_mem_def by blast
  moreover have "netboot_cmd_send B L cmd dat len s =
      andthen (net_udp6_send B L (mac_local L) msg ?len (message_dest L (mem s)) 57778 57777) (\<lambda>_. free B msg) s1"
  proof -
    have sep: "dat \<noteq> 0 \<Longrightarrow> region dat ?n \<inter> region msg (16 + ?n) = {}" "dat = 0 \<Longrightarrow> ?n = 0"
      using dat ok(3) by (auto simp: data_in_use_def)
    note built = message_built [OF refl n sep, of "mem s" cmd]
    have "load_bytes (mem s1) (remote_ip6_addr L) 16 = load_bytes (mem s) (remote_ip6_addr L) 16"
      using blk keep by (intro load_cong) (auto simp: net_mem_def)
    then have "net_ip6_empty (mem s1) (remote_ip6_addr L) = net_ip6_empty (mem s) (remote_ip6_addr L)"
      by (simp add: ip6_empty_zero)
    then show ?thesis
      using built al ok(1) unfolding M_def [symmetric]
      by (cases "dat = 0") (simp_all add: netboot_cmd_send_def malloc_def andthen_def fwcall_def EFIERR_ok s1_def message_dest_def)
  qed
  ultimately show thesis using that [OF al ok(2) M_def s1_def] ulen lM n keep by simp
qed

lemma dest_clear: "net_apart L mac phys \<Longrightarrow> clear_of mac phys (message_dest L m) 16"
  by (simp add: message_dest_def net_apart_clear)

lemma free_returns:
  assumes "pool_serves B R P" and "P (Suc k) w0" and "unat n < 4096" and "AllocatePool B w0 n = ((status, msg), w1)" and "io_reach B w1 (fw s)"
  shows "\<exists>w. free B msg s = Inr ((), s\<lparr>fw := w\<rparr>) \<and> P k w \<and> w = snd (FreePool B (fw s) msg)"
  using pool_servesD(2) [OF assms] by (cases "FreePool B (fw s) msg") (simp add: free_def andthen_def fwcall_def EFIERR_ok)

text \<open>Sending keeps the firmware within these states.\<close>

lemma send_reach:
  assumes "net_udp6_send B L mac dat len dst dp sp s = Inr (st, t)"
  shows "io_reach B (fw s) (fw t)"
  using keepsD [OF keeps_udp6_send_fw [OF io_closed_reach [of B "fw s"]] assms io_reach.start] .

text \<open>Every message leaves the state ready for the next one, whether or not it could be sent.\<close>

lemma cmd_send_total:
  fixes s :: "('w, 'z) net_machine_scheme"
  assumes serves: "pool_serves B R P" and P: "P (Suc k) (fw s)" and ready: "net_ready L R s bs"
    and dat: "data_in_use L R (eth_buffer_phys s) dat (unat len)"
  shows "\<exists>s' bs'. netboot_cmd_send B L cmd dat len s = Inr ((), s') \<and> net_ready L R s' bs' \<and> (bs' = bs \<or> bs' = tl bs) \<and> P k (fw s') \<and>
     (\<forall>x \<in> R - send_mem L (eth_buffer_phys s). mem s' x = mem s x) \<and>
     eth_buffer_phys s' = eth_buffer_phys s \<and> net_machine.more s' = net_machine.more s"
  using serves P ready dat
proof (rule cmd_send_started [where cmd = cmd])
  fix status msg w1 M and s1 :: "('w, 'z) net_machine_scheme"
  assume al: "AllocatePool B (fw s) (NETBOOT_MSG_LEN len) = ((status, msg), w1)" and s1: "s1 = s\<lparr>fw := w1, mem := store_bytes (mem s) msg M\<rparr>" and ready1: "net_ready L R s1 bs"
    and run: "netboot_cmd_send B L cmd dat len s =
         andthen (net_udp6_send B L (mac_local L) msg (NETBOOT_MSG_LEN len) (message_dest L (mem s)) 57778 57777) (\<lambda>_. free B msg) s1"
    and clear: "clear_of (mac_local L) (eth_buffer_phys s) msg (unat (NETBOOT_MSG_LEN len))"
    and lM: "unat (NETBOOT_MSG_LEN len) = length M" "length M \<le> 1978" and keep: "\<And>x. x \<in> R \<Longrightarrow> mem s1 x = mem s x"
  let ?phys = "eth_buffer_phys s"
  have ap: "net_apart L (mac_local L) (eth_buffer_phys s1)" and rep1: "pool_rep s1 bs" and ph: "eth_buffer_phys s1 = ?phys"
    using ready1 by (simp_all add: net_ready_def s1)
  have len: "unat (NETBOOT_MSG_LEN len) \<le> 1978" using lM by simp
  obtain st s2 where send: "net_udp6_send B L (mac_local L) msg (NETBOOT_MSG_LEN len) (message_dest L (mem s)) 57778 57777 s1 = Inr (st, s2)"
      and res: "send_result (mac_local L) bs st s1 s2"
    using udp6_send_total [OF rep1 ap dest_clear [OF ap] clear [folded ph] len] by blast
  have fr: "net_frame (region ?phys 8192 \<union> region (mac_local L) 6) s1 s2" and rep2: "pool_rep s2 (if st = EFI_SUCCESS then tl bs else bs)"
    using res by (simp_all add: send_result_def ph)
  have "io_reach B w1 (fw s2)" using send_reach [OF send] by (simp add: s1)
  then obtain w where free: "free B msg s2 = Inr ((), s2\<lparr>fw := w\<rparr>)" "P k w" using free_returns [OF serves P _ al] len by auto
  have ph2: "eth_buffer_phys s2 = ?phys" using net_frame_fields(1) [OF fr] ph by simp
  have "net_ready L R (s2\<lparr>fw := w\<rparr>) (if st = EFI_SUCCESS then tl bs else bs)"
    using ready1 rep2 ph ph2 by (simp add: net_ready_def pool_rep_def)
  moreover have "mem s2 x = mem s x" if "x \<in> R - send_mem L ?phys" for x
    using net_frame_fields(2) [OF fr, of x] keep that by (auto simp: send_mem_def)
  moreover have "net_machine.more s2 = net_machine.more s" using net_frame_net(3) [OF fr] by (simp add: s1)
  ultimately show ?thesis using run send free ph2     by (intro exI [of _ "s2\<lparr>fw := w\<rparr>"] exI [of _ "if st = EFI_SUCCESS then tl bs else bs"]) (auto simp: andthen_Inr)
qed

text \<open>The one frame a message becomes, when it can be sent.\<close>

lemma cmd_send_frame:
  fixes s :: "('w, 'z) net_machine_scheme"
  assumes serves: "pool_serves B R P" and P: "P (Suc k) (fw s)" and ready: "net_ready L R s (b # bs)"
    and dat: "data_in_use L R (eth_buffer_phys s) dat (unat len)" and d: "mac_for L (mem s) (message_dest L (mem s)) = Some d"
  shows "\<exists>status msg w1 pad chk F. AllocatePool B (fw s) (NETBOOT_MSG_LEN len) = ((status, msg), w1) \<and> length pad = 4 \<and>
     F = frame_to L (mem s) (message_dest L (mem s)) d IPPROTO_UDP
           (udp_segment 57777 57778 chk (netboot_message cmd pad (load_bytes (mem s) dat (unat len)))) \<and>
     checksum_valid 17 F \<and>
     (\<exists>s'. netboot_cmd_send B L cmd dat len s = Inr ((), s') \<and>
        fw s' = snd (FreePool B (snd (Transmit (SNP B) w1 (snp s) (b + 8) F)) msg))"
  using serves P ready dat
proof (rule cmd_send_started [where cmd = cmd])
  fix status msg w1 M and s1 :: "('w, 'z) net_machine_scheme"
  assume al: "AllocatePool B (fw s) (NETBOOT_MSG_LEN len) = ((status, msg), w1)" and P1: "P k w1"
    and M: "M = netboot_message cmd (load_bytes (mem s) (msg + 4) 4) (load_bytes (mem s) dat (unat len))"
    and s1: "s1 = s\<lparr>fw := w1, mem := store_bytes (mem s) msg M\<rparr>" and ready1: "net_ready L R s1 (b # bs)"
    and run: "netboot_cmd_send B L cmd dat len s =
         andthen (net_udp6_send B L (mac_local L) msg (NETBOOT_MSG_LEN len) (message_dest L (mem s)) 57778 57777) (\<lambda>_. free B msg) s1"
    and clear: "clear_of (mac_local L) (eth_buffer_phys s) msg (unat (NETBOOT_MSG_LEN len))"
    and lM: "unat (NETBOOT_MSG_LEN len) = length M" "length M \<le> 1978" and keep: "\<And>x. x \<in> R \<Longrightarrow> mem s1 x = mem s x"
  let ?phys = "eth_buffer_phys s" and ?dst = "message_dest L (mem s)"
  have ap: "net_apart L (mac_local L) (eth_buffer_phys s1)" and rep1: "pool_rep s1 (b # bs)" and ph: "eth_buffer_phys s1 = ?phys"
    and blk: "net_mem L ?phys \<subseteq> R"
    using ready1 by (simp_all add: net_ready_def s1)
  have ld: "load_bytes (mem s1) a n = load_bytes (mem s) a n" if "region a n \<subseteq> net_mem L ?phys" for a n
    using that blk keep by (intro load_cong) blast
  have sub: "region ?dst 16 \<subseteq> net_mem L ?phys" by (auto simp: message_dest_def net_mem_def)
  have "mac_for L (mem s1) ?dst = mac_for L (mem s) ?dst"
    by (rule mac_for_cong) (simp_all add: ld [OF sub] ld net_mem_def subset_iff)
  then have "mac_for L (mem s1) ?dst = Some d" using d by simp
  moreover have "unat (NETBOOT_MSG_LEN len) \<le> 1978" using lM by simp
  ultimately obtain chk F st s2 where F: "F = frame_to L (mem s1) ?dst d IPPROTO_UDP (udp_segment 57777 57778 chk (load_bytes (mem s1) msg (unat (NETBOOT_MSG_LEN len))))"
      and val: "checksum_valid 17 F" and send: "net_udp6_send B L (mac_local L) msg (NETBOOT_MSG_LEN len) ?dst 57778 57777 s1 = Inr (st, s2)"
      and sent: "sent_frame B (mac_local L) b bs F st s1 s2"
    using udp6_send_sent [OF rep1 ap dest_clear [OF ap] clear [folded ph], where d = d and source_port = 57777 and dest_port = 57778 and B = B]
    by blast
  have lm: "load_bytes (mem s1) msg (unat (NETBOOT_MSG_LEN len)) = M" using lM by (simp add: s1 load_store_same)
  have F': "F = frame_to L (mem s) ?dst d IPPROTO_UDP (udp_segment 57777 57778 chk M)"
    by (simp add: F lm frame_to_def ld [OF sub] ld net_mem_def subset_iff)
  have tx: "fw s2 = snd (Transmit (SNP B) w1 (snp s) (b + 8) F)" using sent by (auto simp: sent_frame_def s1)
  have "io_reach B w1 (fw s2)" using send_reach [OF send] by (simp add: s1)
  then obtain w where "free B msg s2 = Inr ((), s2\<lparr>fw := w\<rparr>)" "w = snd (FreePool B (fw s2) msg)" using free_returns [OF serves P _ al] lM by auto
  then show ?thesis using al F' val run send tx M by (force simp: andthen_Inr)
qed

end
