(* ===== verification/File_Transfer.thy ===== *)
theory File_Transfer
  imports Netboot
begin

text \<open>
  Receiving a file (\<^verbatim>\<open>netboot_cmd_receive\<close> in the state \<^verbatim>\<open>STATE_FILE_TRANSFER\<close>): the
  handler is a receiver that takes fragments in order only, acknowledges every
  fragment with the number it has got to, and writes the file when it is
  complete. The abstract receiver is the list of chunks accepted so far.
\<close>

section \<open>The abstract receiver\<close>

definition receive_chunk :: "u8 list list \<Rightarrow> nat \<times> u8 list \<Rightarrow> u8 list list" where
  "receive_chunk cs f = (if fst f = length cs then cs @ [snd f] else cs)"

definition ack_number :: "u8 list list \<Rightarrow> nat \<times> u8 list \<Rightarrow> nat" where
  "ack_number cs f = min (fst f) (length cs)"

text \<open>
  Fragments of one file, in any order and any number of times, never leave the
  receiver with anything but a prefix of the file.
\<close>

definition of_file :: "u8 list list \<Rightarrow> nat \<times> u8 list \<Rightarrow> bool" where
  "of_file file f \<longleftrightarrow> fst f < length file \<and> snd f = file ! fst f"

lemma receive_chunk_prefix:
  assumes "of_file file f" and "cs = take n file" and "n \<le> length file"
  shows "\<exists>k \<ge> n. k \<le> length file \<and> receive_chunk cs f = take k file"
proof (cases "fst f = length cs")
  case True
  then have "fst f = n" using assms by simp
  then have "receive_chunk cs f = take (Suc n) file"
    using assms True by (simp add: receive_chunk_def of_file_def take_Suc_conv_app_nth)
  then show ?thesis using assms \<open>fst f = n\<close> by (intro exI [of _ "Suc n"]) (simp add: of_file_def)
next
  case False
  then show ?thesis using assms by (auto simp: receive_chunk_def)
qed

section \<open>The transfer in memory\<close>

text \<open>
  A fragment message: command 6, the number, the length and the bytes.
\<close>

definition fragment_message :: "u8 list \<Rightarrow> nat \<times> u8 list \<Rightarrow> u8 list" where
  "fragment_message pad f =
     netboot_message CMD_FILE_FRAGMENT pad (le_bytes 8 (of_nat (fst f) :: u64) @ le_bytes 8 (of_nat (length (snd f)) :: u64) @ snd f)"

definition fragment_at :: "mem \<Rightarrow> addr \<Rightarrow> nat \<times> u8 list \<Rightarrow> bool" where
  "fragment_at m msg f \<longleftrightarrow>
     rd32 m msg = CMD_FILE_FRAGMENT \<and> rd64 m (msg + 16) = of_nat (fst f) \<and> rd64 m (msg + 24) = of_nat (length (snd f)) \<and>
     load_bytes m (msg + 32) (length (snd f)) = snd f"

text \<open>
  Where the parts of a transfer lie: the message, the file description with the
  path, the file buffer, the local \<^verbatim>\<open>ack\<close>, and what a send writes, apart from
  each other and all in use.
\<close>

definition transfer_apart :: "net_layout \<Rightarrow> addr set \<Rightarrow> addr \<Rightarrow> addr \<Rightarrow> nat \<Rightarrow> addr \<Rightarrow> nat \<Rightarrow> addr \<Rightarrow> nat \<Rightarrow> bool" where
  "transfer_apart L R phys msg msize info isize buf fsize \<longleftrightarrow>
     apart [(msg, msize), (info, isize), (buf, fsize), (ack_local L, 16), (mac_local L, 6), (phys, 8192)] \<and>
     region msg msize \<union> region info isize \<union> region buf fsize \<union> region (ack_local L) 16 \<subseteq> R \<and> ack_local L \<noteq> 0"

text \<open>The state of a transfer of \<open>fsize\<close> bytes that has accepted the chunks \<open>cs\<close>.\<close>

definition transferring :: "vy_netboot \<Rightarrow> mem \<Rightarrow> nat \<Rightarrow> nat \<Rightarrow> u8 list list \<Rightarrow> bool" where
  "transferring n m fsize per_packet cs \<longleftrightarrow>
     nb_state n = STATE_FILE_TRANSFER \<and> file_packets_transferred n = of_nat (length cs) \<and>
     file_bytes_transferred n = of_nat (length (concat cs)) \<and>
     load_bytes m (file_buffer n) (length (concat cs)) = concat cs \<and>
     rd64 m (file_info n) = of_nat fsize \<and> rd64 m (file_info n + 8) = of_nat per_packet \<and>
     length (concat cs) \<le> fsize \<and> fsize < 2 ^ 52 \<and> per_packet < 2 ^ 52 \<and> length cs < 2 ^ 52"

definition accept_state :: "vy_netboot \<Rightarrow> u8 list list \<Rightarrow> nat \<times> u8 list \<Rightarrow> vy_netboot" where
  "accept_state n cs f =
     (if fst f = length cs
      then n\<lparr>file_bytes_transferred := of_nat (length (concat cs) + length (snd f)), file_packets_transferred := of_nat (Suc (length cs))\<rparr>
      else n)"

lemma ack_mem:
  assumes "x \<notin> region (ack_local L) 16"
  shows "wr64 (ack_init L typ m) (ack_local L + 8) v x = m x" and "ack_init L typ m x = m x"
proof -
  have "region (ack_local L) 4 \<subseteq> region (ack_local L) 16" "region (ack_local L + 8) 8 \<subseteq> region (ack_local L) 16"
    using subregion [of 0 4 16 "ack_local L"] subregion [of 8 8 16 "ack_local L"] by simp_all
  then have "x \<notin> region (ack_local L) 4" "x \<notin> region (ack_local L + 8) 8" using assms by blast+
  then show "wr64 (ack_init L typ m) (ack_local L + 8) v x = m x" "ack_init L typ m x = m x"
    by (simp_all add: ack_init_def c32.wr_outside c64.wr_outside)
qed

text \<open>What the acknowledgement holds: the type, padding, and the number.\<close>

lemma ack_bytes:
  "load_bytes (wr64 (ack_init L typ m) (ack_local L + 8) v) (ack_local L) 16 =
     le_bytes 4 typ @ load_bytes m (ack_local L + 4) 4 @ le_bytes 8 v"
proof -
  let ?a = "ack_local L"
  have F: "ack_init L typ m = store_bytes m ?a (le_bytes 4 typ @ load_bytes m (?a + 4) 4 @ le_bytes 8 (0 :: u64))"
    by (simp add: ack_init_def header_written)
  have "wr64 (ack_init L typ m) (?a + of_nat 8) v = store_bytes m ?a (le_bytes 4 typ @ load_bytes m (?a + 4) 4 @ le_bytes 8 v)"
    unfolding F wr64_def by (subst store_slice) simp_all
  then show ?thesis by (simp add: load_store_same)
qed

lemma ack_parts: "region (ack_local L) 4 \<subseteq> region (ack_local L) 16" "region (ack_local L + 8) 8 \<subseteq> region (ack_local L) 16"
  "region (ack_local L + 4) 4 \<subseteq> region (ack_local L) 16"
  using subregion [of 0 4 16 "ack_local L"] subregion [of 8 8 16 "ack_local L"] subregion [of 4 4 16 "ack_local L"] by simp_all

lemma ack_init_store:
  assumes "region (ack_local L) 16 \<inter> region q (length bs) = {}"
  shows "store_bytes (ack_init L typ m) q bs = ack_init L typ (store_bytes m q bs)"
proof -
  have "region (ack_local L) 4 \<inter> region q (length bs) = {}" "region (ack_local L + 8) 8 \<inter> region q (length bs) = {}"
    using assms ack_parts by blast+
  then show ?thesis by (simp add: ack_init_def wr32_def wr64_def store_comm)
qed

text \<open>The memory a fragment leaves behind: the accepted bytes in the buffer, and the acknowledgement.\<close>

definition fragment_mem :: "net_layout \<Rightarrow> vy_netboot \<Rightarrow> mem \<Rightarrow> u8 list list \<Rightarrow> nat \<times> u8 list \<Rightarrow> mem" where
  "fragment_mem L n m cs f =
     (let M = (if fst f = length cs then store_bytes m (file_buffer n + of_nat (length (concat cs))) (snd f) else m)
      in wr64 (ack_init L CMD_FILE_FRAGMENT M) (ack_local L + 8) (of_nat (ack_number cs f)))"

text \<open>All the places of a transfer that a fragment is read from keep their content.\<close>

lemma transfer_apartD:
  assumes "transfer_apart L R phys msg msize info isize buf fsize"
  shows "region msg msize \<inter> region (ack_local L) 16 = {}" "region msg msize \<inter> region buf fsize = {}"
    "region info isize \<inter> region (ack_local L) 16 = {}" "region info isize \<inter> region buf fsize = {}"
    "region (ack_local L) 16 \<inter> region buf fsize = {}" "region buf fsize \<inter> region (ack_local L) 16 = {}"
    "region msg msize \<inter> region phys 8192 = {}" "region info isize \<inter> region phys 8192 = {}" "region buf fsize \<inter> region phys 8192 = {}"
    "region (ack_local L) 16 \<inter> region phys 8192 = {}"
    "region msg msize \<inter> region (mac_local L) 6 = {}" "region info isize \<inter> region (mac_local L) 6 = {}" "region buf fsize \<inter> region (mac_local L) 6 = {}"
    "region (ack_local L) 16 \<inter> region (mac_local L) 6 = {}" "ack_local L \<noteq> 0"
    "region msg msize \<subseteq> R" "region info isize \<subseteq> R" "region buf fsize \<subseteq> R" "region (ack_local L) 16 \<subseteq> R"
  using assms unfolding transfer_apart_def by (simp_all add: Int_commute)

lemma fragment_mem_outside:
  assumes ap: "transfer_apart L R phys msg msize info isize (file_buffer n) fsize"
    and fits: "fst f = length cs \<longrightarrow> length (concat cs) + length (snd f) \<le> fsize"
    and x: "x \<notin> region (ack_local L) 16" "x \<notin> region (file_buffer n) fsize"
  shows "fragment_mem L n m cs f x = m x"
proof (cases "fst f = length cs")
  case True
  then have "region (file_buffer n + of_nat (length (concat cs))) (length (snd f)) \<subseteq> region (file_buffer n) fsize"
    using fits by (intro subregion) simp
  then have "x \<notin> region (file_buffer n + of_nat (length (concat cs))) (length (snd f))" using x by blast
  then show ?thesis using True x by (simp add: fragment_mem_def ack_mem store_outside)
qed (simp add: fragment_mem_def ack_mem x)

lemma fragment_buffer:
  assumes ap: "transfer_apart L R phys msg msize info isize (file_buffer n) fsize" and size: "fsize < 2 ^ 52"
    and fits: "fst f = length cs \<longrightarrow> length (concat cs) + length (snd f) \<le> fsize"
    and old: "load_bytes m (file_buffer n) (length (concat cs)) = concat cs" "length (concat cs) \<le> fsize"
  shows "load_bytes (fragment_mem L n m cs f) (file_buffer n) (length (concat (receive_chunk cs f))) = concat (receive_chunk cs f)"
proof -
  let ?buf = "file_buffer n" and ?k = "length (concat cs)"
  have away: "load_bytes (wr64 (ack_init L CMD_FILE_FRAGMENT M) (ack_local L + 8) v) ?buf j = load_bytes M ?buf j" if "j \<le> fsize" for M v j
    using transfer_apartD(6) [OF ap] region_mono [OF that, of ?buf] by (intro load_cong) (auto intro!: ack_mem)
  show ?thesis
  proof (cases "fst f = length cs")
    case True
    then have j: "?k + length (snd f) \<le> fsize" using fits by simp
    have "load_bytes (store_bytes m (?buf + of_nat ?k) (snd f)) ?buf (?k + length (snd f)) = concat cs @ snd f"
      using load_store_slice [of ?k "snd f" "?k + length (snd f)" m ?buf] j size old(1) by simp
    then show ?thesis using True j by (simp add: fragment_mem_def receive_chunk_def away)
  qed (use old away [of ?k m] in \<open>simp add: fragment_mem_def receive_chunk_def\<close>)
qed

lemma transferring_step:
  assumes ap: "transfer_apart L R phys msg msize (file_info n) isize (file_buffer n) fsize" and isize: "16 \<le> isize"
    and tr: "transferring n m fsize per_packet cs" and fits: "fst f = length cs \<longrightarrow> length (concat cs) + length (snd f) \<le> fsize"
    and count: "Suc (length cs) < 2 ^ 52"
  shows "transferring (accept_state n cs f) (fragment_mem L n m cs f) fsize per_packet (receive_chunk cs f)"
proof -
  let ?m2 = "fragment_mem L n m cs f"
  have rd: "rd64 ?m2 (file_info n + of_nat k) = rd64 m (file_info n + of_nat k)" if "k + 8 \<le> isize" for k
  proof (rule c64.rd_cong)
    fix x assume "x \<in> region (file_info n + of_nat k) 8"
    then have "x \<in> region (file_info n) isize" using subregion [OF that] by blast
    then show "?m2 x = m x"
      using transfer_apartD(3,4) [OF ap] by (intro fragment_mem_outside [OF ap fits]) blast+
  qed
  have "load_bytes ?m2 (file_buffer n) (length (concat (receive_chunk cs f))) = concat (receive_chunk cs f)"
    using ap _ fits by (rule fragment_buffer) (use tr in \<open>simp_all add: transferring_def\<close>)
  then show ?thesis
    using tr fits count rd [of 0] rd [of 8] isize
    by (auto simp: transferring_def accept_state_def receive_chunk_def)
qed

section \<open>One fragment\<close>

lemma fragment_reads:
  assumes "fragment_at m msg f" and "\<And>x. x \<in> region msg (32 + length (snd f)) \<Longrightarrow> m' x = m x"
  shows "fragment_at m' msg f"
proof -
  have cell: "rd64 m' (msg + of_nat k) = rd64 m (msg + of_nat k)" if "k + 8 \<le> 32" for k
    using assms(2) subregion [of k 8 "32 + length (snd f)" msg] that by (intro c64.rd_cong) auto
  have "rd32 m' msg = rd32 m msg"
    using assms(2) subregion [of 0 4 "32 + length (snd f)" msg] by (intro c32.rd_cong) auto
  moreover have "load_bytes m' (msg + 32) (length (snd f)) = load_bytes m (msg + 32) (length (snd f))"
    using assms(2) subregion [of 32 "length (snd f)" "32 + length (snd f)" msg] by (intro load_cong) auto
  ultimately show ?thesis using assms(1) cell [of 16] cell [of 24] by (simp add: fragment_at_def)
qed

lemma fragment_prepared:
  fixes s :: "('w, 'z) netboot_machine_scheme"
  assumes n: "n = netboot_state s"
    and ap: "transfer_apart L R phys msg (32 + length (snd f)) (file_info n) isize (file_buffer n) area"
    and tr: "transferring n (mem s) fsize per_packet cs" and at: "fragment_at (mem s) msg f"
    and len: "length (snd f) \<le> per_packet" "fst f < 2 ^ 52"
    and fits: "fst f = length cs \<longrightarrow> length (concat cs) + length (snd f) \<le> area"
  shows "netboot_fragment B L msg s =
     netboot_cmd_send B L CMD_ACK (ack_local L) 16 (s\<lparr>mem := fragment_mem L n (mem s) cs f, netboot_state := accept_state n cs f\<rparr>)"
proof -
  define m1 where "m1 = ack_init L CMD_FILE_FRAGMENT (mem s)"
  have lims: "length cs < 2 ^ 52" "fsize < 2 ^ 52" "per_packet < 2 ^ 52" using tr by (simp_all add: transferring_def)
  have at1: "fragment_at m1 msg f"
  proof (rule fragment_reads [OF at])
    fix x assume "x \<in> region msg (32 + length (snd f))"
    then have "x \<notin> region (ack_local L) 16" using transfer_apartD(1) [OF ap] by blast
    then show "m1 x = mem s x" by (simp add: m1_def ack_mem)
  qed
  have "(of_nat per_packet :: u64) < of_nat (length (snd f)) \<longleftrightarrow> per_packet < length (snd f)"
    using len lims by (simp add: word_less_nat_alt unat_of_nat64)
  then have noprint: "\<not> rd64 (mem s) (file_info n + 8) < rd64 (mem s) (msg + 24)"
    using tr at len by (simp add: transferring_def fragment_at_def)
  have same: "(of_nat (fst f) :: u64) = of_nat (length cs) \<longleftrightarrow> fst f = length cs"
    using len(2) lims by (simp add: of_nat64_inj)
  have packets: "file_packets_transferred n = of_nat (length cs)" and bytes: "file_bytes_transferred n = of_nat (length (concat cs))"
    using tr by (simp_all add: transferring_def)
  have rd: "rd64 m1 (msg + 16) = of_nat (fst f)" "rd64 m1 (msg + 24) = of_nat (length (snd f))" using at1 by (simp_all add: fragment_at_def)
  show ?thesis
  proof (cases "fst f = length cs")
    case False
    have "(if (of_nat (fst f) :: u64) < of_nat (length cs) then of_nat (fst f) else of_nat (length cs)) = (of_nat (ack_number cs f) :: u64)"
      using len(2) lims by (auto simp: ack_number_def word_less_nat_alt unat_of_nat64)
    then show ?thesis
      using False same rd packets noprint n
      by (simp add: netboot_fragment_def Let_def fragment_mem_def accept_state_def add.assoc flip: m1_def) (auto split: if_splits)
  next
    case True
    let ?q = "file_buffer n + of_nat (length (concat cs))"
    have sub: "region ?q (length (snd f)) \<subseteq> region (file_buffer n) area" using True fits by (intro subregion) simp
    have src: "region (msg + of_nat 32) (length (snd f)) \<subseteq> region msg (32 + length (snd f))" by (rule subregion) simp
    have small: "length (snd f) < 2 ^ 52" using len lims by simp
    have "memcpy m1 ?q (msg + 32) (length (snd f)) = store_bytes m1 ?q (snd f)"
      using at1 sub src transfer_apartD(2) [OF ap] small
      by (subst memcpy_store) (auto simp: fragment_at_def)
    also have "\<dots> = ack_init L CMD_FILE_FRAGMENT (store_bytes (mem s) ?q (snd f))"
      unfolding m1_def using sub transfer_apartD(5) [OF ap] by (intro ack_init_store) blast
    finally have copy: "memcpy m1 ?q (msg + 32) (length (snd f)) = ack_init L CMD_FILE_FRAGMENT (store_bytes (mem s) ?q (snd f))" .
    define m2 where "m2 = wr64 (ack_init L CMD_FILE_FRAGMENT (store_bytes (mem s) ?q (snd f))) (ack_local L + 8) (of_nat (length cs))"
    have "fragment_at m2 msg f"
    proof (rule fragment_reads [OF at])
      fix x assume x: "x \<in> region msg (32 + length (snd f))"
      then have "x \<notin> region (ack_local L) 16" "x \<notin> region ?q (length (snd f))"
        using transfer_apartD(1,2) [OF ap] sub by blast+
      then show "m2 x = mem s x" by (simp add: m2_def ack_mem store_outside)
    qed
    then have rd2: "rd64 m2 (msg + 24) = of_nat (length (snd f))" by (simp add: fragment_at_def)
    have m2: "fragment_mem L n (mem s) cs f = m2" using True by (simp add: fragment_mem_def ack_number_def m2_def)
    have u: "unat (of_nat (length (snd f)) :: u64) = length (snd f)" using small by (simp add: unat_of_nat64)
    show ?thesis
      using True same rd packets noprint bytes copy rd2 [unfolded m2_def] u m2 [unfolded m2_def] unfolding n
      by (simp add: netboot_fragment_def Let_def accept_state_def add.assoc update_netboot_def andthen_assoc flip: m1_def)
        (simp add: add.commute)
  qed
qed

lemma transferring_cong:
  assumes "transferring n m fsize per_packet cs" and "16 \<le> isize"
    and "\<And>x. x \<in> region (file_info n) isize \<Longrightarrow> m' x = m x" and "\<And>x. x \<in> region (file_buffer n) fsize \<Longrightarrow> m' x = m x"
  shows "transferring n m' fsize per_packet cs"
proof -
  have rd: "rd64 m' (file_info n + of_nat k) = rd64 m (file_info n + of_nat k)" if "k + 8 \<le> isize" for k
    using assms(3) subregion [OF that, of "file_info n"] by (intro c64.rd_cong) auto
  have "load_bytes m' (file_buffer n) (length (concat cs)) = load_bytes m (file_buffer n) (length (concat cs))"
    using assms(1,4) region_mono [of "length (concat cs)" fsize "file_buffer n"] by (intro load_cong) (auto simp: transferring_def)
  then show ?thesis using assms(1,2) rd [of 0] rd [of 8] by (simp add: transferring_def)
qed

text \<open>
  Everything a transfer relies on: the network is ready, the firmware serves
  \<open>k\<close> more requests, the parts lie apart, and the chunks \<open>cs\<close> have been accepted.
\<close>

definition transfer_inv ::
    "'w env \<Rightarrow> net_layout \<Rightarrow> addr set \<Rightarrow> (nat \<Rightarrow> 'w \<Rightarrow> bool) \<Rightarrow> addr \<Rightarrow> nat \<Rightarrow> nat \<Rightarrow> nat \<Rightarrow> nat \<Rightarrow>
     nat \<Rightarrow> u8 list list \<Rightarrow> ('w, 'z) netboot_machine_scheme \<Rightarrow> bool" where
  "transfer_inv B L R P msg msize isize fsize per_packet k cs s \<longleftrightarrow>
     pool_serves B R P \<and> P k (fw s) \<and> (\<exists>bs. net_ready L R s bs) \<and> 32 \<le> isize \<and> 32 + per_packet \<le> msize \<and>
     transfer_apart L R (eth_buffer_phys s) msg msize (file_info (netboot_state s)) isize (file_buffer (netboot_state s)) fsize \<and>
     transferring (netboot_state s) (mem s) fsize per_packet cs"

lemma apart_shorter:
  assumes "transfer_apart L R phys msg msize info isize buf fsize" and "j \<le> msize"
  shows "transfer_apart L R phys msg j info isize buf fsize"
proof -
  have "region msg j \<subseteq> region msg msize" using assms(2) by (rule region_mono)
  then show ?thesis using assms(1) unfolding transfer_apart_def by auto
qed

lemma accept_state_fields [simp]: "file_info (accept_state n cs f) = file_info n" "file_buffer (accept_state n cs f) = file_buffer n"
  "nb_state (accept_state n cs f) = nb_state n"
  by (simp_all add: accept_state_def)

lemma fragment_handled:
  fixes s :: "('w, 'z) netboot_machine_scheme"
  assumes inv: "transfer_inv B L R P msg msize isize fsize per_packet (Suc k) cs s" and at: "fragment_at (mem s) msg f"
    and len: "length (snd f) \<le> per_packet" "fst f < 2 ^ 52" "Suc (length cs) < 2 ^ 52"
    and fits: "fst f = length cs \<longrightarrow> length (concat cs) + length (snd f) \<le> fsize"
  shows "\<exists>s'. netboot_fragment B L msg s = Inr ((), s') \<and>
     transfer_inv B L R P msg msize isize fsize per_packet k (receive_chunk cs f) s' \<and> fragment_at (mem s') msg f \<and>
     (\<forall>x \<in> region (file_info (netboot_state s)) isize. mem s' x = mem s x) \<and>
     netboot_state s' = accept_state (netboot_state s) cs f \<and> eth_buffer_phys s' = eth_buffer_phys s \<and>
     net_poll_continue s' = net_poll_continue s \<and> net_stop_advertising s' = net_stop_advertising s"
proof -
  let ?n = "netboot_state s" and ?phys = "eth_buffer_phys s"
  define m2 where "m2 = fragment_mem L ?n (mem s) cs f"
  define s2 where "s2 = s\<lparr>mem := m2, netboot_state := accept_state ?n cs f\<rparr>"
  obtain bs where serves: "pool_serves B R P" and P: "P (Suc k) (fw s)" and ready: "net_ready L R s bs" and isize: "32 \<le> isize"
    and big: "transfer_apart L R ?phys msg msize (file_info ?n) isize (file_buffer ?n) fsize" and msize: "32 + per_packet \<le> msize"
    and tr: "transferring ?n (mem s) fsize per_packet cs"
    using inv by (auto simp: transfer_inv_def)
  have ap: "transfer_apart L R ?phys msg (32 + length (snd f)) (file_info ?n) isize (file_buffer ?n) fsize"
    using big by (rule apart_shorter) (use len msize in simp)
  note D = transfer_apartD [OF ap]
  have run: "netboot_fragment B L msg s = netboot_cmd_send B L CMD_ACK (ack_local L) 16 s2"
    unfolding s2_def m2_def using refl ap tr at len(1,2) fits by (rule fragment_prepared)
  have out: "m2 x = mem s x" if "x \<notin> region (ack_local L) 16" "x \<notin> region (file_buffer ?n) fsize" for x
    unfolding m2_def using ap fits that by (rule fragment_mem_outside)
  have blk: "m2 x = mem s x" if "x \<in> region ?phys 8192" for x
    using that D(9,10) by (intro out) blast+
  have "net_ready L R s2 bs"
    using ready by (rule net_ready_cong) (use blk in \<open>simp_all add: s2_def\<close>)
  moreover have "data_in_use L R (eth_buffer_phys s2) (ack_local L) (unat (16 :: u64))"
    using D by (simp add: data_in_use_def)
  moreover have "P (Suc k) (fw s2)" using P by (simp add: s2_def)
  ultimately obtain s' bs' where send: "netboot_cmd_send B L CMD_ACK (ack_local L) 16 s2 = Inr ((), s')" "net_ready L R s' bs'" "P k (fw s')"
      and keep: "\<And>x. x \<in> R - send_mem L ?phys \<Longrightarrow> mem s' x = m2 x" and more: "net_machine.more s' = net_machine.more s2"
      and ph: "eth_buffer_phys s' = ?phys"
    using cmd_send_total [OF serves, of k s2 L bs "ack_local L" 16 CMD_ACK] by (auto simp: s2_def)
  have n': "netboot_state s' = accept_state ?n cs f" "net_poll_continue s' = net_poll_continue s" "net_stop_advertising s' = net_stop_advertising s"
    using more by (cases s'; cases s; simp add: s2_def)+
  have info: "mem s' x = m2 x" if "x \<in> region (file_info ?n) isize" for x
    using that D(8,12,17) by (intro keep) (auto simp: send_mem_def)
  have buf: "mem s' x = m2 x" if "x \<in> region (file_buffer ?n) fsize" for x
    using that D(9,13,18) by (intro keep) (auto simp: send_mem_def)
  have msg: "mem s' x = mem s x" if x: "x \<in> region msg (32 + length (snd f))" for x
  proof -
    have "x \<in> R - send_mem L ?phys" "x \<notin> region (ack_local L) 16" "x \<notin> region (file_buffer ?n) fsize"
      using x D(1,2,7,11,16) unfolding send_mem_def by blast+
    then show ?thesis using keep out by simp
  qed
  have "transferring (accept_state ?n cs f) m2 fsize per_packet (receive_chunk cs f)"
    unfolding m2_def using ap _ tr fits len(3) by (rule transferring_step) (use isize in simp)
  then have tr': "transferring (accept_state ?n cs f) (mem s') fsize per_packet (receive_chunk cs f)"
    by (rule transferring_cong [where isize = isize]) (use isize info buf in simp_all)
  have "\<forall>x \<in> region (file_info ?n) isize. mem s' x = mem s x"
    using info out D(3,4) by (simp add: disjoint_iff)
  moreover have "fragment_at (mem s') msg f" using at msg by (rule fragment_reads)
  moreover have "transfer_inv B L R P msg msize isize fsize per_packet k (receive_chunk cs f) s'"
    using serves send(2,3) big ph n'(1) tr' isize msize by (auto simp: transfer_inv_def)
  ultimately show ?thesis using run send(1) n' ph by auto
qed

text \<open>A fragment that does not complete the file.\<close>

lemma no_command: "rd32 (mem s) msg = CMD_FILE_FRAGMENT \<Longrightarrow> netboot_command B L msg s = Inr ((), s)"
  by (simp add: netboot_command_def cmd_defs)

lemma receive_fragment:
  fixes s :: "('w, 'z) netboot_machine_scheme"
  assumes inv: "transfer_inv B L R P msg msize isize fsize per_packet (Suc k) cs s" and at: "fragment_at (mem s) msg f"
    and len: "length (snd f) \<le> per_packet" "fst f < 2 ^ 52" "Suc (length cs) < 2 ^ 52"
    and fits: "fst f = length cs \<longrightarrow> length (concat cs) + length (snd f) \<le> fsize"
    and more: "length (concat (receive_chunk cs f)) \<noteq> fsize"
  shows "\<exists>s'. netboot_cmd_receive B L msg s = Inr (EFI_SUCCESS, s') \<and>
     transfer_inv B L R P msg msize isize fsize per_packet k (receive_chunk cs f) s' \<and>
     (\<forall>x \<in> region (file_info (netboot_state s)) isize. mem s' x = mem s x) \<and>
     netboot_state s' = accept_state (netboot_state s) cs f"
proof -
  obtain s' where run: "netboot_fragment B L msg s = Inr ((), s')"
    and inv': "transfer_inv B L R P msg msize isize fsize per_packet k (receive_chunk cs f) s'" and at': "fragment_at (mem s') msg f"
    and info: "\<forall>x \<in> region (file_info (netboot_state s)) isize. mem s' x = mem s x"
    and n': "netboot_state s' = accept_state (netboot_state s) cs f"
    using fragment_handled [OF inv at len fits] by blast
  have tr': "transferring (netboot_state s') (mem s') fsize per_packet (receive_chunk cs f)" using inv' by (simp add: transfer_inv_def)
  then have "length (concat (receive_chunk cs f)) < 2 ^ 64" "fsize < 2 ^ 64" by (simp_all add: transferring_def)
  then have "file_bytes_transferred (netboot_state s') \<noteq> rd64 (mem s') (file_info (netboot_state s'))"
    using tr' more by (simp add: transferring_def of_nat64_inj)
  moreover have "rd32 (mem s) msg = CMD_FILE_FRAGMENT" "rd32 (mem s') msg = CMD_FILE_FRAGMENT"
    using at at' by (simp_all add: fragment_at_def)
  moreover have "nb_state (netboot_state s) = STATE_FILE_TRANSFER" using inv by (simp add: transfer_inv_def transferring_def)
  ultimately show ?thesis
    using run inv' info n' by (simp add: netboot_cmd_receive_def netboot_transfer_def andthen_Inr andthen_assoc no_command)
qed

section \<open>The last fragment\<close>

text \<open>
  The volume takes the file: the calls by which this file is stored succeed, from the loader's own image to the volume it came from, and there to a
  file with this path and content.
\<close>

definition volume_ok :: "'w env \<Rightarrow> net_layout \<Rightarrow> string \<Rightarrow> u8 list \<Rightarrow> bool" where
  "volume_ok B L path bytes \<longleftrightarrow>
     (\<forall>w. case HandleProtocol (HND B) w (image_handle L) LoadedImageProtocol of ((status, loaded_image), w1) \<Rightarrow> \<not> EFI_ERROR B status \<and>
       (case HandleProtocol (HND B) w1 (LoadedImage_DeviceHandle (HND B) w1 loaded_image) SimpleFileSystemProtocol of ((status, sfs), w2) \<Rightarrow> \<not> EFI_ERROR B status \<and>
       (case OpenVolume (VOL B) w2 sfs of ((status, root), w3) \<Rightarrow> \<not> EFI_ERROR B status \<and>
       (case File_Open (VOL B) w3 root (map (\<lambda>c. ucast (of_char c :: u8)) path) MODE_CREATE_READ_WRITE of ((status, handle), w4) \<Rightarrow> \<not> EFI_ERROR B status \<and>
       \<not> EFI_ERROR B (fst (fst (File_Write (VOL B) w4 handle bytes)))))))"

text \<open>What the firmware has done when a file with this path and content was stored.\<close>

definition file_stored :: "'w env \<Rightarrow> string \<Rightarrow> u8 list \<Rightarrow> 'w \<Rightarrow> bool" where
  "file_stored B path bytes w' \<longleftrightarrow>
     (\<exists>w root status handle w1. File_Open (VOL B) w root (map (\<lambda>c. ucast (of_char c :: u8)) path) MODE_CREATE_READ_WRITE = ((status, handle), w1) \<and>
        w' = say (callback B) [''Transferred file '', path, [CHR 0x0A]]
               (snd (File_Close (VOL B) (snd (File_Write (VOL B) w1 handle bytes)) handle)))"

lemma printed_transferred:
  assumes "cstring_at (mem s) p (map of_char path)" and "length path < 2 ^ 30"
  shows "\<exists>k. efi_printf B (''Transferred file %s'' @ [CHR 0x0A]) [p] s =
     Inr (k, s\<lparr>fw := say (callback B) [''Transferred file '', path, [CHR 0x0A]] (fw s)\<rparr>)"
proof -
  let ?m = "mem s" and ?cb = "callback B"
  have str: "convert ?m ?cb no_flags 0 (- 1) LENGTH_DEFAULT (CHR ''s'') (w, p # args) =
      Inr (of_nat (length path), (say ?cb [path] w, args))" for w args
    using assms(2) by (intro console.convert_string assms(1)) simp
  have "vcbprintf_loop ?m ?cb (''Transferred file '' @ CHR ''%'' # CHR ''s'' # [CHR 0x0A]) 0 False (fw s, [p]) =
      vcbprintf_loop ?m ?cb [CHR 0x0A] (17 + of_nat (length path)) False (say ?cb [''Transferred file '', path] (fw s), [])"
    by (subst console.loop_run_conversion [OF _ _ plain_s known_plain(1) _ str]) (simp_all add: say_Cons)
  also have "\<dots> = Inr (17 + of_nat (length path) + 1, (say ?cb [''Transferred file '', path, [CHR 0x0A]] (fw s), []))"
    by (subst console.loop_literal) (simp_all add: say_Cons)
  finally show ?thesis by (simp add: efi_printf_def vcbprintf_def Let_def)
qed

definition waiting_state :: vy_netboot where
  "waiting_state = netboot_initial\<lparr>nb_state := STATE_CMD_WAIT\<rparr>"

lemma path_converted:
  assumes "cstring_at m p (map of_char path)" and "ascii (map of_char path)" and "length path < 2000"
    and "region q (2 * length path + 2) \<inter> region p (length path + 1) = {}"
  shows "\<exists>m'. uefi_to_ucs2 m p q = Some m' \<and> wide_at m' q (map (\<lambda>c. ucast (of_char c :: u8)) path) \<and>
     (\<forall>x. x \<notin> region q (2 * length path + 2) \<longrightarrow> m' x = m x)"
  using ucs2_loop_ascii [of m p 0 "map of_char path" q] assms by (simp add: uefi_to_ucs2_def comp_def Int_commute)

lemma units_nonzero: "cstring_at m p (map of_char path) \<Longrightarrow> 0 \<notin> set (map (\<lambda>c. ucast (of_char c :: u8) :: u16) path)"
proof
  assume cs: "cstring_at m p (map of_char path)" and "0 \<in> set (map (\<lambda>c. ucast (of_char c :: u8) :: u16) path)"
  then obtain c where "c \<in> set path" and z: "(ucast (of_char c :: u8) :: u16) = 0" by auto
  have "unat (of_char c :: u8) < 2 ^ 16" using unsigned_less [of "of_char c :: u8", where ?'a = nat] by simp
  then have "unat (ucast (of_char c :: u8) :: u16) = unat (of_char c :: u8)"
    by (simp add: unsigned_ucast_eq take_bit_nat_eq_self)
  then have "(of_char c :: u8) = 0" using z by (simp add: unat_eq_zero)
  with \<open>c \<in> set path\<close> cs show False by (auto simp: cstring_at_def image_iff)
qed

lemma file_done_run:
  fixes s :: "('w, 'z) netboot_machine_scheme"
  assumes serves: "pool_serves B R P" and P: "P (Suc k) (fw s)" and vol: "volume_ok B L path bytes"
    and info: "region (file_info (netboot_state s)) isize \<subseteq> R" "33 + length path \<le> isize" "length path < 2000"
    and path: "cstring_at (mem s) (file_info (netboot_state s) + 32) (map of_char path)" "ascii (map of_char path)"
    and size: "rd64 (mem s) (file_info (netboot_state s)) = of_nat (length bytes)" "length bytes < 2 ^ 52"
    and buf: "region (file_buffer (netboot_state s)) (length bytes) \<subseteq> R" "load_bytes (mem s) (file_buffer (netboot_state s)) (length bytes) = bytes"
  shows "\<exists>s'. netboot_file_done B L s = Inr ((), s') \<and> netboot_state s' = waiting_state \<and> file_stored B path bytes (fw s') \<and>
     (\<forall>x \<in> R - region (file_info (netboot_state s)) isize. mem s' x = mem s x)"
proof -
  let ?info = "file_info (netboot_state s)" and ?l = "length path" and ?us = "map (\<lambda>c. ucast (of_char c :: u8) :: u16) path"
  have len: "strlen (mem s) (?info + 32) = Some (of_nat ?l)" using strlen_cstring [OF path(1)] by simp
  have sz: "unat (push_bit 1 (of_nat ?l + 1 :: u64)) = 2 * ?l + 2"
    using info(3) unat_of_nat64 [of "2 * ?l + 2"] by (simp add: push_bit_eq_mult algebra_simps)
  obtain a0 q w1 where al: "AllocatePool B (fw s) (push_bit 1 (of_nat ?l + 1)) = ((a0, q), w1)" by (metis surj_pair)
  have ok0: "\<not> EFI_ERROR B a0" and q: "region q (2 * ?l + 2) \<inter> R = {}"
    using pool_servesD(1) [OF serves P _ al] sz info(3) by simp_all
  have p_in: "region (?info + 32) (?l + 1) \<subseteq> R" using subregion [of 32 "?l + 1" isize ?info] info by auto
  then have "region q (2 * ?l + 2) \<inter> region (?info + 32) (?l + 1) = {}" using q by blast
  then obtain m1 where conv: "uefi_to_ucs2 (mem s) (?info + 32) q = Some m1" and wide: "wide_at m1 q ?us"
      and m1: "\<And>x. x \<notin> region q (2 * ?l + 2) \<Longrightarrow> m1 x = mem s x"
    using path_converted [OF path info(3)] by blast
  have keep: "m1 x = mem s x" if "x \<in> R" for x using that q by (intro m1) blast
  obtain a1 li w2 where 1: "HandleProtocol (HND B) w1 (image_handle L) LoadedImageProtocol = ((a1, li), w2)" by (metis surj_pair)
  obtain a2 sfs w3 where 2: "HandleProtocol (HND B) w2 (LoadedImage_DeviceHandle (HND B) w2 li) SimpleFileSystemProtocol = ((a2, sfs), w3)" by (metis surj_pair)
  obtain a3 root w4 where 3: "OpenVolume (VOL B) w3 sfs = ((a3, root), w4)" by (metis surj_pair)
  obtain a4 h w5 where 4: "File_Open (VOL B) w4 root ?us MODE_CREATE_READ_WRITE = ((a4, h), w5)" by (metis surj_pair)
  obtain a5 wr w6 where 5: "File_Write (VOL B) w5 h bytes = ((a5, wr), w6)" by (metis surj_pair)
  obtain a6 w7 where 6: "File_Close (VOL B) w6 h = (a6, w7)" by (metis surj_pair)
  have ok: "\<not> EFI_ERROR B a1" "\<not> EFI_ERROR B a2" "\<not> EFI_ERROR B a3" "\<not> EFI_ERROR B a4" "\<not> EFI_ERROR B a5"
    using spec [OF vol [unfolded volume_ok_def], of w1] by (simp_all add: 1 2 3 4 5)
  have wlen: "efi_strlen m1 q = Some (of_nat ?l)" using efi_strlen_wide [OF wide units_nonzero [OF path(1)]] by simp
  have units: "map (\<lambda>i. rd16 m1 (q + 2 * of_nat i)) [0..<?l] = ?us" using wide_units [OF wide] by simp
  have ul: "unat (of_nat ?l :: u64) = ?l" using info(3) by (simp add: unat_of_nat64)
  have "rd64 m1 ?info = rd64 (mem s) ?info"
    using info keep region_mono [of 8 isize ?info] by (intro c64.rd_cong) auto
  then have fs: "unat (rd64 m1 ?info) = length bytes" using size by (simp add: unat_of_nat64)
  have bts: "load_bytes m1 (file_buffer (netboot_state s)) (length bytes) = bytes"
    using buf keep load_cong [of "file_buffer (netboot_state s)" "length bytes" m1 "mem s"] by (metis subset_iff)
  define s7 where "s7 = s\<lparr>mem := wr64 m1 ?info wr, fw := w7\<rparr>"
  have "cstring_at (mem s7) (?info + 32) (map of_char path)"
  proof (rule cstring_at_cong [OF path(1)])
    fix x assume x: "x \<in> region (?info + 32) (length (map of_char path) + 1)"
    have "region ?info 8 \<inter> region (?info + 32) (?l + 1) = {}" using offsets_apart [of 0 8 32 "?l + 1" ?info] info(3) by simp
    then have "x \<notin> region ?info 8" and "x \<in> R" using x p_in by auto
    then show "mem s7 x = mem s x" using keep by (simp add: s7_def c64.wr_outside)
  qed
  then obtain c where pr: "efi_printf B (''Transferred file %s'' @ [CHR 0x0A]) [?info + 32] s7 =
      Inr (c, s7\<lparr>fw := say (callback B) [''Transferred file '', path, [CHR 0x0A]] w7\<rparr>)"
    using printed_transferred [of s7 "?info + 32" path B] info(3) by (auto simp: s7_def)
  have "netboot_file_done B L s = Inr ((), s7\<lparr>fw := say (callback B) [''Transferred file '', path, [CHR 0x0A]] w7, netboot_state := waiting_state\<rparr>)"
    using pr ok ok0
    by (simp add: netboot_file_done_def andthen_def fwcall_def malloc_def EFIERR_ok len al [simplified] conv or_undefined_def 1 2 3 4 5 6
        wlen ul units fs bts update_netboot_def waiting_state_def netboot_initial_def s7_def)
  moreover have "file_stored B path bytes (say (callback B) [''Transferred file '', path, [CHR 0x0A]] w7)"
    unfolding file_stored_def using 4 5 6 by fastforce
  moreover have "mem s7 x = mem s x" if "x \<in> R - region ?info isize" for x
  proof -
    have "x \<notin> region ?info 8" using that info(2) region_mono [of 8 isize ?info] by auto
    then show ?thesis using that keep by (simp add: s7_def c64.wr_outside)
  qed
  ultimately show ?thesis by simp
qed

text \<open>The path behind the file description, and a transfer that has it.\<close>

definition path_at :: "mem \<Rightarrow> addr \<Rightarrow> nat \<Rightarrow> string \<Rightarrow> bool" where
  "path_at m info isize path \<longleftrightarrow>
     cstring_at m (info + 32) (map of_char path) \<and> ascii (map of_char path) \<and> 33 + length path \<le> isize \<and> length path < 2000"

lemma path_at_cong: "path_at m info isize path \<Longrightarrow> (\<And>x. x \<in> region info isize \<Longrightarrow> m' x = m x) \<Longrightarrow> path_at m' info isize path"
  unfolding path_at_def using subregion [of 32 "length path + 1" isize info] cstring_at_cong [of m "info + 32" "map of_char path" m'] by auto

lemma receive_last_fragment:
  fixes s :: "('w, 'z) netboot_machine_scheme"
  assumes inv: "transfer_inv B L R P msg msize isize fsize per_packet (Suc (Suc k)) cs s" and at: "fragment_at (mem s) msg f"
    and len: "length (snd f) \<le> per_packet" "fst f < 2 ^ 52" "Suc (length cs) < 2 ^ 52"
    and fits: "fst f = length cs \<longrightarrow> length (concat cs) + length (snd f) \<le> fsize"
    and complete: "length (concat (receive_chunk cs f)) = fsize" and vol: "volume_ok B L path (concat (receive_chunk cs f))"
    and path: "path_at (mem s) (file_info (netboot_state s)) isize path"
  shows "\<exists>s'. netboot_cmd_receive B L msg s = Inr (EFI_SUCCESS, s') \<and> netboot_state s' = waiting_state \<and>
     file_stored B path (concat (receive_chunk cs f)) (fw s')"
proof -
  let ?n = "netboot_state s" and ?bytes = "concat (receive_chunk cs f)"
  obtain s1 where run: "netboot_fragment B L msg s = Inr ((), s1)"
    and inv1: "transfer_inv B L R P msg msize isize fsize per_packet (Suc k) (receive_chunk cs f) s1" and at1: "fragment_at (mem s1) msg f"
    and info: "\<forall>x \<in> region (file_info ?n) isize. mem s1 x = mem s x" and n1: "netboot_state s1 = accept_state ?n cs f"
    using fragment_handled [OF inv at len fits] by blast
  have tr1: "transferring (netboot_state s1) (mem s1) fsize per_packet (receive_chunk cs f)" and serves: "pool_serves B R P"
    and P1: "P (Suc k) (fw s1)" and msize: "32 + per_packet \<le> msize"
    and ap: "transfer_apart L R (eth_buffer_phys s1) msg msize (file_info ?n) isize (file_buffer ?n) fsize"
    using inv1 n1 by (auto simp: transfer_inv_def)
  have path1: "path_at (mem s1) (file_info ?n) isize path" using path by (rule path_at_cong) (use info in blast)
  have eq: "file_bytes_transferred (netboot_state s1) = rd64 (mem s1) (file_info (netboot_state s1))"
    using tr1 complete by (simp add: transferring_def)
  have size: "rd64 (mem s1) (file_info (netboot_state s1)) = of_nat (length ?bytes)" "length ?bytes < 2 ^ 52"
    "load_bytes (mem s1) (file_buffer (netboot_state s1)) (length ?bytes) = ?bytes"
    using tr1 complete by (simp_all add: transferring_def)
  obtain s2 where fin: "netboot_file_done B L s1 = Inr ((), s2)" "netboot_state s2 = waiting_state" "file_stored B path ?bytes (fw s2)"
      and keep: "\<forall>x \<in> R - region (file_info ?n) isize. mem s2 x = mem s1 x"
    using file_done_run [OF serves P1 vol, of isize] transfer_apartD(17,18) [OF ap] path1 size n1 complete
    by (auto simp: path_at_def)
  have "apart [(msg, msize), (file_info ?n, isize)]" using ap by (simp add: transfer_apart_def)
  then have "mem s2 x = mem s1 x" if "x \<in> region msg (32 + length (snd f))" for x
    using that keep transfer_apartD(16) [OF ap] region_mono [of "32 + length (snd f)" msize msg] len(1) msize by (auto simp: disjoint_iff)
  then have "fragment_at (mem s2) msg f" by (rule fragment_reads [OF at1])
  then have "rd32 (mem s) msg = CMD_FILE_FRAGMENT" "rd32 (mem s2) msg = CMD_FILE_FRAGMENT" using at by (simp_all add: fragment_at_def)
  moreover have "nb_state ?n = STATE_FILE_TRANSFER" using inv by (simp add: transfer_inv_def transferring_def)
  ultimately show ?thesis
    using run fin eq by (simp add: netboot_cmd_receive_def netboot_transfer_def andthen_Inr andthen_assoc no_command)
qed


section \<open>Any sequence of fragments\<close>

text \<open>Fragments arrive one after the other at \<open>msg\<close>, and the handler runs on each.\<close>

fun deliver :: "'w env \<Rightarrow> net_layout \<Rightarrow> addr \<Rightarrow> u8 list \<Rightarrow> (nat \<times> u8 list) list \<Rightarrow> ('w, 'z, efi_status) nb_run" where
  "deliver B L msg pad [] = ret EFI_SUCCESS"
| "deliver B L msg pad (f # fs) =
     andthen (set_mem (\<lambda>m. store_bytes m msg (fragment_message pad f))) (\<lambda>_.
     andthen (netboot_cmd_receive B L msg) (\<lambda>_.
     deliver B L msg pad fs))"

lemma length_fragment_message: "length pad = 4 \<Longrightarrow> length (fragment_message pad f) = 32 + length (snd f)"
  by (simp add: fragment_message_def length_message)

lemma fragment_message_at:
  assumes pad: "length pad = 4" and len: "length (snd f) < 2 ^ 52"
  shows "fragment_at (store_bytes m msg (fragment_message pad f)) msg f"
proof -
  let ?M = "fragment_message pad f"
  let ?m = "store_bytes m msg ?M"
  have l: "length ?M = 32 + length (snd f)" using pad by (rule length_fragment_message)
  have all: "load_bytes ?m msg (32 + length (snd f)) = ?M" using l len by (simp add: load_store_same)
  have part: "load_bytes ?m (msg + of_nat k) j = take j (drop k ?M)" if "k + j \<le> 32 + length (snd f)" for k j
    using load_part [OF that, of ?m msg] by (simp only: all)
  have "rd32 ?m msg = CMD_FILE_FRAGMENT"
    using part [of 0 4] by (simp add: rd32_def fragment_message_def netboot_message_def le_word_le_bytes)
  moreover have "rd64 ?m (msg + 16) = of_nat (fst f)"
    using part [of 16 8] pad by (simp add: rd64_def fragment_message_def netboot_message_def le_word_le_bytes)
  moreover have "rd64 ?m (msg + 24) = of_nat (length (snd f))"
    using part [of 24 8] pad by (simp add: rd64_def fragment_message_def netboot_message_def le_word_le_bytes)
  moreover have "load_bytes ?m (msg + 32) (length (snd f)) = snd f"
    using part [of 32 "length (snd f)"] pad by (simp add: fragment_message_def netboot_message_def)
  ultimately show ?thesis by (simp add: fragment_at_def)
qed

text \<open>A new message in the receive buffer does not disturb the transfer.\<close>

lemma transfer_inv_message:
  assumes inv: "transfer_inv B L R P msg msize isize fsize per_packet k cs s" and M: "length M \<le> msize"
  shows "transfer_inv B L R P msg msize isize fsize per_packet k cs (s\<lparr>mem := store_bytes (mem s) msg M\<rparr>)"
    and "x \<in> region (file_info (netboot_state s)) isize \<Longrightarrow> store_bytes (mem s) msg M x = mem s x"
proof -
  let ?n = "netboot_state s" and ?m = "store_bytes (mem s) msg M"
  have ap: "apart [(msg, msize), (file_info ?n, isize), (file_buffer ?n, fsize), (ack_local L, 16), (mac_local L, 6), (eth_buffer_phys s, 8192)]"
    and tr: "transferring ?n (mem s) fsize per_packet cs" and isize: "32 \<le> isize"
    using inv by (simp_all add: transfer_inv_def transfer_apart_def)
  have keep: "?m x = mem s x" if "x \<notin> region msg msize" for x using that M by (rule store_outside_le)
  have info: "?m x = mem s x" if "x \<in> region (file_info ?n) isize" for x using ap that by (intro keep) auto
  then show "x \<in> region (file_info ?n) isize \<Longrightarrow> ?m x = mem s x" .
  have buf: "?m x = mem s x" if "x \<in> region (file_buffer ?n) fsize" for x using ap that by (intro keep) auto
  have "16 \<le> isize" using isize by simp
  from transferring_cong [OF tr this info buf] have "transferring ?n ?m fsize per_packet cs" .
  moreover have "\<And>bs. net_ready L R s bs \<Longrightarrow> net_ready L R (s\<lparr>mem := ?m\<rparr>) bs"
  proof (rule net_ready_cong)
    fix x assume "x \<in> region (eth_buffer_phys s) 8192"
    then have "x \<notin> region msg msize" using ap by auto
    then show "mem (s\<lparr>mem := ?m\<rparr>) x = mem s x" by (simp add: keep)
  qed simp_all
  moreover obtain bs where "net_ready L R s bs" using inv by (auto simp: transfer_inv_def)
  ultimately show "transfer_inv B L R P msg msize isize fsize per_packet k cs (s\<lparr>mem := ?m\<rparr>)"
    using inv by (auto simp: transfer_inv_def)
qed

lemma deliver_ignored:
  assumes "length pad = 4" and "nb_state (netboot_state s) \<noteq> STATE_FILE_TRANSFER" and "\<forall>f \<in> set fs. length (snd f) < 2 ^ 52"
  shows "\<exists>m. deliver B L msg pad fs s = Inr (EFI_SUCCESS, s\<lparr>mem := m\<rparr>)"
  using assms(2,3)
proof (induction fs arbitrary: s)
  case Nil
  then show ?case by (intro exI [of _ "mem s"]) simp
next
  case (Cons f fs)
  let ?s = "s\<lparr>mem := store_bytes (mem s) msg (fragment_message pad f)\<rparr>"
  have "fragment_at (mem ?s) msg f" using fragment_message_at [OF assms(1), of f "mem s" msg] Cons.prems(2) by simp
  then have "netboot_command B L msg ?s = Inr ((), ?s)" by (intro no_command) (simp add: fragment_at_def)
  then have "netboot_cmd_receive B L msg ?s = Inr (EFI_SUCCESS, ?s)"
    using Cons.prems(1) by (simp add: netboot_cmd_receive_def andthen_Inr)
  moreover obtain m where "deliver B L msg pad fs ?s = Inr (EFI_SUCCESS, ?s\<lparr>mem := m\<rparr>)" using Cons.IH [of ?s] Cons.prems by auto
  ultimately show ?case by (auto simp: andthen_Inr)
qed

lemma prefix_full:
  assumes "length (concat (take k file)) = length (concat file)"
  shows "concat (take k file) = concat file"
proof -
  have "concat file = concat (take k file) @ concat (drop k file)" by (metis append_take_drop_id concat_append)
  then show ?thesis using assms by simp
qed

lemma prefix_size: "j \<le> i \<Longrightarrow> length (concat (take j file)) \<le> length (concat (take i file))"
proof -
  assume "j \<le> i"
  then have "take i file = take j file @ take (i - j) (drop j file)" by (metis add_diff_inverse_nat not_le take_add)
  then show ?thesis by simp
qed

lemma prefix_le: "length (concat (take j file)) \<le> length (concat file)"
  using prefix_size [of j "length file" "file"] by (cases "j \<le> length file") simp_all

lemma fold_prefix:
  "\<forall>f \<in> set fs. of_file file f \<Longrightarrow> n \<le> length file \<Longrightarrow>
     \<exists>k \<ge> n. k \<le> length file \<and> foldl receive_chunk (take n file) fs = take k file"
proof (induction fs arbitrary: n)
  case (Cons f fs)
  obtain j where "j \<ge> n" "j \<le> length file" "receive_chunk (take n file) f = take j file"
    using receive_chunk_prefix [of "file" f "take n file" n] Cons.prems by auto
  with Cons.IH [of j] Cons.prems show ?case by (auto intro: order_trans)
qed auto

lemma chunk_fits: "of_file file f \<Longrightarrow> fst f = length (take n file) \<Longrightarrow> n \<le> length file \<Longrightarrow>
    length (concat (take n file)) + length (snd f) \<le> length (concat file)"
proof -
  assume f: "of_file file f" "fst f = length (take n file)" "n \<le> length file"
  then have "take (Suc n) file = take n file @ [snd f]" by (simp add: of_file_def take_Suc_conv_app_nth)
  then show ?thesis using prefix_le [of "Suc n" "file"] by simp
qed

lemma deliver_run:
  fixes s :: "('w, 'z) netboot_machine_scheme"
  assumes pad: "length pad = 4" and vol: "volume_ok B L path (concat file)" and whole: "length (concat file) = fsize" "length file < 2 ^ 51"
    and fs: "\<forall>f \<in> set fs. of_file file f \<and> length (snd f) \<le> per_packet"
    and inv: "transfer_inv B L R P msg msize isize fsize per_packet (k + Suc (length fs)) (take n file) s" and n: "n \<le> length file"
    and part: "length (concat (take n file)) \<noteq> fsize" and path: "path_at (mem s) (file_info (netboot_state s)) isize path"
  shows "\<exists>s'. deliver B L msg pad fs s = Inr (EFI_SUCCESS, s') \<and>
     (if length (concat (foldl receive_chunk (take n file) fs)) = fsize
      then netboot_state s' = waiting_state \<and> file_stored B path (concat file) (fw s')
      else transfer_inv B L R P msg msize isize fsize per_packet (Suc k) (foldl receive_chunk (take n file) fs) s')"
  using fs inv n part path
proof (induction fs arbitrary: s n)
  case Nil
  then show ?case by simp
next
  case (Cons f fs)
  let ?s1 = "s\<lparr>mem := store_bytes (mem s) msg (fragment_message pad f)\<rparr>" and ?cs = "take n file"
  have msize: "32 + per_packet \<le> msize" and small: "per_packet < 2 ^ 52"
    using Cons.prems(2) by (simp_all add: transfer_inv_def transferring_def)
  have f: "of_file file f" "length (snd f) \<le> per_packet" using Cons.prems(1) by auto
  then have M: "length (fragment_message pad f) \<le> msize" using msize by (simp add: length_fragment_message [OF pad])
  note inv1 = transfer_inv_message [OF Cons.prems(2) M]
  have inv2: "transfer_inv B L R P msg msize isize fsize per_packet (Suc (Suc (k + length fs))) ?cs ?s1" using inv1(1) by simp
  have at: "fragment_at (mem ?s1) msg f" using fragment_message_at [OF pad, of f "mem s" msg] f small by simp
  have path1: "path_at (mem ?s1) (file_info (netboot_state ?s1)) isize path"
    using path_at_cong [OF Cons.prems(5), of "mem ?s1"] inv1(2) by simp
  have len: "fst f < 2 ^ 52" "Suc (length ?cs) < 2 ^ 52" using f(1) whole(2) by (auto simp: of_file_def)
  have fits: "fst f = length ?cs \<longrightarrow> length (concat ?cs) + length (snd f) \<le> fsize"
    using chunk_fits [OF f(1) _ Cons.prems(3)] whole(1) by simp
  obtain j where j: "j \<ge> n" "j \<le> length file" "receive_chunk ?cs f = take j file"
    using receive_chunk_prefix [OF f(1) refl Cons.prems(3)] by blast
  show ?case
  proof (cases "length (concat (receive_chunk ?cs f)) = fsize")
    case True
    have all: "concat (take j file) = concat file" using prefix_full True j(3) whole(1) by metis
    then have full: "concat (receive_chunk ?cs f) = concat file" by (simp only: j(3))
    obtain s2 where s2: "netboot_cmd_receive B L msg ?s1 = Inr (EFI_SUCCESS, s2)" "netboot_state s2 = waiting_state"
        "file_stored B path (concat (receive_chunk ?cs f)) (fw s2)"
      using receive_last_fragment [OF inv2 at f(2) len fits True _ path1] vol full by metis
    have "nb_state (netboot_state s2) \<noteq> STATE_FILE_TRANSFER" by (simp add: s2(2) waiting_state_def)
    then obtain m where rest: "deliver B L msg pad fs s2 = Inr (EFI_SUCCESS, s2\<lparr>mem := m\<rparr>)"
      using deliver_ignored [OF pad, of s2 fs] Cons.prems(1) small by fastforce
    obtain i where "i \<ge> j" "foldl receive_chunk (take j file) fs = take i file"
      using fold_prefix [of fs "file" j] Cons.prems(1) j(2) by auto
    then have "length (concat (foldl receive_chunk (take j file) fs)) = fsize"
      using True j(3) prefix_size [of j i "file"] prefix_le [of i "file"] whole(1) by simp
    then show ?thesis using s2 rest j(3) all by (simp add: andthen_Inr)
  next
    case False
    obtain s2 where s2: "netboot_cmd_receive B L msg ?s1 = Inr (EFI_SUCCESS, s2)"
        "transfer_inv B L R P msg msize isize fsize per_packet (k + Suc (length fs)) (take j file) s2"
        "\<forall>x \<in> region (file_info (netboot_state ?s1)) isize. mem s2 x = mem ?s1 x"
        "netboot_state s2 = accept_state (netboot_state ?s1) ?cs f"
      using receive_fragment [OF inv2 at f(2) len fits False] j(3) by auto
    have "path_at (mem s2) (file_info (netboot_state s2)) isize path"
      using path_at_cong [OF path1, of "mem s2"] s2(3,4) by simp
    then obtain s3 where "deliver B L msg pad fs s2 = Inr (EFI_SUCCESS, s3)"
      and "if length (concat (foldl receive_chunk (take j file) fs)) = fsize
        then netboot_state s3 = waiting_state \<and> file_stored B path (concat file) (fw s3)
        else transfer_inv B L R P msg msize isize fsize per_packet (Suc k) (foldl receive_chunk (take j file) fs) s3"
      using Cons.IH [of j s2] s2(2) j False Cons.prems(1) by auto
    then show ?thesis using s2(1) j(3) by (simp add: andthen_Inr)
  qed
qed


section \<open>Starting a transfer\<close>

text \<open>The description of a file: its size, the bytes per packet, the packets, the length of the path, and the path.\<close>

definition file_description :: "nat \<Rightarrow> nat \<Rightarrow> nat \<Rightarrow> string \<Rightarrow> u8 list" where
  "file_description fsize per_packet packets path =
     le_bytes 8 (of_nat fsize :: u64) @ le_bytes 8 (of_nat per_packet :: u64) @ le_bytes 8 (of_nat packets :: u64) @
     le_bytes 8 (of_nat (length path) :: u64) @ map of_char path @ [0]"

lemma length_description: "length (file_description fsize per_packet packets path) = 33 + length path"
  by (simp add: file_description_def)

lemma description_read:
  assumes "load_bytes m info (33 + length path) = file_description fsize per_packet packets path"
  shows "rd64 m info = of_nat fsize" and "rd64 m (info + 8) = of_nat per_packet"
    and "0 \<notin> set (map of_char path :: u8 list) \<Longrightarrow> cstring_at m (info + 32) (map of_char path)"
proof -
  let ?D = "file_description fsize per_packet packets path"
  have part: "load_bytes m (info + of_nat k) j = take j (drop k ?D)" if "k + j \<le> 33 + length path" for k j
    using load_part [OF that, of m info] by (simp only: assms)
  show "rd64 m info = of_nat fsize" "rd64 m (info + 8) = of_nat per_packet"
    using part [of 0 8] part [of 8 8] by (simp_all add: rd64_def file_description_def le_word_le_bytes)
  have "load_bytes m (info + 32) (length path) = map of_char path"
    using part [of 32 "length path"] by (simp add: file_description_def)
  moreover have "load_bytes m (info + of_nat (32 + length path)) 1 = [0]"
    using part [of "32 + length path" 1] by (simp add: file_description_def)
  then have "m (info + 32 + of_nat (length path)) = 0" by (simp add: load_bytes_Suc algebra_simps)
  ultimately show "0 \<notin> set (map of_char path :: u8 list) \<Longrightarrow> cstring_at m (info + 32) (map of_char path)"
    by (simp add: cstring_at_def)
qed

text \<open>The state and the memory when the acknowledgement is sent.\<close>

definition init_state :: "vy_netboot \<Rightarrow> addr \<Rightarrow> addr \<Rightarrow> vy_netboot" where
  "init_state n info buf = n\<lparr>file_info := info, nb_state := STATE_FILE_TRANSFER, file_buffer := buf\<rparr>"

lemma send_init_prepared:
  assumes len: "len = rd64 (mem s) (msg + 8) - 16" and m1: "m1 = memcpy (mem s) info (msg + 16) (unat len)"
    and al: "AllocatePool B (fw s) len = ((st1, info), w1)" "AllocatePool B w1 (rd64 m1 info) = ((st2, buf), w2)"
  shows "netboot_send_init B L msg s = netboot_cmd_send B L CMD_ACK (ack_local L) 16
     (s\<lparr>fw := w2, netboot_state := init_state (netboot_state s) info buf, mem := ack_init L CMD_FILE_SEND_INIT m1\<rparr>)"
  using al unfolding m1 len
  by (simp add: netboot_send_init_def fwcall_def andthen_def update_netboot_def init_state_def)

text \<open>A message with the description \<open>D\<close>, and the handler up to the acknowledgement.\<close>

definition init_at :: "mem \<Rightarrow> addr \<Rightarrow> u8 list \<Rightarrow> bool" where
  "init_at m msg D \<longleftrightarrow>
     rd32 m msg = CMD_FILE_SEND_INIT \<and> rd64 m (msg + 8) = NETBOOT_MSG_LEN (of_nat (length D)) \<and> load_bytes m (msg + 16) (length D) = D"

definition told :: "'w env \<Rightarrow> vy_netboot \<Rightarrow> 'w \<Rightarrow> 'w" where
  "told B n w =
     (if nb_state n = STATE_FILE_TRANSFER then say (callback B) [''unexpected command in file transfer'' @ [CHR 0x0A]] w else w)"

lemma receive_init:
  assumes "rd32 (mem s) msg = CMD_FILE_SEND_INIT"
  shows "netboot_cmd_receive B L msg s =
     andthen (netboot_send_init B L msg) (\<lambda>_. ret EFI_SUCCESS) (s\<lparr>fw := told B (netboot_state s) (fw s)\<rparr>)"
proof -
  let ?s = "s\<lparr>fw := told B (netboot_state s) (fw s)\<rparr>"
  have "netboot_command B L msg ?s = netboot_send_init B L msg ?s"
    using assms by (simp add: netboot_command_def cmd_defs)
  moreover have "(if nb_state (netboot_state s) = STATE_FILE_TRANSFER then netboot_transfer B L msg else ret ()) s = Inr ((), ?s)"
    using assms by (simp add: netboot_transfer_def efi_printf_plain andthen_def told_def cmd_defs)
  ultimately show ?thesis
    by (simp add: netboot_cmd_receive_def andthen_def)
qed

lemma send_init_run:
  fixes s :: "('w, 'z) netboot_machine_scheme"
  defines "n \<equiv> netboot_state s"
  assumes at: "init_at (mem s) msg D" and D: "D = file_description fsize per_packet packets path"
    and small: "length path < 2000" "fsize < 2 ^ 52" "per_packet < 2 ^ 52"
    and al: "AllocatePool B (told B n (fw s)) (of_nat (length D)) = ((st1, info), w1)" "AllocatePool B w1 (of_nat fsize) = ((st2, buf), w2)"
    and serves: "pool_serves B R P" and P: "P (Suc k) w2" and ready: "net_ready L R s bs"
    and ap: "transfer_apart L R (eth_buffer_phys s) msg msize info (length D) buf fsize"
    and msize: "32 + per_packet \<le> msize" "16 + length D \<le> msize"
  shows "\<exists>s'. netboot_cmd_receive B L msg s = Inr (EFI_SUCCESS, s') \<and> netboot_state s' = init_state n info buf \<and>
     load_bytes (mem s') info (length D) = D \<and>
     (file_bytes_transferred n = 0 \<longrightarrow> file_packets_transferred n = 0 \<longrightarrow>
        transfer_inv B L R P msg msize (length D) fsize per_packet k [] s')"
proof -
  let ?phys = "eth_buffer_phys s" and ?l = "length D"
  note A = transfer_apartD [OF ap]
  have l: "?l < 2 ^ 52" "32 \<le> ?l" using small by (simp_all add: D length_description)
  define m1 where "m1 = store_bytes (mem s) info D"
  have len: "rd64 (mem s) (msg + 8) - 16 = of_nat ?l" and src: "load_bytes (mem s) (msg + 16) ?l = D" and cmd: "rd32 (mem s) msg = CMD_FILE_SEND_INIT"
    using at by (simp_all add: init_at_def NETBOOT_MSG_LEN_def)
  have "region (msg + 16) ?l \<subseteq> region msg msize" using subregion [of 16 ?l msize msg] msize by simp
  moreover have "region msg msize \<inter> region info ?l = {}" using ap by (simp add: transfer_apart_def)
  ultimately have "memcpy (mem s) info (msg + 16) ?l = m1"
    unfolding m1_def using src l by (subst memcpy_store) auto
  then have m1: "m1 = memcpy (mem s) info (msg + 16) (unat (of_nat ?l :: u64))" using l by (simp add: unat_of_nat64)
  have ld: "load_bytes m1 info ?l = D" using l by (simp add: m1_def load_store_same)
  then have fsz: "rd64 m1 info = of_nat fsize" "rd64 m1 (info + 8) = of_nat per_packet"
    using description_read [of m1 info path fsize per_packet packets] by (simp_all add: D length_description)
  define m2 where "m2 = ack_init L CMD_FILE_SEND_INIT m1"
  define s2 where "s2 = s\<lparr>fw := w2, netboot_state := init_state n info buf, mem := m2\<rparr>"
  have run: "netboot_send_init B L msg (s\<lparr>fw := told B n (fw s)\<rparr>) = netboot_cmd_send B L CMD_ACK (ack_local L) 16 s2"
    using send_init_prepared [of "of_nat ?l" "s\<lparr>fw := told B n (fw s)\<rparr>" msg m1 info B st1 w1 st2 buf w2 L] len m1 al fsz
    by (simp add: s2_def m2_def n_def)
  have out: "m2 x = mem s x" if "x \<in> region ?phys 8192" for x
  proof -
    have "x \<notin> region (ack_local L) 16" "x \<notin> region info ?l" using that A(8,10) by blast+
    then show ?thesis by (simp add: m2_def ack_mem m1_def store_outside)
  qed
  have "net_ready L R s2 bs" using ready by (rule net_ready_cong) (use out in \<open>simp_all add: s2_def\<close>)
  moreover have "data_in_use L R (eth_buffer_phys s2) (ack_local L) (unat (16 :: u64))" using A by (simp add: data_in_use_def)
  moreover have "P (Suc k) (fw s2)" using P by (simp add: s2_def)
  ultimately obtain s' bs' where send: "netboot_cmd_send B L CMD_ACK (ack_local L) 16 s2 = Inr ((), s')" "net_ready L R s' bs'" "P k (fw s')"
      and keep: "\<And>x. x \<in> R - send_mem L ?phys \<Longrightarrow> mem s' x = m2 x" and more: "net_machine.more s' = net_machine.more s2"
      and ph: "eth_buffer_phys s' = ?phys"
    using cmd_send_total [OF serves, of k s2 L bs "ack_local L" 16 CMD_ACK] by (auto simp: s2_def)
  have n': "netboot_state s' = init_state n info buf" using more by (cases s'; cases s; simp add: s2_def)
  have "mem s' x = m1 x" if "x \<in> region info ?l" for x
  proof -
    have "x \<notin> region (ack_local L) 16" "x \<in> R - send_mem L ?phys" using that A(3,8,12,17) unfolding send_mem_def by blast+
    then show ?thesis using keep [of x] by (simp add: m2_def ack_mem)
  qed
  then have ld': "load_bytes (mem s') info ?l = D" using ld load_cong [of info ?l "mem s'" m1] by simp
  then have "rd64 (mem s') info = of_nat fsize" "rd64 (mem s') (info + 8) = of_nat per_packet"
    using description_read [of "mem s'" info path fsize per_packet packets] by (simp_all add: D length_description)
  then have "transferring (netboot_state s') (mem s') fsize per_packet []"
    if "file_bytes_transferred n = 0" "file_packets_transferred n = 0"
    using that small by (simp add: transferring_def n' init_state_def)
  then have "transfer_inv B L R P msg msize ?l fsize per_packet k [] s'"
    if "file_bytes_transferred n = 0" "file_packets_transferred n = 0"
    using that serves send(2,3) ap ph n' l msize by (auto simp: transfer_inv_def init_state_def)
  then show ?thesis using receive_init [OF cmd, of B L] run send(1) n' ld' by (simp add: n_def andthen_Inr)
qed

section \<open>Properties\<close>

text \<open>A transfer from its first message on.\<close>

definition init_message :: "u8 list \<Rightarrow> u8 list \<Rightarrow> u8 list" where
  "init_message pad D = netboot_message CMD_FILE_SEND_INIT pad D"

definition receive_file :: "'w env \<Rightarrow> net_layout \<Rightarrow> addr \<Rightarrow> u8 list \<Rightarrow> u8 list \<Rightarrow> (nat \<times> u8 list) list \<Rightarrow> ('w, 'z, efi_status) nb_run" where
  "receive_file B L msg pad D fs =
     andthen (set_mem (\<lambda>m. store_bytes m msg (init_message pad D))) (\<lambda>_.
     andthen (netboot_cmd_receive B L msg) (\<lambda>_.
     deliver B L msg pad fs))"

lemma init_message_at:
  assumes pad: "length pad = 4" and len: "length D < 2 ^ 52"
  shows "init_at (store_bytes m msg (init_message pad D)) msg D"
proof -
  let ?M = "init_message pad D"
  let ?m = "store_bytes m msg ?M"
  have l: "length ?M = 16 + length D" using pad by (simp add: init_message_def length_message)
  have all: "load_bytes ?m msg (16 + length D) = ?M" using l len by (simp add: load_store_same)
  have part: "load_bytes ?m (msg + of_nat k) j = take j (drop k ?M)" if "k + j \<le> 16 + length D" for k j
    using load_part [OF that, of ?m msg] by (simp only: all)
  have "rd32 ?m msg = CMD_FILE_SEND_INIT"
    using part [of 0 4] by (simp add: rd32_def init_message_def netboot_message_def le_word_le_bytes)
  moreover have "rd64 ?m (msg + 8) = NETBOOT_MSG_LEN (of_nat (length D))"
    using part [of 8 8] pad by (simp add: rd64_def init_message_def netboot_message_def le_word_le_bytes)
  moreover have "load_bytes ?m (msg + 16) (length D) = D"
    using part [of 16 "length D"] pad by (simp add: init_message_def netboot_message_def)
  ultimately show ?thesis by (simp add: init_at_def)
qed

lemma ready_message:
  assumes ready: "net_ready L R s bs" and ap: "transfer_apart L R (eth_buffer_phys s) msg msize info isize buf fsize" and M: "length M \<le> msize"
  shows "net_ready L R (s\<lparr>mem := store_bytes (mem s) msg M\<rparr>) bs"
proof (rule net_ready_cong [OF ready])
  fix x assume "x \<in> region (eth_buffer_phys s) 8192"
  then have "x \<notin> region msg msize" using transfer_apartD(7) [OF ap] by blast
  then show "mem (s\<lparr>mem := store_bytes (mem s) msg M\<rparr>) x = mem s x" using M by (simp add: store_outside_le)
qed simp_all

text \<open>
  What the start of a transfer relies on: a description of the file, two requests for memory that the
  firmware answers with \<open>info\<close> and \<open>buf\<close>, and from then on a network that is ready and a firmware that keeps its
  allocations apart from what is in use, for \<open>k\<close> more messages.
\<close>

definition can_receive ::
    "'w env \<Rightarrow> net_layout \<Rightarrow> addr set \<Rightarrow> (nat \<Rightarrow> 'w \<Rightarrow> bool) \<Rightarrow> addr \<Rightarrow> nat \<Rightarrow> u8 list \<Rightarrow> nat \<Rightarrow> nat \<Rightarrow> addr \<Rightarrow> addr \<Rightarrow> nat \<Rightarrow>
     ('w, 'z) netboot_machine_scheme \<Rightarrow> bool" where
  "can_receive B L R P msg msize D fsize per_packet info buf k s \<longleftrightarrow>
     pool_serves B R P \<and> (\<exists>bs. net_ready L R s bs) \<and> fsize < 2 ^ 52 \<and> per_packet < 2 ^ 52 \<and> 32 + per_packet \<le> msize \<and> 16 + length D \<le> msize \<and>
     transfer_apart L R (eth_buffer_phys s) msg msize info (length D) buf fsize \<and>
     (\<exists>st1 w1 st2 w2. AllocatePool B (told B (netboot_state s) (fw s)) (of_nat (length D)) = ((st1, info), w1) \<and>
        AllocatePool B w1 (of_nat fsize) = ((st2, buf), w2) \<and> P (Suc k) w2)"

lemma receive_init_message:
  fixes s :: "('w, 'z) netboot_machine_scheme"
  assumes pad: "length pad = 4" and D: "D = file_description fsize per_packet packets path" and path: "length path < 2000"
    and can: "can_receive B L R P msg msize D fsize per_packet info buf k s"
  defines "s1 \<equiv> s\<lparr>mem := store_bytes (mem s) msg (init_message pad D)\<rparr>"
  shows "\<exists>s'. netboot_cmd_receive B L msg s1 = Inr (EFI_SUCCESS, s') \<and> netboot_state s' = init_state (netboot_state s) info buf \<and>
     load_bytes (mem s') info (length D) = D \<and>
     (file_bytes_transferred (netboot_state s) = 0 \<longrightarrow> file_packets_transferred (netboot_state s) = 0 \<longrightarrow>
        transfer_inv B L R P msg msize (length D) fsize per_packet k [] s')"
proof -
  obtain bs st1 w1 st2 w2 where serves: "pool_serves B R P" and ready: "net_ready L R s bs" and size: "fsize < 2 ^ 52" "per_packet < 2 ^ 52"
      and msize: "32 + per_packet \<le> msize" "16 + length D \<le> msize"
      and ap: "transfer_apart L R (eth_buffer_phys s) msg msize info (length D) buf fsize"
      and al: "AllocatePool B (told B (netboot_state s) (fw s)) (of_nat (length D)) = ((st1, info), w1)"
        "AllocatePool B w1 (of_nat fsize) = ((st2, buf), w2)" and P: "P (Suc k) w2"
    using can unfolding can_receive_def by blast
  have "init_at (mem s1) msg D" using init_message_at [OF pad, of D "mem s" msg] path by (simp add: s1_def D length_description)
  moreover have "net_ready L R s1 bs"
    unfolding s1_def using ready ap by (rule ready_message) (use msize pad in \<open>simp add: init_message_def length_message\<close>)
  ultimately show ?thesis
    using send_init_run [of s1 msg D fsize per_packet packets path B st1 info w1 st2 buf w2 R P k L bs msize] D path size al serves P ap msize
    by (simp add: s1_def)
qed

text \<open>
  C5: Receiving a file refines the abstract receiver. From an idle state a message
  \<^verbatim>\<open>CMD_FILE_SEND_INIT\<close> and then any sequence of fragments of the file, in any order,
  with losses and repetitions, leaves exactly the chunks the abstract receiver has
  taken; when these are the whole file, it has been written to the volume
  under its path, byte for byte, and the state is ready for the next command.
  Every message is handled to the end.
\<close>

theorem netboot_receives_file:
  fixes s :: "('w, 'z) netboot_machine_scheme"
  assumes "length pad = 4" and "volume_ok B L path (concat file)" and "D = file_description (length (concat file)) per_packet packets path"
    and "length path < 2000" and "0 \<notin> set (map of_char path :: u8 list)" and "ascii (map of_char path)"
    and "file_bytes_transferred (netboot_state s) = 0" and "file_packets_transferred (netboot_state s) = 0"
    and "can_receive B L R P msg msize D (length (concat file)) per_packet info buf (k + Suc (length fs)) s"
    and "concat file \<noteq> []" and "length file < 2 ^ 51" and "\<forall>f \<in> set fs. of_file file f \<and> length (snd f) \<le> per_packet"
  shows "\<exists>s'. receive_file B L msg pad D fs s = Inr (EFI_SUCCESS, s') \<and>
     (let cs = foldl receive_chunk [] fs in
      if concat cs = concat file
      then netboot_state s' = waiting_state \<and> file_stored B path (concat file) (fw s')
      else transferring (netboot_state s') (mem s') (length (concat file)) per_packet cs)"
proof -
  let ?F = "length (concat file)"
  obtain s1 where s1: "netboot_cmd_receive B L msg (s\<lparr>mem := store_bytes (mem s) msg (init_message pad D)\<rparr>) = Inr (EFI_SUCCESS, s1)"
      "netboot_state s1 = init_state (netboot_state s) info buf" "load_bytes (mem s1) info (length D) = D"
      "transfer_inv B L R P msg msize (length D) ?F per_packet (k + Suc (length fs)) (take 0 file) s1"
    using receive_init_message [OF assms(1,3,4,9)] assms(7,8) by auto
  have "path_at (mem s1) (file_info (netboot_state s1)) (length D) path"
    using description_read(3) [of "mem s1" info path ?F per_packet packets] s1(2,3) assms(3-6)
    by (simp add: path_at_def length_description init_state_def)
  then obtain s' where s': "deliver B L msg pad fs s1 = Inr (EFI_SUCCESS, s')"
      "if length (concat (foldl receive_chunk (take 0 file) fs)) = ?F
       then netboot_state s' = waiting_state \<and> file_stored B path (concat file) (fw s')
       else transfer_inv B L R P msg msize (length D) ?F per_packet (Suc k) (foldl receive_chunk (take 0 file) fs) s'"
    using deliver_run [OF assms(1,2) refl assms(11,12) s1(4)] assms(10) by auto
  obtain j where "foldl receive_chunk [] fs = take j file" using fold_prefix [of fs "file" 0] assms(12) by auto
  then have "length (concat (foldl receive_chunk [] fs)) = ?F \<longleftrightarrow> concat (foldl receive_chunk [] fs) = concat file"
    using prefix_full [of j "file"] by auto
  then show ?thesis
    using s1(1) s' by (auto simp: receive_file_def andthen_Inr Let_def transfer_inv_def split: if_splits)
qed

text \<open>
  C23: One fragment refines one step of the abstract receiver: the bytes of the
  next chunk go behind those already in the buffer and the counters move on;
  any other fragment changes nothing. Either way one acknowledgement is sent,
  with the number the abstract receiver gives.
\<close>

theorem netboot_fragment_refines:
  fixes s :: "('w, 'z) netboot_machine_scheme"
  assumes "transferring (netboot_state s) (mem s) fsize per_packet cs" and "fragment_at (mem s) msg f"
    and "transfer_apart L R phys msg (32 + length (snd f)) (file_info (netboot_state s)) isize (file_buffer (netboot_state s)) fsize"
    and "16 \<le> isize" and "length (snd f) \<le> per_packet" and "fst f < 2 ^ 52" and "Suc (length cs) < 2 ^ 52"
    and "fst f = length cs \<longrightarrow> length (concat cs) + length (snd f) \<le> fsize"
  shows "\<exists>s1 pad. netboot_fragment B L msg s = netboot_cmd_send B L CMD_ACK (ack_local L) 16 s1 \<and>
     transferring (netboot_state s1) (mem s1) fsize per_packet (receive_chunk cs f) \<and> length pad = 4 \<and>
     load_bytes (mem s1) (ack_local L) 16 = le_bytes 4 CMD_FILE_FRAGMENT @ pad @ le_bytes 8 (of_nat (ack_number cs f) :: u64)"
proof -
  let ?n = "netboot_state s"
  let ?m = "fragment_mem L ?n (mem s) cs f"
  have "netboot_fragment B L msg s = netboot_cmd_send B L CMD_ACK (ack_local L) 16 (s\<lparr>mem := ?m, netboot_state := accept_state ?n cs f\<rparr>)"
    using refl assms(3,1,2,5,6,8) by (rule fragment_prepared)
  moreover have "transferring (accept_state ?n cs f) ?m fsize per_packet (receive_chunk cs f)"
    using assms(3,4,1,8,7) by (rule transferring_step)
  moreover obtain M where "?m = wr64 (ack_init L CMD_FILE_FRAGMENT M) (ack_local L + 8) (of_nat (ack_number cs f))"
    by (simp add: fragment_mem_def Let_def)
  then have "load_bytes ?m (ack_local L) 16 = le_bytes 4 CMD_FILE_FRAGMENT @ load_bytes M (ack_local L + 4) 4 @ le_bytes 8 (of_nat (ack_number cs f) :: u64)"
    by (simp only: ack_bytes)
  ultimately show ?thesis
    by (intro exI [of _ "s\<lparr>mem := ?m, netboot_state := accept_state ?n cs f\<rparr>"] exI [of _ "load_bytes M (ack_local L + 4) 4"]) simp
qed

text \<open>
  C27: The next fragment is copied whatever its length: when it does not fit in
  what is left of the file, the bytes behind the file buffer are overwritten
  with those of the fragment.
\<close>

theorem netboot_fragment_overruns:
  fixes s :: "('w, 'z) netboot_machine_scheme"
  assumes "transferring (netboot_state s) (mem s) fsize per_packet cs" and "fragment_at (mem s) msg f"
    and "transfer_apart L R phys msg (32 + length (snd f)) (file_info (netboot_state s)) isize (file_buffer (netboot_state s))
           (length (concat cs) + length (snd f))"
    and "length (snd f) \<le> per_packet" and "length cs < 2 ^ 52" and "fst f = length cs"
    and "fsize \<le> i" and "i < length (concat cs) + length (snd f)"
  shows "\<exists>s1. netboot_fragment B L msg s = netboot_cmd_send B L CMD_ACK (ack_local L) 16 s1 \<and>
     mem s1 (file_buffer (netboot_state s) + of_nat i) = snd f ! (i - length (concat cs))"
proof -
  let ?n = "netboot_state s" and ?k = "length (concat cs)"
  let ?m = "fragment_mem L ?n (mem s) cs f" and ?x = "file_buffer ?n + of_nat i"
  have lim: "length (snd f) < 2 ^ 52" "?k \<le> fsize" using assms(1,4) by (simp_all add: transferring_def)
  have "netboot_fragment B L msg s = netboot_cmd_send B L CMD_ACK (ack_local L) 16 (s\<lparr>mem := ?m, netboot_state := accept_state ?n cs f\<rparr>)"
    using refl assms(3,1,2,4) by (rule fragment_prepared) (use assms(5,6) in simp_all)
  moreover have "?x \<in> region (file_buffer ?n) (?k + length (snd f))" using assms(8) by (rule in_region)
  then have "?x \<notin> region (ack_local L) 16" using transfer_apartD(6) [OF assms(3)] by blast
  then have stored: "?m ?x = store_bytes (mem s) (file_buffer ?n + of_nat ?k) (snd f) ?x"
    using assms(6) by (simp add: fragment_mem_def ack_mem)
  moreover have "?x = file_buffer ?n + of_nat ?k + of_nat (i - ?k)" using lim(2) assms(7) by (simp add: of_nat_diff)
  then have "store_bytes (mem s) (file_buffer ?n + of_nat ?k) (snd f) ?x = snd f ! (i - ?k)"
    by (simp only:) (rule store_inside, use assms(7,8) lim in simp_all)
  with stored have "?m ?x = snd f ! (i - ?k)" by simp
  ultimately show ?thesis
    by (intro exI [of _ "s\<lparr>mem := ?m, netboot_state := accept_state ?n cs f\<rparr>"]) simp
qed

text \<open>
  A message \<^verbatim>\<open>CMD_FILE_SEND_INIT\<close> always starts a transfer with a new
  description and a new buffer, also in the middle of another one, but it never
  resets the counters: after a restart the new file is received at the
  place, and from the fragment on, where the abandoned one stood.
\<close>

theorem netboot_restart_keeps_counters:
  fixes s :: "('w, 'z) netboot_machine_scheme"
  assumes "length pad = 4" and "D = file_description fsize per_packet packets path" and "length path < 2000"
    and "can_receive B L R P msg msize D fsize per_packet info buf k s"
  shows "\<exists>s'. netboot_cmd_receive B L msg (s\<lparr>mem := store_bytes (mem s) msg (init_message pad D)\<rparr>) = Inr (EFI_SUCCESS, s') \<and>
     nb_state (netboot_state s') = STATE_FILE_TRANSFER \<and> file_info (netboot_state s') = info \<and> file_buffer (netboot_state s') = buf \<and>
     file_bytes_transferred (netboot_state s') = file_bytes_transferred (netboot_state s) \<and>
     file_packets_transferred (netboot_state s') = file_packets_transferred (netboot_state s)"
  using receive_init_message [OF assms] by (auto simp: init_state_def)

section \<open>Witnesses\<close>

text \<open>
  A firmware that has handed out all pages below one megabyte serves the pool, and a machine with the
  network block at \<^verbatim>\<open>0x10000\<close> and messages at \<^verbatim>\<open>0x803E\<close>.
\<close>

definition sample_used :: "addr set" where "sample_used = {x. unat x < 0x100000}"

definition sample_serves :: "nat \<Rightarrow> sample_state \<Rightarrow> bool" where
  "sample_serves k w \<longleftrightarrow> 256 \<le> next_page w \<and> 4096 * (next_page w + k) \<le> 2 ^ 52"

lemma sample_pool_serves: "pool_serves sample_env sample_used sample_serves"
proof -
  have served: "\<not> EFI_ERROR sample_env status \<and> sample_serves k w' \<and> region a (unat n) \<inter> sample_used = {}"
    if P: "sample_serves (Suc k) w" and n: "unat n < 4096" and al: "AllocatePool sample_env w n = ((status, a), w')" for k w n status a w'
  proof -
    have "unat n div 4096 = 0" using n by simp
    then have a: "status = EFI_SUCCESS" "a = of_nat (4096 * next_page w)" "w' = w\<lparr>next_page := next_page w + 1\<rparr>"
      using P al by (auto simp: sample_env_def sample_serves_def split: if_splits)
    have ua: "unat a = 4096 * next_page w" using P unfolding a by (intro unat_of_nat64) (simp add: sample_serves_def)
    have reg: "region a (unat n) = {x. unat a \<le> unat x \<and> unat x < unat a + unat n}"
      by (rule region_below) (use P n ua in \<open>simp add: sample_serves_def\<close>)
    show ?thesis using P unfolding reg by (auto simp: a(1,3) ua sample_used_def sample_serves_def sample_env_def)
  qed
  have io: "io_closed sample_env (sample_serves k)" for k
    by (simp add: io_closed_def sample_env_def sample_snp_def sample_serves_def)
  have "case AllocatePool sample_env w n of ((status, a), w') \<Rightarrow> \<not> EFI_ERROR sample_env status \<and> sample_serves k w' \<and> region a (unat n) \<inter> sample_used = {} \<and>
      (\<forall>w2. io_reach sample_env w' w2 \<longrightarrow> (case FreePool sample_env w2 a of (status, w3) \<Rightarrow> \<not> EFI_ERROR sample_env status \<and> sample_serves k w3))"
    if P: "sample_serves (Suc k) w" "unat n < 4096" for k w n
  proof -
    obtain status a w' where al: "AllocatePool sample_env w n = ((status, a), w')" by (metis surj_pair)
    have "FreePool sample_env w2 a = (EFI_SUCCESS, w2)" "\<not> EFI_ERROR sample_env EFI_SUCCESS" for w2 by (simp_all add: sample_env_def)
    then show ?thesis using served [OF P al] io_reach_closed [OF _ io, of w' _ k] by (simp add: al)
  qed
  then show ?thesis unfolding pool_serves_def using io by blast
qed

lemma sample_volume: "volume_ok sample_env L path bytes"
  by (simp add: volume_ok_def sample_env_def sample_hnd_def sample_vol_def)

definition sample_netboot :: "vy_netboot \<Rightarrow> nat \<Rightarrow> mem \<Rightarrow> sample_state netboot_machine" where
  "sample_netboot n page m =
     net_machine.extend (sample_sender\<lparr>mem := m, fw := sample_start\<lparr>next_page := page\<rparr>\<rparr>)
       (netboot_machine.fields n True False False 0)"

lemma sample_netboot_fields [simp]:
  "mem (sample_netboot n page m) = m" "fw (sample_netboot n page m) = sample_start\<lparr>next_page := page\<rparr>"
  "eth_buffer_phys (sample_netboot n page m) = 0x10000" "eth_bufpool (sample_netboot n page m) = 0x10000"
  "eth_bufpool_avail (sample_netboot n page m) = 1" "netboot_state (sample_netboot n page m) = n"
  "net_poll_continue (sample_netboot n page m) = True" "net_stop_advertising (sample_netboot n page m) = False"
  by (simp_all add: sample_netboot_def net_machine.defs netboot_machine.defs sample_sender_def sample_net_machine_def)

lemma sample_ready: "net_ready sample_layout sample_used (sample_netboot n page sample_net_mem) [0x10000]"
proof -
  have "pool_rep (sample_netboot n page sample_net_mem) [0x10000]"
    using sample_sender_pool by (simp add: pool_rep_def sample_sender_def sample_net_machine_def)
  moreover have "net_mem sample_layout 0x10000 \<subseteq> sample_used"
    unfolding net_mem_def sample_layout_def sample_used_def by (auto simp: region_below)
  ultimately show ?thesis using sample_net_apart by (simp add: net_ready_def) (simp add: sample_layout_def)
qed

lemma sample_transfer_apart: "isize \<le> 4096 \<Longrightarrow> fsize \<le> 4096 \<Longrightarrow> msize \<le> 1500 \<Longrightarrow>
    transfer_apart sample_layout sample_used 0x10000 0x803E msize 0xFE000 isize 0xFF000 fsize"
proof -
  assume size: "isize \<le> 4096" "fsize \<le> 4096" "msize \<le> 1500"
  have "apart [(0x2000, 6), (0x2020, 16), (0x803E, msize), (0x10000, 8192), (0xFE000, isize), (0xFF000, fsize)]"
    by (rule apart_ascending [of 0]) (use size in simp)
  then show ?thesis using size unfolding transfer_apart_def sample_layout_def sample_used_def by (auto simp: region_below)
qed

definition sample_description :: "u8 list" where
  "sample_description = file_description 3 2 2 ''k''"

lemma sample_told: "next_page (told sample_env n w) = next_page w"
proof -
  have "next_page (say (callback sample_env) strs w) = next_page w" for strs
    by (rule say_inv [where Q = "\<lambda>v. next_page v = next_page w"]) (simp_all add: sample_env_def)
  then show ?thesis by (simp add: told_def)
qed

lemma sample_can_receive:
  assumes "k \<le> 1000"
  shows "can_receive sample_env sample_layout sample_used sample_serves 0x803E 100 sample_description 3 2 0xFE000 0xFF000 k
    (sample_netboot n 254 sample_net_mem)"
proof -
  let ?w = "told sample_env n (sample_start\<lparr>next_page := 254\<rparr>)"
  have D: "length sample_description = 34" by (simp add: sample_description_def length_description)
  have "next_page ?w = 254" by (simp add: sample_told)
  then have "AllocatePool sample_env ?w 34 = ((EFI_SUCCESS, 0xFE000), ?w\<lparr>next_page := 255\<rparr>)"
    "AllocatePool sample_env (?w\<lparr>next_page := 255\<rparr>) 3 = ((EFI_SUCCESS, 0xFF000), ?w\<lparr>next_page := 256\<rparr>)"
    by (simp_all add: sample_env_def)
  moreover have "sample_serves (Suc k) (?w\<lparr>next_page := 256\<rparr>)" using assms by (simp add: sample_serves_def)
  ultimately show ?thesis
    using sample_pool_serves sample_ready [of n 254] sample_transfer_apart [of 34 3 100]
    by (auto simp: can_receive_def D)
qed

text \<open>The second chunk arrives first, the first one twice; the file is stored.\<close>

theorem netboot_receives_file_witness:
  "\<exists>s'. receive_file sample_env sample_layout 0x803E [0, 0, 0, 0] sample_description [(1, [3]), (0, [1, 2]), (0, [1, 2]), (1, [3])]
       (sample_netboot netboot_initial 254 sample_net_mem) = Inr (EFI_SUCCESS, s') \<and>
     netboot_state s' = waiting_state \<and> file_stored sample_env ''k'' [1, 2, 3] (fw s')"
proof -
  let ?n = netboot_initial and ?fs = "[(1, [3]), (0, [1, 2]), (0, [1, 2]), (1, [3])] :: (nat \<times> u8 list) list" and ?file = "[[1, 2], [3]] :: u8 list list"
  have init: "file_bytes_transferred ?n = 0" "file_packets_transferred ?n = 0"
    by (simp_all add: netboot_initial_def)
  have three: "length (concat ?file) = 3" by simp
  have "can_receive sample_env sample_layout sample_used sample_serves 0x803E 100 sample_description 3 2 0xFE000 0xFF000 (0 + Suc (length ?fs))
      (sample_netboot ?n 254 sample_net_mem)"
    by (rule sample_can_receive) simp
  moreover have "(0 :: u8) \<notin> set (map of_char ''k'')" "ascii (map of_char ''k'')" by (simp_all add: ascii_def of_char_def)
  moreover have "\<forall>f \<in> set ?fs. of_file ?file f \<and> length (snd f) \<le> 2" by (simp add: of_file_def)
  ultimately have "\<exists>s'. receive_file sample_env sample_layout 0x803E [0, 0, 0, 0] sample_description ?fs (sample_netboot ?n 254 sample_net_mem) =
       Inr (EFI_SUCCESS, s') \<and>
     (let cs = foldl receive_chunk [] ?fs in
      if concat cs = concat ?file
      then netboot_state s' = waiting_state \<and> file_stored sample_env ''k'' (concat ?file) (fw s')
      else transferring (netboot_state s') (mem s') (length (concat ?file)) 2 cs)"
    using init sample_volume
    by (intro netboot_receives_file [where packets = 2 and R = sample_used and P = sample_serves and msize = 100 and info = "0xFE000" and buf = "0xFF000" and k = 0])
      (simp_all only: three sample_description_def, simp_all)
  then show ?thesis by (simp add: receive_chunk_def)
qed

text \<open>A transfer of three bytes that has received two, and a fragment.\<close>

definition sample_mid_mem :: "nat \<times> u8 list \<Rightarrow> mem" where
  "sample_mid_mem f =
     store_bytes (store_bytes (store_bytes sample_net_mem 0xFE000 sample_description) 0xFF000 [1, 2]) 0x803E (fragment_message [0, 0, 0, 0] f)"

definition sample_mid_state :: vy_netboot where
  "sample_mid_state = \<lparr>nb_state = STATE_FILE_TRANSFER, file_info = 0xFE000, file_buffer = 0xFF000,
     file_bytes_transferred = 2, file_packets_transferred = 1\<rparr>"

lemma sample_mid:
  assumes "length (snd f) \<le> 2"
  shows "transferring sample_mid_state (sample_mid_mem f) 3 2 [[1, 2]]" and "fragment_at (sample_mid_mem f) 0x803E f"
proof -
  have D: "length sample_description = 34" by (simp add: sample_description_def length_description)
  have M: "length (fragment_message [0, 0, 0, 0] f) \<le> 34" using assms by (simp add: length_fragment_message)
  have ap: "apart [(0x803E, 34), (0xFE000, 34), (0xFF000, 2)]" by (rule apart_ascending [of 0]) simp
  have "load_bytes (sample_mid_mem f) 0xFE000 34 = sample_description"
    using ap by (simp add: sample_mid_mem_def load_store_disj_le [OF _ M] load_store_disj_le [where bs = "[1, 2]" and k = 2] load_store_same D)
  then have "rd64 (sample_mid_mem f) 0xFE000 = of_nat 3" "rd64 (sample_mid_mem f) (0xFE000 + 8) = of_nat 2"
    using description_read [of "sample_mid_mem f" "0xFE000" "''k''" 3 2 2] by (simp_all add: sample_description_def)
  moreover have "load_bytes (sample_mid_mem f) 0xFF000 2 = [1, 2]"
    using ap by (simp add: sample_mid_mem_def load_store_disj_le [OF _ M] load_store_same)
  ultimately show "transferring sample_mid_state (sample_mid_mem f) 3 2 [[1, 2]]"
    by (simp add: transferring_def sample_mid_state_def flip: numeral_2_eq_2)
  show "fragment_at (sample_mid_mem f) 0x803E f"
    unfolding sample_mid_mem_def using assms by (intro fragment_message_at) simp_all
qed

theorem netboot_fragment_refines_witness:
  "\<exists>s1 pad. netboot_fragment sample_env sample_layout 0x803E (sample_netboot sample_mid_state 256 (sample_mid_mem (1, [3]))) =
       netboot_cmd_send sample_env sample_layout CMD_ACK 0x2020 16 s1 \<and>
     transferring (netboot_state s1) (mem s1) 3 2 [[1, 2], [3]] \<and> length pad = 4 \<and>
     load_bytes (mem s1) 0x2020 16 = [6, 0, 0, 0] @ pad @ [1, 0, 0, 0, 0, 0, 0, 0]"
proof -
  have "transfer_apart sample_layout sample_used 0x10000 0x803E (32 + length (snd (1 :: nat, [3 :: u8]))) 0xFE000 34 0xFF000 3"
    by (rule sample_transfer_apart) simp_all
  moreover have "le_bytes 4 CMD_FILE_FRAGMENT = [6, 0, 0, 0]" "le_bytes 8 (1 :: u64) = [1, 0, 0, 0, 0, 0, 0, 0]"
    by (simp_all add: CMD_FILE_FRAGMENT_def le_bytes_numeral)
  ultimately show ?thesis
    using netboot_fragment_refines [of "sample_netboot sample_mid_state 256 (sample_mid_mem (1, [3]))" 3 2 "[[1, 2]]" "0x803E" "(1, [3])"
        sample_layout sample_used "0x10000" 34 sample_env] sample_mid [of "(1, [3])"]
    by (simp add: receive_chunk_def ack_number_def sample_mid_state_def) (simp add: sample_layout_def)
qed

text \<open>One byte is left, and the fragment has two.\<close>

theorem netboot_fragment_overruns_witness:
  "\<exists>s1. netboot_fragment sample_env sample_layout 0x803E (sample_netboot sample_mid_state 256 (sample_mid_mem (1, [3, 4]))) =
       netboot_cmd_send sample_env sample_layout CMD_ACK 0x2020 16 s1 \<and> mem s1 0xFF003 = 4"
proof -
  have "transfer_apart sample_layout sample_used 0x10000 0x803E (32 + length (snd (1 :: nat, [3 :: u8, 4]))) 0xFE000 34 0xFF000
      (length (concat [[1 :: u8, 2]]) + length (snd (1 :: nat, [3 :: u8, 4])))"
    by (rule sample_transfer_apart) simp_all
  then show ?thesis
    using netboot_fragment_overruns [of "sample_netboot sample_mid_state 256 (sample_mid_mem (1, [3, 4]))" 3 2 "[[1, 2]]" "0x803E" "(1, [3, 4])"
        sample_layout sample_used "0x10000" 34 3 sample_env] sample_mid [of "(1, [3, 4])"]
    by (simp add: sample_mid_state_def) (simp add: sample_layout_def)
qed

text \<open>The restarted transfer starts at the third byte and the second fragment.\<close>

theorem netboot_restart_keeps_counters_witness:
  "\<exists>s'. netboot_cmd_receive sample_env sample_layout 0x803E
       ((sample_netboot sample_mid_state 254 sample_net_mem)\<lparr>mem := store_bytes sample_net_mem 0x803E (init_message [0, 0, 0, 0] sample_description)\<rparr>) =
         Inr (EFI_SUCCESS, s') \<and>
     file_buffer (netboot_state s') = 0xFF000 \<and> file_bytes_transferred (netboot_state s') = 2 \<and> file_packets_transferred (netboot_state s') = 1"
  using netboot_restart_keeps_counters [OF _ sample_description_def _ sample_can_receive [of 0 sample_mid_state], of "[0, 0, 0, 0]"]
  by (auto simp: sample_mid_state_def)
end
