(* ===== verification/Protocol.thy ===== *)
theory Protocol
  imports File_Transfer
begin

text \<open>
  The states of the netboot protocol: what every message keeps of the static
  state, which states are reached, and what the control commands do.
\<close>

section \<open>What the handler keeps\<close>

lemma keeps_malloc_more: "keeps (\<lambda>s. Q (net_machine.more s)) (malloc B sz)"
  unfolding malloc_def by (intro keeps_intros) simp_all

lemma keeps_cmd_send_more: "keeps (\<lambda>s. Q (net_machine.more s)) (netboot_cmd_send B L cmd dat len)"
  unfolding netboot_cmd_send_def free_def by (intro keeps_intros keeps_malloc_more keeps_udp6_send_more) simp_all

text \<open>A step that keeps everything beyond the network keeps the state of the protocol.\<close>

lemma keeps_netboot:
  fixes m :: "('h, ('w, 'z) netboot_machine_scheme, 'a) step"
  assumes "\<And>Q. keeps (\<lambda>s. Q (net_machine.more s)) m"
  shows "keeps (\<lambda>s. Q (netboot_state s)) m"
proof (rule keepsI)
  fix s x t assume run: "m s = Inr (x, t)" and Q: "Q (netboot_state s)"
  have "net_machine.more t = net_machine.more s" using keepsD [OF assms run, of "\<lambda>e. e = net_machine.more s"] by simp
  then have "netboot_state t = netboot_state s" by (cases s; cases t; simp)
  then show "Q (netboot_state t)" using Q by simp
qed

lemma keeps_send_netboot [keeps_intros]: "keeps (\<lambda>s. Q (netboot_state s)) (netboot_cmd_send B L cmd dat len)"
  by (rule keeps_netboot) (rule keeps_cmd_send_more)

lemma keeps_malloc_netboot [keeps_intros]: "keeps (\<lambda>s. Q (netboot_state s)) (malloc B sz)"
  by (rule keeps_netboot) (rule keeps_malloc_more)

lemma keeps_update [keeps_intros]:
  "(\<And>n. Q n \<Longrightarrow> Q (f n)) \<Longrightarrow> keeps (\<lambda>s. Q (netboot_state s)) (update_netboot f)"
  by (simp add: keeps_def update_netboot_def)

lemma keeps_stop_polling [keeps_intros]: "keeps (\<lambda>s. Q (netboot_state s)) stop_polling"
  by (simp add: keeps_def stop_polling_def)

lemma keeps_reset [keeps_intros]: "keeps (\<lambda>s. Q (netboot_state s)) (reset_system B typ)"
  by (rule keepsI) (auto simp: reset_system_def split: option.splits)

text \<open>A step that ends in a property of the state whenever it returns.\<close>

definition ends :: "('s \<Rightarrow> bool) \<Rightarrow> ('h, 's, 'a) step \<Rightarrow> bool" where
  "ends Q m \<longleftrightarrow> (\<forall>s x t. m s = Inr (x, t) \<longrightarrow> Q t)"

lemma ends_later: "(\<And>x. ends Q (f x)) \<Longrightarrow> ends Q (andthen m f)"
  unfolding ends_def by (auto elim!: andthen_InrE)

lemma ends_then: "ends Q m \<Longrightarrow> (\<And>x. keeps Q (f x)) \<Longrightarrow> ends Q (andthen m f)"
  unfolding ends_def keeps_def by (blast elim!: andthen_InrE)

lemma ends_prod: "(\<And>x y. p = (x, y) \<Longrightarrow> ends Q (f x y)) \<Longrightarrow> ends Q (case p of (x, y) \<Rightarrow> f x y)"
  by (cases p) simp

lemma ends_update: "(\<And>n. Q (f n)) \<Longrightarrow> ends (\<lambda>s. Q (netboot_state s)) (update_netboot f)"
  by (simp add: ends_def update_netboot_def)

lemma ends_keeps: "ends Q m \<Longrightarrow> keeps Q m"
  by (simp add: ends_def keeps_def)

lemma all_cleared:
  "(n :: vy_netboot)\<lparr>nb_state := st, file_info := 0, file_buffer := 0, file_bytes_transferred := 0, file_packets_transferred := 0\<rparr> =
     netboot_initial\<lparr>nb_state := st\<rparr>"
  by (cases n) (simp add: netboot_initial_def)

lemma file_done_ends: "ends (\<lambda>s. netboot_state s = netboot_initial\<lparr>nb_state := STATE_CMD_WAIT\<rparr>) (netboot_file_done B L)"
  unfolding netboot_file_done_def by (intro ends_later ends_prod ends_update) (simp add: all_cleared)

lemma send_init_ends: "ends (\<lambda>s. nb_state (netboot_state s) = STATE_FILE_TRANSFER) (netboot_send_init B L msg)"
proof -
  have first: "ends (\<lambda>s. nb_state (netboot_state s) = STATE_FILE_TRANSFER) (update_netboot (\<lambda>n. n\<lparr>nb_state := STATE_FILE_TRANSFER\<rparr>))"
    by (rule ends_update) simp
  show ?thesis
    unfolding netboot_send_init_def
    by (rule ends_later, rule ends_later, rule ends_prod, rule ends_later, rule ends_later, rule ends_then, rule first)
      (intro keeps_intros; simp)+
qed

lemma fragment_keeps: "keeps (\<lambda>s. nb_state (netboot_state s) = STATE_FILE_TRANSFER) (netboot_fragment B L msg)"
  unfolding netboot_fragment_def Let_def by (intro keeps_intros) simp_all

section \<open>Reachable states\<close>

text \<open>
  In the program the static variables lie in memory as well, at bytes \<open>S\<close> that the linker chooses, and a fragment that is larger than its file can
  overwrite them (\<open>netboot_fragment_overruns\<close>). A run spares these bytes if it neither reads nor writes them as memory: with any other bytes in their place it does
  the same, and leaves these there.
\<close>

definition with_bytes :: "addr set \<Rightarrow> mem \<Rightarrow> ('w, 'z) machine_scheme \<Rightarrow> ('w, 'z) machine_scheme" where
  "with_bytes S g s = s\<lparr>mem := (\<lambda>x. if x \<in> S then g x else mem s x)\<rparr>"

definition spares :: "addr set \<Rightarrow> ('w, 'z, 'a) run \<Rightarrow> ('w, 'z) machine_scheme \<Rightarrow> bool" where
  "spares S m s \<longleftrightarrow> (\<forall>g. m (with_bytes S g s) = (case m s of Inl (h, t) \<Rightarrow> Inl (h, with_bytes S g t) | Inr (x, t) \<Rightarrow> Inr (x, with_bytes S g t)))"

text \<open>
  Between two messages the firmware may change in any way, and memory apart from the static variables; the handler runs on a message anywhere in memory, and
  spares the static variables.
\<close>

inductive nb_step :: "'w env \<Rightarrow> net_layout \<Rightarrow> addr set \<Rightarrow> 'w netboot_machine \<Rightarrow> 'w netboot_machine \<Rightarrow> bool" for B L S where
  arrive: "(\<And>x. x \<in> S \<Longrightarrow> m x = mem s x) \<Longrightarrow> nb_step B L S s (s\<lparr>mem := m, fw := w\<rparr>)"
| handle: "netboot_cmd_receive B L msg s = Inr (status, s') \<Longrightarrow> spares S (netboot_cmd_receive B L msg) s \<Longrightarrow> nb_step B L S s s'"

inductive_cases nb_stepE: "nb_step B L S s s'"

text \<open>Outside a transfer the state is the initial one but for the name of the state.\<close>

definition netboot_inv :: "vy_netboot \<Rightarrow> bool" where
  "netboot_inv n \<longleftrightarrow>
     nb_state n \<noteq> STATE_ADVERTISING \<and>
     (nb_state n \<noteq> STATE_FILE_TRANSFER \<longrightarrow> n = netboot_initial\<lparr>nb_state := nb_state n\<rparr>)"

text \<open>Every property of the state that a transfer and the end of one have is kept by the handler.\<close>

lemma command_keeps:
  assumes "\<And>n. nb_state n = STATE_FILE_TRANSFER \<Longrightarrow> Q n"
  shows "keeps (\<lambda>s. Q (netboot_state s)) (netboot_command B L msg)"
proof -
  have init: "keeps (\<lambda>s. Q (netboot_state s)) (netboot_send_init B L msg)"
    using send_init_ends [of B L msg] assms by (auto simp: ends_def keeps_def)
  show ?thesis
    unfolding netboot_command_def netboot_fwsetup_def by (intro keeps_intros init) simp_all
qed

lemma transfer_ends:
  assumes "netboot_transfer B L msg s = Inr (u, t)" and "nb_state (netboot_state s) = STATE_FILE_TRANSFER"
  shows "nb_state (netboot_state t) = STATE_FILE_TRANSFER \<or> netboot_state t = netboot_initial\<lparr>nb_state := STATE_CMD_WAIT\<rparr>"
proof -
  have "keeps (\<lambda>s. nb_state (netboot_state s) = STATE_FILE_TRANSFER)
      (efi_printf B (''unexpected command in file transfer'' @ [CHR 0x0A]) [])"
    by (intro keeps_intros) simp
  then show ?thesis
    using assms fragment_keeps [of B L msg] file_done_ends [of B L] unfolding netboot_transfer_def
    by (fastforce elim!: andthen_InrE simp: ends_def keeps_def split: if_splits)
qed

lemma receive_keeps:
  assumes "\<And>n. nb_state n = STATE_FILE_TRANSFER \<Longrightarrow> Q n" and "Q (netboot_initial\<lparr>nb_state := STATE_CMD_WAIT\<rparr>)"
  shows "keeps (\<lambda>s. Q (netboot_state s)) (netboot_cmd_receive B L msg)"
proof (rule keepsI)
  fix s x t assume run: "netboot_cmd_receive B L msg s = Inr (x, t)" and Q: "Q (netboot_state s)"
  obtain u v s1 where s1: "(if nb_state (netboot_state s) = STATE_FILE_TRANSFER then netboot_transfer B L msg else ret ()) s = Inr (u, s1)"
      and c: "netboot_command B L msg s1 = Inr (v, t)"
    using run unfolding netboot_cmd_receive_def by (auto elim!: andthen_InrE)
  have "Q (netboot_state s1)"
    using s1 Q assms transfer_ends [of B L msg s u s1] by (auto split: if_splits)
  then show "Q (netboot_state t)" using keepsD [OF command_keeps [of Q, OF assms(1)] c] by blast
qed

lemma reachable_keeps:
  assumes "(nb_step B L S)\<^sup>*\<^sup>* s s'" and "Q (netboot_state s)"
    and "\<And>n. nb_state n = STATE_FILE_TRANSFER \<Longrightarrow> Q n" and "Q (netboot_initial\<lparr>nb_state := STATE_CMD_WAIT\<rparr>)"
  shows "Q (netboot_state s')"
  using assms(1,2)
proof (induction rule: rtranclp_induct)
  case (step t u)
  from step.hyps(2) show ?case
    by (rule nb_stepE) (use step.IH step.prems keepsD [OF receive_keeps [of Q, OF assms(3,4)]] in auto)
qed simp

section \<open>Properties\<close>

text \<open>
  C9: In every state the handler reaches from the initial one, whatever messages arrive in whatever order and whatever the firmware answers, as long as no step
  runs into the memory of the static variables (fragments that fit their file do not; longer ones can): the state
  \<^verbatim>\<open>STATE_ADVERTISING\<close> is never entered, and outside a file transfer no file
  description, buffer or counter of an earlier transfer is left. Once a
  transfer has started, \<^verbatim>\<open>STATE_PREINIT\<close> is never entered again.
\<close>

theorem netboot_reachable_inv:
  assumes "netboot_state s = netboot_initial" and "(nb_step B L S)\<^sup>*\<^sup>* s s'"
  shows "netboot_inv (netboot_state s') \<and>
    (nb_state (netboot_state s') \<noteq> STATE_PREINIT \<longrightarrow>
       (\<forall>s''. (nb_step B L S)\<^sup>*\<^sup>* s' s'' \<longrightarrow> nb_state (netboot_state s'') \<noteq> STATE_PREINIT))"
proof -
  have "netboot_inv (netboot_state s')"
    using assms(2) by (rule reachable_keeps) (use assms(1) in \<open>simp_all add: netboot_inv_def netboot_initial_def\<close>)
  moreover have "nb_state (netboot_state s'') \<noteq> STATE_PREINIT"
    if "nb_state (netboot_state s') \<noteq> STATE_PREINIT" "(nb_step B L S)\<^sup>*\<^sup>* s' s''" for s''
    using that(2) reachable_keeps [OF that(2), of "\<lambda>n. nb_state n \<noteq> STATE_PREINIT"] that(1) by simp
  ultimately show ?thesis by blast
qed

text \<open>The server lets the loader boot: polling ends, and the state is the initial one. The static variables are at \<^verbatim>\<open>0x1200\<close>.\<close>

lemma sample_boot_message: "rd32 (store_bytes m a (le_bytes 4 CMD_BOOT)) a = CMD_BOOT"
  by (simp add: rd32_def load_store_same le_word_le_bytes)

lemma boot_command:
  assumes "nb_state (netboot_state s) \<noteq> STATE_FILE_TRANSFER" and "rd32 (mem s) msg = CMD_BOOT"
  shows "netboot_cmd_receive B L msg s = Inr (EFI_SUCCESS, s\<lparr>net_poll_continue := False\<rparr>)"
proof -
  have "netboot_command B L msg s = stop_polling s"
    unfolding netboot_command_def andthen_gets assms(2) by (simp add: cmd_defs)
  then show ?thesis using assms(1) by (simp add: netboot_cmd_receive_def andthen_def stop_polling_def)
qed

lemma with_bytes_simps [simp]:
  "netboot_state (with_bytes S g s) = netboot_state s" "mem (with_bytes S g s) = (\<lambda>x. if x \<in> S then g x else mem s x)"
  by (simp_all add: with_bytes_def)

lemma boot_message_spares:
  fixes s :: "('w, 'z) netboot_machine_scheme"
  assumes "nb_state (netboot_state s) \<noteq> STATE_FILE_TRANSFER" and "rd32 (mem s) msg = CMD_BOOT" and "S \<inter> region msg 4 = {}"
  shows "spares S (netboot_cmd_receive B L msg) s"
  unfolding spares_def
proof (rule allI)
  fix g
  have "rd32 (mem (with_bytes S g s)) msg = rd32 (mem s) msg" by (rule c32.rd_cong) (use assms(3) in auto)
  then have "netboot_cmd_receive B L msg (with_bytes S g s) = Inr (EFI_SUCCESS, (with_bytes S g s)\<lparr>net_poll_continue := False\<rparr>)"
    using assms by (intro boot_command) simp_all
  then show "netboot_cmd_receive B L msg (with_bytes S g s) = (case netboot_cmd_receive B L msg s of
      Inl (h, t) \<Rightarrow> Inl (h, with_bytes S g t) | Inr (x, t) \<Rightarrow> Inr (x, with_bytes S g t))"
    using boot_command [OF assms(1,2), of B L] by (simp add: with_bytes_def cong: if_cong)
qed

theorem netboot_reachable_inv_witness:
  "\<exists>s'. (nb_step sample_env sample_layout (region 0x1200 64))\<^sup>*\<^sup>* (sample_netboot netboot_initial 256 sample_net_mem) s' \<and>
     net_poll_continue s' = False \<and> netboot_inv (netboot_state s')"
proof -
  let ?s = "sample_netboot netboot_initial 256 sample_net_mem" and ?S = "region 0x1200 64"
  let ?s1 = "?s\<lparr>mem := store_bytes (mem ?s) 0x803E (le_bytes 4 CMD_BOOT), fw := fw ?s\<rparr>"
  let ?s2 = "?s1\<lparr>net_poll_continue := False\<rparr>"
  have "apart [(0x1200, 64), (0x803E, 4)]" by (rule apart_ascending [of 0]) simp
  then have S: "?S \<inter> region 0x803E 4 = {}" by simp
  then have "store_bytes (mem ?s) 0x803E (le_bytes 4 CMD_BOOT) x = mem ?s x" if "x \<in> ?S" for x
    using that by (intro store_outside) auto
  then have 1: "nb_step sample_env sample_layout ?S ?s ?s1" by (rule nb_step.arrive)
  have st: "nb_state (netboot_state ?s1) \<noteq> STATE_FILE_TRANSFER" "rd32 (mem ?s1) 0x803E = CMD_BOOT"
    using sample_boot_message [of "mem ?s" "0x803E"] by (simp_all add: netboot_initial_def)
  have 2: "nb_step sample_env sample_layout ?S ?s1 ?s2"
    using boot_command [OF st] boot_message_spares [OF st S] by (rule nb_step.handle)
  from 1 2 have "(nb_step sample_env sample_layout ?S)\<^sup>*\<^sup>* ?s ?s2" by (meson r_into_rtranclp rtranclp_trans)
  then show ?thesis using netboot_reachable_inv [of ?s sample_env sample_layout ?S ?s2] by (intro exI [of _ ?s2]) simp
qed

section \<open>The powers of a message\<close>

text \<open>Steps that never reset the machine.\<close>

definition no_reset :: "('w, 'z, 'a) run \<Rightarrow> bool" where
  "no_reset m \<longleftrightarrow> (\<forall>s kind t. m s \<noteq> Inl (Reset kind, t))"

named_theorems no_reset_intros "steps that do not reset the machine"

lemma no_reset_andthen [no_reset_intros]: "no_reset m \<Longrightarrow> (\<And>x. no_reset (f x)) \<Longrightarrow> no_reset (andthen m f)"
  by (auto simp: no_reset_def andthen_def split: sum.splits prod.splits)

lemma no_reset_branch [no_reset_intros]:
  "no_reset m \<Longrightarrow> no_reset k \<Longrightarrow> no_reset (if b then m else k)"
  "(\<And>x y. no_reset (f x y)) \<Longrightarrow> no_reset (case p of (x, y) \<Rightarrow> f x y)"
  by (simp_all split: prod.split)

lemma no_reset_basic [no_reset_intros]:
  "no_reset (ret x)" "no_reset (gets g)" "no_reset (modify u)" "no_reset (set_mem v)" "no_reset (fwcall c)" "no_reset (on_mem r)"
  "no_reset (EFIERR B src line status)" "no_reset (efi_printf B fmt args)"
  by (auto simp: no_reset_def ret_def gets_def modify_def fwcall_def on_mem_def EFIERR_def efi_exit_def efi_printf_def andthen_def
      split: prod.splits option.splits if_splits sum.splits)

lemma no_reset_send: "no_reset (netboot_cmd_send B L cmd dat len)"
  unfolding netboot_cmd_send_def net_udp6_send_def net_eth_send_def net_bufpool_return_def net_bufpool_get_def malloc_def free_def Let_def
  by (intro no_reset_intros)

lemma no_reset_send_init: "no_reset (netboot_send_init B L msg)"
  unfolding netboot_send_init_def update_netboot_def by (intro no_reset_intros no_reset_send)

text \<open>The flags by which the message handler steers the loader.\<close>

lemma keeps_send_flags:
  "keeps (\<lambda>s. Q (net_poll_continue s) (net_stop_advertising s)) (netboot_send_init B L msg :: ('w, 'z, unit) nb_run)"
proof -
  have send: "keeps (\<lambda>s. Q (net_poll_continue s) (net_stop_advertising s)) (netboot_cmd_send B L cmd dat len :: ('w, 'z, unit) nb_run)" for cmd dat len
  proof (rule keepsI)
    fix s t :: "('w, 'z) netboot_machine_scheme" and x
    assume run: "netboot_cmd_send B L cmd dat len s = Inr (x, t)" and Q: "Q (net_poll_continue s) (net_stop_advertising s)"
    have "net_machine.more t = net_machine.more s"
      using keepsD [OF keeps_cmd_send_more run, of "\<lambda>e. e = net_machine.more s"] by simp
    then show "Q (net_poll_continue t) (net_stop_advertising t)" using Q by (cases s; cases t; simp)
  qed
  show ?thesis unfolding netboot_send_init_def update_netboot_def by (intro keeps_intros send) simp_all
qed

text \<open>All messages but a fragment in a transfer go straight to the commands, at most after a warning on the console.\<close>

lemma not_fragment_run:
  fixes s :: "('w, 'z) netboot_machine_scheme"
  assumes "nb_state (netboot_state s) \<noteq> STATE_FILE_TRANSFER \<or> rd32 (mem s) msg \<noteq> CMD_FILE_FRAGMENT"
  shows "\<exists>w. netboot_cmd_receive B L msg s = andthen (netboot_command B L msg) (\<lambda>_. ret EFI_SUCCESS) (s\<lparr>fw := w\<rparr>)"
proof (cases "nb_state (netboot_state s) = STATE_FILE_TRANSFER")
  case True
  then have "\<exists>w. netboot_transfer B L msg s = Inr ((), s\<lparr>fw := w\<rparr>)" using assms by (auto simp: netboot_transfer_def andthen_def efi_printf_plain)
  with True show ?thesis by (auto simp: netboot_cmd_receive_def andthen_Inr)
next
  case False
  then show ?thesis by (intro exI [of _ "fw s"]) (simp add: netboot_cmd_receive_def andthen_Inr)
qed



end
