(* ===== verification/Receive.thy ===== *)
theory Receive
  imports Protocol
begin

text \<open>
  Receiving: the checks of \<^verbatim>\<open>net_eth_receive\<close> (\<^verbatim>\<open>net/eth.c\<close>), the dispatch to
  \<^verbatim>\<open>net_udp6_receive\<close> (\<^verbatim>\<open>net/udp6.c\<close>) and \<^verbatim>\<open>net_icmp6_receive\<close> (\<^verbatim>\<open>net/icmp6.c\<close>), and
  the answers to echo requests and neighbour solicitations.
\<close>

section \<open>The code\<close>

definition ETH_IP6 :: u16 where "ETH_IP6 = 0x86DD"

definition ICMP6_TYPE_ECHO_REQUEST :: u8 where "ICMP6_TYPE_ECHO_REQUEST = 128"
definition ICMP6_TYPE_ECHO_REPLY :: u8 where "ICMP6_TYPE_ECHO_REPLY = 129"
definition ICMP6_TYPE_NEIGHBOR_SOLICITATION :: u8 where "ICMP6_TYPE_NEIGHBOR_SOLICITATION = 135"
definition ICMP6_TYPE_NEIGHBOR_ADVERTISEMENT :: u8 where "ICMP6_TYPE_NEIGHBOR_ADVERTISEMENT = 136"
definition ICMP6_FLAG_OVERRIDE :: u32 where "ICMP6_FLAG_OVERRIDE = 0x20"
definition ICMP6_FLAG_SOLICITED :: u32 where "ICMP6_FLAG_SOLICITED = 0x40"
definition ICMP6_OPT_TYPE_TARGET_LL_ADDR :: u8 where "ICMP6_OPT_TYPE_TARGET_LL_ADDR = 2"

lemmas icmp6_defs = ICMP6_TYPE_ECHO_REQUEST_def ICMP6_TYPE_ECHO_REPLY_def ICMP6_TYPE_NEIGHBOR_SOLICITATION_def
  ICMP6_TYPE_NEIGHBOR_ADVERTISEMENT_def ICMP6_FLAG_OVERRIDE_def ICMP6_FLAG_SOLICITED_def ICMP6_OPT_TYPE_TARGET_LL_ADDR_def

definition net_udp6_receive :: "'w env \<Rightarrow> net_layout \<Rightarrow> addr \<Rightarrow> addr \<Rightarrow> u64 \<Rightarrow> ('w, 'z, efi_status) nb_run" where
  "net_udp6_receive B L ip dat len =
     andthen (gets (\<lambda>s. ntohs (rd16 (mem s) (dat + 2)))) (\<lambda>dest_port.
     if dest_port = 57777 then netboot_cmd_receive B L (dat + UDP_HEADER_LEN)
     else ret EFI_SUCCESS)"

text \<open>
  The local \<^verbatim>\<open>reply\<close>: type, code, checksum at 2, flags at 4, target at 8, the options
  at 24. The IPv6 header has the hop limit at 7 and the source at 8.
\<close>

definition neighbor_reply :: "net_layout \<Rightarrow> mem \<Rightarrow> mem" where
  "neighbor_reply L m =
     (let reply = reply_local L;
          m = m(reply := ICMP6_TYPE_NEIGHBOR_ADVERTISEMENT);
          m = m(reply + 1 := 0);
          m = wr16 m (reply + 2) 0;
          m = wr32 m (reply + 4) (ICMP6_FLAG_SOLICITED OR ICMP6_FLAG_OVERRIDE);
          m = memcpy m (reply + 8) (ip6_ll_addr L) 16;
          m = m(reply + 24 := ICMP6_OPT_TYPE_TARGET_LL_ADDR);
          m = m(reply + 25 := 1)
      in memcpy m (reply + 26) (ll_mac_addr L) ETH_ALEN)"

definition net_icmp6_receive :: "'w env \<Rightarrow> net_layout \<Rightarrow> addr \<Rightarrow> addr \<Rightarrow> u64 \<Rightarrow> ('w, 'z, unit) net_run" where
  "net_icmp6_receive B L ip dat len =
     andthen (gets (\<lambda>s. mem s dat)) (\<lambda>typ.
     if typ = ICMP6_TYPE_ECHO_REQUEST
     then
       andthen (set_mem (\<lambda>m. wr16 m (dat + 2) 0)) (\<lambda>_.
       andthen (set_mem (\<lambda>m. m(dat := ICMP6_TYPE_ECHO_REPLY))) (\<lambda>_.
       andthen (net_icmp6_send B L (mac_local L) dat len (ip + 8)) (\<lambda>_. ret ())))
     else if typ = ICMP6_TYPE_NEIGHBOR_SOLICITATION
     then
       andthen (gets mem) (\<lambda>m.
       if len < 24 \<or> m (dat + 1) \<noteq> 0 then ret ()
       else if m (ip + 7) \<noteq> 255 \<or> memcmp m (dat + 8) (ip6_ll_addr L) 16 \<noteq> 0 then ret ()
       else
         andthen (set_mem (neighbor_reply L)) (\<lambda>_.
         andthen (net_icmp6_send B L (mac_local L) (reply_local L) 32 (ip + 8)) (\<lambda>_. ret ())))
     else ret ())"

definition net_eth_dispatch :: "'w env \<Rightarrow> net_layout \<Rightarrow> addr \<Rightarrow> u64 \<Rightarrow> ('w, 'z, unit) nb_run" where
  "net_eth_dispatch B L packet len =
     andthen (gets (\<lambda>s. mem s (packet + 20))) (\<lambda>next_header.
     if next_header = 17 then andthen (net_udp6_receive B L (packet + 14) (packet + 54) len) (\<lambda>_. ret ())
     else if next_header = 58 then net_icmp6_receive B L (packet + 14) (packet + 54) len
     else ret ())"

definition net_eth_receive :: "'w env \<Rightarrow> net_layout \<Rightarrow> addr \<Rightarrow> u64 \<Rightarrow> ('w, 'z, efi_status) nb_run" where
  "net_eth_receive B L packet len =
     (if len < ETH_HLEN + IP6_HEADER_LEN
      then andthen (efi_printf B (''invalid packet length'' @ [CHR 0x0A]) []) (\<lambda>_. ret EFI_ABORTED)
      else
        andthen (gets mem) (\<lambda>m.
        if rd16 m (packet + 12) \<noteq> htons ETH_IP6 then ret EFI_ABORTED
        else
          let len = len - (ETH_HLEN + IP6_HEADER_LEN) in
          if rd32 m (packet + 14) AND 0xF0 \<noteq> 0x60
          then andthen (efi_printf B (''unknown IPv6 version'' @ [CHR 0x0A]) []) (\<lambda>_. ret EFI_ABORTED)
          else
            let n = ucast (ntohs (rd16 m (packet + 18))) :: u32 in
            if len < ucast n
            then andthen (efi_printf B (''IPv6 length mismatch'' @ [CHR 0x0A]) []) (\<lambda>_. ret EFI_ABORTED)
            else
              let len = ucast n in
              if memcmp m (ip6_ll_addr L) (packet + 38) 16 \<noteq> 0 \<and> memcmp m (ip6_snm_addr L) (packet + 38) 16 \<noteq> 0 \<and>
                 memcmp m (ip6_all_nodes L) (packet + 38) 16 \<noteq> 0
              then ret EFI_SUCCESS
              else
                andthen (set_mem (\<lambda>m. memcpy m (remote_mac_addr L) (packet + 6) 6)) (\<lambda>_.
                andthen (set_mem (\<lambda>m. memcpy m (remote_ip6_addr L) (packet + 22) 16)) (\<lambda>_.
                andthen (net_eth_dispatch B L packet len) (\<lambda>_.
                ret EFI_SUCCESS)))))"

section \<open>What is checked\<close>

text \<open>An IPv6 packet in an Ethernet frame of \<open>n\<close> bytes, and whom it is for.\<close>

definition declared_length :: "mem \<Rightarrow> addr \<Rightarrow> nat" where
  "declared_length m a = 256 * unat (m (a + 18)) + unat (m (a + 19))"

definition ip6_packet_ok :: "mem \<Rightarrow> addr \<Rightarrow> nat \<Rightarrow> bool" where
  "ip6_packet_ok m a n \<longleftrightarrow>
     54 \<le> n \<and> load_bytes m (a + 12) 2 = [0x86, 0xDD] \<and> m (a + 14) AND 0xF0 = 0x60 \<and> declared_length m a \<le> n - 54"

definition for_us :: "net_layout \<Rightarrow> mem \<Rightarrow> addr \<Rightarrow> bool" where
  "for_us L m a \<longleftrightarrow>
     load_bytes m (a + 38) 16 \<in> {load_bytes m (ip6_ll_addr L) 16, load_bytes m (ip6_snm_addr L) 16, load_bytes m (ip6_all_nodes L) 16}"

text \<open>The sender is remembered.\<close>

definition learned :: "net_layout \<Rightarrow> addr \<Rightarrow> mem \<Rightarrow> mem" where
  "learned L a m = memcpy (memcpy m (remote_mac_addr L) (a + 6) 6) (remote_ip6_addr L) (a + 22) 16"

lemma unat_htons: "unat (htons v) = unat v div 256 mod 256 + 256 * (unat v mod 256)"
proof -
  have "le_nat (le_bytes 2 (htons v)) = unat (htons v)"
    using unsigned_less [of "htons v", where ?'a = nat] by (simp add: le_nat_le_bytes)
  then show ?thesis by (simp add: le_bytes_htons be_bytes16_def unat_ucast_byte unat_drop_byte)
qed

lemma unat_ntohs: "unat (ntohs (rd16 m a)) = 256 * unat (m a) + unat (m (a + 1))"
proof -
  have "unat (ntohs (rd16 m a)) = unat (rd16 m a) div 256 mod 256 + 256 * (unat (rd16 m a) mod 256)"
    using unat_htons [of "rd16 m a"] by (simp add: ntohs_def htons_def)
  then show ?thesis using byte_less [of "m a"] byte_less [of "m (a + 1)"] by (simp add: rd16_bytes)
qed

lemma low_byte: "rd32 m a AND 0xF0 = 0x60 \<longleftrightarrow> m a AND 0xF0 = 0x60"
proof -
  have "unat (rd32 m a) = le_nat (load_bytes m a 4)"
    using le_nat_less [of "load_bytes m a 4"] by (simp add: rd32_def le_word_def unat_of_nat take_bit_nat_eq_self)
  moreover have "load_bytes m a 4 = m a # load_bytes m (a + 1) 3" using load_bytes_Suc [of m a 3] by simp
  ultimately have "unat (ucast (rd32 m a) :: u8) = unat (m a)"
    using byte_less [of "m a"] by (simp add: unat_ucast_byte)
  then have byte: "(ucast (rd32 m a) :: u8) = m a" by (simp add: word_unat_eq_iff)
  have "x AND 0xF0 = ucast ((ucast x :: u8) AND 0xF0)" for x :: u32
    by (rule bit_word_eqI) (auto simp: bit_and_iff bit_unsigned_iff bit_numeral_rec bit_1_iff split: nat.splits)
  then have "rd32 m a AND 0xF0 = ucast (m a AND 0xF0)" by (simp add: byte)
  moreover have "(ucast b :: u32) = 0x60 \<longleftrightarrow> b = 0x60" for b :: u8
  proof -
    have "unat (ucast b :: u32) = unat b" using byte_less [of b] by (simp add: unsigned_ucast_eq take_bit_nat_eq_self)
    then show ?thesis by (simp add: word_unat_eq_iff)
  qed
  ultimately show ?thesis by simp
qed

lemma rd16_pair: "rd16 m a = htons ETH_IP6 \<longleftrightarrow> load_bytes m a 2 = [0x86, 0xDD]"
proof -
  have "htons ETH_IP6 = 0xDD86" by (simp add: htons_def ETH_IP6_def)
  then have "rd16 m a = htons ETH_IP6 \<longleftrightarrow> unat (m a) + 256 * unat (m (a + 1)) = 0xDD86"
    by (simp add: word_unat_eq_iff rd16_bytes)
  also have "\<dots> \<longleftrightarrow> unat (m a) = 0x86 \<and> unat (m (a + 1)) = 0xDD"
  proof
    assume eq: "unat (m a) + 256 * unat (m (a + 1)) = 0xDD86"
    have "(unat (m a) + 256 * unat (m (a + 1))) mod 256 = unat (m a)" "(unat (m a) + 256 * unat (m (a + 1))) div 256 = unat (m (a + 1))"
      using byte_less [of "m a"] by simp_all
    from this [unfolded eq] show "unat (m a) = 0x86 \<and> unat (m (a + 1)) = 0xDD" by simp
  qed simp
  finally have "rd16 m a = htons ETH_IP6 \<longleftrightarrow> m a = 0x86 \<and> m (a + 1) = 0xDD" by (simp add: word_unat_eq_iff)
  moreover have "load_bytes m a 2 = [m a, m (a + 1)]" by (simp add: numeral_2_eq_2 load_bytes_Suc)
  ultimately show ?thesis by simp
qed

lemma eth_receive_cases:
  fixes s :: "('w, 'z) netboot_machine_scheme"
  shows "\<not> ip6_packet_ok (mem s) a (unat len) \<Longrightarrow> \<exists>w. net_eth_receive B L a len s = Inr (EFI_ABORTED, s\<lparr>fw := w\<rparr>)"
    and "ip6_packet_ok (mem s) a (unat len) \<Longrightarrow> \<not> for_us L (mem s) a \<Longrightarrow> net_eth_receive B L a len s = Inr (EFI_SUCCESS, s)"
    and "ip6_packet_ok (mem s) a (unat len) \<Longrightarrow> for_us L (mem s) a \<Longrightarrow> net_eth_receive B L a len s =
      andthen (net_eth_dispatch B L a (of_nat (declared_length (mem s) a))) (\<lambda>_. ret EFI_SUCCESS) (s\<lparr>mem := learned L a (mem s)\<rparr>)"
proof -
  let ?m = "mem s"
  let ?n = "ucast (ucast (ntohs (rd16 ?m (a + 18))) :: u32) :: u64"
  have H: "ETH_HLEN + IP6_HEADER_LEN = 54" by (simp add: ETH_HLEN_def IP6_HEADER_LEN_def)
  have short: "len < 54 \<longleftrightarrow> unat len < 54" by (simp add: word_less_nat_alt)
  have d: "declared_length ?m a < 65536" "declared_length ?m a = unat (ntohs (rd16 ?m (a + 18)))"
    using byte_less [of "?m (a + 18)"] byte_less [of "?m (a + 19)"] unat_ntohs [of ?m "a + 18"]
    by (simp_all add: declared_length_def add.assoc)
  have un: "unat ?n = declared_length ?m a"
  proof -
    have "unat (ucast x :: u64) = unat x" for x :: u32
      using unsigned_less [of x, where ?'a = nat] by (simp add: unsigned_ucast_eq take_bit_nat_eq_self)
    moreover have "unat (ucast x :: u32) = unat x" for x :: u16
      using unsigned_less [of x, where ?'a = nat] by (simp add: unsigned_ucast_eq take_bit_nat_eq_self)
    ultimately show ?thesis by (simp add: d(2))
  qed
  then have "(of_nat (unat ?n) :: u64) = of_nat (declared_length ?m a)" by (simp only:)
  then have n: "?n = of_nat (declared_length ?m a)" by simp
  have fits: "len - 54 < ?n \<longleftrightarrow> unat len - 54 < declared_length ?m a" if "54 \<le> unat len"
    unfolding word_less_nat_alt un using that by (simp add: unat_sub_if_size)
  have us: "for_us L ?m a \<longleftrightarrow> \<not> (memcmp ?m (ip6_ll_addr L) (a + 38) 16 \<noteq> 0 \<and> memcmp ?m (ip6_snm_addr L) (a + 38) 16 \<noteq> 0 \<and>
      memcmp ?m (ip6_all_nodes L) (a + 38) 16 \<noteq> 0)"
    by (auto simp: for_us_def memcmp_eq_0)
  have ok: "ip6_packet_ok ?m a (unat len) \<longleftrightarrow> \<not> len < 54 \<and> rd16 ?m (a + 12) = htons ETH_IP6 \<and> rd32 ?m (a + 14) AND 0xF0 = 0x60 \<and> \<not> len - 54 < ?n"
    using fits by (auto simp: ip6_packet_ok_def short rd16_pair low_byte not_less)
  note run = net_eth_receive_def [of B L a len] H Let_def
  show "\<not> ip6_packet_ok ?m a (unat len) \<Longrightarrow> \<exists>w. net_eth_receive B L a len s = Inr (EFI_ABORTED, s\<lparr>fw := w\<rparr>)"
    unfolding ok run by (auto simp: efi_printf_plain andthen_Inr intro: exI [of _ "fw s"])
  show "ip6_packet_ok ?m a (unat len) \<Longrightarrow> \<not> for_us L ?m a \<Longrightarrow> net_eth_receive B L a len s = Inr (EFI_SUCCESS, s)"
    unfolding ok us run by simp
  show "ip6_packet_ok ?m a (unat len) \<Longrightarrow> for_us L ?m a \<Longrightarrow> net_eth_receive B L a len s =
      andthen (net_eth_dispatch B L a (of_nat (declared_length ?m a))) (\<lambda>_. ret EFI_SUCCESS) (s\<lparr>mem := learned L a ?m\<rparr>)"
    unfolding ok us run n [symmetric] by (auto simp: learned_def)
qed


section \<open>A frame in memory\<close>

text \<open>A frame as the sending side builds it (\<open>ip6_frame\<close>), read with the offsets of the receiving side.\<close>

lemma frame_fields:
  assumes ld: "load_bytes m a (54 + length pl) = ip6_frame dm sm typ (of_nat (length pl)) src dst @ pl"
    and len: "length dm = 6" "length sm = 6" "length src = 16" "length dst = 16" "length pl < 65536"
  shows "ip6_packet_ok m a (54 + length pl)" and "declared_length m a = length pl" and "load_bytes m (a + 6) 6 = sm"
    and "m (a + 20) = typ" and "m (a + 21) = 255" and "load_bytes m (a + 22) 16 = src" and "load_bytes m (a + 38) 16 = dst"
    and "load_bytes m (a + 54) (length pl) = pl"
proof -
  note part = loaded_part [OF ld] and byte = loaded_byte [OF ld]
  show "load_bytes m (a + 6) 6 = sm" "load_bytes m (a + 22) 16 = src" "load_bytes m (a + 38) 16 = dst" "load_bytes m (a + 54) (length pl) = pl"
    using part [of 6 6] part [of 22 16] part [of 38 16] part [of 54 "length pl"] len by (simp_all add: ip6_frame_def)
  show "m (a + 20) = typ" "m (a + 21) = 255"
    using byte [of 20] byte [of 21] len by (simp_all add: ip6_frame_def nth_append)
  have u: "unat (of_nat (length pl) :: u16) = length pl" using len(5) by (simp add: unat_of_nat take_bit_nat_eq_self)
  have "unat (m (a + 18)) = length pl div 256 mod 256" "unat (m (a + 19)) = length pl mod 256"
    using byte [of 18] byte [of 19] len u by (simp_all add: ip6_frame_def nth_append be_bytes16_def unat_ucast_byte unat_drop_byte)
  then show d: "declared_length m a = length pl" using len(5) by (simp add: declared_length_def)
  have "load_bytes m (a + 12) 2 = [0x86, 0xDD]" "m (a + 14) = 0x60"
    using part [of 12 2] byte [of 14] len by (simp_all add: ip6_frame_def nth_append)
  then show "ip6_packet_ok m a (54 + length pl)" by (simp add: ip6_packet_ok_def d)
qed

text \<open>What remembering the sender changes.\<close>

definition sender_apart :: "net_layout \<Rightarrow> addr \<Rightarrow> nat \<Rightarrow> bool" where
  "sender_apart L a n \<longleftrightarrow> apart [(a, n), (remote_mac_addr L, 6), (remote_ip6_addr L, 16)]"

lemma learned_facts:
  assumes ap: "sender_apart L a n" and n: "54 \<le> n"
  shows "load_bytes (learned L a m) (remote_mac_addr L) 6 = load_bytes m (a + 6) 6"
    and "load_bytes (learned L a m) (remote_ip6_addr L) 16 = load_bytes m (a + 22) 16"
    and "x \<notin> region (remote_mac_addr L) 6 \<Longrightarrow> x \<notin> region (remote_ip6_addr L) 16 \<Longrightarrow> learned L a m x = m x"
    and "x \<in> region a n \<Longrightarrow> learned L a m x = m x"
proof -
  let ?rm = "remote_mac_addr L" and ?ri = "remote_ip6_addr L"
  have in1: "region (a + 6) 6 \<subseteq> region a n" and in2: "region (a + 22) 16 \<subseteq> region a n"
    using subregion [of 6 6 n a] subregion [of 22 16 n a] n by simp_all
  note D = ap [unfolded sender_apart_def, simplified]
  have m1: "memcpy m ?rm (a + 6) 6 = store_bytes m ?rm (load_bytes m (a + 6) 6)"
    by (rule memcpy_store) (use D in1 in auto)
  have src: "load_bytes (store_bytes m ?rm (load_bytes m (a + 6) 6)) (a + 22) 16 = load_bytes m (a + 22) 16"
    by (rule load_store_disj) (use D in2 in auto)
  have l: "learned L a m = store_bytes (store_bytes m ?rm (load_bytes m (a + 6) 6)) ?ri (load_bytes m (a + 22) 16)"
    unfolding learned_def m1 by (subst memcpy_store) (use D in2 src in auto)
  show "load_bytes (learned L a m) ?ri 16 = load_bytes m (a + 22) 16" by (simp add: l load_store_same)
  show "load_bytes (learned L a m) ?rm 6 = load_bytes m (a + 6) 6"
    using D by (simp add: l load_store_disj load_store_same)
  show out: "x \<notin> region ?rm 6 \<Longrightarrow> x \<notin> region ?ri 16 \<Longrightarrow> learned L a m x = m x" for x
    by (simp add: l store_outside)
  show "x \<in> region a n \<Longrightarrow> learned L a m x = m x" by (rule out) (use D in auto)
qed

lemma learned_load:
  assumes "sender_apart L a n" "54 \<le> n" "region q k \<inter> region (remote_mac_addr L) 6 = {}" "region q k \<inter> region (remote_ip6_addr L) 16 = {}"
  shows "load_bytes (learned L a m) q k = load_bytes m q k"
  by (intro load_cong learned_facts(3) [OF assms(1,2)]) (use assms(3,4) in auto)

lemma learned_packet:
  assumes "sender_apart L a n" "54 \<le> n" "k + j \<le> n"
  shows "load_bytes (learned L a m) (a + of_nat k) j = load_bytes m (a + of_nat k) j"
  by (intro load_cong learned_facts(4) [OF assms(1,2)]) (use subregion [OF assms(3)] in auto)

lemma learned_byte: "sender_apart L a n \<Longrightarrow> 54 \<le> n \<Longrightarrow> k < n \<Longrightarrow> learned L a m (a + of_nat k) = m (a + of_nat k)"
  using learned_facts(4) in_region by blast

text \<open>Answers to the sender's address go to the sender's MAC address.\<close>

lemma mac_for_sender:
  assumes ap: "sender_apart L a n" "54 \<le> n" and uni: "m (a + 22) \<noteq> 0xFF"
  shows "mac_for L (learned L a m) (remote_ip6_addr L) = Some (load_bytes m (a + 6) 6)"
    and "mac_for L (learned L a m) (a + 22) = Some (load_bytes m (a + 6) 6)"
proof -
  let ?M = "learned L a m"
  have src: "load_bytes ?M (a + 22) 16 = load_bytes m (a + 22) 16" using learned_packet [OF ap, of 22 16] ap by simp
  have ip: "load_bytes ?M (remote_ip6_addr L) 16 = load_bytes m (a + 22) 16" using ap by (rule learned_facts(2))
  have b: "?M (a + 22) = m (a + 22)" using learned_byte [OF ap, of 22] ap by simp
  have "?M (remote_ip6_addr L) = m (a + 22)"
    using nth_load_bytes [of 0 16 ?M "remote_ip6_addr L"] nth_load_bytes [of 0 16 m "a + 22"] ip by simp
  then show "mac_for L ?M (remote_ip6_addr L) = Some (load_bytes m (a + 6) 6)" "mac_for L ?M (a + 22) = Some (load_bytes m (a + 6) 6)"
    using uni b src ip learned_facts(1) [OF ap] by (simp_all add: mac_for_def)
qed

section \<open>Datagrams\<close>

lemma ntohs_be_bytes: "load_bytes m a 2 = be_bytes16 v \<Longrightarrow> ntohs (rd16 m a) = v"
proof -
  assume "load_bytes m a 2 = be_bytes16 v"
  then have "unat (m a) = unat v div 256 mod 256" "unat (m (a + 1)) = unat v mod 256"
    by (simp_all add: numeral_2_eq_2 load_bytes_Suc be_bytes16_def unat_ucast_byte unat_drop_byte)
  then show ?thesis using unsigned_less [of v, where ?'a = nat] by (simp add: word_unat_eq_iff unat_ntohs)
qed

lemma andthen_dropped: "andthen (andthen f (\<lambda>_. ret ())) (\<lambda>_. ret y) s = andthen f (\<lambda>_. ret y) s"
  by (simp add: andthen_def split: sum.splits prod.splits)

lemma udp_received:
  fixes s :: "('w, 'z) netboot_machine_scheme"
  assumes ok: "ip6_packet_ok (mem s) a n" and us: "for_us L (mem s) a" and ap: "sender_apart L a n" and n: "n < 2 ^ 32"
    and proto: "mem s (a + 20) = 17" and big: "62 \<le> n" and port: "load_bytes (mem s) (a + 56) 2 = be_bytes16 57777"
  shows "net_eth_receive B L a (of_nat n) s =
     andthen (netboot_cmd_receive B L (a + 62)) (\<lambda>_. ret EFI_SUCCESS) (s\<lparr>mem := learned L a (mem s)\<rparr>)"
proof -
  let ?M = "learned L a (mem s)"
  have un: "unat (of_nat n :: u64) = n" using n by (simp add: unat_of_nat64)
  have "?M (a + 20) = 17" using learned_byte [OF ap, of 20 "mem s"] big proto by simp
  moreover have "load_bytes ?M (a + 56) 2 = be_bytes16 57777" using learned_packet [OF ap, of 56 2 "mem s"] big port by simp
  then have "ntohs (rd16 ?M (a + 56)) = 57777" by (rule ntohs_be_bytes)
  ultimately show ?thesis
    using eth_receive_cases(3) [of s a "of_nat n" L B] ok us
    by (simp add: un net_eth_dispatch_def net_udp6_receive_def UDP_HEADER_LEN_def add.assoc andthen_dropped
        andthen_assoc [of "gets _"])
qed

section \<open>Answering\<close>

definition reply_bytes :: "u8 list \<Rightarrow> u8 list \<Rightarrow> u8 list" where
  "reply_bytes ip mac = [136, 0, 0, 0, 0x60, 0, 0, 0] @ ip @ [2, 1] @ mac"

lemma neighbor_reply_bytes:
  assumes ap: "apart [(reply_local L, 32), (ip6_ll_addr L, 16), (ll_mac_addr L, 6)]"
  shows "neighbor_reply L m = store_bytes m (reply_local L) (reply_bytes (load_bytes m (ip6_ll_addr L) 16) (load_bytes m (ll_mac_addr L) 6))"
proof -
  let ?p = "reply_local L" and ?ip = "load_bytes m (ip6_ll_addr L) 16" and ?mac = "load_bytes m (ll_mac_addr L) 6"
  have flags: "le_bytes 4 (ICMP6_FLAG_SOLICITED OR ICMP6_FLAG_OVERRIDE) = [0x60, 0, 0, 0]" "le_bytes 2 (0 :: u16) = [0, 0]"
    by (simp_all add: icmp6_defs le_bytes_numeral)
  have next_field: "q = ?p + of_nat (length bs) \<Longrightarrow> length bs + length cs \<le> 32 \<Longrightarrow>
      store_bytes (store_bytes m ?p bs) q cs = store_bytes m ?p (bs @ cs)" for q bs cs
    by (simp add: store_next)
  have head: "wr32 (wr16 ((m(?p := 136))(?p + 1 := 0)) (?p + 2) 0) (?p + 4) (ICMP6_FLAG_SOLICITED OR ICMP6_FLAG_OVERRIDE) =
      store_bytes m ?p [136, 0, 0, 0, 0x60, 0, 0, 0]"
    unfolding upd_store wr16_def wr32_def flags by (subst next_field, simp, simp)+ simp
  have "memcpy (store_bytes m ?p [136, 0, 0, 0, 0x60, 0, 0, 0]) (?p + 8) (ip6_ll_addr L) 16 = store_bytes m ?p ([136, 0, 0, 0, 0x60, 0, 0, 0] @ ?ip)"
    by (rule copy_next [where k = 32]) (use ap in auto)
  moreover have "memcpy (store_bytes m ?p ([136, 0, 0, 0, 0x60, 0, 0, 0] @ ?ip @ [2, 1])) (?p + 26) (ll_mac_addr L) 6 =
      store_bytes m ?p (([136, 0, 0, 0, 0x60, 0, 0, 0] @ ?ip @ [2, 1]) @ ?mac)"
    by (rule copy_next [where k = 32]) (use ap in auto)
  moreover have "store_bytes (store_bytes (store_bytes m ?p ([136, 0, 0, 0, 0x60, 0, 0, 0] @ ?ip)) (?p + 24) [2]) (?p + 25) [1] =
      store_bytes m ?p ([136, 0, 0, 0, 0x60, 0, 0, 0] @ ?ip @ [2, 1])"
    by (subst next_field, simp, simp)+ simp
  ultimately show ?thesis
    unfolding neighbor_reply_def Let_def reply_bytes_def ETH_ALEN_def
    using head by (simp add: icmp6_defs upd_store del: fun_upd_apply)
qed

text \<open>Where the packet, the local \<^verbatim>\<open>reply\<close> and the network's memory lie.\<close>

definition answer_apart :: "net_layout \<Rightarrow> addr \<Rightarrow> nat \<Rightarrow> addr \<Rightarrow> bool" where
  "answer_apart L a n phys \<longleftrightarrow>
     apart [(a, n), (remote_mac_addr L, 6), (remote_ip6_addr L, 16), (reply_local L, 32), (ip6_ll_addr L, 16), (ll_mac_addr L, 6),
            (mac_local L, 6), (phys, 8192)] \<and>
     net_apart L (mac_local L) phys"

lemma answer_apartD:
  assumes "answer_apart L a n phys"
  shows "sender_apart L a n" "apart [(reply_local L, 32), (ip6_ll_addr L, 16), (ll_mac_addr L, 6)]" "net_apart L (mac_local L) phys"
    "clear_of (mac_local L) phys a n" "clear_of (mac_local L) phys (reply_local L) 32"
    "region phys 8192 \<inter> region (reply_local L) 32 = {}" "region (ll_mac_addr L) 6 \<inter> region (reply_local L) 32 = {}"
    "region (ip6_ll_addr L) 16 \<inter> region (reply_local L) 32 = {}" "region a n \<inter> region (reply_local L) 32 = {}"
    "region (remote_mac_addr L) 6 \<inter> region (reply_local L) 32 = {}" "region (remote_ip6_addr L) 16 \<inter> region (reply_local L) 32 = {}"
  using assms unfolding answer_apart_def sender_apart_def clear_of_def by simp_all

lemma own_addresses_kept:
  assumes ap: "answer_apart L a n phys" and n: "54 \<le> n"
  shows "load_bytes (learned L a m) (ip6_ll_addr L) 16 = load_bytes m (ip6_ll_addr L) 16"
    and "load_bytes (learned L a m) (ll_mac_addr L) 6 = load_bytes m (ll_mac_addr L) 6"
    and "x \<in> region phys 8192 \<Longrightarrow> learned L a m x = m x"
  using ap unfolding answer_apart_def
  by (auto intro!: learned_load [OF answer_apartD(1) [OF ap] n] learned_facts(3) [OF answer_apartD(1) [OF ap] n])

lemma icmp_received:
  fixes s :: "('w, 'z) netboot_machine_scheme"
  assumes ok: "ip6_packet_ok (mem s) a (unat len)" and us: "for_us L (mem s) a" and ap: "sender_apart L a (unat len)"
    and proto: "mem s (a + 20) = 58"
  shows "net_eth_receive B L a len s =
     andthen (net_icmp6_receive B L (a + 14) (a + 54) (of_nat (declared_length (mem s) a))) (\<lambda>_. ret EFI_SUCCESS) (s\<lparr>mem := learned L a (mem s)\<rparr>)"
proof -
  have "54 \<le> unat len" using ok by (simp add: ip6_packet_ok_def)
  then have "learned L a (mem s) (a + 20) = 58" using learned_byte [OF ap, of 20 "mem s"] proto by simp
  then show ?thesis
    using eth_receive_cases(3) [OF ok us, of B] by (simp add: net_eth_dispatch_def andthen_assoc [of "gets _"])
qed

text \<open>
  What \<^verbatim>\<open>net_icmp6_receive\<close> checks of a neighbour solicitation: the length, the code, the hop limit, and that it asks for our address. Section 7.1.1 of
  RFC 4861, which a comment there names, wants more: a valid checksum, options of a length above zero, and further conditions when the source is the
  unspecified address. The code checks none of these.
\<close>

definition solicitation_ok :: "net_layout \<Rightarrow> mem \<Rightarrow> addr \<Rightarrow> bool" where
  "solicitation_ok L m a \<longleftrightarrow>
     24 \<le> declared_length m a \<and> m (a + 55) = 0 \<and> m (a + 21) = 255 \<and> load_bytes m (a + 62) 16 = load_bytes m (ip6_ll_addr L) 16"

lemma declared_less: "declared_length m a < 65536"
  using byte_less [of "m (a + 18)"] byte_less [of "m (a + 19)"] by (simp add: declared_length_def)

lemma solicitation_run:
  fixes s :: "('w, 'z) netboot_machine_scheme"
  assumes ok: "ip6_packet_ok (mem s) a (unat len)" and us: "for_us L (mem s) a" and ap: "answer_apart L a (unat len) (eth_buffer_phys s)"
    and proto: "mem s (a + 20) = 58" "mem s (a + 54) = 135" and big: "55 < unat len"
  defines "m1 \<equiv> learned L a (mem s)"
  shows "net_eth_receive B L a len s =
     (if solicitation_ok L (mem s) a
      then andthen (net_icmp6_send B L (mac_local L) (reply_local L) 32 (a + 22)) (\<lambda>_. ret EFI_SUCCESS) (s\<lparr>mem := neighbor_reply L m1\<rparr>)
      else Inr (EFI_SUCCESS, s\<lparr>mem := m1\<rparr>))"
proof -
  let ?d = "declared_length (mem s) a"
  note sa = answer_apartD(1) [OF ap]
  have n: "54 \<le> unat len" "?d \<le> unat len - 54" using ok by (simp_all add: ip6_packet_ok_def)
  have b: "m1 (a + 54) = 135" "m1 (a + 55) = mem s (a + 55)" "m1 (a + 21) = mem s (a + 21)"
    unfolding m1_def using learned_byte [OF sa n(1), of 54 "mem s"] learned_byte [OF sa n(1), of 55 "mem s"]
      learned_byte [OF sa n(1), of 21 "mem s"] big proto by simp_all
  have short: "(of_nat ?d :: u64) < 24 \<longleftrightarrow> ?d < 24"
    using declared_less [of "mem s" a] by (simp add: word_less_nat_alt unat_of_nat64)
  have "load_bytes m1 (a + 62) 16 = load_bytes (mem s) (a + 62) 16" if "24 \<le> ?d"
    unfolding m1_def using learned_packet [OF sa n(1), of 62 16 "mem s"] that n by simp
  then have cmp: "memcmp m1 (a + 62) (ip6_ll_addr L) 16 = 0 \<longleftrightarrow> load_bytes (mem s) (a + 62) 16 = load_bytes (mem s) (ip6_ll_addr L) 16" if "24 \<le> ?d"
    using that own_addresses_kept(1) [OF ap n(1), of "mem s"] by (simp add: memcmp_eq_0 m1_def)
  have "net_eth_receive B L a len s =
      andthen (net_icmp6_receive B L (a + 14) (a + 54) (of_nat ?d)) (\<lambda>_. ret EFI_SUCCESS) (s\<lparr>mem := m1\<rparr>)"
    unfolding m1_def using ok us sa proto(1) by (rule icmp_received)
  moreover have "net_icmp6_receive B L (a + 14) (a + 54) (of_nat ?d) (s\<lparr>mem := m1\<rparr>) =
      (if solicitation_ok L (mem s) a
       then andthen (net_icmp6_send B L (mac_local L) (reply_local L) 32 (a + 22)) (\<lambda>_. ret ()) (s\<lparr>mem := neighbor_reply L m1\<rparr>)
       else Inr ((), s\<lparr>mem := m1\<rparr>))"
    using b cmp short
    by (simp add: net_icmp6_receive_def ICMP6_TYPE_ECHO_REQUEST_def ICMP6_TYPE_NEIGHBOR_SOLICITATION_def solicitation_ok_def add.assoc not_less)
  ultimately show ?thesis
    using andthen_dropped [of "net_icmp6_send B L (mac_local L) (reply_local L) 32 (a + 22)" EFI_SUCCESS]
    by (simp add: andthen_def split: sum.splits prod.splits)
qed

text \<open>What an answer to the packet at \<open>a\<close> is sent as: a frame from us to its sender.\<close>

definition answer_frame :: "net_layout \<Rightarrow> mem \<Rightarrow> addr \<Rightarrow> u8 list \<Rightarrow> u8 list" where
  "answer_frame L m a payload =
     ip6_frame (load_bytes m (a + 6) 6) (load_bytes m (ll_mac_addr L) 6) 58 (of_nat (length payload)) (load_bytes m (ip6_ll_addr L) 16)
       (load_bytes m (a + 22) 16) @ payload"

lemma answer_sent:
  fixes s :: "('w, 'z) net_machine_scheme"
  assumes ap: "answer_apart L a n (eth_buffer_phys s)" and n: "54 \<le> n" and rep: "pool_rep s (b # bs)" and uni: "mem s (a + 22) \<noteq> 0xFF"
    and same: "\<And>q k. (q, k) \<in> {(ll_mac_addr L, 6), (ip6_ll_addr L, 16), (a + 22, 16), (remote_ip6_addr L, 16), (remote_mac_addr L, 6)} \<Longrightarrow>
        load_bytes m2 q k = load_bytes (learned L a (mem s)) q k"
    and block: "\<And>x. x \<in> region (eth_buffer_phys s) 8192 \<Longrightarrow> m2 x = learned L a (mem s) x"
    and dat: "clear_of (mac_local L) (eth_buffer_phys s) dat (unat k)" "4 \<le> unat k" "unat k \<le> 1460"
    and D: "load_bytes m2 dat (unat k) = D" "take 2 (drop 2 D) = [0, 0]"
  shows "\<exists>chk F status s'. F = answer_frame L (mem s) a (icmp_message chk D) \<and> checksum_valid 58 F \<and>
     net_icmp6_send B L (mac_local L) dat k (a + 22) (s\<lparr>mem := m2\<rparr>) = Inr (status, s') \<and>
     sent_frame B (mac_local L) b bs F status (s\<lparr>mem := m2\<rparr>) s'"
proof -
  let ?m1 = "learned L a (mem s)" and ?phys = "eth_buffer_phys s" and ?s = "s\<lparr>mem := m2\<rparr>" and ?d = "load_bytes (mem s) (a + 6) 6"
  note sa = answer_apartD(1) [OF ap] and na = answer_apartD(3) [OF ap]
  have "mac_for L m2 (a + 22) = mac_for L ?m1 (a + 22)" by (rule mac_for_cong) (simp_all add: same)
  then have d: "mac_for L (mem ?s) (a + 22) = Some ?d" using mac_for_sender(2) [OF sa n, of "mem s"] uni by simp
  have "net_ready L UNIV s (b # bs)" using rep na by (simp add: net_ready_def)
  then have "net_ready L UNIV ?s (b # bs)"
    by (rule net_ready_cong) (use block own_addresses_kept(3) [OF ap n] in simp_all)
  then have rep2: "pool_rep ?s (b # bs)" by (simp add: net_ready_def)
  have "region (a + 22) 16 \<subseteq> region a n" using subregion [of 22 16 n a] n by simp
  then have dst: "clear_of (mac_local L) (eth_buffer_phys ?s) (a + 22) 16" using answer_apartD(4) [OF ap] by (auto simp: clear_of_def)
  have src: "load_bytes ?m1 (a + 22) 16 = load_bytes (mem s) (a + 22) 16" using learned_packet [OF sa n, of 22 16] n by simp
  have lD: "length D = unat k" by (subst D(1) [symmetric]) (rule length_load_bytes)
  have fr: "frame_to L (mem ?s) (a + 22) ?d IPPROTO_ICMP6 pl = answer_frame L (mem s) a pl" for pl
    using own_addresses_kept(1,2) [OF ap n, of "mem s"] src by (simp add: frame_to_def answer_frame_def same IPPROTO_ICMP6_def)
  have "net_apart L (mac_local L) (eth_buffer_phys ?s)" "clear_of (mac_local L) (eth_buffer_phys ?s) dat (unat k)" using na dat(1) by simp_all
  from icmp6_send_sent [OF rep2 this(1) dst this(2) dat(2,3) d, of B, unfolded fr] D show ?thesis by simp
qed

lemma solicitation_answered:
  fixes s :: "('w, 'z) netboot_machine_scheme"
  assumes ok: "ip6_packet_ok (mem s) a (unat len)" and us: "for_us L (mem s) a" and ap: "answer_apart L a (unat len) (eth_buffer_phys s)"
    and proto: "mem s (a + 20) = 58" "mem s (a + 54) = 135" and valid: "solicitation_ok L (mem s) a"
    and rep: "pool_rep s (b # bs)" and uni: "mem s (a + 22) \<noteq> 0xFF"
  defines "R \<equiv> reply_bytes (load_bytes (mem s) (ip6_ll_addr L) 16) (load_bytes (mem s) (ll_mac_addr L) 6)"
  shows "\<exists>chk F s'. F = answer_frame L (mem s) a (icmp_message chk R) \<and> checksum_valid 58 F \<and>
     net_eth_receive B L a len s = Inr (EFI_SUCCESS, s') \<and> fw s' = snd (Transmit (SNP B) (fw s) (snp s) (b + 8) F)"
proof -
  let ?m1 = "learned L a (mem s)" and ?r = "reply_local L"
  let ?m2 = "store_bytes ?m1 ?r R"
  have n: "54 \<le> unat len" "55 < unat len" using ok valid unfolding ip6_packet_ok_def solicitation_ok_def by linarith+
  note A = answer_apartD [OF ap]
  have lR: "length R = 32" by (simp add: R_def reply_bytes_def)
  have m2: "neighbor_reply L ?m1 = ?m2" using neighbor_reply_bytes [OF A(2), of ?m1] own_addresses_kept(1,2) [OF ap n(1), of "mem s"] by (simp add: R_def)
  have "region (a + 22) 16 \<subseteq> region a (unat len)" using subregion [of 22 16 "unat len" a] n by simp
  then have src: "region (a + 22) 16 \<inter> region ?r 32 = {}" using A(9) by blast
  have same: "load_bytes ?m2 q k = load_bytes ?m1 q k"
    if "(q, k) \<in> {(ll_mac_addr L, 6), (ip6_ll_addr L, 16), (a + 22, 16), (remote_ip6_addr L, 16), (remote_mac_addr L, 6)}" for q k
    by (rule load_store_disj) (use that A(7,8,10,11) src in \<open>auto simp: lR\<close>)
  have block: "?m2 x = ?m1 x" if "x \<in> region (eth_buffer_phys s) 8192" for x
    using that A(6) by (intro store_outside) (auto simp: lR)
  have "clear_of (mac_local L) (eth_buffer_phys s) ?r (unat (32 :: u64))" "load_bytes ?m2 ?r (unat (32 :: u64)) = R" "take 2 (drop 2 R) = [0, 0]"
    using A(5) lR by (simp_all add: load_store_same) (simp add: R_def reply_bytes_def)
  then obtain chk F st s' where F: "F = answer_frame L (mem s) a (icmp_message chk R)" "checksum_valid 58 F"
      and send: "net_icmp6_send B L (mac_local L) ?r 32 (a + 22) (s\<lparr>mem := ?m2\<rparr>) = Inr (st, s')" and sent: "sent_frame B (mac_local L) b bs F st (s\<lparr>mem := ?m2\<rparr>) s'"
    using answer_sent [OF ap n(1) rep uni same block, of ?r 32 R B] by auto
  have "net_eth_receive B L a len s = Inr (EFI_SUCCESS, s')"
    using solicitation_run [OF ok us ap proto n(2), of B] valid send by (simp add: m2 andthen_Inr)
  moreover have "fw s' = snd (Transmit (SNP B) (fw s) (snp s) (b + 8) F)" using sent by (auto simp: sent_frame_def)
  ultimately show ?thesis using F by blast
qed

lemma echo_answered:
  fixes s :: "('w, 'z) netboot_machine_scheme"
  assumes ok: "ip6_packet_ok (mem s) a (unat len)" and us: "for_us L (mem s) a" and ap: "answer_apart L a (unat len) (eth_buffer_phys s)"
    and proto: "mem s (a + 20) = 58" and D: "load_bytes (mem s) (a + 54) (declared_length (mem s) a) = 128 # code # chk0 # chk1 # rest"
    and size: "length rest \<le> 1456" and rep: "pool_rep s (b # bs)" and uni: "mem s (a + 22) \<noteq> 0xFF"
  shows "\<exists>chk F s'. F = answer_frame L (mem s) a (icmp_message chk (129 # code # 0 # 0 # rest)) \<and> checksum_valid 58 F \<and>
     net_eth_receive B L a len s = Inr (EFI_SUCCESS, s') \<and> fw s' = snd (Transmit (SNP B) (fw s) (snp s) (b + 8) F)"
proof -
  let ?m1 = "learned L a (mem s)" and ?d = "declared_length (mem s) a" and ?p = "a + 54"
  let ?E = "129 # code # 0 # 0 # rest"
  have d: "?d = 4 + length rest" using arg_cong [OF D, of length] by simp
  have n: "54 \<le> unat len" "58 + length rest \<le> unat len" using ok d unfolding ip6_packet_ok_def by linarith+
  note A = answer_apartD [OF ap]
  have ld1: "load_bytes ?m1 ?p (4 + length rest) = 128 # code # chk0 # chk1 # rest"
    using learned_packet [OF A(1) n(1), of 54 "4 + length rest" "mem s"] n D d by simp
  have first: "?m1 ?p = 128" using loaded_byte [OF ld1, of 0] by simp
  define m2 where "m2 = (wr16 ?m1 (?p + 2) 0)(?p := 129)"
  have w: "m2 = store_bytes ?m1 ?p ?E"
  proof -
    have same: "?m1 = store_bytes ?m1 ?p (128 # code # chk0 # chk1 # rest)" using store_load_same [of ?m1 ?p "4 + length rest"] ld1 by simp
    have "wr16 (store_bytes ?m1 ?p (128 # code # chk0 # chk1 # rest)) (?p + of_nat 2) 0 = store_bytes ?m1 ?p (128 # code # 0 # 0 # rest)"
      unfolding wr16_def using size by (subst store_slice) (simp_all add: le_bytes_numeral)
    moreover have "(store_bytes ?m1 ?p (128 # code # 0 # 0 # rest))(?p := 129) = store_bytes ?m1 ?p ?E"
      unfolding upd_store using store_slice [of 0 "[129]" "128 # code # 0 # 0 # rest" ?m1 ?p] size by simp
    ultimately show ?thesis unfolding m2_def using same by simp
  qed
  have inP: "region ?p (4 + length rest) \<subseteq> region a (unat len)" using subregion [of 54 "4 + length rest" "unat len" a] n by simp
  have far: "region (ll_mac_addr L) 6 \<inter> region a (unat len) = {}" "region (ip6_ll_addr L) 16 \<inter> region a (unat len) = {}"
    "region (remote_ip6_addr L) 16 \<inter> region a (unat len) = {}" "region (remote_mac_addr L) 6 \<inter> region a (unat len) = {}"
    "region (eth_buffer_phys s) 8192 \<inter> region a (unat len) = {}"
    using ap unfolding answer_apart_def by simp_all
  have apart22: "region (a + 22) 16 \<inter> region ?p (4 + length rest) = {}"
    using offsets_apart [of 22 16 54 "4 + length rest" a] size by simp
  have same: "load_bytes m2 q k = load_bytes ?m1 q k"
    if "(q, k) \<in> {(ll_mac_addr L, 6), (ip6_ll_addr L, 16), (a + 22, 16), (remote_ip6_addr L, 16), (remote_mac_addr L, 6)}" for q k
  proof -
    have "region q k \<inter> region a (unat len) = {} \<or> (q, k) = (a + 22, 16)" using that far by blast
    then have "region q k \<inter> region ?p (4 + length rest) = {}" using inP apart22 by blast
    then show ?thesis unfolding w by (rule load_store_disj_le) simp
  qed
  have block: "m2 x = ?m1 x" if "x \<in> region (eth_buffer_phys s) 8192" for x
  proof -
    have "x \<notin> region ?p (4 + length rest)" using that far(5) inP by blast
    then show ?thesis unfolding w by (rule store_outside_le) simp
  qed
  have u: "unat (of_nat ?d :: u64) = 4 + length rest" unfolding d by (rule unat_of_nat64) (use size in simp)
  have "clear_of (mac_local L) (eth_buffer_phys s) ?p (unat (of_nat ?d :: u64))" "load_bytes m2 ?p (unat (of_nat ?d :: u64)) = ?E"
    using A(4) inP size unfolding u by (auto simp: clear_of_def w load_store_same)
  then obtain chk F st s' where F: "F = answer_frame L (mem s) a (icmp_message chk ?E)" "checksum_valid 58 F"
      and send: "net_icmp6_send B L (mac_local L) ?p (of_nat ?d) (a + 22) (s\<lparr>mem := m2\<rparr>) = Inr (st, s')"
      and sent: "sent_frame B (mac_local L) b bs F st (s\<lparr>mem := m2\<rparr>) s'"
    using answer_sent [OF ap n(1) rep uni same block, of ?p "of_nat ?d" ?E B] size by (auto simp: u)
  have "net_icmp6_receive B L (a + 14) ?p (of_nat ?d) (s\<lparr>mem := ?m1\<rparr>) = Inr ((), s')"
    using send [unfolded m2_def] first
    by (simp add: net_icmp6_receive_def ICMP6_TYPE_ECHO_REQUEST_def ICMP6_TYPE_ECHO_REPLY_def andthen_Inr add.assoc)
  then have "net_eth_receive B L a len s = Inr (EFI_SUCCESS, s')"
    using icmp_received [OF ok us A(1) proto, of B] by (simp add: andthen_Inr)
  moreover have "fw s' = snd (Transmit (SNP B) (fw s) (snp s) (b + 8) F)" using sent by (auto simp: sent_frame_def)
  ultimately show ?thesis using F by blast
qed

lemma udp_frame_handled:
  fixes s :: "('w, 'z) netboot_machine_scheme"
  assumes "F = frame_to LS mS dst d IPPROTO_UDP (udp_segment source_port 57777 chk dat)" and "mac_for LS mS dst = Some d"
    and "length dat \<le> 1978" and "load_bytes (mem s) a (length F) = F"
    and "load_bytes mS dst 16 \<in> {load_bytes (mem s) (ip6_ll_addr L) 16, load_bytes (mem s) (ip6_snm_addr L) 16, load_bytes (mem s) (ip6_all_nodes L) 16}"
    and "sender_apart L a (length F)" and "mS (ip6_ll_addr LS) \<noteq> 0xFF"
  shows "\<exists>m1. net_eth_receive B L a (of_nat (length F)) s = andthen (netboot_cmd_receive B L (a + 62)) (\<lambda>_. ret EFI_SUCCESS) (s\<lparr>mem := m1\<rparr>) \<and>
     load_bytes m1 (a + 62) (length dat) = dat \<and> load_bytes m1 (remote_ip6_addr L) 16 = load_bytes mS (ip6_ll_addr LS) 16 \<and>
     mac_for L m1 (remote_ip6_addr L) = Some (load_bytes mS (ll_mac_addr LS) 6)"
proof -
  define pl where "pl = udp_segment source_port 57777 chk dat"
  have lpl: "length pl = 8 + length dat" by (simp add: pl_def udp_segment_def)
  have d6: "length d = 6" using assms(2) by (rule mac_for_length)
  have F: "F = ip6_frame d (load_bytes mS (ll_mac_addr LS) 6) 17 (of_nat (length pl)) (load_bytes mS (ip6_ll_addr LS) 16) (load_bytes mS dst 16) @ pl"
    unfolding assms(1) pl_def by (simp add: frame_to_def IPPROTO_UDP_def)
  have lF: "length F = 54 + length pl" unfolding F using d6 by (simp add: length_frame)
  have f: "ip6_packet_ok (mem s) a (54 + length pl)" "declared_length (mem s) a = length pl" "load_bytes (mem s) (a + 6) 6 = load_bytes mS (ll_mac_addr LS) 6"
      "mem s (a + 20) = 17" "mem s (a + 21) = 255" "load_bytes (mem s) (a + 22) 16 = load_bytes mS (ip6_ll_addr LS) 16"
      "load_bytes (mem s) (a + 38) 16 = load_bytes mS dst 16" "load_bytes (mem s) (a + 54) (length pl) = pl"
    using frame_fields [of "mem s" a pl d "load_bytes mS (ll_mac_addr LS) 6" 17 "load_bytes mS (ip6_ll_addr LS) 16" "load_bytes mS dst 16"]
      assms(3,4) F lF d6 lpl by simp_all
  have us: "for_us L (mem s) a" using assms(5) f(7) by (simp add: for_us_def)
  have big: "62 \<le> length F" "length F < 2 ^ 32" "54 \<le> length F" using lF lpl assms(3) by simp_all
  have port: "load_bytes (mem s) (a + 56) 2 = be_bytes16 57777"
    using loaded_part [OF f(8), of 2 2] lpl by (simp add: pl_def udp_segment_def add.assoc)
  have dat: "load_bytes (mem s) (a + 62) (length dat) = dat"
    using loaded_part [OF f(8), of 8 "length dat"] lpl by (simp add: pl_def udp_segment_def add.assoc)
  have first: "mem s (a + 22) \<noteq> 0xFF"
    using nth_load_bytes [of 0 16 "mem s" "a + 22"] nth_load_bytes [of 0 16 mS "ip6_ll_addr LS"] f(6) assms(7) by simp
  let ?m1 = "learned L a (mem s)"
  have "net_eth_receive B L a (of_nat (length F)) s = andthen (netboot_cmd_receive B L (a + 62)) (\<lambda>_. ret EFI_SUCCESS) (s\<lparr>mem := ?m1\<rparr>)"
    by (rule udp_received [OF _ us assms(6) big(2) f(4) big(1) port]) (use f(1) lF in simp)
  moreover have "load_bytes ?m1 (a + 62) (length dat) = dat"
    using learned_packet [OF assms(6) big(3), of 62 "length dat" "mem s"] dat lF lpl by simp
  moreover have "load_bytes ?m1 (remote_ip6_addr L) 16 = load_bytes mS (ip6_ll_addr LS) 16"
    using learned_facts(2) [OF assms(6) big(3), of "mem s"] f(6) by simp
  moreover have "mac_for L ?m1 (remote_ip6_addr L) = Some (load_bytes mS (ll_mac_addr LS) 6)"
    using mac_for_sender(1) [OF assms(6) big(3), of "mem s"] first f(3) by simp
  ultimately show ?thesis by (intro exI [of _ ?m1]) simp
qed

section \<open>Properties\<close>

text \<open>
  C26: A frame that is too short, is not IPv6, or declares more data than it has is
  refused with \<^verbatim>\<open>EFI_ABORTED\<close> and changes nothing but what the console shows; a valid packet for
  another node is ignored, and in particular its sender is not remembered.
\<close>

theorem net_eth_receive_refuses:
  fixes s :: "('w, 'z) netboot_machine_scheme"
  shows "(\<not> ip6_packet_ok (mem s) a (unat len) \<longrightarrow> (\<exists>w. net_eth_receive B L a len s = Inr (EFI_ABORTED, s\<lparr>fw := w\<rparr>))) \<and>
     (ip6_packet_ok (mem s) a (unat len) \<and> \<not> for_us L (mem s) a \<longrightarrow> net_eth_receive B L a len s = Inr (EFI_SUCCESS, s))"
  using eth_receive_cases(1,2) [of s a len] by blast

text \<open>
  C6: A round trip through the wire: a datagram for port 57777 that another node sends with
  \<^verbatim>\<open>net_udp6_send\<close> to one of the loader's addresses (the frame that theorem
  \<open>net_udp6_send_frame\<close> describes) passes every check of the receiving side and reaches the
  command handler with its data intact; the sender is remembered, and what is
  sent to it afterwards goes to its MAC address.
\<close>

theorem net_udp6_reaches_handler:
  fixes s :: "('w, 'z) netboot_machine_scheme"
  assumes "F = frame_to LS mS dst d IPPROTO_UDP (udp_segment source_port 57777 chk dat)" and "mac_for LS mS dst = Some d"
    and "length dat \<le> 1978" and "load_bytes (mem s) a (length F) = F"
    and "load_bytes mS dst 16 \<in> {load_bytes (mem s) (ip6_ll_addr L) 16, load_bytes (mem s) (ip6_snm_addr L) 16, load_bytes (mem s) (ip6_all_nodes L) 16}"
    and "sender_apart L a (length F)" and "mS (ip6_ll_addr LS) \<noteq> 0xFF"
  shows "\<exists>m1. net_eth_receive B L a (of_nat (length F)) s = andthen (netboot_cmd_receive B L (a + 62)) (\<lambda>_. ret EFI_SUCCESS) (s\<lparr>mem := m1\<rparr>) \<and>
     load_bytes m1 (a + 62) (length dat) = dat \<and> load_bytes m1 (remote_ip6_addr L) 16 = load_bytes mS (ip6_ll_addr LS) 16 \<and>
     mac_for L m1 (remote_ip6_addr L) = Some (load_bytes mS (ll_mac_addr LS) 6)"
  using assms by (rule udp_frame_handled)


text \<open>
  C25: An echo request is answered with an echo reply to the node that asked, with the
  same code, identifier, sequence number and data, and a valid checksum.
\<close>

theorem echo_request_answer:
  fixes s :: "('w, 'z) netboot_machine_scheme"
  assumes "ip6_packet_ok (mem s) a (unat len)" and "for_us L (mem s) a" and "answer_apart L a (unat len) (eth_buffer_phys s)"
    and "mem s (a + 20) = 58" and "load_bytes (mem s) (a + 54) (declared_length (mem s) a) = 128 # code # chk0 # chk1 # rest"
    and "length rest \<le> 1456" and "pool_rep s (b # bs)" and "mem s (a + 22) \<noteq> 0xFF"
  shows "\<exists>(chk :: u16) F s'. F = answer_frame L (mem s) a ([129, code] @ le_bytes 2 chk @ rest) \<and> checksum_valid 58 F \<and>
     net_eth_receive B L a len s = Inr (EFI_SUCCESS, s') \<and> fw s' = snd (Transmit (SNP B) (fw s) (snp s) (b + 8) F)"
proof -
  have "icmp_message chk (129 # code # 0 # 0 # rest) = [129, code] @ le_bytes 2 chk @ rest" for chk :: u16
    by (simp add: icmp_message_def)
  then show ?thesis using echo_answered [OF assms, of B] by simp
qed

section \<open>Witnesses\<close>

definition sample_rx :: "u8 list \<Rightarrow> sample_state netboot_machine" where
  "sample_rx F = sample_netboot netboot_initial 256 (store_bytes sample_net_mem 0x8000 F)"

lemma sample_rx_fields [simp]: "mem (sample_rx F) = store_bytes sample_net_mem 0x8000 F" "eth_buffer_phys (sample_rx F) = 0x10000"
  by (simp_all add: sample_rx_def)

lemma sample_answer_apart: "n \<le> 2000 \<Longrightarrow> answer_apart sample_layout 0x8000 n 0x10000"
proof -
  assume n: "n \<le> 2000"
  have "apart [(0x1000, 6), (0x1010, 16), (0x1060, 6), (0x1070, 16), (0x2000, 6), (0x2040, 32), (0x8000, n), (0x10000, 8192)]"
    by (rule apart_ascending [of 0]) (use n in simp)
  then show ?thesis using sample_net_apart by (simp add: answer_apart_def) (simp add: sample_layout_def)
qed

lemma sample_rx_loads:
  assumes "length F \<le> 2000"
  shows "load_bytes (mem (sample_rx F)) 0x8000 (length F) = F" and "load_bytes (mem (sample_rx F)) 0x1080 16 = all_nodes"
    and "load_bytes (mem (sample_rx F)) 0x1010 16 = replicate 16 0" and "load_bytes (mem (sample_rx F)) 0x1000 6 = replicate 6 0"
proof -
  have ap: "apart [(0x1000, 6), (0x1010, 16), (0x1080, 16), (0x3000, 6), (0x8000, 2000)]" by (rule apart_ascending [of 0]) simp
  show "load_bytes (mem (sample_rx F)) 0x8000 (length F) = F" using assms by (simp add: load_store_same)
  show "load_bytes (mem (sample_rx F)) 0x1080 16 = all_nodes"
    using ap sample_all_nodes by (simp add: load_store_disj_le [OF _ assms])
  have "load_bytes (\<lambda>_. 0) a n = replicate n (0 :: u8)" for a n by (rule nth_equalityI) (simp_all add: nth_load_bytes)
  then show "load_bytes (mem (sample_rx F)) 0x1010 16 = replicate 16 0" "load_bytes (mem (sample_rx F)) 0x1000 6 = replicate 6 0"
    using ap by (simp_all add: load_store_disj_le [OF _ assms] sample_net_mem_def load_past all_nodes_def)
qed

lemma sample_rx_pool: "length F \<le> 2000 \<Longrightarrow> pool_rep (sample_rx F) [0x10000]"
proof -
  assume "length F \<le> 2000"
  moreover have "apart [(0x8000, 2000), (0x10000, 8192)]" by (rule apart_ascending [of 0]) simp
  ultimately have "store_bytes sample_net_mem 0x8000 F x = sample_net_mem x" if "x \<in> region 0x10000 8192" for x
    using that by (intro store_outside_le [where n = 2000]) auto
  then have "net_ready sample_layout sample_used (sample_rx F) [0x10000]"
    by (intro net_ready_cong [OF sample_ready [of netboot_initial 256]]) (simp_all add: sample_rx_def)
  then show ?thesis by (simp add: net_ready_def)
qed

text \<open>A truncated frame.\<close>

theorem net_eth_receive_refuses_witness:
  "\<exists>w. net_eth_receive sample_env sample_layout 0x8000 53 (sample_rx []) = Inr (EFI_ABORTED, (sample_rx [])\<lparr>fw := w\<rparr>)"
  using net_eth_receive_refuses [of "sample_rx []" "0x8000" 53 sample_env sample_layout] by (simp add: ip6_packet_ok_def)

text \<open>The server's \<^verbatim>\<open>CMD_BOOT\<close> to all nodes ends polling.\<close>

definition sample_boot_frame :: "u8 list" where
  "sample_boot_frame =
     frame_to sample_layout sample_net_mem 0x1080 [0x33, 0x33, 0, 0, 0, 1] IPPROTO_UDP (udp_segment 57778 57777 0 (netboot_message CMD_BOOT [0, 0, 0, 0] []))"

theorem net_udp6_reaches_handler_witness:
  "\<exists>s'. net_eth_receive sample_env sample_layout 0x8000 78 (sample_rx sample_boot_frame) = Inr (EFI_SUCCESS, s') \<and> net_poll_continue s' = False"
proof -
  let ?s = "sample_rx sample_boot_frame" and ?D = "netboot_message CMD_BOOT [0, 0, 0, 0] []"
  have D: "length ?D = 16" by (simp add: length_message)
  have l: "length sample_boot_frame = 78" by (simp add: sample_boot_frame_def frame_to_def length_frame udp_segment_def D)
  have ap: "apart [(0x1010, 1), (0x1080, 16), (0x3000, 6)]" by (rule apart_ascending [of 0]) simp
  then have "load_bytes sample_net_mem 0x1010 1 = load_bytes (\<lambda>_. 0) 0x1010 1"
    by (simp add: sample_net_mem_def load_past all_nodes_def)
  then have zero: "sample_net_mem (ip6_ll_addr sample_layout) \<noteq> 0xFF" by (simp add: load_bytes_Suc sample_layout_def)
  have "load_bytes sample_net_mem 0x1080 16 = load_bytes (mem ?s) (ip6_all_nodes sample_layout) 16"
    using sample_rx_loads(2) [of sample_boot_frame] sample_all_nodes l by (simp add: sample_layout_def)
  then have us: "load_bytes sample_net_mem 0x1080 16 \<in> {load_bytes (mem ?s) (ip6_ll_addr sample_layout) 16,
      load_bytes (mem ?s) (ip6_snm_addr sample_layout) 16, load_bytes (mem ?s) (ip6_all_nodes sample_layout) 16}" by blast
  have ap: "sender_apart sample_layout 0x8000 (length sample_boot_frame)" by (rule answer_apartD(1) [OF sample_answer_apart]) (simp add: l)
  have ld: "load_bytes (mem ?s) 0x8000 (length sample_boot_frame) = sample_boot_frame" by (rule sample_rx_loads(1)) (simp add: l)
  obtain m1 where run: "net_eth_receive sample_env sample_layout 0x8000 (of_nat (length sample_boot_frame)) ?s =
        andthen (netboot_cmd_receive sample_env sample_layout (0x8000 + 62)) (\<lambda>_. ret EFI_SUCCESS) (?s\<lparr>mem := m1\<rparr>)"
      and dat: "load_bytes m1 (0x8000 + 62) (length ?D) = ?D"
    using net_udp6_reaches_handler [OF sample_boot_frame_def sample_mac_for _ ld us ap zero, of sample_env] D by auto
  have "rd32 m1 (0x8000 + 62) = CMD_BOOT"
    using loaded_part [OF dat, of 0 4] D by (simp add: rd32_def netboot_message_def le_word_le_bytes)
  then have "netboot_cmd_receive sample_env sample_layout (0x8000 + 62) (?s\<lparr>mem := m1\<rparr>) = Inr (EFI_SUCCESS, ?s\<lparr>mem := m1, net_poll_continue := False\<rparr>)"
    by (simp add: netboot_cmd_receive_def netboot_command_def netboot_initial_def stop_polling_def andthen_def sample_rx_def) (simp add: cmd_defs)
  then show ?thesis using run by (simp add: l andthen_Inr)
qed

text \<open>Packets from the node \<^verbatim>\<open>FE80::1\<close> to the loader.\<close>

definition sample_node :: "u8 list" where "sample_node = [0xFE, 0x80, 0, 0, 0, 0, 0, 0, 0, 0, 0, 0, 0, 0, 0, 1]"

definition sample_request :: "u8 list \<Rightarrow> u8 list" where
  "sample_request pl = ip6_frame (replicate 6 0) [2, 0, 0, 0, 0, 1] 58 (of_nat (length pl)) sample_node (replicate 16 0) @ pl"

lemma sample_request_facts:
  assumes "length pl \<le> 1000"
  defines "s \<equiv> sample_rx (sample_request pl)" and "n \<equiv> 54 + length pl"
  shows "length (sample_request pl) = n" and "ip6_packet_ok (mem s) 0x8000 n" and "for_us sample_layout (mem s) 0x8000"
    and "mem s (0x8000 + 20) = 58" and "mem s (0x8000 + 21) = 255" and "mem s (0x8000 + 22) \<noteq> 0xFF" and "declared_length (mem s) 0x8000 = length pl"
    and "load_bytes (mem s) (0x8000 + 54) (length pl) = pl" and "pool_rep s [0x10000]"
    and "load_bytes (mem s) (0x8000 + 22) 16 = sample_node" and "load_bytes (mem s) (0x8000 + 6) 6 = [2, 0, 0, 0, 0, 1]"
proof -
  show l: "length (sample_request pl) = n" by (simp add: sample_request_def n_def length_frame sample_node_def)
  then have ld: "load_bytes (mem s) 0x8000 (54 + length pl) = sample_request pl" "load_bytes (mem s) 0x1010 16 = replicate 16 0"
    using sample_rx_loads(1,3) [of "sample_request pl"] assms(1) by (simp_all add: s_def n_def)
  note f = frame_fields [OF ld(1) [unfolded sample_request_def]]
  show "ip6_packet_ok (mem s) 0x8000 n" "mem s (0x8000 + 20) = 58" "mem s (0x8000 + 21) = 255" "declared_length (mem s) 0x8000 = length pl"
    "load_bytes (mem s) (0x8000 + 54) (length pl) = pl"
    unfolding n_def using assms(1) by (intro f; simp add: sample_node_def)+
  show src: "load_bytes (mem s) (0x8000 + 22) 16 = sample_node"
    using assms(1) by (intro f(6)) (simp_all add: sample_node_def)
  show "load_bytes (mem s) (0x8000 + 6) 6 = [2, 0, 0, 0, 0, 1]"
    using assms(1) by (intro f(3)) (simp_all add: sample_node_def)
  have "mem s (0x8000 + 22) = sample_node ! 0" using arg_cong [OF src, of "\<lambda>xs. xs ! 0"] by simp
  then show "mem s (0x8000 + 22) \<noteq> 0xFF" by (simp add: sample_node_def)
  have "load_bytes (mem s) (0x8000 + 38) 16 = replicate 16 0" using assms(1) by (intro f(7)) (simp_all add: sample_node_def)
  then show "for_us sample_layout (mem s) 0x8000" using ld(2) by (simp add: for_us_def sample_layout_def)
  show "pool_rep s [0x10000]" unfolding s_def by (rule sample_rx_pool) (use assms(1) l n_def in simp)
qed

lemma sample_frame_sent:
  assumes "F = answer_frame L m a payload" and "fw s' = snd (Transmit (SNP sample_env) (fw (sample_rx G)) i b F)"
    and "load_bytes m (a + 6) 6 = d"
  shows "wire (fw s') = [F]" and "take 6 F = d"
proof -
  have "length d = 6" using assms(3) length_load_bytes by metis
  then show "wire (fw s') = [F]" "take 6 F = d"
    using assms by (simp_all add: sample_env_def sample_snp_def sample_rx_def sample_start_def answer_frame_def ip6_frame_def)
qed


theorem echo_request_answer_witness:
  "\<exists>F s'. net_eth_receive sample_env sample_layout 0x8000 64 (sample_rx (sample_request [128, 0, 9, 9, 0, 1, 0, 7, 0xAB, 0xCD])) =
       Inr (EFI_SUCCESS, s') \<and> wire (fw s') = [F] \<and> checksum_valid 58 F \<and> take 6 F = [2, 0, 0, 0, 0, 1]"
proof -
  define pl :: "u8 list" where "pl = [128, 0, 9, 9, 0, 1, 0, 7, 0xAB, 0xCD]"
  define s where "s = sample_rx (sample_request pl)"
  have lpl: "length pl = 10" by (simp add: pl_def)
  have small: "length pl \<le> 1000" by (simp add: lpl)
  note f = sample_request_facts [OF small, folded s_def]
  have len: "unat (64 :: u64) = 54 + length pl" by (simp add: lpl)
  have ap: "answer_apart sample_layout 0x8000 (unat (64 :: u64)) (eth_buffer_phys s)" by (simp add: s_def sample_answer_apart)
  have "load_bytes (mem s) (0x8000 + 54) (declared_length (mem s) 0x8000) = 128 # 0 # 9 # 9 # [0, 1, 0, 7, 0xAB, 0xCD]"
    using f(7,8) by (simp add: pl_def)
  from echo_request_answer [OF f(2) [folded len] f(3) ap f(4) this _ f(9,6), of sample_env]
  obtain chk :: u16 and F s' where F: "F = answer_frame sample_layout (mem s) 0x8000 ([129, 0] @ le_bytes 2 chk @ [0, 1, 0, 7, 0xAB, 0xCD])" "checksum_valid 58 F"
      and run: "net_eth_receive sample_env sample_layout 0x8000 64 s = Inr (EFI_SUCCESS, s')"
      and tx: "fw s' = snd (Transmit (SNP sample_env) (fw s) (snp s) (0x10000 + 8) F)"
    by auto
  show ?thesis using sample_frame_sent [OF F(1) tx [unfolded s_def] f(11)] run F(2) unfolding s_def pl_def by blast
qed

end
