(* ===== verification/Net.thy ===== *)
theory Net
  imports Receive Protocol Util
begin

text \<open>
  The network driver (\<^verbatim>\<open>net/net.c\<close>): finding an interface with a link, opening and closing it, and the
  loop that advertises the loader, takes back buffers and hands packets to the protocols until the server says boot.
\<close>

section \<open>The code\<close>

definition net_timer_set :: "'w env \<Rightarrow> u32 \<Rightarrow> ('w, 'z, unit) nb_run" where
  "net_timer_set B ms =
     andthen (gets net_timer) (\<lambda>timer.
     if timer = 0 then ret ()
     else
       andthen (fwcall (\<lambda>w. SetTimer (EVT B) w timer TimerRelative (ucast ms * 10000))) (\<lambda>status.
       EFIERR B ''net/net.c'' 23 status))"

definition net_timer_expired :: "'w env \<Rightarrow> ('w, 'z, bool) nb_run" where
  "net_timer_expired B =
     andthen (gets net_timer) (\<lambda>timer.
     if timer = 0 then ret False
     else andthen (fwcall (\<lambda>w. CheckEvent (EVT B) w timer)) (\<lambda>status. ret (status = EFI_SUCCESS)))"

definition net_advertise :: "'w env \<Rightarrow> net_layout \<Rightarrow> ('w, 'z, unit) net_run" where
  "net_advertise B L = netboot_cmd_send B L CMD_ADVERTISE 0 0"

text \<open>
  One interface: every failure is reported and closes the protocol. \<open>True\<close> is the \<^verbatim>\<open>return EFI_SUCCESS\<close>
  with \<^verbatim>\<open>snp\<close> set.
\<close>

definition nic_failed :: "'w env \<Rightarrow> addr \<Rightarrow> string \<Rightarrow> u64 list \<Rightarrow> ('w, 'z, bool) net_run" where
  "nic_failed B h report args =
     andthen (efi_printf B report args) (\<lambda>_.
     andthen (fwcall (\<lambda>w. CloseProtocol (HND B) w h SimpleNetworkProtocol)) (\<lambda>_.
     ret False))"

definition nic_link :: "'w env \<Rightarrow> addr \<Rightarrow> addr \<Rightarrow> ('w, 'z, bool) net_run" where
  "nic_link B h snp_current =
     andthen (fwcall (\<lambda>w. GetStatus (SNP B) w snp_current)) (\<lambda>(status, tx_buf).
     if EFI_ERROR B status then nic_failed B h ('': failed to read status (%zu)'' @ [CHR 0x0A]) [status_code B status]
     else
       andthen (gets (\<lambda>s. MediaPresent (SNP B) (fw s) snp_current)) (\<lambda>present.
       if \<not> present then nic_failed B h ('': no link detected'' @ [CHR 0x0A]) []
       else
         andthen (efi_printf B ('': link detected'' @ [CHR 0x0A]) []) (\<lambda>_.
         andthen (modify (\<lambda>s. s\<lparr>snp := snp_current\<rparr>)) (\<lambda>_.
         ret True))))"

definition nic_start :: "'w env \<Rightarrow> addr \<Rightarrow> addr \<Rightarrow> ('w, 'z, bool) net_run" where
  "nic_start B h snp_current =
     andthen (fwcall (\<lambda>w. Start (SNP B) w snp_current)) (\<lambda>status.
     if EFI_ERROR B status \<and> status \<noteq> EFI_ALREADY_STARTED
     then nic_failed B h ('': failed to start (%zu)'' @ [CHR 0x0A]) [status_code B status]
     else if status \<noteq> EFI_ALREADY_STARTED
     then
       andthen (fwcall (\<lambda>w. Initialize (SNP B) w snp_current)) (\<lambda>status.
       if EFI_ERROR B status then nic_failed B h ('': failed to initialize (%zu)'' @ [CHR 0x0A]) [status_code B status]
       else nic_link B h snp_current)
     else nic_link B h snp_current)"

definition nic_try :: "'w env \<Rightarrow> addr \<Rightarrow> addr \<Rightarrow> ('w, 'z, bool) net_run" where
  "nic_try B h path =
     andthen (print_wide B path) (\<lambda>_.
     andthen (fwcall (\<lambda>w. HandleProtocol (HND B) w h SimpleNetworkProtocol)) (\<lambda>(status, snp_current).
     if EFI_ERROR B status then nic_failed B h ('': failed to open (%zu)'' @ [CHR 0x0A]) [status_code B status]
     else nic_start B h snp_current))"

text \<open>The test for the same device: it compares as many bytes as the other path has characters.\<close>

definition same_device :: "addr \<Rightarrow> addr \<Rightarrow> ('w, 'z, bool) run" where
  "same_device path previous =
     andthen (gets (\<lambda>s. efi_strlen (mem s) previous)) (\<lambda>len.
     andthen (or_undefined len) (\<lambda>n.
     gets (\<lambda>s. memcmp (mem s) path previous (unat n) = 0)))"

text \<open>The loop from index \<open>i\<close> on, over the handles and their paths; \<open>previous\<close> is \<^verbatim>\<open>previous_device\<close>.\<close>

fun nic_loop :: "'w env \<Rightarrow> addr list \<Rightarrow> nat \<Rightarrow> nat \<Rightarrow> (addr \<times> addr) list \<Rightarrow> ('w, 'z, efi_status) net_run" where
  "nic_loop B paths previous i [] = ret EFI_NOT_FOUND"
| "nic_loop B paths previous i ((h, path) # rest) =
     andthen (if i \<noteq> previous then same_device path (paths ! previous) else ret False) (\<lambda>same.
     if same then nic_loop B paths previous (Suc i) rest
     else
       andthen (nic_try B h path) (\<lambda>found.
       if found then ret EFI_SUCCESS else nic_loop B paths i (Suc i) rest))"

fun nic_paths :: "'w env \<Rightarrow> literals \<Rightarrow> addr list \<Rightarrow> ('w, 'z, addr list) run" where
  "nic_paths B V [] = ret []"
| "nic_paths B V (h # hs) =
     andthen (uefi_handle_get_string B V h) (\<lambda>path.
     andthen (nic_paths B V hs) (\<lambda>paths.
     ret (path # paths)))"

definition net_get_protocol :: "'w env \<Rightarrow> literals \<Rightarrow> ('w, 'z, efi_status) net_run" where
  "net_get_protocol B V =
     andthen (fwcall (\<lambda>w. LocateHandle (HND B) w SimpleNetworkProtocol 256)) (\<lambda>(status, handles).
     andthen (EFIERR B ''net/net.c'' 54 status) (\<lambda>_.
     andthen (nic_paths B V handles) (\<lambda>paths.
     nic_loop B paths 0 0 (zip handles paths))))"

definition net_open :: "'w env \<Rightarrow> net_layout \<Rightarrow> literals \<Rightarrow> ('w, 'z, efi_status) nb_run" where
  "net_open B L V =
     andthen (fwcall (\<lambda>w. CreateEvent (EVT B) w)) (\<lambda>(status, timer).
     andthen (modify (\<lambda>s. s\<lparr>net_timer := timer\<rparr>)) (\<lambda>_.
     andthen (EFIERR B ''net/net.c'' 132 status) (\<lambda>_.
     andthen (net_get_protocol B V) (\<lambda>status.
     andthen (EFIERR B ''net/net.c'' 135 status) (\<lambda>_.
     andthen (net_bufpool_init B) (\<lambda>_.
     andthen (gets (\<lambda>s. CurrentAddress (SNP B) (fw s) (snp s))) (\<lambda>mac.
     andthen (net_ip6_init B L (all_local L) mac) (\<lambda>_.
     andthen (gets (\<lambda>s. (snp s, mcast_filter_count s, mem s))) (\<lambda>(i, count, m).
     andthen (fwcall (\<lambda>w. ReceiveFilters (SNP B) w i (ucast count)
                 (load_bytes m (mcast_filters L) (unat count * unat (efi_mac_addr_size L))))) (\<lambda>status.
     andthen (EFIERR B ''net/net.c'' 142 status) (\<lambda>_.
     ret EFI_SUCCESS)))))))))))"

definition net_close :: "'w env \<Rightarrow> ('w, 'z, unit) nb_run" where
  "net_close B =
     andthen (gets (\<lambda>s. (net_timer s, snp s))) (\<lambda>(timer, i).
     andthen (fwcall (\<lambda>w. SetTimer (EVT B) w timer TimerCancel 0)) (\<lambda>_.
     andthen (fwcall (\<lambda>w. CloseEvent (EVT B) w timer)) (\<lambda>_.
     andthen (fwcall (\<lambda>w. Shutdown (SNP B) w i)) (\<lambda>_.
     andthen (fwcall (\<lambda>w. Stop (SNP B) w i)) (\<lambda>_.
     ret ())))))"

text \<open>The parts of \<^verbatim>\<open>net_poll\<close>: advertising, taking a buffer back (\<open>False\<close>: it returns there), and receiving.\<close>

definition poll_advertise :: "'w env \<Rightarrow> net_layout \<Rightarrow> ('w, 'z, unit) nb_run" where
  "poll_advertise B L =
     andthen (gets (\<lambda>s. snp s \<noteq> 0 \<and> \<not> net_advertised s)) (\<lambda>first.
     if first
     then
       andthen (net_advertise B L) (\<lambda>_.
       andthen (net_timer_set B 2000) (\<lambda>_.
       modify (\<lambda>s. s\<lparr>net_advertised := True\<rparr>)))
     else
       andthen (net_timer_expired B) (\<lambda>expired.
       andthen (gets (\<lambda>s. expired \<and> \<not> net_stop_advertising s)) (\<lambda>again.
       if again then andthen (net_advertise B L) (\<lambda>_. net_timer_set B 2000) else ret ())))"

definition poll_reclaim :: "'w env \<Rightarrow> ('w, 'z, bool) nb_run" where
  "poll_reclaim B =
     andthen (gets (\<lambda>s. (eth_bufpool_avail s, snp s))) (\<lambda>(avail, i).
     if avail < 16
     then
       andthen (fwcall (\<lambda>w. GetStatus (SNP B) w i)) (\<lambda>(status, tx_buf).
       if status \<noteq> EFI_SUCCESS
       then andthen (efi_printf B (''GetStatus returned %zu'' @ [CHR 0x0A]) [status_code B status]) (\<lambda>_. ret False)
       else if tx_buf \<noteq> 0
       then
         andthen (gets eth_buffer_phys) (\<lambda>phys.
         andthen (if phys \<le> tx_buf \<and> tx_buf < phys + ETH_BUFFERS_PAGES * 0x1000
                  then net_bufpool_return B tx_buf
                  else andthen (efi_printf B (''invalid buffer returned to pool'' @ [CHR 0x0A]) []) (\<lambda>_. ret ())) (\<lambda>_.
         ret True))
       else ret True)
     else ret True)"

definition poll_receive :: "'w env \<Rightarrow> net_layout \<Rightarrow> ('w, 'z, unit) nb_run" where
  "poll_receive B L =
     andthen (gets snp) (\<lambda>i.
     andthen (fwcall (\<lambda>w. Receive (SNP B) w i 2048)) (\<lambda>(status, packet, size_body).
     andthen (set_mem (\<lambda>m. store_bytes m (data_local L) packet)) (\<lambda>_.
     if status \<noteq> EFI_SUCCESS
     then if status \<noteq> EFI_NOT_READY then EFIERR B ''net/net.c'' 197 status else ret ()
     else andthen (net_eth_receive B L (data_local L) size_body) (\<lambda>_. ret ()))))"

definition net_poll :: "'w env \<Rightarrow> net_layout \<Rightarrow> ('w, 'z, unit) nb_run" where
  "net_poll B L =
     andthen (poll_advertise B L) (\<lambda>_.
     andthen (poll_reclaim B) (\<lambda>go_on.
     if go_on then poll_receive B L else ret ()))"

text \<open>\<^verbatim>\<open>while(net_poll_continue) net_poll();\<close> as rounds that say whether there was something to do.\<close>

definition poll_round :: "'w env \<Rightarrow> net_layout \<Rightarrow> ('w, 'z, bool) nb_run" where
  "poll_round B L =
     andthen (gets net_poll_continue) (\<lambda>go_on.
     if go_on then andthen (net_poll B L) (\<lambda>_. ret True) else ret False)"

definition net_kernel_load :: "'w env \<Rightarrow> net_layout \<Rightarrow> literals \<Rightarrow> ('w, 'z, unit) nb_run" where
  "net_kernel_load B L V =
     andthen (net_open B L V) (\<lambda>_.
     andthen (repeat_run Hung (poll_round B L) (\<lambda>more. more)) (\<lambda>_.
     net_close B))"

section \<open>Finding an interface\<close>

lemma keeps_print_wide [keeps_intros]: "(\<And>s w. Q s \<Longrightarrow> Q (s\<lparr>fw := w\<rparr>)) \<Longrightarrow> keeps Q (print_wide B a)"
  unfolding print_wide_def by (intro keeps_intros) simp_all

lemma keeps_nic_failed: "keeps (\<lambda>s. Q (snp s)) (nic_failed B h report args)"
  unfolding nic_failed_def by (intro keeps_intros) simp_all

text \<open>
  The link was seen: in the states of one run the interface reports its status and a medium, the loader says so, and the firmware is in the state \<open>w'\<close>.
\<close>

definition link_seen :: "'w env \<Rightarrow> addr \<Rightarrow> 'w \<Rightarrow> 'w \<Rightarrow> bool" where
  "link_seen B i w w' \<longleftrightarrow>
     (\<exists>status tx_buf w1. GetStatus (SNP B) w i = ((status, tx_buf), w1) \<and> \<not> EFI_ERROR B status \<and> MediaPresent (SNP B) w1 i \<and>
        w' = say (callback B) ['': link detected'' @ [CHR 0x0A]] w1)"

text \<open>Before that, it was started and, if it had not been started before, initialised without an error.\<close>

definition started_link :: "'w env \<Rightarrow> addr \<Rightarrow> 'w \<Rightarrow> 'w \<Rightarrow> bool" where
  "started_link B i w w' \<longleftrightarrow>
     (\<exists>answer w1. Start (SNP B) w i = (answer, w1) \<and>
        (if answer = EFI_ALREADY_STARTED then link_seen B i w1 w'
         else \<not> EFI_ERROR B answer \<and> (\<exists>answer w2. Initialize (SNP B) w1 i = (answer, w2) \<and> \<not> EFI_ERROR B answer \<and> link_seen B i w2 w')))"

text \<open>An interface that the loader may use was found under one of the handles and then came up, in consecutive states of the firmware, of which \<open>w'\<close> is the last.\<close>

definition nic_up :: "'w env \<Rightarrow> addr list \<Rightarrow> addr \<Rightarrow> 'w \<Rightarrow> bool" where
  "nic_up B handles i w' \<longleftrightarrow>
     (\<exists>h \<in> set handles. \<exists>w status w1. HandleProtocol (HND B) w h SimpleNetworkProtocol = ((status, i), w1) \<and> \<not> EFI_ERROR B status \<and>
        started_link B i w1 w')"

definition nic_result :: "'w env \<Rightarrow> addr list \<Rightarrow> bool \<Rightarrow> ('w, 'z) net_machine_scheme \<Rightarrow> ('w, 'z) net_machine_scheme \<Rightarrow> bool" where
  "nic_result B handles found s t \<longleftrightarrow> (if found then nic_up B handles (snp t) (fw t) else snp t = snp s)"

lemma nic_failed_result: "nic_failed B h report args s = Inr (found, t) \<Longrightarrow> \<not> found \<and> snp t = snp s"
  using keepsD [OF keeps_nic_failed, of B h report args s found t "\<lambda>i. i = snp s"]
  by (auto simp: nic_failed_def elim!: andthen_InrE)

lemma nic_link_result:
  assumes "nic_link B h i s = Inr (found, t)"
  shows "if found then snp t = i \<and> link_seen B i (fw s) (fw t) else snp t = snp s"
  using assms unfolding nic_link_def link_seen_def
  by (auto elim!: andthen_InrE simp: fwcall_def efi_printf_plain split: prod.splits if_splits dest!: nic_failed_result)

lemma nic_start_result:
  assumes "nic_start B h i s = Inr (found, t)"
  shows "if found then snp t = i \<and> started_link B i (fw s) (fw t) else snp t = snp s"
proof -
  obtain answer w where st: "Start (SNP B) (fw s) i = (answer, w)" by (metis surj_pair)
  then show ?thesis using assms unfolding nic_start_def
    by (auto elim!: andthen_InrE simp: fwcall_def started_link_def split: prod.splits if_splits dest!: nic_failed_result nic_link_result)
qed

lemma print_wide_snp: "print_wide B path s = Inr (u, t) \<Longrightarrow> snp t = snp s"
  by (rule keepsD [of "\<lambda>t. snp t = snp s"], rule keeps_print_wide) simp_all

lemma nic_try_result: "nic_try B h path s = Inr (found, t) \<Longrightarrow> nic_result B [h] found s t"
  unfolding nic_try_def nic_result_def nic_up_def
  by (auto elim!: andthen_InrE simp: fwcall_def split: prod.splits if_splits dest!: nic_failed_result nic_start_result print_wide_snp) blast

lemma nic_up_mono: "nic_up B hs i w \<Longrightarrow> set hs \<subseteq> set hs' \<Longrightarrow> nic_up B hs' i w"
  unfolding nic_up_def by (rule bexE, assumption) blast

lemma nic_up_Cons: "nic_up B [h] i w \<Longrightarrow> nic_up B (h # hs) i w" "nic_up B hs i w \<Longrightarrow> nic_up B (h # hs) i w"
  by (erule nic_up_mono; auto)+

lemma nic_loop_result:
  fixes s :: "('w, 'z) net_machine_scheme"
  assumes "nic_loop B paths previous i nics s = Inr (status, t)"
  shows "(status = EFI_SUCCESS \<or> status = EFI_NOT_FOUND) \<and> nic_result B (map fst nics) (status = EFI_SUCCESS) s t"
  using assms
proof (induction B paths previous i nics arbitrary: s rule: nic_loop.induct)
  case (1 B paths previous i)
  then show ?case by (simp add: nic_result_def)
next
  case (2 B paths previous i h path rest)
  obtain same s1 where a: "(if i \<noteq> previous then same_device path (paths ! previous) else ret False) s = Inr (same, s1)"
    and b: "(if same then nic_loop B paths previous (Suc i) rest
     else andthen (nic_try B h path) (\<lambda>found. if found then ret EFI_SUCCESS else nic_loop B paths i (Suc i) rest)) s1 = Inr (status, t)"
    using "2.prems" by (simp only: nic_loop.simps) (erule andthen_InrE)
  have s1: "s1 = s" using a by (auto simp: same_device_def or_undefined_def elim!: andthen_InrE split: if_splits option.splits)
  show ?case
  proof (cases same)
    case True
    then show ?thesis using "2.IH"(1) [OF True, of s1] b s1
      by (auto simp: nic_result_def nic_up_Cons split: if_splits)
  next
    case False
    then obtain found s2 where t: "nic_try B h path s = Inr (found, s2)"
        and c: "(if found then ret EFI_SUCCESS else nic_loop B paths i (Suc i) rest) s2 = Inr (status, t)"
      using b s1 by (auto elim: andthen_InrE)
    show ?thesis
      using nic_try_result [OF t] c "2.IH"(2) [OF False, of found s2]
      by (cases found) (auto simp: nic_result_def nic_up_Cons split: if_splits)
  qed
qed

lemma keeps_handle_string:
  "(\<And>s w. Q s \<Longrightarrow> Q (s\<lparr>fw := w\<rparr>)) \<Longrightarrow> (\<And>s m. Q s \<Longrightarrow> Q (s\<lparr>mem := m\<rparr>)) \<Longrightarrow> keeps Q (uefi_handle_get_string B V h)"
  unfolding uefi_handle_get_string_def uefi_devpath_get_string_def by (intro keeps_intros) simp_all

lemma keeps_nic_paths:
  "(\<And>s w. Q s \<Longrightarrow> Q (s\<lparr>fw := w\<rparr>)) \<Longrightarrow> (\<And>s m. Q s \<Longrightarrow> Q (s\<lparr>mem := m\<rparr>)) \<Longrightarrow> keeps Q (nic_paths B V hs)"
proof (induction hs)
  case Nil
  show ?case by (simp only: nic_paths.simps keeps_basic)
next
  case (Cons h hs)
  then show ?case by (simp only: nic_paths.simps) (intro keeps_intros keeps_handle_string; simp)
qed

section \<open>Polling\<close>

text \<open>No advertisement is due: one was sent, and the timer runs or the server has answered.\<close>

definition no_advert :: "'w env \<Rightarrow> ('w, 'z) netboot_machine_scheme \<Rightarrow> 'w \<Rightarrow> bool" where
  "no_advert B s w \<longleftrightarrow>
     net_advertised s \<and>
     (if net_timer s = 0 then w = fw s
      else \<exists>status. CheckEvent (EVT B) (fw s) (net_timer s) = (status, w) \<and> (status \<noteq> EFI_SUCCESS \<or> net_stop_advertising s))"

lemma poll_advertise_quiet: "no_advert B s w \<Longrightarrow> poll_advertise B L s = Inr ((), s\<lparr>fw := w\<rparr>)"
  by (auto simp: no_advert_def poll_advertise_def net_timer_expired_def andthen_def fwcall_def split: if_splits)

lemma poll_reclaim_none:
  assumes "eth_bufpool_avail s < 16" and "GetStatus (SNP B) (fw s) (snp s) = ((EFI_SUCCESS, 0), w)"
  shows "poll_reclaim B s = Inr (True, s\<lparr>fw := w\<rparr>)"
  using assms by (simp add: poll_reclaim_def andthen_Inr fwcall_def)

lemma buffers_few: "pool_rep s bs \<Longrightarrow> eth_bufpool_avail s < 16"
proof -
  assume rep: "pool_rep s bs"
  then have "set bs \<subseteq> buffer (eth_buffer_phys s) ` {..<4}" by (auto simp: pool_rep_def is_buffer_def)
  then have "card (set bs) \<le> card (buffer (eth_buffer_phys s) ` {..<4})" by (intro card_mono) simp_all
  also have "\<dots> \<le> card {..<4 :: nat}" by (rule card_image_le) simp
  finally have "card (set bs) \<le> 4" by simp
  then have "length bs \<le> 4" using rep by (simp add: pool_rep_def distinct_card)
  then show ?thesis using rep by (simp add: pool_rep_def word_less_nat_alt unat_of_nat take_bit_nat_eq_self)
qed

lemma keeps_return_snp: "keeps (\<lambda>s. Q (snp s)) (net_bufpool_return B dat)"
  unfolding net_bufpool_return_def Let_def by (intro keeps_intros) simp_all

lemma poll_reclaim_buffer:
  assumes rep: "pool_rep s bs" and b: "is_buffer (eth_buffer_phys s) b" "b \<notin> set bs" "j < 2048"
    and st: "GetStatus (SNP B) (fw s) (snp s) = ((EFI_SUCCESS, b + of_nat j), w)"
  shows "\<exists>s'. poll_reclaim B s = Inr (True, s') \<and> pool_rep s' (b # bs) \<and> fw s' = w \<and> snp s' = snp s"
proof -
  have ok: "block_ok (eth_buffer_phys s)" using rep by (simp add: pool_rep_def)
  note d = buffer_of_data [OF ok b(1,3)]
  have "0 < eth_buffer_phys s" using ok by (simp add: block_ok_def word_neq_0_conv)
  then have nz: "b + of_nat j \<noteq> 0" using d(2) by (metis less_le_trans word_not_simps(1))
  obtain s' where s': "net_bufpool_return B (b + of_nat j) (s\<lparr>fw := w\<rparr>) = Inr ((), s')" "pool_rep s' (b # bs)" "fw s' = w"
    using return_buffer [of "s\<lparr>fw := w\<rparr>" bs b j B] rep b by (auto simp: pool_rep_def)
  have "snp s' = snp s" using keepsD [OF keeps_return_snp s'(1), of "\<lambda>i. i = snp s"] by simp
  then show ?thesis
    using s' st nz d(2,3) buffers_few [OF rep] by (simp add: poll_reclaim_def andthen_Inr fwcall_def)
qed

lemma poll_receive_packet:
  assumes "Receive (SNP B) (fw s) (snp s) 2048 = ((status, packet, n), w)"
  shows "poll_receive B L s =
     (if status = EFI_SUCCESS then andthen (net_eth_receive B L (data_local L) n) (\<lambda>_. ret ())
      else if status = EFI_NOT_READY then ret () else EFIERR B ''net/net.c'' 197 status)
       (s\<lparr>fw := w, mem := store_bytes (mem s) (data_local L) packet\<rparr>)"
  using assms by (simp add: poll_receive_def andthen_Inr fwcall_def)

text \<open>The loop ends exactly when, after some polls that return, the flag is down; it adds nothing of its own.\<close>

lemma poll_round_stops: "\<not> net_poll_continue s \<Longrightarrow> poll_round B L s = Inr (False, s)"
  by (simp add: poll_round_def)

lemma poll_round_again: "net_poll_continue s \<Longrightarrow> net_poll B L s = Inr ((), t) \<Longrightarrow> poll_round B L s = Inr (True, t)"
  by (simp add: poll_round_def andthen_Inr)

lemma poll_loop_after:
  assumes "net_poll_continue s" and "net_poll B L s = Inr ((), t)" and "\<not> net_poll_continue t"
  shows "repeat_run Hung (poll_round B L) (\<lambda>more. more) s = Inr (False, t)"
  using repeat_run_last [of "poll_round B L" "\<lambda>more. more" 1 s t Hung]
    poll_round_again [OF assms(1,2)] poll_round_stops [OF assms(3), of B L] by (simp add: is_last_def)

section \<open>Properties\<close>


text \<open>
  The test for a device that was already tried compares only half of the path: an interface whose path
  agrees with the one before in as many bytes as that path has characters is skipped, and no interface is found.
\<close>

theorem net_get_protocol_half_path:
  assumes "wide_at (mem s) p0 us" and "0 \<notin> set us" and "length us < 2 ^ 64"
    and "load_bytes (mem s) p1 (length us) = load_bytes (mem s) p0 (length us)"
  shows "nic_loop B [p0, p1] 0 1 [(h, p1)] s = Inr (EFI_NOT_FOUND, s)"
  using assms by (simp add: same_device_def efi_strlen_wide or_undefined_def andthen_Inr memcmp_eq_0 unat_of_nat64)

text \<open>
  C35: A poll with nothing to receive takes back the buffer of a transmission that has ended, given by any address in
  it: it is on top of the pool again, and nothing else of the pool changes.
\<close>

theorem net_poll_reclaims:
  assumes "no_advert B s w0" and "pool_rep s bs" and "is_buffer (eth_buffer_phys s) b" and "b \<notin> set bs" and "j < 2048"
    and "GetStatus (SNP B) w0 (snp s) = ((EFI_SUCCESS, b + of_nat j), w1)"
    and "Receive (SNP B) w1 (snp s) 2048 = ((EFI_NOT_READY, [], n), w2)"
  shows "\<exists>s'. net_poll B L s = Inr ((), s') \<and> pool_rep s' (b # bs) \<and> fw s' = w2"
proof -
  let ?s0 = "s\<lparr>fw := w0\<rparr>"
  have rep: "pool_rep ?s0 bs" using assms(2) by (simp add: pool_rep_def)
  obtain s1 where s1: "poll_reclaim B ?s0 = Inr (True, s1)" "pool_rep s1 (b # bs)" "fw s1 = w1" "snp s1 = snp s"
    using poll_reclaim_buffer [OF rep _ assms(4,5), of B w1] assms(3,6) by auto
  have "poll_receive B L s1 = Inr ((), s1\<lparr>fw := w2, mem := mem s1\<rparr>)"
    using poll_receive_packet [of B s1 EFI_NOT_READY "[]" n w2 L] assms(7) s1(3,4) by simp
  then show ?thesis using s1(1,2) poll_advertise_quiet [OF assms(1), of L]
    by (simp add: net_poll_def andthen_Inr pool_rep_def)
qed

text \<open>
  C34: The server can always end the polling: when a poll with no other business receives the datagram in which another node
  sends the boot command to one of the loader's addresses, that poll is the last one and the loop returns.
\<close>

theorem net_kernel_load_boots:
  fixes s :: "('w, 'z) netboot_machine_scheme"
  assumes "F = frame_to LS mS dst d IPPROTO_UDP (udp_segment source_port 57777 chk (netboot_message CMD_BOOT pad dat))"
    and "mac_for LS mS dst = Some d" and "length pad = 4" and "length dat \<le> 1900" and "mS (ip6_ll_addr LS) \<noteq> 0xFF"
    and "load_bytes mS dst 16 \<in> {load_bytes (mem s) (ip6_ll_addr L) 16, load_bytes (mem s) (ip6_snm_addr L) 16, load_bytes (mem s) (ip6_all_nodes L) 16}"
    and "sender_apart L (data_local L) (length F)"
    and "apart [(data_local L, length F), (ip6_ll_addr L, 16), (ip6_snm_addr L, 16), (ip6_all_nodes L, 16)]"
    and "net_poll_continue s" and "nb_state (netboot_state s) \<noteq> STATE_FILE_TRANSFER"
    and "no_advert B s w0" and "eth_bufpool_avail s < 16"
    and "GetStatus (SNP B) w0 (snp s) = ((EFI_SUCCESS, 0), w1)"
    and "Receive (SNP B) w1 (snp s) 2048 = ((EFI_SUCCESS, F, of_nat (length F)), w2)"
  shows "\<exists>m. repeat_run Hung (poll_round B L) (\<lambda>more. more) s = Inr (False, s\<lparr>fw := w2, mem := m, net_poll_continue := False\<rparr>)"
proof -
  let ?D = "netboot_message CMD_BOOT pad dat" and ?a = "data_local L"
  let ?s1 = "s\<lparr>fw := w2, mem := store_bytes (mem s) ?a F\<rparr>"
  have D: "length ?D \<le> 1978" "16 \<le> length ?D" using assms(3,4) by (simp_all add: length_message)
  have d6: "length d = 6" using assms(2) by (rule mac_for_length)
  have lF: "length F \<le> 2 ^ 64" using assms(1) D(1) d6 by (simp add: frame_to_def length_frame udp_segment_def)
  have ld: "load_bytes (mem ?s1) ?a (length F) = F" using lF by (simp add: load_store_same)
  have same: "load_bytes (mem ?s1) q 16 = load_bytes (mem s) q 16" if "q \<in> {ip6_ll_addr L, ip6_snm_addr L, ip6_all_nodes L}" for q
    using that assms(8) by (auto simp: load_store_disj)
  have us: "load_bytes mS dst 16 \<in> {load_bytes (mem ?s1) (ip6_ll_addr L) 16, load_bytes (mem ?s1) (ip6_snm_addr L) 16, load_bytes (mem ?s1) (ip6_all_nodes L) 16}"
    using assms(6) same by simp
  obtain m1 where run: "net_eth_receive B L ?a (of_nat (length F)) ?s1 = andthen (netboot_cmd_receive B L (?a + 62)) (\<lambda>_. ret EFI_SUCCESS) (?s1\<lparr>mem := m1\<rparr>)"
      and dat: "load_bytes m1 (?a + 62) (length ?D) = ?D"
    using udp_frame_handled [OF assms(1,2) D(1) ld us assms(7,5), of B] by blast
  have cmd: "rd32 m1 (?a + 62) = CMD_BOOT"
    using loaded_part [OF dat, of 0 4] D(2) by (simp add: rd32_def netboot_message_def le_word_le_bytes)
  let ?t = "s\<lparr>fw := w2, mem := m1, net_poll_continue := False\<rparr>"
  have "net_eth_receive B L ?a (of_nat (length F)) ?s1 = Inr (EFI_SUCCESS, ?t)"
    using boot_command [of "?s1\<lparr>mem := m1\<rparr>" "?a + 62" B L] assms(10) cmd by (simp add: run andthen_Inr)
  then have "poll_receive B L (s\<lparr>fw := w1\<rparr>) = Inr ((), ?t)"
    using poll_receive_packet [of B "s\<lparr>fw := w1\<rparr>" EFI_SUCCESS F "of_nat (length F)" w2 L] assms(14) by (simp add: andthen_Inr)
  then have "net_poll B L s = Inr ((), ?t)"
    using poll_advertise_quiet [OF assms(11), of L] poll_reclaim_none [of "s\<lparr>fw := w0\<rparr>" B w1] assms(12,13)
    by (simp add: net_poll_def andthen_Inr)
  then show ?thesis using poll_loop_after [OF assms(9)] by auto
qed

section \<open>Witnesses\<close>

text \<open>The loader after its first advertisement, with the packets \<open>ps\<close> waiting.\<close>

definition sample_polling :: "u8 list list \<Rightarrow> sample_state netboot_machine" where
  "sample_polling ps = (sample_netboot netboot_initial 256 sample_net_mem)\<lparr>fw := sample_start\<lparr>inbox := ps\<rparr>, net_advertised := True\<rparr>"

lemma sample_polling_fields [simp]:
  "mem (sample_polling ps) = sample_net_mem" "fw (sample_polling ps) = sample_start\<lparr>inbox := ps\<rparr>" "net_advertised (sample_polling ps)"
  "net_timer (sample_polling ps) = 0" "net_poll_continue (sample_polling ps)" "netboot_state (sample_polling ps) = netboot_initial"
  "eth_bufpool_avail (sample_polling ps) = 1" "eth_buffer_phys (sample_polling ps) = 0x10000"
  by (simp_all add: sample_polling_def) (simp add: sample_netboot_def net_machine.defs netboot_machine.defs)

lemma sample_polling_pool: "pool_rep (sample_polling ps) [0x10000]"
  using sample_ready [of netboot_initial 256] by (simp add: net_ready_def pool_rep_def sample_polling_def)

lemma sample_no_advert: "no_advert B (sample_polling ps) (sample_start\<lparr>inbox := ps\<rparr>)"
  by (simp add: no_advert_def)

definition sample_literals :: literals where
  "sample_literals = \<lparr>null_path_text = 0x3c00, null_string_text = 0x3c20, empty_text = 0x3c40, btrfs_text = 0x3c50, kernel_text = 0x3c70\<rparr>"


text \<open>The paths \<open>ab\<close> and \<open>ac\<close>.\<close>

definition two_paths :: "sample_state netboot_machine" where
  "two_paths = (sample_polling [])\<lparr>mem := (\<lambda>_. 0)(0x4000 := 97, 0x4002 := 98, 0x5000 := 97, 0x5002 := 99)\<rparr>"

theorem net_get_protocol_half_path_witness:
  "wide_at (mem two_paths) 0x4000 [97, 98] \<and> wide_at (mem two_paths) 0x5000 [97, 99] \<and>
   nic_loop sample_env [0x4000, 0x5000] 0 1 [(0x3200, 0x5000)] two_paths = Inr (EFI_NOT_FOUND, two_paths)"
proof (intro conjI)
  show w: "wide_at (mem two_paths) 0x4000 [97, 98]" "wide_at (mem two_paths) 0x5000 [97, 99]"
    by (simp_all add: wide_at_Cons) (simp_all add: two_paths_def wide_at_def rd16_def le_word_def load_bytes_def upt_rec)
  have "load_bytes (mem two_paths) 0x5000 (length [97, 98 :: u16]) = load_bytes (mem two_paths) 0x4000 (length [97, 98 :: u16])"
    by (simp add: two_paths_def load_bytes_def)
  then show "nic_loop sample_env [0x4000, 0x5000] 0 1 [(0x3200, 0x5000)] two_paths = Inr (EFI_NOT_FOUND, two_paths)"
    using net_get_protocol_half_path [OF w(1) _ _, of "0x5000" sample_env "0x3200"] by simp
qed

text \<open>An interface that has sent the frame in the second buffer.\<close>

definition sent_env :: "sample_state env" where
  "sent_env = sample_env\<lparr>SNP := sample_snp\<lparr>GetStatus := (\<lambda>w i. ((EFI_SUCCESS, 0x10808), w))\<rparr>\<rparr>"

theorem net_poll_reclaims_witness: "\<exists>s'. net_poll sent_env sample_layout (sample_polling []) = Inr ((), s') \<and> pool_rep s' [0x10800, 0x10000]"
proof -
  let ?s = "sample_polling []" and ?w = "sample_start\<lparr>inbox := []\<rparr>"
  have b: "is_buffer (eth_buffer_phys ?s) 0x10800" unfolding is_buffer_def buffer_def by (rule exI [of _ 1]) simp
  have st: "GetStatus (SNP sent_env) ?w (snp ?s) = ((EFI_SUCCESS, 0x10800 + of_nat 8), ?w)" by (simp add: sent_env_def)
  have rx: "Receive (SNP sent_env) ?w (snp ?s) 2048 = ((EFI_NOT_READY, [], 2048), ?w)" by (simp add: sent_env_def sample_snp_def)
  show ?thesis
    using net_poll_reclaims [OF sample_no_advert sample_polling_pool b _ _ st rx, of sample_layout] by auto
qed

text \<open>The server's boot command is waiting.\<close>

theorem net_kernel_load_boots_witness:
  "\<exists>t. repeat_run Hung (poll_round sample_env sample_layout) (\<lambda>more. more) (sample_polling [sample_boot_frame]) = Inr (False, t) \<and> \<not> net_poll_continue t"
proof -
  let ?s = "sample_polling [sample_boot_frame]" and ?w = "sample_start\<lparr>inbox := [sample_boot_frame]\<rparr>"
  have l: "length sample_boot_frame = 78" by (simp add: sample_boot_frame_def frame_to_def length_frame udp_segment_def length_message)
  have "apart [(0x1010, 1), (0x1080, 16), (0x3000, 6)]" by (rule apart_ascending [of 0]) simp
  then have "load_bytes sample_net_mem 0x1010 1 = load_bytes (\<lambda>_. 0) 0x1010 1" by (simp add: sample_net_mem_def load_past all_nodes_def)
  then have zero: "sample_net_mem (ip6_ll_addr sample_layout) \<noteq> 0xFF" by (simp add: load_bytes_Suc sample_layout_def)
  have us: "load_bytes sample_net_mem 0x1080 16 \<in> {load_bytes (mem ?s) (ip6_ll_addr sample_layout) 16,
      load_bytes (mem ?s) (ip6_snm_addr sample_layout) 16, load_bytes (mem ?s) (ip6_all_nodes sample_layout) 16}" by (simp add: sample_layout_def)
  have "sender_apart sample_layout 0x8000 (length sample_boot_frame)" by (rule answer_apartD(1) [OF sample_answer_apart]) (simp add: l)
  then have ap: "sender_apart sample_layout (data_local sample_layout) (length sample_boot_frame)" by (simp add: sample_layout_def)
  have "apart [(0x1010, 16), (0x1050, 16), (0x1080, 16), (0x8000, 78)]" by (rule apart_ascending [of 0]) simp
  then have far: "apart [(data_local sample_layout, length sample_boot_frame), (ip6_ll_addr sample_layout, 16), (ip6_snm_addr sample_layout, 16), (ip6_all_nodes sample_layout, 16)]"
    by (simp add: l) (simp add: sample_layout_def)
  have st: "GetStatus (SNP sample_env) ?w (snp ?s) = ((EFI_SUCCESS, 0), ?w)" by (simp add: sample_env_def sample_snp_def)
  have rx: "Receive (SNP sample_env) ?w (snp ?s) 2048 = ((EFI_SUCCESS, sample_boot_frame, of_nat (length sample_boot_frame)), ?w\<lparr>inbox := []\<rparr>)"
    by (simp add: sample_env_def sample_snp_def)
  show ?thesis
    using net_kernel_load_boots [OF sample_boot_frame_def sample_mac_for _ _ zero us ap far _ _ sample_no_advert _ st rx]
    by (auto simp: netboot_initial_def)
qed

end
