(* ===== verification/Loader.thy ===== *)
theory Loader
  imports Boot Io Net
begin

text \<open>
  The loader as a whole (\<^verbatim>\<open>loader_kernel\<close> of \<^verbatim>\<open>loader/kernel.c\<close>, \<^verbatim>\<open>uefi/init.c\<close>, \<^verbatim>\<open>loader.c\<close>): from the entry point to the jump
  into the kernel.
\<close>

section \<open>The code\<close>

text \<open>The build file defines where the kernel's stack goes.\<close>

definition STACK :: addr where "STACK = 0xFFFFFE0000000000"
definition STACK_SIZE :: u64 where "STACK_SIZE = 0x21000"

text \<open>The jump loads the page tables and the stack pointer and does not come back.\<close>

definition elf_jump_to_kernel :: "addr \<Rightarrow> addr \<Rightarrow> addr \<Rightarrow> ('w, 'z, 'a) run" where
  "elf_jump_to_kernel info entry pml4 = stop (Jumped info entry pml4)"

definition map_stack :: "'w env \<Rightarrow> addr \<Rightarrow> addr \<Rightarrow> ('w, 'z, unit) run" where
  "map_stack B pml4 stack =
     for_from 0 33 (\<lambda>i. loader_paging_map B pml4 (stack + push_bit 12 (of_nat i)) (STACK + push_bit 12 (of_nat i))
       (PAGE_PRESENT OR PAGE_WRITE OR PAGE_NX))"

definition map_loader :: "'w env \<Rightarrow> addr \<Rightarrow> addr \<Rightarrow> ('w, 'z, unit) run" where
  "map_loader B pml4 info =
     andthen (gets (\<lambda>s. ImageSize (SYS B) (fw s) (info_get (mem s) info Loaded_image))) (\<lambda>sz.
     let pages = drop_bit 12 sz + (if sz mod 0x1000 \<noteq> 0 then 1 else 0) in
     for_from 0 (unat pages) (\<lambda>i.
       andthen (gets (\<lambda>s. ImageBase (SYS B) (fw s) (info_get (mem s) info Loaded_image))) (\<lambda>base.
       loader_paging_map B pml4 (base + push_bit 12 (of_nat i)) (base + push_bit 12 (of_nat i)) (PAGE_PRESENT OR PAGE_WRITE))))"

text \<open>From the kernel's file to its segments, and from there to the jump.\<close>

definition kernel_read :: "'w env \<Rightarrow> globals \<Rightarrow> literals \<Rightarrow> ('w, 'z, addr \<times> addr \<times> addr) run" where
  "kernel_read B G V =
     andthen (fs_open B G (kernel_text V)) (\<lambda>(status, file_handle).
     andthen (EFIERR B ''loader/kernel.c'' 16 status) (\<lambda>_.
     andthen (fs_get_file_info B file_handle) (\<lambda>finfo.
     andthen (gets (\<lambda>s. FileSize (mem s) finfo)) (\<lambda>n.
     andthen (malloc B n) (\<lambda>copy.
     andthen (gets (\<lambda>s. FileSize (mem s) finfo)) (\<lambda>n.
     andthen (fs_read B file_handle n 0 copy) (\<lambda>_.
     andthen (loader_parse_header B file_handle (header_local G)) (\<lambda>status.
     andthen (EFIERR B ''loader/kernel.c'' 26 status) (\<lambda>_.
     ret (file_handle, finfo, copy))))))))))"

definition kernel_info :: "'w env \<Rightarrow> globals \<Rightarrow> efi_status \<Rightarrow> addr \<Rightarrow> addr \<Rightarrow> addr \<Rightarrow> ('w, 'z, addr) run" where
  "kernel_info B G status pml4 finfo copy =
     andthen (uefi_alloc_pages B 33) (\<lambda>stack.
     andthen (if EFI_ERROR B status then efi_panic B ''unable to allocate page'' else ret ()) (\<lambda>_.
     andthen (uefi_alloc_pages B (drop_bit 12 sizeof_info + 1)) (\<lambda>info.
     andthen (loader_paging_map B pml4 info info (PAGE_WRITE OR PAGE_PRESENT)) (\<lambda>_.
     andthen (info_set info St (st G)) (\<lambda>_.
     andthen (info_set info Handle (handle G)) (\<lambda>_.
     andthen (info_set info Copy copy) (\<lambda>_.
     andthen (gets (\<lambda>s. FileSize (mem s) finfo)) (\<lambda>n.
     andthen (info_set info Copy_size n) (\<lambda>_.
     andthen (map_stack B pml4 stack) (\<lambda>_.
     andthen (set_mem (\<lambda>m. wr64 m (stack + STACK_SIZE - 32) info)) (\<lambda>_.
     ret info)))))))))))"

definition loader_kernel :: "'w env \<Rightarrow> globals \<Rightarrow> literals \<Rightarrow> ('w, 'z, unit) run" where
  "loader_kernel B G V =
     andthen (loader_paging_setup B) (\<lambda>pml4.
     andthen (kernel_read B G V) (\<lambda>(file_handle, finfo, copy).
     andthen (gets (\<lambda>s. read_ehdr (mem s) (header_local G))) (\<lambda>header.
     andthen (elf_header_check B header) (\<lambda>status.
     andthen (EFIERR B ''loader/kernel.c'' 29 status) (\<lambda>_.
     andthen (loader_kernel_phdrs B file_handle header pml4) (\<lambda>_.
     andthen (fwcall (\<lambda>w. File_Close (VOL B) w file_handle)) (\<lambda>status.
     andthen (if EFI_ERROR B status then efi_panic B ''error closing kernel file'' else ret ()) (\<lambda>_.
     andthen (kernel_info B G status pml4 finfo copy) (\<lambda>info.
     andthen (framebuffer_get B info pml4) (\<lambda>_.
     andthen (efi_get_image B info) (\<lambda>_.
     andthen (map_loader B pml4 info) (\<lambda>_.
     andthen (efi_get_rsdp B info) (\<lambda>_.
     andthen (efi_get_memory_map B G info pml4) (\<lambda>_.
     elf_jump_to_kernel info (e_entry header) pml4))))))))))))))"

definition uefi_init :: "'w env \<Rightarrow> ('w, 'z, unit) run" where
  "uefi_init B =
     andthen loader_paging_wp_disable (\<lambda>_.
     andthen (modify (\<lambda>s. s\<lparr>msr := (msr s)(0xC0000080 := msr s 0xC0000080 OR 0x800)\<rparr>)) (\<lambda>_.
     andthen (fwcall (\<lambda>w. SetWatchdogTimer (BS B) w)) (\<lambda>status.
     andthen (EFIERR B ''uefi/init.c'' 13 status) (\<lambda>_.
     andthen (fwcall (\<lambda>w. ClearScreen (BS B) w)) (\<lambda>status.
     EFIERR B ''uefi/init.c'' 16 status)))))"

definition boot_menu :: string where
  "boot_menu = ''vineyard loader'' @ [CHR 0x0A] @ ''select a boot mode:'' @ [CHR 0x0A] @
     ''n) netboot via netboot-server'' @ [CHR 0x0A] @ ''d) local disk'' @ [CHR 0x0A]"

text \<open>The keys \<^verbatim>\<open>n\<close> (110) and \<^verbatim>\<open>d\<close> (100) end the loop.\<close>

definition boot_choice :: "'w env \<Rightarrow> ('w, 'z, u8) run" where
  "boot_choice B = repeat_run Hung (uefi_read_keystroke B) (\<lambda>c. c \<noteq> 110 \<and> c \<noteq> 100)"

definition efi_main :: "'w env \<Rightarrow> globals \<Rightarrow> net_layout \<Rightarrow> devpath_header \<Rightarrow> literals \<Rightarrow> ('w, 'z, efi_status) nb_run" where
  "efi_main B G L H V =
     andthen (uefi_init B) (\<lambda>_.
     andthen (if 1 < drop_bit 16 (FirmwareRevision (SYS B))
              then andthen (uefi_driver_start B H V (handle G) (btrfs_text V)) (\<lambda>_. ret ()) else ret ()) (\<lambda>_.
     andthen (uefi_io_reconnect B) (\<lambda>_.
     andthen (efi_printf B boot_menu []) (\<lambda>_.
     andthen (boot_choice B) (\<lambda>c.
     andthen (fwcall (\<lambda>w. ClearScreen (BS B) w)) (\<lambda>_.
     andthen (if c = 110
              then andthen (net_kernel_load B L V) (\<lambda>_.
                   andthen (fwcall (\<lambda>w. ClearScreen (BS B) w)) (\<lambda>_.
                   loader_kernel B G V))
              else if c = 100 then loader_kernel B G V
              else ret ()) (\<lambda>_.
     ret EFI_SUCCESS)))))))"

section \<open>Outcomes\<close>

text \<open>A step that never comes back to its caller.\<close>

definition no_return :: "('h, 's, 'a) step \<Rightarrow> bool" where
  "no_return m \<longleftrightarrow> (\<forall>s r. m s \<noteq> Inr r)"

lemma no_return_stop: "no_return (stop h)"
  by (simp add: no_return_def stop_def)

lemma no_return_andthen:
  "no_return m \<Longrightarrow> no_return (andthen m f)" "(\<And>x. no_return (f x)) \<Longrightarrow> no_return (andthen m f)"
  by (auto simp: no_return_def elim!: andthen_InrE)

lemma no_return_prod: "(\<And>x y. no_return (f x y)) \<Longrightarrow> no_return (case p of (x, y) \<Rightarrow> f x y)"
  by (cases p) simp

lemma loader_kernel_no_return: "loader_kernel B G V s \<noteq> Inr r"
proof -
  have "no_return (loader_kernel B G V)"
    unfolding loader_kernel_def elf_jump_to_kernel_def
    by (intro no_return_andthen(2) no_return_prod no_return_stop)
  then show ?thesis unfolding no_return_def by blast
qed

lemma boot_choice_key: "boot_choice B s = Inr (c, t) \<Longrightarrow> c = 110 \<or> c = 100"
  by (auto simp: boot_choice_def repeat_run_Inr)

lemma kept_bits: "bit (x AND ucast (NOT (push_bit 16 (1 :: u32))) :: u64) n \<longleftrightarrow> bit x n \<and> n < 32 \<and> n \<noteq> 16"
  unfolding bit_and_iff bit_ucast_iff bit_not_iff bit_push_bit_iff by (auto simp: bit_1_iff)

lemma nx_bits: "bit (x OR 0x800 :: u64) n \<longleftrightarrow> bit x n \<or> n = 11"
proof -
  have e: "(0x800 :: u64) = push_bit 11 1" by (simp add: push_bit_eq_mult)
  show ?thesis unfolding e bit_or_iff bit_push_bit_iff by (auto simp: bit_1_iff)
qed

section \<open>Properties\<close>

text \<open>
  C40: After the set-up the processor lets the loader write to read-only pages and knows the no-execute bit; of the registers
  only the write-protect bit and the upper half of \<^verbatim>\<open>cr0\<close> and one bit of one model-specific register have changed, and no memory.
\<close>

theorem uefi_init_registers:
  fixes s :: "('w, 'z) machine_scheme"
  assumes "uefi_init B s = Inr (x, t)"
  shows "(\<forall>n. bit (cr0 t) n \<longleftrightarrow> bit (cr0 s) n \<and> n < 32 \<and> n \<noteq> 16) \<and>
     (\<forall>r n. bit (msr t r) n \<longleftrightarrow> bit (msr s r) n \<or> r = 0xC0000080 \<and> n = 11) \<and> mem t = mem s"
  using assms
  by (auto simp: uefi_init_def loader_paging_wp_disable_def fwcall_def EFIERR_Inr kept_bits [simplified] nx_bits
      elim!: andthen_InrE split: prod.splits if_splits)

theorem uefi_init_registers_witness:
  "\<exists>t. uefi_init sample_env sample_machine = Inr ((), t) \<and> \<not> bit (cr0 t) 16 \<and> bit (cr0 t) 31 \<and> bit (msr t 0xC0000080) 11"
proof -
  obtain t where run: "uefi_init sample_env sample_machine = Inr ((), t)"
    by (simp add: uefi_init_def loader_paging_wp_disable_def fwcall_def andthen_Inr EFIERR_def sample_env_def sample_bs_def)
  have "bit (cr0 sample_machine) 31" by (simp add: sample_machine_def bit_simps)
  then show ?thesis using uefi_init_registers [OF run] run by simp
qed

text \<open>
  The loader never returns to the firmware: whatever key is pressed and whatever the firmware answers, a run ends in the
  kernel, by leaving through the firmware's own exit or reset, in a panic or in an endless wait.
\<close>

theorem efi_main_no_return: "\<exists>h t. efi_main B G L H V s = Inl (h, t)"
proof -
  have "efi_main B G L H V s \<noteq> Inr r" for r
    by (cases r) (auto simp: efi_main_def loader_kernel_no_return elim!: andthen_InrE dest!: boot_choice_key split: if_splits)
  then show ?thesis by (cases "efi_main B G L H V s") auto
qed

end
