(* ===== verification/Handover.thy ===== *)
theory Handover
  imports Loader
begin

text \<open>
  What the kernel finds when it starts: the memory and the page tables of \<^verbatim>\<open>loader_kernel\<close> from the first table to
  the jump, across all the parts of the loader that run in between.
\<close>

section \<open>What later steps leave alone\<close>

text \<open>Addresses of the upper half, without the slot through which the tables map themselves.\<close>

definition high :: "addr \<Rightarrow> bool" where
  "high v \<longleftrightarrow> 256 \<le> table_index 39 v \<and> table_index 39 v \<noteq> 510"

text \<open>
  Between the states \<open>r\<close> and \<open>s\<close> the tables stayed well formed, the bytes of \<open>X\<close> and the pages of the upper half
  did not change, \<open>X\<close> and \<open>W\<close> belong to the loader and hold no tables, and the addresses of \<open>I\<close> are mapped to themselves.
\<close>

definition held :: "'w env \<Rightarrow> ('w \<Rightarrow> addr set) \<Rightarrow> addr \<Rightarrow> addr set \<Rightarrow> addr set \<Rightarrow> addr set \<Rightarrow>
    ('w, 'z) machine_scheme \<Rightarrow> ('w, 'z) machine_scheme \<Rightarrow> bool" where
  "held B own root X W I r s \<longleftrightarrow>
     paging_inv B own root s \<and> X \<union> W \<subseteq> own (fw s) - table_bytes root (mem s) \<and> X \<inter> W = {} \<and>
     (\<forall>x \<in> X. mem s x = mem r x) \<and>
     (\<forall>v. high v \<longrightarrow> page_entry (mem s) root v = page_entry (mem r) root v) \<and>
     (\<forall>v \<in> I. unat v < 2 ^ 47 \<and> translate (mem s) root v = Some v)"

lemma low_index: "unat v < 2 ^ 47 \<Longrightarrow> table_index 39 v < 256"
  by (simp add: table_index_def less_mult_imp_div_less)

lemma page_below: "(x :: nat) < 2 ^ 47 \<Longrightarrow> y div 4096 = x div 4096 \<Longrightarrow> y < 2 ^ 47"
proof -
  assume "x < 2 ^ 47" "y div 4096 = x div 4096"
  then have "y div 4096 < 2 ^ 35" by simp
  then show ?thesis by (simp add: div_less_iff_less_mult)
qed

lemma held_write:
  assumes h: "held B own root X W I r s" and F: "F \<inter> (table_bytes root (mem s) \<union> X) = {}"
    and m: "\<forall>x. x \<notin> F \<longrightarrow> mem t x = mem s x" and own: "own (fw s) \<subseteq> own (fw t)"
  shows "held B own root X W I r t"
proof -
  have inv: "paging_inv B own root s" using h by (simp add: held_def)
  have F': "F \<inter> table_bytes root (mem s) = {}" using F by blast
  note w = write_fresh [where t = t, OF inv F' m own]
  have "translate (mem t) root v = translate (mem s) root v" if "unat v < 2 ^ 47" for v
    using w(4) [OF low_not_510 [OF that]] by (simp add: translate_def)
  moreover have "mem t x = mem r x" if "x \<in> X" for x
  proof -
    have "x \<notin> F" using that F by blast
    then show ?thesis using that m h by (simp add: held_def)
  qed
  moreover have "page_entry (mem t) root v = page_entry (mem r) root v" if "high v" for v
    using w(4) [of v] that h by (simp add: held_def high_def)
  moreover have "X \<union> W \<subseteq> own (fw t) - table_bytes root (mem t)" "X \<inter> W = {}" using h own w(2) unfolding held_def by auto
  ultimately show ?thesis using h w(1) unfolding held_def by auto
qed

lemma held_fw: "held B own root X W I r s \<Longrightarrow> mem t = mem s \<Longrightarrow> own (fw s) \<subseteq> own (fw t) \<Longrightarrow> held B own root X W I r t"
  by (rule held_write [where F = "{}"]) auto

lemma held_subset: "held B own root X W I r s \<Longrightarrow> J \<subseteq> I \<Longrightarrow> held B own root X W J r s"
  unfolding held_def by blast

text \<open>What is held can change hands: from a later state on, other bytes can be watched.\<close>

lemma held_rebase:
  "held B own root X W I r s \<Longrightarrow> X' \<union> W' \<subseteq> own (fw s) - table_bytes root (mem s) \<Longrightarrow> X' \<inter> W' = {} \<Longrightarrow>
     held B own root X' W' I s s"
  unfolding held_def by simp

lemma held_trans:
  assumes "held B own root X W I r s" and "held B own root X' W' J s t" and "X \<subseteq> X'" and "W \<subseteq> X' \<union> W'"
  shows "held B own root X W J r t"
  using assms unfolding held_def by auto

lemma identity_entry:
  assumes "unat v < 2 ^ 47" and "flag_bits f" and "unat u div 4096 = unat v div 4096"
  shows "((v OR f) AND frame_mask) + (u AND 0xFFF) = u" and "(v OR f) AND PAGE_PRESENT \<noteq> 0"
proof -
  have f: "(v OR f) AND frame_mask = v AND frame_mask"
    using assms(2) by (simp add: flag_bits_def bit.conj_disj_distrib2)
  have b: "unat (v AND frame_mask) = 4096 * (unat v div 4096)" using assms(1) by (intro unat_frame) simp
  then have "aligned 12 (v AND frame_mask)" by (simp add: aligned_def)
  then show "((v OR f) AND frame_mask) + (u AND 0xFFF) = u"
    unfolding f by (rule page_split) (simp only: b assms(3) nonzero_mult_div_cancel_left)
  have "f AND PAGE_PRESENT = 0" if "(v OR f) AND PAGE_PRESENT = 0"
    using that by (simp add: bit.conj_disj_distrib2 or_eq_0_iff)
  then show "(v OR f) AND PAGE_PRESENT \<noteq> 0" using assms(2) by (auto simp: flag_bits_def)
qed

lemma held_map:
  assumes h: "held B own root X W I r s" and v: "unat v < 2 ^ 47" and f: "flag_bits f"
    and run: "loader_paging_map B root v v f s = Inr (x, t)"
  shows "held B own root X W (I \<union> {u. unat u div 4096 = unat v div 4096}) r t"
proof -
  have inv: "paging_inv B own root s" using h by (simp add: held_def)
  have e: "paging_inv B own root t" "tree_grows own root s t"
    "\<And>w. table_index 39 w \<noteq> 510 \<Longrightarrow> page_entry (mem t) root w =
        (if indices w = indices v then Some (v OR f) else page_entry (mem s) root w)"
    using loader_paging_map_effect [OF inv low_not_510 [OF v] run] identity_entry(2) [OF v f refl] by auto
  have same: "indices u = indices v \<longleftrightarrow> unat u div 4096 = unat v div 4096" if "unat u < 2 ^ 47" for u
  proof -
    have "unat u div 4096 < 2 ^ 36" "unat v div 4096 < 2 ^ 36" using that v by simp_all
    then show ?thesis by (simp add: indices_eq_iff)
  qed
  have tr: "translate (mem t) root u = Some u"
    if "unat u < 2 ^ 47" "unat u div 4096 = unat v div 4096 \<or> translate (mem s) root u = Some u" for u
    using e(3) [OF low_not_510 [OF that(1)]] identity_entry(1) [OF v f, of u] that same [OF that(1)]
    by (cases "unat u div 4096 = unat v div 4096") (simp_all add: translate_def)
  have "indices w \<noteq> indices v" if "high w" for w
    using that low_index [OF v] by (auto simp: high_def indices_def)
  then have "page_entry (mem t) root w = page_entry (mem r) root w" if "high w" for w
    using e(3) [of w] that h by (simp add: high_def held_def)
  moreover have "unat u < 2 ^ 47" if "unat u div 4096 = unat v div 4096" for u using v that by (rule page_below)
  moreover have "mem t x = mem r x" if "x \<in> X" for x using that e(2) h unfolding tree_grows_def held_def by auto
  moreover have "X \<union> W \<subseteq> own (fw t) - table_bytes root (mem t)" using e(2) h unfolding tree_grows_def held_def by blast
  ultimately show ?thesis using h e(1) tr unfolding held_def by blast
qed

lemma held_map_range:
  assumes h: "held B own root X W I r s" and b: "unat b + 4096 * n \<le> 2 ^ 47" and f: "flag_bits f"
    and run: "for_from 0 n (\<lambda>i. loader_paging_map B root (b + push_bit 12 (of_nat i)) (b + push_bit 12 (of_nat i)) f) s = Inr (x, t)"
  shows "held B own root X W (I \<union> {u. unat b div 4096 \<le> unat u div 4096 \<and> unat u div 4096 < unat b div 4096 + n}) r t"
proof -
  let ?J = "\<lambda>k. I \<union> {u. unat b div 4096 \<le> unat u div 4096 \<and> unat u div 4096 < unat b div 4096 + k}"
  have "held B own root X W (?J (0 + n)) r t"
  proof (rule for_from_inv [where I = "\<lambda>k. held B own root X W (?J k) r", OF run])
    show "held B own root X W (?J 0) r s" using h by (rule held_subset) auto
    fix k c c' v
    assume k: "k < 0 + n" and c: "held B own root X W (?J k) r c"
      and m: "loader_paging_map B root (b + push_bit 12 (of_nat k)) (b + push_bit 12 (of_nat k)) f c = Inr (v, c')"
    have u: "unat (b + push_bit 12 (of_nat k)) = unat b + 4096 * k" using b k by (intro unat_page_step) simp
    have "held B own root X W (?J k \<union> {u. unat u div 4096 = unat (b + push_bit 12 (of_nat k)) div 4096}) r c'"
      using c _ f m by (rule held_map) (use u b k in simp)
    then show "held B own root X W (?J (Suc k)) r c'"
      by (rule held_subset) (auto simp: u)
  qed
  then show ?thesis by simp
qed

lemma held_map_addr:
  assumes h: "held B own root X W I r s" and low: "unat start + unat len < 2 ^ 47" and f: "flag_bits f"
    and run: "loader_paging_map_addr B root start len f s = Inr (x, t)"
  shows "held B own root X W (I \<union> {v. start \<le> v \<and> v \<le> start + len}) r t"
proof -
  let ?S = "unat start div 4096" and ?E = "(unat start + unat len) div 4096"
  let ?b = "start AND frame_mask"
  have b: "unat ?b = 4096 * ?S" using low by (intro unat_frame) simp
  have le: "?S \<le> ?E" by (rule div_le_mono) simp
  have "4096 * ?E \<le> unat start + unat len" by (rule times_div_less_eq_dividend)
  then have "4096 * ?E + 4096 \<le> 2 ^ 47" using low by (simp add: div_less_iff_less_mult flip: less_eq_Suc_le)
  then have n: "unat ?b + 4096 * (?E - ?S + 1) \<le> 2 ^ 47" using b le by (simp add: algebra_simps)
  have sum: "unat (start + len) = unat start + unat len"
    using low unat_add_of_nat [of start "unat len"] by simp
  have "held B own root X W (I \<union> {u. unat ?b div 4096 \<le> unat u div 4096 \<and> unat u div 4096 < unat ?b div 4096 + (?E - ?S + 1)}) r t"
    using h n f run unfolding loader_paging_map_addr_def Let_def map_addr_pages [OF low] by (rule held_map_range)
  then show ?thesis
  proof (rule held_subset)
    have "?S \<le> unat v div 4096 \<and> unat v div 4096 \<le> ?E" if "start \<le> v" "v \<le> start + len" for v
      using that sum by (simp add: word_le_nat_alt div_le_mono)
    then show "I \<union> {v. start \<le> v \<and> v \<le> start + len} \<subseteq>
        I \<union> {u. unat ?b div 4096 \<le> unat u div 4096 \<and> unat u div 4096 < unat ?b div 4096 + (?E - ?S + 1)}"
      using le by (auto simp: b less_Suc_eq_le)
  qed
qed

section \<open>What the firmware promises\<close>

text \<open>No service that runs while the kernel is loaded takes memory away from the loader.\<close>

definition services_keep :: "'w env \<Rightarrow> ('w \<Rightarrow> addr set) \<Rightarrow> bool" where
  "services_keep B own \<longleftrightarrow>
     (\<forall>w h p. own w \<subseteq> own (snd (HandleProtocol (HND B) w h p)) \<and> own w \<subseteq> own (snd (OpenProtocol (HND B) w h p))) \<and>
     (\<forall>w p. own w \<subseteq> own (snd (LocateHandleBuffer (BS B) w p))) \<and>
     (\<forall>w g i. own w \<subseteq> own (snd (QueryMode (GOP B) w g i)) \<and> own w \<subseteq> own (snd (SetMode (GOP B) w g i))) \<and>
     (\<forall>w n. own w \<subseteq> own (snd (AllocatePool B w n)) \<and> own w \<subseteq> own (snd (AllocatePages B w n)) \<and>
        own w \<subseteq> own (snd (GetMemoryMap (BS B) w n))) \<and>
     (\<forall>w h k. own w \<subseteq> own (snd (ExitBootServices (BS B) w h k))) \<and>
     (\<forall>w f. own w \<subseteq> own (snd (File_Close (VOL B) w f)) \<and> own w \<subseteq> own (snd (OpenVolume (VOL B) w f))) \<and>
     (\<forall>w f p m n. own w \<subseteq> own (snd (File_Open (VOL B) w f p m)) \<and> own w \<subseteq> own (snd (File_GetInfo (BS B) w f n)))"

text \<open>
  Physical memory, the framebuffer and the descriptions of the graphics mode lie in the lower half of the address space, the framebuffer does
  not move when memory is allocated, and the memory map is no larger than the buffer it is put into.
\<close>

definition low_memory :: "'w env \<Rightarrow> bool" where
  "low_memory B \<longleftrightarrow>
     (\<forall>w n status a w'. AllocatePages B w n = ((status, a), w') \<longrightarrow> \<not> EFI_ERROR B status \<longrightarrow> unat a + unat n * 4096 < 2 ^ 47) \<and>
     (\<forall>w g. unat (Mode (GOP B) w g) + 8 < 2 ^ 47 \<and> unat (Mode_Info (GOP B) w g) + 8 < 2 ^ 47 \<and>
        unat (FrameBufferBase (GOP B) w g) + unat (FrameBufferSize (GOP B) w g) + 4096 \<le> 2 ^ 47) \<and>
     (\<forall>w n g. FrameBufferBase (GOP B) (snd (AllocatePages B w n)) g = FrameBufferBase (GOP B) w g)"

definition map_fits :: "'w env \<Rightarrow> bool" where
  "map_fits B \<longleftrightarrow> (\<forall>w n status sz key d bytes w'. GetMemoryMap (BS B) w n = ((status, sz, key, d, bytes), w') \<longrightarrow>
     length bytes \<le> unat n \<and> unat sz < 2 ^ 47)"

section \<open>The parts that run after the segments are loaded\<close>

lemma keeps_gets_then: "(\<And>s. keeps Q (f (g s))) \<Longrightarrow> keeps Q (andthen (gets g) f)"
  by (auto simp: keeps_def)

lemma keeps_held_fwcall:
  assumes "\<And>w. own w \<subseteq> own (snd (f w))"
  shows "keeps (held B own root X W I r) (fwcall f)"
proof (rule keepsI)
  fix s x t assume "fwcall f s = Inr (x, t)" and h: "held B own root X W I r s"
  then have "mem t = mem s" "fw t = snd (f (fw s))" by (auto simp: fwcall_def split: prod.splits)
  then show "held B own root X W I r t" using assms by (intro held_fw [OF h]) simp_all
qed

lemma services_keepD:
  assumes "services_keep B own"
  shows "own w \<subseteq> own (snd (HandleProtocol (HND B) w h p))" "own w \<subseteq> own (snd (OpenProtocol (HND B) w h p))"
    "own w \<subseteq> own (snd (LocateHandleBuffer (BS B) w q))"
    "own w \<subseteq> own (snd (QueryMode (GOP B) w g i))" "own w \<subseteq> own (snd (SetMode (GOP B) w g i))"
    "own w \<subseteq> own (snd (AllocatePool B w n))" "own w \<subseteq> own (snd (GetMemoryMap (BS B) w n))"
    "own w \<subseteq> own (snd (ExitBootServices (BS B) w h n))"
    "own w \<subseteq> own (snd (File_Close (VOL B) w h))" "own w \<subseteq> own (snd (OpenVolume (VOL B) w h))"
    "own w \<subseteq> own (snd (File_Open (VOL B) w h name mode))" "own w \<subseteq> own (snd (File_GetInfo (BS B) w h n))"
    "own w \<subseteq> own (snd (AllocatePages B w n))"
  using assms by (simp_all add: services_keep_def)

lemma services_held:
  assumes "services_keep B own"
  shows "keeps (held B own root X W I r) (fwcall (\<lambda>w. HandleProtocol (HND B) w h p))"
    "keeps (held B own root X W I r) (fwcall (\<lambda>w. OpenProtocol (HND B) w h p))"
    "keeps (held B own root X W I r) (fwcall (\<lambda>w. LocateHandleBuffer (BS B) w q))"
    "keeps (held B own root X W I r) (fwcall (\<lambda>w. QueryMode (GOP B) w g i))"
    "keeps (held B own root X W I r) (fwcall (\<lambda>w. SetMode (GOP B) w g i))"
    "keeps (held B own root X W I r) (fwcall (\<lambda>w. AllocatePool B w n))"
    "keeps (held B own root X W I r) (fwcall (\<lambda>w. GetMemoryMap (BS B) w n))"
    "keeps (held B own root X W I r) (fwcall (\<lambda>w. ExitBootServices (BS B) w h n))"
    "keeps (held B own root X W I r) (fwcall (\<lambda>w. File_Close (VOL B) w h))"
  by (intro keeps_held_fwcall services_keepD [OF assms])+

lemma keeps_held_map_range:
  assumes "unat b + 4096 * n \<le> 2 ^ 47" and "flag_bits f"
  shows "keeps (held B own root X W I r)
     (for_from 0 n (\<lambda>i. loader_paging_map B root (b + push_bit 12 (of_nat i)) (b + push_bit 12 (of_nat i)) f))"
  by (rule keepsI) (rule held_subset [OF held_map_range [OF _ assms]], auto)

text \<open>A loop that reads again what does not change is the loop that reads it once.\<close>

lemma for_from_same:
  assumes "Q s" and "\<And>k s. k < i + n \<Longrightarrow> Q s \<Longrightarrow> body k s = body' k s" and "\<And>k. k < i + n \<Longrightarrow> keeps Q (body' k)"
  shows "for_from i n body s = for_from i n body' s"
  using assms
proof (induction n arbitrary: i s)
  case (Suc n)
  have "for_from (Suc i) n body t = for_from (Suc i) n body' t" if "body' i s = Inr (x, t)" for x t
    by (rule Suc.IH) (use Suc.prems keepsD [OF Suc.prems(3) that Suc.prems(1)] in simp_all)
  then show ?case using Suc.prems(1) Suc.prems(2) [of i s] by (auto simp: andthen_def split: sum.splits)
qed simp

lemma keeps_held_framebuffer:
  assumes low: "low_memory B" and n: "\<And>s :: ('w, 'z) machine_scheme. unat (FrameBufferBase (GOP B) (fw s) gop) + 4096 * n (g s) \<le> 2 ^ 47"
    and f: "flag_bits f"
  shows "keeps (held B own root X W I r)
     (andthen (gets g) (\<lambda>sz. for_from 0 (n sz) (\<lambda>i. andthen (gets (\<lambda>s. FrameBufferBase (GOP B) (fw s) gop)) (\<lambda>base.
        loader_paging_map B root (base + push_bit 12 (of_nat i)) (base + push_bit 12 (of_nat i)) f))))"
proof (rule keepsI)
  fix s t :: "('w, 'z) machine_scheme" and x
  let ?b = "FrameBufferBase (GOP B) (fw s) gop" and ?Q = "\<lambda>c. FrameBufferBase (GOP B) c gop = FrameBufferBase (GOP B) (fw s) gop"
  assume run: "andthen (gets g) (\<lambda>sz. for_from 0 (n sz) (\<lambda>i. andthen (gets (\<lambda>s. FrameBufferBase (GOP B) (fw s) gop)) (\<lambda>base.
        loader_paging_map B root (base + push_bit 12 (of_nat i)) (base + push_bit 12 (of_nat i)) f))) s = Inr (x, t)"
    and h: "held B own root X W I r s"
  have kept: "keeps (\<lambda>c. ?Q (fw c)) (loader_paging_map B root a v f)" for a v
    by (rule keeps_fw_map) (use low in \<open>simp add: low_memory_def\<close>)
  have "for_from 0 (n (g s)) (\<lambda>i. loader_paging_map B root (?b + push_bit 12 (of_nat i)) (?b + push_bit 12 (of_nat i)) f) s = Inr (x, t)"
    unfolding run [unfolded andthen_gets, symmetric]
    by (rule sym, rule for_from_same [where Q = "\<lambda>c. ?Q (fw c)"]) (simp_all add: kept)
  then show "held B own root X W I r t" using keepsD [OF keeps_held_map_range [OF n f]] h by blast
qed

lemma keeps_held_map_addr:
  assumes "unat start + unat len < 2 ^ 47" and "flag_bits f"
  shows "keeps (held B own root X W I r) (loader_paging_map_addr B root start len f)"
  by (rule keepsI) (rule held_subset [OF held_map_addr [OF _ assms]], auto)

lemma keeps_held_store:
  assumes "F \<subseteq> W" and "\<And>m x. x \<notin> F \<Longrightarrow> f m x = m x"
  shows "keeps (held B own root X W I r) (set_mem f)"
proof (rule keepsI)
  fix s x t assume "set_mem f s = Inr (x, t)" and h: "held B own root X W I r s"
  then have t: "mem t = f (mem s)" "fw t = fw s" by auto
  have "F \<inter> (table_bytes root (mem s) \<union> X) = {}" using h assms(1) unfolding held_def by blast
  with h show "held B own root X W I r t" by (rule held_write) (auto simp: t assms(2))
qed

lemma keeps_held_info:
  assumes "region (info + info_offset f) 8 \<subseteq> W"
  shows "keeps (held B own root X W I r) (info_set info f v)"
  unfolding info_set_def using assms by (rule keeps_held_store) (rule c64.wr_outside)

lemma round_up_pages:
  assumes "unat (sz :: u64) < 2 ^ 47"
  shows "unat (drop_bit 12 sz + (if sz mod 0x1000 \<noteq> 0 then 1 else 0)) = (unat sz + 4095) div 4096"
proof -
  have m: "unat (sz mod 0x1000) = unat sz mod 4096" by (simp add: unat_mod)
  have d: "unat (drop_bit 12 sz) = unat sz div 4096" by (rule unat_drop12)
  have z: "sz mod 0x1000 = 0 \<longleftrightarrow> unat sz mod 4096 = 0" unfolding m [symmetric] by (simp add: unat_eq_zero)
  have "unat (drop_bit 12 sz + 1) = unat sz div 4096 + 1"
    using unat_add_of_nat [of "drop_bit 12 sz" 1] assms unfolding d by simp
  moreover have "(unat sz + 4095) div 4096 = (if unat sz mod 4096 = 0 then unat sz div 4096 else unat sz div 4096 + 1)"
  proof -
    have "(r + 4095) div 4096 = 1" if "r < 4096" "r \<noteq> 0" for r :: nat by (rule div_nat_eqI) (use that in simp_all)
    then show ?thesis by (auto simp: div_add1_eq [of "unat sz" 4095 4096])
  qed
  ultimately show ?thesis by (simp add: z d)
qed

text \<open>The fields of the information the kernel gets that are filled in after it was set up.\<close>

abbreviation late_fields :: "addr \<Rightarrow> addr set" where
  "late_fields info \<equiv> region (info + 16) 56"

lemma late_field:
  assumes "f \<notin> {Handle, St, Copy, Copy_size}"
  shows "region (info + info_offset f) 8 \<subseteq> late_fields info"
proof -
  have "region (info + 16 + of_nat k) 8 \<subseteq> late_fields info" if "k + 8 \<le> 56" for k using that by (rule subregion)
  from this [of 0] this [of 8] this [of 16] this [of 24] this [of 32] this [of 40] this [of 48] show ?thesis
    using assms by (cases f) (simp_all add: info_offset.simps add.assoc)
qed

lemma page_flags: "flag_bits (PAGE_PRESENT OR PAGE_WRITE)" "flag_bits (PAGE_WRITE OR PAGE_PRESENT)"
    "flag_bits (PAGE_PRESENT OR PAGE_WRITE OR PAGE_NX)"
  by (simp_all add: flag_bits_def PAGE_PRESENT_def PAGE_WRITE_def PAGE_NX_def)

lemma gop_loop_held: "services_keep B own \<Longrightarrow> keeps (held B own root X W I r) (gop_loop B hs)"
  by (induction hs) (auto intro!: keeps_intros services_held)

lemma mode_loop_held: "services_keep B own \<Longrightarrow> keeps (held B own root X W I r) (mode_loop B gop n i max_w max_h selection)"
  by (induction n arbitrary: i max_w max_h selection)
    (auto intro!: keeps_intros services_held simp: Let_def)

lemma framebuffer_held:
  assumes sv: "services_keep B own" and low: "low_memory B" and W: "late_fields info \<subseteq> W"
  shows "keeps (held B own root X W I r) (framebuffer_get B info root)"
proof -
  have g: "keeps (held B own root X W I r) (efi_gop_get B)"
    unfolding efi_gop_get_def
    by (intro keeps_andthen keeps_prod keeps_EFIERR services_held [OF sv] gop_loop_held [OF sv])
  have m: "keeps (held B own root X W I r) (framebuffer_setup B gop)" for gop
    unfolding framebuffer_setup_def by (rule keeps_gets_then) (rule mode_loop_held [OF sv])
  have i: "keeps (held B own root X W I r) (info_set info Gop_mode v)" for v
    by (intro keeps_held_info order.trans [OF late_field W]) simp
  have a: "unat (Mode (GOP B) w gop) + unat (8 :: u64) < 2 ^ 47" "unat (Mode_Info (GOP B) w gop) + unat (8 :: u64) < 2 ^ 47" for w gop
    using low unfolding low_memory_def by simp_all
  have p: "unat (FrameBufferBase (GOP B) w gop) + 4096 * unat (drop_bit 12 (FrameBufferSize (GOP B) w gop) +
      (if FrameBufferSize (GOP B) w gop mod 0x1000 \<noteq> 0 then 1 else 0)) \<le> 2 ^ 47" for w gop
  proof -
    let ?sz = "FrameBufferSize (GOP B) w gop"
    have l: "unat (FrameBufferBase (GOP B) w gop) + unat ?sz + 4096 \<le> 2 ^ 47" using low unfolding low_memory_def by simp
    have "4096 * ((unat ?sz + 4095) div 4096) \<le> unat ?sz + 4095" by (rule times_div_less_eq_dividend)
    then show ?thesis using l by (subst round_up_pages) simp_all
  qed
  show ?thesis
    unfolding framebuffer_get_def Let_def
    by (rule keeps_andthen [OF g], rule keeps_prod, rule keeps_andthen [OF keeps_or_undefined], rule keeps_andthen [OF m],
        rule keeps_gets_then, rule keeps_andthen [OF i], rule keeps_andthen [OF keeps_held_map_addr [OF a(1) page_flags(1)]],
        rule keeps_gets_then, rule keeps_andthen [OF keeps_held_map_addr [OF a(2) page_flags(1)]])
      (rule keeps_held_framebuffer, rule low, rule p, rule page_flags)
qed

lemma image_held:
  assumes sv: "services_keep B own" and W: "late_fields info \<subseteq> W"
  shows "keeps (held B own root X W I r) (efi_get_image B info)"
  unfolding efi_get_image_def
  by (intro keeps_andthen keeps_basic keeps_prod keeps_EFIERR services_held [OF sv] keeps_held_info order.trans [OF late_field W]) simp

lemma rsdp_held:
  assumes W: "late_fields info \<subseteq> W"
  shows "keeps (held B own root X W I r) (efi_get_rsdp B info)"
proof -
  have "keeps (held B own root X W I r) (info_set info Rsdp v)" for v
    by (intro keeps_held_info order.trans [OF late_field W]) simp
  then show ?thesis unfolding efi_get_rsdp_def
    by (intro keeps_gets_then) (auto split: option.splits intro!: keeps_intros)
qed

lemma map_pages:
  assumes "unat (sz :: u64) < 2 ^ 47"
  shows "unat sz \<le> unat ((sz + 0xFFF) div 0x1000 + 1) * 4096"
proof -
  have "unat (sz + 0xFFF) = unat sz + 4095" using unat_add_of_nat [of sz 4095] assms by simp
  then have d: "unat ((sz + 0xFFF) div 0x1000) = (unat sz + 4095) div 4096" by (simp add: unat_div)
  then have "unat ((sz + 0xFFF) div 0x1000 + 1) = (unat sz + 4095) div 4096 + 1"
    using unat_add_of_nat [of "(sz + 0xFFF) div 0x1000" 1] assms by simp
  moreover have "unat sz + 4095 < 4096 * ((unat sz + 4095) div 4096) + 4096"
    using mod_less_divisor [of 4096 "unat sz + 4095"] mult_div_mod_eq [of 4096 "unat sz + 4095"] by linarith
  ultimately show ?thesis by simp
qed

text \<open>The map goes into the pages allocated for it; the kernel's information points to them.\<close>

lemma memory_map_leave_held:
  assumes sv: "services_keep B own" and fits: "map_fits B"
    and a: "region (info + info_offset Efi_memory_map) 8 \<subseteq> X" "info_get (mem r) info Efi_memory_map = a"
    and W: "region a (unat sz) \<subseteq> W" "\<And>f. f \<notin> {Handle, St, Copy, Copy_size, Efi_memory_map} \<Longrightarrow> region (info + info_offset f) 8 \<subseteq> W"
  shows "keeps (held B own root X W I r) (memory_map_leave B G info sz)"
proof (rule keepsI)
  fix s x t
  assume run: "memory_map_leave B G info sz s = Inr (x, t)" and h: "held B own root X W I r s"
  obtain status sz' key d bytes w where g: "GetMemoryMap (BS B) (fw s) sz = ((status, sz', key, d, bytes), w)" by (metis surj_pair)
  let ?s1 = "s\<lparr>fw := w\<rparr>" and ?s2 = "s\<lparr>fw := w, mem := store_bytes (mem s) a bytes\<rparr>"
  have fc: "fwcall (\<lambda>w. GetMemoryMap (BS B) w sz) s = Inr ((status, sz', key, d, bytes), ?s1)" by (simp add: fwcall_def g)
  have "own (fw s) \<subseteq> own w" using services_keepD(7) [OF sv, of "fw s" sz] by (simp add: g)
  then have h1: "held B own root X W I r ?s1" by (intro held_fw [OF h]) simp_all
  have p: "info_get (mem s) info Efi_memory_map = a"
    unfolding a(2) [symmetric] info_get_def by (rule c64.rd_cong) (use h a(1) in \<open>auto simp: held_def\<close>)
  have len: "length bytes \<le> unat sz" using fits g unfolding map_fits_def by blast
  have h2: "held B own root X W I r ?s2"
  proof (rule held_write [OF h1])
    show "region a (unat sz) \<inter> (table_bytes root (mem ?s1) \<union> X) = {}" using h1 W(1) unfolding held_def by blast
  qed (use len in \<open>auto intro!: store_outside_le\<close>)
  have rest: "keeps (held B own root X W I r) (info_set info f v)" if "f \<notin> {Handle, St, Copy, Copy_size, Efi_memory_map}" for f v
    using that by (intro keeps_held_info W(2))
  let ?k = "andthen (info_set info Efi_memory_map_key key) (\<lambda>_.
     if EFI_ERROR B status \<and> status \<noteq> EFI_BUFFER_TOO_SMALL then ret status
     else if d = 0 then stop Undefined
     else
       andthen (info_set info Efi_memory_map_entries (sz' div d)) (\<lambda>_.
       andthen (info_set info Efi_memory_map_descriptor_size d) (\<lambda>_.
       andthen (gets (\<lambda>s. info_get (mem s) info Efi_memory_map_key)) (\<lambda>key.
       andthen (fwcall (\<lambda>w. ExitBootServices (BS B) w (handle G) key)) (\<lambda>status.
       andthen (EFIERR B ''boot/memory_map.c'' 35 status) (\<lambda>_.
       ret EFI_SUCCESS))))))"
  have "keeps (held B own root X W I r) ?k"
    by (intro keeps_andthen keeps_if keeps_basic keeps_EFIERR rest services_held [OF sv]) simp_all
  moreover have "?k ?s2 = Inr (x, t)"
    using run p by (simp add: memory_map_leave_def andthen_Inr fc)
  ultimately show "held B own root X W I r t" using h2 by (rule keepsD)
qed

lemma held_fresh:
  assumes h: "held B own root X W I r s" and F: "F \<inter> own w1 = {}" "F \<subseteq> own (fw s)" and w1: "X \<union> W \<union> table_bytes root (mem s) \<subseteq> own w1"
    and Y: "Y \<subseteq> W"
  shows "held B own root (X \<union> Y) (W - Y \<union> F) I s s"
  by (rule held_rebase [OF h]) (use h F w1 Y in \<open>auto simp: held_def\<close>)

lemma memory_map_held:
  assumes sv: "services_keep B own" and low: "low_memory B" and fits: "map_fits B" and W: "late_fields info \<subseteq> W"
  shows "keeps (held B own root X W I r) (efi_get_memory_map B G info root)"
proof (rule keepsI)
  fix s x t
  assume run: "efi_get_memory_map B G info root s = Inr (x, t)" and h: "held B own root X W I r s"
  let ?Q = "held B own root X W I r" and ?at = "region (info + info_offset Efi_memory_map) 8"
  have field: "region (info + info_offset f) 8 \<subseteq> W" if "f \<notin> {Handle, St, Copy, Copy_size}" for f
    using late_field [OF that] W by blast
  have info: "?Q (c\<lparr>mem := wr64 (mem c) (info + info_offset f) v\<rparr>)" if "?Q c" "f \<notin> {Handle, St, Copy, Copy_size}" for c f v
    using keepsD [OF keeps_held_info [OF field [OF that(2)]] info_set_run that(1)] .
  obtain status sz key d bytes w1 where g: "GetMemoryMap (BS B) (fw s) 0 = ((status, sz, key, d, bytes), w1)" by (metis surj_pair)
  define s2 where "s2 = s\<lparr>fw := w1, mem := wr64 (mem s) (info + info_offset Efi_memory_map_key) key\<rparr>"
  have fc: "fwcall (\<lambda>w. GetMemoryMap (BS B) w 0) s = Inr ((status, sz, key, d, bytes), s\<lparr>fw := w1\<rparr>)" by (simp add: fwcall_def g)
  have "?Q (s\<lparr>fw := w1\<rparr>)" using services_keepD(7) [OF sv, of "fw s" 0] g by (intro held_fw [OF h]) simp_all
  from info [OF this] have q2: "?Q s2" by (simp add: s2_def)
  let ?n = "(sz + 0xFFF) div 0x1000 + 1"
  obtain st2 a w2 where al: "AllocatePages B w1 ?n = ((st2, a), w2)" by (metis surj_pair)
  have fc2: "fwcall (\<lambda>w. AllocatePages B w ?n) s2 = Inr ((st2, a), s2\<lparr>fw := w2\<rparr>)" by (simp add: fwcall_def al s2_def)
  have qw: "?Q (s2\<lparr>fw := w2\<rparr>)" using services_keepD(13) [OF sv, of w1 ?n] al by (intro held_fw [OF q2]) (simp_all add: s2_def)
  consider "t = s2" | "t = s2\<lparr>fw := w2\<rparr>" | "\<not> EFI_ERROR B st2"
    "andthen (info_set info Efi_memory_map a) (\<lambda>_.
         andthen (loader_paging_map_addr B root a (push_bit 12 ?n) (PAGE_WRITE OR PAGE_PRESENT)) (\<lambda>_.
         memory_map_leave B G info sz)) (s2\<lparr>fw := w2\<rparr>) = Inr (x, t)"
    using run fc2 by (auto simp: efi_get_memory_map_def andthen_Inr fc Let_def simp flip: s2_def split: if_splits)
  then show "?Q t"
  proof cases
    case 3
    define s3 where "s3 = s2\<lparr>fw := w2, mem := wr64 (mem s2) (info + info_offset Efi_memory_map) a\<rparr>"
    have q3: "?Q s3" using info [OF qw, of Efi_memory_map a] by (simp add: s3_def)
    have ao: "alloc_ok B own" using q2 by (simp add: held_def paging_inv_def)
    let ?F = "region a (unat ?n * 4096)"
    have F: "?F \<inter> own w1 = {}" "?F \<subseteq> own (fw s3)" using alloc_okD(3,4) [OF ao al 3(1)] by (auto simp: s3_def)
    have in1: "X \<union> W \<union> table_bytes root (mem s3) \<subseteq> own w1"
    proof -
      have "table_bytes root (mem s3) = table_bytes root (mem s2)"
      proof (rule table_bytes_cong)
        show "mem s3 y = mem s2 y" if "y \<in> table_bytes root (mem s2)" for y
          using that q2 field [of Efi_memory_map] by (auto simp: s3_def held_def intro!: c64.wr_outside)
      qed
      moreover have "fw s2 = w1" by (simp add: s2_def)
      ultimately show ?thesis using q2 table_bytes_owned unfolding held_def paging_inv_def by blast
    qed
    let ?X = "X \<union> ?at" and ?W = "W - ?at \<union> ?F"
    have h3: "held B own root ?X ?W I s3 s3" using q3 F in1 field [of Efi_memory_map] by (intro held_fresh) simp_all
    have lo: "unat a + unat ?n * 4096 < 2 ^ 47" using low al 3(1) unfolding low_memory_def by blast
    then have len: "unat (push_bit 12 ?n) = unat ?n * 4096"
      by (simp add: push_bit_eq_mult unat_word_ariths)
    have szF: "region a (unat sz) \<subseteq> ?F" using fits g unfolding map_fits_def by (intro region_mono map_pages) blast
    have other: "region (info + info_offset f) 8 \<subseteq> ?W" if "f \<notin> {Handle, St, Copy, Copy_size, Efi_memory_map}" for f
      using field [of f] that info_fields_apart [of f Efi_memory_map info] by blast
    have "keeps (held B own root ?X ?W I s3) (andthen (loader_paging_map_addr B root a (push_bit 12 ?n) (PAGE_WRITE OR PAGE_PRESENT)) (\<lambda>_.
         memory_map_leave B G info sz))"
      using szF lo len other
      by (intro keeps_andthen keeps_held_map_addr page_flags memory_map_leave_held [OF sv fits]) (auto simp: s3_def info_get_set)
    then have "held B own root ?X ?W I s3 t" using 3(2) h3 by (auto simp: s3_def dest: keepsD)
    with q3 show ?thesis by (rule held_trans) auto
  qed (use q2 qw in simp_all)
qed

section \<open>The stack and the information\<close>

lemma held_alloc:
  assumes h: "held B own root X W I r s" and low: "low_memory B" and run: "uefi_alloc_pages B n s = Inr (a, t)"
  shows "held B own root X (W \<union> region a (unat n * 4096)) I r t"
    and "aligned 12 a" and "unat a + unat n * 4096 < 2 ^ 47"
    and "region a (unat n * 4096) \<inter> own (fw s) = {}" and "own (fw s) \<subseteq> own (fw t)"
proof -
  obtain status w where al: "AllocatePages B (fw s) n = ((status, a), w)" "\<not> EFI_ERROR B status"
    and t: "t = s\<lparr>fw := w, mem := memset (mem s) a 0 (unat (push_bit 12 n))\<rparr>"
    using run by (rule uefi_alloc_pages_Inr)
  have ao: "alloc_ok B own" and tb: "table_bytes root (mem s) \<subseteq> own (fw s)"
    using h table_bytes_owned by (auto simp: held_def paging_inv_def)
  note d = alloc_okD [OF ao al]
  show "aligned 12 a" and apart: "region a (unat n * 4096) \<inter> own (fw s) = {}" by (rule d)+
  show lo: "unat a + unat n * 4096 < 2 ^ 47" using low al unfolding low_memory_def by blast
  then have len: "unat (push_bit 12 n) = unat n * 4096" by (simp add: push_bit_eq_mult unat_word_ariths)
  have own: "own (fw s) \<subseteq> own (fw t)" "region a (unat n * 4096) \<subseteq> own (fw t)" using d(4) by (auto simp: t)
  then show "own (fw s) \<subseteq> own (fw t)" by simp
  have XW: "X \<union> W \<subseteq> own (fw s)" using h by (auto simp: held_def)
  have "unat n * 4096 < 2 ^ 64" using lo by simp
  then have out: "mem t y = mem s y" if "y \<notin> region a (unat n * 4096)" for y
    using that by (simp add: t memset_store len store_outside)
  have h1: "held B own root X W I r t"
  proof (rule held_write [OF h _ _ own(1)])
    show "region a (unat n * 4096) \<inter> (table_bytes root (mem s) \<union> X) = {}" using apart tb XW by blast
  qed (simp add: out)
  moreover have "table_bytes root (mem t) = table_bytes root (mem s)"
    by (rule table_bytes_cong) (use apart tb in \<open>blast intro: out\<close>)
  ultimately show "held B own root X (W \<union> region a (unat n * 4096)) I r t"
    using own apart tb XW unfolding held_def by blast
qed

text \<open>The pages of the stack are in a slot of their own.\<close>

definition stack_slot :: nat where "stack_slot = 508"

lemma stack_index:
  assumes "i < 33 * 4096"
  shows "table_index 39 (STACK + of_nat i) = stack_slot"
proof -
  have u: "unat (STACK + of_nat i) = 0xFFFFFE0000000000 + i"
    using unat_add_of_nat [of STACK i] assms by (simp add: STACK_def)
  have "(0xFFFFFE0000000000 + i) div 2 ^ 39 = 0x1FFFFFC" by (rule div_nat_eqI) (use assms in simp_all)
  then show ?thesis by (simp add: table_index_def u stack_slot_def)
qed

lemma map_stack_held:
  assumes h: "held B own root X W I r s" and a: "aligned 12 stack" "unat stack + 33 * 4096 < 2 ^ 47"
    and run: "map_stack B root stack s = Inr (x, t)"
  shows "held B own root X W I t t" and "\<forall>y \<in> X \<union> W. mem t y = mem s y"
    and "\<forall>i < 33 * 4096. translate (mem t) root (STACK + of_nat i) = Some (stack + of_nat i)"
    and "\<forall>v. high v \<longrightarrow> table_index 39 v \<noteq> stack_slot \<longrightarrow> page_entry (mem t) root v = page_entry (mem s) root v"
proof -
  let ?V = "\<lambda>i. STACK + push_bit 12 (of_nat i)" and ?P = "\<lambda>i. stack + push_bit 12 (of_nat i)"
  let ?f = "PAGE_PRESENT OR PAGE_WRITE OR PAGE_NX"
  have inv: "paging_inv B own root s" using h by (simp add: held_def)
  have slot: "table_index 39 (?V i) = stack_slot" if "i < 33" for i
    using stack_index [of "4096 * i"] that by (simp add: page_step)
  have P: "aligned 12 (?P i)" "unat (?P i) < 2 ^ 52" if "i < 33" for i
    by (rule frame_page [OF a(1) _ that], use a(2) in simp)+
  have eff: "paging_inv B own root t \<and> tree_grows own root s t \<and>
     (\<forall>i < 33. \<forall>v. table_index 39 v \<noteq> 510 \<longrightarrow> indices v = indices (?V i) \<longrightarrow> page_entry (mem t) root v = Some (?P i OR ?f)) \<and>
     (\<forall>v. table_index 39 v \<noteq> 510 \<longrightarrow> indices v \<notin> (\<lambda>i. indices (?V i)) ` {..<33} \<longrightarrow> page_entry (mem t) root v = page_entry (mem s) root v)"
  proof (rule pm.map_range [OF run [unfolded map_stack_def] inv])
    show "inj_on (\<lambda>i. indices (?V i)) {..<33}" by (rule range_pages_distinct) (simp_all add: STACK_def)
    show "table_index 39 (?V i) \<noteq> 510" if "i < 33" for i using slot [OF that] by (simp add: stack_slot_def)
    show "(?P i OR ?f) AND PAGE_PRESENT \<noteq> 0" if "i < 33" for i using entry_frame(2) [OF P [OF that] page_flags(3)] .
  qed
  have other: "page_entry (mem t) root v = page_entry (mem s) root v" if "table_index 39 v \<noteq> 510" "table_index 39 v \<noteq> stack_slot" for v
  proof -
    have "indices v \<noteq> indices (?V i)" if "i < 33" for i using slot [OF that] \<open>table_index 39 v \<noteq> stack_slot\<close> by (auto simp: indices_def)
    then have "indices v \<notin> (\<lambda>i. indices (?V i)) ` {..<33}" by blast
    then show ?thesis using eff that(1) by blast
  qed
  then show "\<forall>v. high v \<longrightarrow> table_index 39 v \<noteq> stack_slot \<longrightarrow> page_entry (mem t) root v = page_entry (mem s) root v"
    by (simp add: high_def)
  show kept: "\<forall>y \<in> X \<union> W. mem t y = mem s y" using eff h unfolding tree_grows_def held_def by blast
  show "\<forall>i < 33 * 4096. translate (mem t) root (STACK + of_nat i) = Some (stack + of_nat i)"
  proof (intro allI impI)
    fix i :: nat assume i: "i < 33 * 4096"
    then have k: "i div 4096 < 33" by (simp add: div_less_iff_less_mult)
    have "aligned 12 STACK" "unat STACK + i < 2 ^ 64" using i by (simp_all add: STACK_def aligned_def)
    note ra = range_addr [OF this]
    have "table_index 39 (STACK + of_nat i) \<noteq> 510" using stack_index [OF i] by (simp add: stack_slot_def)
    then have "page_entry (mem t) root (STACK + of_nat i) = Some (?P (i div 4096) OR ?f)" using eff ra(1) k by blast
    from translate_entry [OF this P [OF k] page_flags(3)]
    show "translate (mem t) root (STACK + of_nat i) = Some (stack + of_nat i)"
      by (simp only: ra(2) add.assoc page_offset)
  qed
  have "translate (mem t) root v = Some v" if "v \<in> I" for v
  proof -
    have "unat v < 2 ^ 47" "translate (mem s) root v = Some v" using h that by (simp_all add: held_def)
    then show ?thesis using other [of v] low_index [of v] by (simp add: translate_def stack_slot_def)
  qed
  then show "held B own root X W I t t"
    using eff h unfolding held_def tree_grows_def by blast
qed

lemma held_mem: "held B own root X W I r s \<Longrightarrow> x \<in> X \<Longrightarrow> mem s x = mem r x"
  by (simp add: held_def)

lemma info_parts: "region info 16 \<union> late_fields info \<union> region (info + 72) 16 \<subseteq> region info 88"
    "region info 16 \<inter> late_fields info = {}" "region (info + 72) 16 \<inter> late_fields info = {}"
  using subregion [of 0 16 88 info] subregion [of 16 56 88 info] subregion [of 72 16 88 info]
  by (auto intro!: region_disjI simp del: Int_iff)

text \<open>The fields that are filled in first.\<close>

lemma early_field:
  assumes "f \<in> {Handle, St, Copy, Copy_size}"
  shows "region (info + info_offset f) 8 \<subseteq> region info 16 \<union> region (info + 72) 16"
  using assms subregion [of 0 8 16 info] subregion [of 8 8 16 info] subregion [of 0 8 16 "info + 72"] subregion [of 8 8 16 "info + 72"]
  by (auto simp: info_offset.simps add.assoc)

lemma info_get_cong:
  assumes "\<And>x. x \<in> region (info + info_offset f) 8 \<Longrightarrow> m x = m' x"
  shows "info_get m info f = info_get m' info f"
  unfolding info_get_def using assms by (rule c64.rd_cong)

lemma info_filled:
  fixes s3 :: "('w, 'z) machine_scheme"
  assumes h: "held B own root X W I r s3" and W: "region info 88 \<subseteq> W" and fin: "region (finfo + 8) 8 \<subseteq> X"
    and s4: "s4 = s3\<lparr>mem := wr64 (wr64 (wr64 (wr64 (mem s3) (info + info_offset St) a) (info + info_offset Handle) b) (info + info_offset Copy) c)
       (info + info_offset Copy_size)
       (FileSize (wr64 (wr64 (wr64 (mem s3) (info + info_offset St) a) (info + info_offset Handle) b) (info + info_offset Copy) c) finfo)\<rparr>"
  shows "held B own root X W I r s4" and "info_get (mem s4) info St = a" and "info_get (mem s4) info Handle = b"
    and "info_get (mem s4) info Copy = c" and "info_get (mem s4) info Copy_size = FileSize (mem r) finfo"
proof -
  have field: "region (info + info_offset f) 8 \<subseteq> W" for f
    using late_field [of f info] early_field [of f info] info_parts(1) [of info] W by (cases "f \<in> {Handle, St, Copy, Copy_size}") blast+
  have set: "held B own root X W I r (q\<lparr>mem := wr64 (mem q) (info + info_offset f) v\<rparr>)" if "held B own root X W I r q" for q f v
    using keepsD [OF keeps_held_info [OF field] info_set_run that] .
  let ?m3 = "wr64 (wr64 (wr64 (mem s3) (info + info_offset St) a) (info + info_offset Handle) b) (info + info_offset Copy) c"
  have h3: "held B own root X W I r (s3\<lparr>mem := ?m3\<rparr>)"
    using set [OF set [OF set [OF h]], of St a Handle b Copy c] by simp
  have "FileSize ?m3 finfo = FileSize (mem r) finfo"
    unfolding FileSize_def by (rule c64.rd_cong) (use held_mem [OF h3] fin in auto)
  then have s4': "s4 = s3\<lparr>mem := wr64 ?m3 (info + info_offset Copy_size) (FileSize (mem r) finfo)\<rparr>" by (simp add: s4)
  show "held B own root X W I r s4" using set [OF h3, of Copy_size "FileSize (mem r) finfo"] by (simp add: s4')
  show "info_get (mem s4) info St = a" and "info_get (mem s4) info Handle = b"
    and "info_get (mem s4) info Copy = c" and "info_get (mem s4) info Copy_size = FileSize (mem r) finfo"
    by (simp_all add: s4' info_get_set)
qed

lemma kernel_info_run:
  fixes s :: "('w, 'z) machine_scheme"
  assumes "kernel_info B G status root finfo copy s = Inr (info, t)"
  obtains stack s1 s2 s3 s4 s5 where "uefi_alloc_pages B 33 s = Inr (stack, s1)" and "uefi_alloc_pages B 1 s1 = Inr (info, s2)"
    and "loader_paging_map B root info info (PAGE_WRITE OR PAGE_PRESENT) s2 = Inr ((), s3)"
    and "s4 = s3\<lparr>mem := wr64 (wr64 (wr64 (wr64 (mem s3) (info + info_offset St) (st G)) (info + info_offset Handle) (handle G)) (info + info_offset Copy) copy)
       (info + info_offset Copy_size)
       (FileSize (wr64 (wr64 (wr64 (mem s3) (info + info_offset St) (st G)) (info + info_offset Handle) (handle G)) (info + info_offset Copy) copy) finfo)\<rparr>"
    and "map_stack B root stack s4 = Inr ((), s5)" and "t = s5\<lparr>mem := wr64 (mem s5) (stack + STACK_SIZE - 32) info\<rparr>"
proof -
  have n: "drop_bit 12 sizeof_info + 1 = (1 :: u64)" by (simp add: sizeof_info_def)
  show thesis
    using assms that unfolding kernel_info_def n
    by (auto simp: efi_panic_run elim!: andthen_InrE split: if_splits)
qed

lemma args_in_stack: "region (stack + STACK_SIZE - 32) 8 \<subseteq> region stack (33 * 4096)"
proof -
  have e: "stack + STACK_SIZE - 32 = stack + of_nat (33 * 4096 - 32)" by (simp add: STACK_SIZE_def)
  show ?thesis unfolding e by (rule subregion) simp
qed

lemma kernel_info_held:
  fixes s :: "('w, 'z) machine_scheme"
  assumes h: "held B own root X {} {} s s" and low: "low_memory B" and fin: "region (finfo + 8) 8 \<subseteq> X"
    and run: "kernel_info B G status root finfo copy s = Inr (info, t)"
  obtains stack where
    "held B own root (X \<union> region stack (33 * 4096) \<union> region info 16 \<union> region (info + 72) 16) (late_fields info) (region info 4096) t t"
    and "\<forall>x \<in> X. mem t x = mem s x"
    and "\<forall>i < 33 * 4096. translate (mem t) root (STACK + of_nat i) = Some (stack + of_nat i)"
    and "rd64 (mem t) (stack + STACK_SIZE - 32) = info"
    and "\<forall>v. high v \<longrightarrow> table_index 39 v \<noteq> stack_slot \<longrightarrow> page_entry (mem t) root v = page_entry (mem s) root v"
    and "info_get (mem t) info St = st G" "info_get (mem t) info Handle = handle G"
      "info_get (mem t) info Copy = copy" "info_get (mem t) info Copy_size = FileSize (mem s) finfo"
proof -
  obtain stack s1 s2 s3 s4 s5 where r1: "uefi_alloc_pages B 33 s = Inr (stack, s1)" and r2: "uefi_alloc_pages B 1 s1 = Inr (info, s2)"
    and r3: "loader_paging_map B root info info (PAGE_WRITE OR PAGE_PRESENT) s2 = Inr ((), s3)"
    and s4: "s4 = s3\<lparr>mem := wr64 (wr64 (wr64 (wr64 (mem s3) (info + info_offset St) (st G)) (info + info_offset Handle) (handle G)) (info + info_offset Copy) copy)
       (info + info_offset Copy_size)
       (FileSize (wr64 (wr64 (wr64 (mem s3) (info + info_offset St) (st G)) (info + info_offset Handle) (handle G)) (info + info_offset Copy) copy) finfo)\<rparr>"
    and r5: "map_stack B root stack s4 = Inr ((), s5)" and t: "t = s5\<lparr>mem := wr64 (mem s5) (stack + STACK_SIZE - 32) info\<rparr>"
    using run by (rule kernel_info_run)
  let ?S = "region stack (33 * 4096)" and ?P = "region info 4096" and ?A = "region (stack + STACK_SIZE - 32) 8"
  note a1 = held_alloc [OF h low r1, simplified]
  note a2 = held_alloc [OF a1(1) low r2, simplified]
  have pg: "{u. unat u div 4096 = unat info div 4096} = ?P" using aligned_region [OF a2(2)] by simp
  have h3: "held B own root X (?S \<union> ?P) ?P s s3"
    using held_map [OF a2(1) _ page_flags(2) r3] a2(3) unfolding pg by simp
  have P88: "region info 88 \<subseteq> ?P" by (rule region_mono) simp
  have "region info 88 \<subseteq> ?S \<union> ?P" using P88 by blast
  note i4 = info_filled [OF h3 this fin s4]
  have lo: "unat stack + 33 * 4096 < 2 ^ 47" using a1(3) by simp
  note m5 = map_stack_held [OF i4(1) a1(2) lo r5]
  note A = args_in_stack [of stack]
  have SX: "?S \<inter> X = {}" using a1(4) h by (auto simp: held_def)
  have SP: "?S \<inter> ?P = {}" using a2(4) a1(1) by (auto simp: held_def)
  have h6: "held B own root X (?S \<union> ?P) ?P s5 t"
    by (rule held_write [OF m5(1), where F = ?A])
      (use A m5(1) in \<open>auto simp: t held_def intro!: c64.wr_outside\<close>)
  have same: "mem t y = mem s4 y" if "y \<in> X \<union> ?P" for y
  proof -
    have "y \<notin> ?A" using that A SX SP by blast
    moreover have "mem s5 y = mem s4 y" using that m5(2) by blast
    ultimately show ?thesis by (simp add: t c64.wr_outside)
  qed
  have pe: "page_entry (mem t) root v = page_entry (mem s5) root v" if "table_index 39 v \<noteq> 510" for v
    using write_fresh(4) [of B own root s5 ?A t, OF _ _ _ _ that] m5(1) A by (auto simp: t held_def c64.wr_outside)
  show thesis
  proof (rule that)
    show "held B own root (X \<union> ?S \<union> region info 16 \<union> region (info + 72) 16) (late_fields info) ?P t t"
    proof (rule held_rebase [OF h6])
      show "X \<union> ?S \<union> region info 16 \<union> region (info + 72) 16 \<union> late_fields info \<subseteq> own (fw t) - table_bytes root (mem t)"
        using h6 info_parts(1) [of info] P88 unfolding held_def by blast
      have "X \<inter> ?P = {}" using h3 by (auto simp: held_def)
      then show "(X \<union> ?S \<union> region info 16 \<union> region (info + 72) 16) \<inter> late_fields info = {}"
        using SP info_parts [of info] P88 by blast
    qed
    show "\<forall>x \<in> X. mem t x = mem s x" using same held_mem [OF i4(1)] by simp
    show "\<forall>i < 33 * 4096. translate (mem t) root (STACK + of_nat i) = Some (stack + of_nat i)"
      using m5(3) pe stack_index by (auto simp: translate_def stack_slot_def)
    show "rd64 (mem t) (stack + STACK_SIZE - 32) = info" by (simp add: t c64.rd_wr_same)
    show "\<forall>v. high v \<longrightarrow> table_index 39 v \<noteq> stack_slot \<longrightarrow> page_entry (mem t) root v = page_entry (mem s) root v"
      using m5(4) pe i4(1) by (auto simp: high_def held_def)
    have "info_get (mem t) info f = info_get (mem s4) info f" if "f \<in> {Handle, St, Copy, Copy_size}" for f
      using same early_field [OF that, of info] info_parts(1) [of info] P88 by (intro info_get_cong) blast
    then show "info_get (mem t) info St = st G" "info_get (mem t) info Handle = handle G"
      "info_get (mem t) info Copy = copy" "info_get (mem t) info Copy_size = FileSize (mem s) finfo"
      using i4(2-) by simp_all
  qed
qed

section \<open>The segments\<close>

text \<open>
  A block of pool memory stays a block until it is freed, and freeing it takes back no more than the block:
  \<open>block w p n\<close> says that the loader has \<open>n\<close> bytes at \<open>p\<close> from the pool.
\<close>

definition blocks_ok :: "'w env \<Rightarrow> ('w \<Rightarrow> addr set) \<Rightarrow> ('w \<Rightarrow> addr \<Rightarrow> nat \<Rightarrow> bool) \<Rightarrow> bool" where
  "blocks_ok B own block \<longleftrightarrow>
     (\<forall>w n status a w'. AllocatePool B w n = ((status, a), w') \<longrightarrow> \<not> EFI_ERROR B status \<longrightarrow> block w' a (unat n)) \<and>
     (\<forall>w p n. block w p n \<longrightarrow> own w - region p n \<subseteq> own (snd (FreePool B w p))) \<and>
     (\<forall>w p n f k. block w p n \<longrightarrow> block (snd (AllocatePages B w k)) p n \<and>
        block (snd (File_SetPosition B w f k)) p n \<and> block (snd (File_Read B w f k)) p n)"

lemma keeps_block:
  assumes "blocks_ok B own block"
  shows "keeps (\<lambda>s. block (fw s) p n) (load_segment B file root ph)"
  using assms unfolding blocks_ok_def by (intro keeps_fw_segment) blast+

lemma tables_ok_minus:
  assumes "tables_ok U root m" and "R \<inter> table_bytes root m = {}"
  shows "tables_ok (U - R) root m"
  using assms unfolding tables_ok_def table_page_def table_bytes_def by blast

lemma phdrs_held:
  fixes s :: "('w, 'z) machine_scheme"
  assumes h: "held B own root X {} {} s s" and pool: "pool_ok B own" and blocks: "blocks_ok B own block"
    and fok: "file_ok B own pos file data" "pos (fw s) \<noteq> None" and kok: "kernel_ok data eh" and run: "loader_kernel_phdrs B file eh root s = Inr (x, t)"
  shows "held B own root X {} {} t t" and "\<forall>y \<in> X. mem t y = mem s y"
    and "\<forall>k < unat (e_phnum eh). loadable data eh k \<longrightarrow> seg_loaded data (phdr_in data eh k) (own (fw t)) root (mem t)"
proof -
  let ?sz = "unat (e_phnum eh) * unat (e_phentsize eh)"
  have inv: "paging_inv B own root s" using h by (simp add: held_def)
  obtain status phdrs s1 u where p: "loader_parse_phdrs B file eh s = Inr ((status, phdrs), s1)"
    and rounds: "for_from 0 (unat (e_phnum eh)) (round B file eh root phdrs) s1 = Inr ((), u)"
    and li: "loop_inv B own root data eh phdrs (unat (e_phnum eh)) u" and grows: "tree_grows own root s1 u"
    and fr: "free B phdrs u = Inr (x, t)"
    using inv pool fok kok run by (rule kernel_phdrs_stages)
  let ?R = "region phdrs ?sz"
  have sz: "unat (ucast (e_phnum eh) * ucast (e_phentsize eh) :: u64) = ?sz"
    using kok by (intro phdrs_size_unat) (simp add: kernel_ok_def)
  obtain st1 w1 st2 w2 st3 bs w3 where
    sp: "File_SetPosition B (fw s) file (e_phoff eh) = (st1, w1)" and
    ap: "AllocatePool B w1 (ucast (e_phnum eh) * ucast (e_phentsize eh)) = ((st2, phdrs), w2)" "\<not> EFI_ERROR B st2" and
    rd: "File_Read B w2 file (ucast (e_phnum eh) * ucast (e_phentsize eh)) = ((st3, bs), w3)" and
    s1: "s1 = s\<lparr>fw := w3, mem := store_bytes (mem s) phdrs bs\<rparr>"
    using p by (rule parse_phdrs_run)
  have R: "?R \<inter> own w1 = {}" "own w1 \<subseteq> own w2" using pool ap unfolding pool_ok_def sz [symmetric] by blast+
  have "pos w1 = Some (unat (e_phoff eh))" using file_ok_position(1) [OF fok, of "e_phoff eh"] by (simp add: sp)
  then have "pos w2 = Some (unat (e_phoff eh))" using file_ok_alloc [OF fok(1) _ ap(1)] by blast
  note rd' = file_ok_read [OF fok(1) this rd]
  have own: "own (fw s) \<subseteq> own w1" "own w2 \<subseteq> own w3"
    using file_ok_position(2) [OF fok, of "e_phoff eh"] rd'(2) by (simp_all add: sp)
  have len: "length bs \<le> ?sz" using rd'(1) by (simp add: sz)
  have RX: "?R \<inter> (table_bytes root (mem s) \<union> X) = {}"
    using R(1) own(1) h table_bytes_owned unfolding held_def paging_inv_def by blast
  have h1: "held B own root X {} {} s s1"
    by (rule held_write [OF h RX]) (use own R(2) len in \<open>auto simp: s1 intro!: store_outside_le\<close>)
  have "block w2 phdrs ?sz" using blocks ap unfolding blocks_ok_def sz [symmetric] by blast
  then have "block (snd (File_Read B w2 file (ucast (e_phnum eh) * ucast (e_phentsize eh)))) phdrs ?sz"
    using blocks unfolding blocks_ok_def by blast
  then have b1: "block (fw s1) phdrs ?sz" by (simp add: rd s1)
  have "keeps (\<lambda>s. block (fw s) phdrs ?sz) (for_from 0 (unat (e_phnum eh)) (round B file eh root phdrs))"
    unfolding round_def by (intro keeps_for_from keeps_andthen keeps_basic keeps_if keeps_block [OF blocks])
  then have "block (fw u) phdrs ?sz" using rounds b1 by (rule keepsD)
  then have free_own: "own (fw u) - ?R \<subseteq> own (snd (FreePool B (fw u) phdrs))" using blocks unfolding blocks_ok_def by blast
  have t: "mem t = mem u" "fw t = snd (FreePool B (fw u) phdrs)"
    using fr by (auto simp: free_def fwcall_def EFIERR_Inr elim!: andthen_InrE split: prod.splits)
  have Xu: "mem u y = mem s y" "y \<in> own (fw u) - table_bytes root (mem u)" if "y \<in> X" for y
    using grows h1 that unfolding tree_grows_def held_def by auto
  then show "\<forall>y \<in> X. mem t y = mem s y" by (simp add: t)
  have Ru: "?R \<inter> table_bytes root (mem u) = {}" and iu: "tables_ok (own (fw u)) root (mem u)" "alloc_ok B own"
    using li by (auto simp: loop_inv_def paging_inv_def)
  have "tables_ok (own (fw t)) root (mem t)"
    using tables_ok_cong [OF _ tables_ok_minus [OF iu(1) Ru], of "mem t" "own (fw t)"] free_own by (simp add: t)
  then show "held B own root X {} {} t t"
    using iu(2) Xu RX free_own by (auto simp: held_def paging_inv_def t)
  show "\<forall>k < unat (e_phnum eh). loadable data eh k \<longrightarrow> seg_loaded data (phdr_in data eh k) (own (fw t)) root (mem t)"
    using li free_own unfolding loop_inv_def t by (blast intro: seg_loaded_mono)
qed

section \<open>The kernel's file\<close>

text \<open>
  What the firmware promises of the description of an open file: it has \<open>len\<close> bytes and holds the length of the content, and asking for
  it does not close the file.
\<close>

definition file_info_ok :: "'w env \<Rightarrow> ('w \<Rightarrow> nat option) \<Rightarrow> addr \<Rightarrow> u64 \<Rightarrow> nat \<Rightarrow> bool" where
  "file_info_ok B pos f len n \<longleftrightarrow> 16 \<le> unat len \<and>
     (\<forall>w k status len' bytes w'. pos w \<noteq> None \<longrightarrow> File_GetInfo (BS B) w f k = ((status, len', bytes), w') \<longrightarrow>
        pos w' \<noteq> None \<and> len' = len \<and> length bytes \<le> unat k \<and>
        (unat len \<le> unat k \<longrightarrow> 16 \<le> length bytes \<and> FileSize (data_mem bytes) 0 = of_nat n))"

lemma held_malloc:
  assumes h: "held B own root X W I r s" and pool: "pool_ok B own" and run: "malloc B n s = Inr (a, t)"
  shows "held B own root X (W \<union> region a (unat n)) I r t" and "mem t = mem s"
    and "region a (unat n) \<inter> own (fw s) = {}"
proof -
  obtain status w where al: "AllocatePool B (fw s) n = ((status, a), w)" "\<not> EFI_ERROR B status" and t: "t = s\<lparr>fw := w\<rparr>"
    using run by (auto simp: malloc_def fwcall_def EFIERR_Inr elim!: andthen_InrE split: prod.splits)
  have d: "region a (unat n) \<inter> own (fw s) = {}" "own (fw s) \<union> region a (unat n) \<subseteq> own w"
    using pool al unfolding pool_ok_def by blast+
  then show "region a (unat n) \<inter> own (fw s) = {}" by simp
  show "mem t = mem s" by (simp add: t)
  have "held B own root X W I r t" using d(2) by (intro held_fw [OF h]) (auto simp: t)
  moreover have "X \<union> W \<union> table_bytes root (mem s) \<subseteq> own (fw s)"
    using h table_bytes_owned unfolding held_def paging_inv_def by blast
  ultimately show "held B own root X (W \<union> region a (unat n)) I r t" using d unfolding held_def t by auto
qed

lemma malloc_still_open:
  assumes "file_ok B own pos f data" and "pos (fw s) \<noteq> None" and "malloc B n s = Inr (a, t)"
  shows "pos (fw t) \<noteq> None"
proof -
  obtain r w where al: "AllocatePool B (fw s) n = (r, w)" and t: "fw t = w"
    using assms(3) by (auto simp: malloc_def fwcall_def EFIERR_Inr elim!: andthen_InrE split: prod.splits)
  obtain p where "pos (fw s) = Some p" using assms(2) by blast
  from file_ok_alloc [OF assms(1) this al] show ?thesis by (simp add: t)
qed

lemma held_file_read:
  assumes h: "held B own root X W I r s" and fok: "file_ok B own pos f data" "pos (fw s) = Some p" and W: "region buf (unat n) \<subseteq> W"
    and run: "file_read B f n buf s = Inr (x, t)"
  shows "held B own root X W I r t" and "mem t = store_bytes (mem s) buf (take (unat n) (drop p data))" and "pos (fw t) \<noteq> None"
proof -
  obtain status bs w where rd: "File_Read B (fw s) f n = ((status, bs), w)" and t: "t = s\<lparr>fw := w, mem := store_bytes (mem s) buf bs\<rparr>"
    using run by (auto simp: file_read_def fwcall_def elim!: andthen_InrE split: prod.splits)
  note b = file_ok_read [OF fok rd]
  show "mem t = store_bytes (mem s) buf (take (unat n) (drop p data))" by (simp add: t b(1))
  show "pos (fw t) \<noteq> None" using b(3) by (simp add: t)
  have F: "region buf (unat n) \<inter> (table_bytes root (mem s) \<union> X) = {}" using h W unfolding held_def by blast
  show "held B own root X W I r t"
    by (rule held_write [OF h F]) (use b in \<open>auto simp: t intro!: store_outside_le\<close>)
qed

lemma held_position:
  assumes h: "held B own root X W I r s" and fok: "file_ok B own pos f data" "pos (fw s) \<noteq> None"
    and run: "fwcall (\<lambda>w. File_SetPosition B w f k) s = Inr (x, t)"
  shows "held B own root X W I r t" and "mem t = mem s" and "pos (fw t) = Some (unat k)"
proof -
  have t: "mem t = mem s" "fw t = snd (File_SetPosition B (fw s) f k)" using run by (auto simp: fwcall_def split: prod.splits)
  then show "mem t = mem s" "pos (fw t) = Some (unat k)" using file_ok_position(1) [OF fok] by simp_all
  show "held B own root X W I r t" by (rule held_fw [OF h]) (simp_all add: t file_ok_position(2) [OF fok])
qed

lemma held_fs_read:
  assumes h: "held B own root X W I r s" and fok: "file_ok B own pos f data" "pos (fw s) \<noteq> None" and W: "region buf (unat n) \<subseteq> W"
    and run: "fs_read B f n 0 buf s = Inr (x, t)"
  shows "held B own root X W I r t" and "mem t = store_bytes (mem s) buf (take (unat n) data)" and "pos (fw t) = Some 0"
proof -
  obtain y s1 z s2 v where r1: "fwcall (\<lambda>w. File_SetPosition B w f 0) s = Inr (y, s1)"
    and r2: "file_read B f n buf s1 = Inr (z, s2)" and r3: "fwcall (\<lambda>w. File_SetPosition B w f 0) s2 = Inr (v, t)"
    using run by (auto simp: fs_read_def EFIERR_Inr elim!: andthen_InrE)
  note h1 = held_position [OF h fok r1]
  note h2 = held_file_read [OF h1(1) fok(1) h1(3) W r2]
  note h3 = held_position [OF h2(1) fok(1) h2(3) r3]
  show "held B own root X W I r t" by (rule h3)
  show "mem t = store_bytes (mem s) buf (take (unat n) data)" "pos (fw t) = Some 0" using h1 h2 h3 by simp_all
qed

lemma rd64_shift:
  assumes "\<And>i. i < 8 \<Longrightarrow> m (a + of_nat i) = m' (b + of_nat i)"
  shows "rd64 m a = rd64 m' b"
proof -
  have "load_bytes m a 8 = load_bytes m' b 8" using assms by (intro nth_equalityI) simp_all
  then show ?thesis by (simp add: rd64_def)
qed

lemma read_ehdr_cong:
  assumes "\<And>j. j < 64 \<Longrightarrow> m (a + of_nat j) = m' (b + of_nat j)"
  shows "read_ehdr m a = read_ehdr m' b"
proof -
  have l: "load_bytes m (a + of_nat k) n = load_bytes m' (b + of_nat k) n" if "k + n \<le> 64" for k n
    using assms [of "k + _"] that by (intro nth_equalityI) (simp_all add: add.assoc flip: of_nat_add)
  show ?thesis
    using l [of 0 16] l [of 16 2] l [of 18 2] l [of 20 4] l [of 24 8] l [of 32 8] l [of 40 8] l [of 48 4] l [of 52 2]
      l [of 54 2] l [of 56 2] l [of 58 2] l [of 60 2] l [of 62 2]
    by (simp add: read_ehdr_def rd16_def rd32_def rd64_def)
qed

lemma keeps_efi_panic: "keeps Q (efi_panic B msg)"
  by (simp add: keeps_def efi_panic_run)

lemma fs_open_held:
  assumes h: "held B own root X W I r s" and sv: "services_keep B own" and run: "fs_open B G path s = Inr ((status, f), t)"
  shows "held B own root X W I r t"
proof -
  have "keeps (held B own root X W I r) (fs_open B G path)"
    unfolding fs_open_def
    by (intro keeps_andthen keeps_prod keeps_basic keeps_if keeps_EFIERR keeps_or_undefined keeps_efi_panic keeps_held_fwcall services_keepD [OF sv])
  then show ?thesis using run h by (rule keepsD)
qed

lemma file_info_held:
  assumes h: "held B own root X W I r s" and sv: "services_keep B own" and pool: "pool_ok B own" and inf: "file_info_ok B pos f len n"
    and fok: "file_ok B own pos f data" "pos (fw s) \<noteq> None" and run: "fs_get_file_info B f s = Inr (finfo, t)"
  shows "held B own root X (W \<union> region finfo (unat len)) I r t" and "FileSize (mem t) finfo = of_nat n"
    and "region finfo (unat len) \<inter> own (fw s) = {}" and "pos (fw t) \<noteq> None"
proof -
  obtain st1 l1 b1 w1 where g: "File_GetInfo (BS B) (fw s) f 1 = ((st1, l1, b1), w1)" by (metis surj_pair)
  moreover from this have "l1 = len" and p1: "pos w1 \<noteq> None" using inf fok(2) unfolding file_info_ok_def by blast+
  ultimately have g1: "File_GetInfo (BS B) (fw s) f 1 = ((st1, len, b1), w1)" by simp
  obtain s1 where m: "malloc B len (s\<lparr>fw := w1\<rparr>) = Inr (finfo, s1)"
    and r: "andthen (fwcall (\<lambda>w. File_GetInfo (BS B) w f len)) (\<lambda>(status, _, bytes).
       andthen (set_mem (\<lambda>m. store_bytes m finfo bytes)) (\<lambda>_. ret finfo)) s1 = Inr (finfo, t)"
    using run by (auto simp: fs_get_file_info_def fwcall_def g1 andthen_Inr efi_panic_run elim!: andthen_InrE split: if_splits prod.splits)
  obtain st2 l2 bytes w2 where g2: "File_GetInfo (BS B) (fw s1) f len = ((st2, l2, bytes), w2)" by (metis surj_pair)
  have p2: "pos (fw s1) \<noteq> None"
    using malloc_still_open [OF fok(1) _ m] p1 by simp
  have t: "t = s1\<lparr>fw := w2, mem := store_bytes (mem s1) finfo bytes\<rparr>" using r by (simp add: fwcall_def g2 andthen_Inr)
  have own1: "own (fw s) \<subseteq> own w1" using services_keepD(12) [OF sv, of "fw s" f 1] by (simp add: g1)
  then have "held B own root X W I r (s\<lparr>fw := w1\<rparr>)" by (intro held_fw [OF h]) simp_all
  note a = held_malloc [OF this pool m]
  show "region finfo (unat len) \<inter> own (fw s) = {}" using a(3) own1 by auto
  have b: "length bytes \<le> unat len" "16 \<le> length bytes" "FileSize (data_mem bytes) 0 = of_nat n" "16 \<le> unat len"
    using inf g2 p2 unfolding file_info_ok_def by blast+
  show "pos (fw t) \<noteq> None" using inf g2 p2 unfolding file_info_ok_def t by simp
  have own2: "own (fw s1) \<subseteq> own w2" using services_keepD(12) [OF sv, of "fw s1" f len] by (simp add: g2)
  show "held B own root X (W \<union> region finfo (unat len)) I r t"
  proof (rule held_write [OF a(1)])
    have XW: "X \<union> W \<union> table_bytes root (mem s1) \<subseteq> own w1"
      using h own1 table_bytes_owned [of "own (fw s)" root "mem s"] unfolding held_def paging_inv_def a(2) by auto
    then show "region finfo (unat len) \<inter> (table_bytes root (mem s1) \<union> X) = {}" using a(3) by auto
  qed (use own2 b in \<open>auto simp: t intro!: store_outside_le\<close>)
  have lt: "length bytes < 2 ^ 64" using b(1) unat_lt64 [of len] by simp
  have "rd64 (mem t) (finfo + 8) = rd64 (data_mem bytes) (0 + 8)"
  proof (rule rd64_shift)
    fix i :: nat assume i: "i < 8"
    have "store_bytes (mem s1) finfo bytes (finfo + of_nat (8 + i)) = bytes ! (8 + i)"
      using i b(2) lt by (intro store_inside) simp_all
    moreover have "data_mem bytes (of_nat (8 + i)) = bytes ! (8 + i)"
      using i b(2) lt by (simp add: data_mem_def unat_of_nat64 del: of_nat_add)
    ultimately show "mem t (finfo + 8 + of_nat i) = data_mem bytes (0 + 8 + of_nat i)" by (simp add: t add.assoc)
  qed
  then show "FileSize (mem t) finfo = of_nat n" using b(3) by (simp add: FileSize_def)
qed

lemma kernel_read_run:
  assumes "kernel_read B G V s = Inr ((f, finfo, copy), t)"
  obtains st1 s1 s2 s3 s4 x where "fs_open B G (kernel_text V) s = Inr ((st1, f), s1)" and "fs_get_file_info B f s1 = Inr (finfo, s2)"
    and "malloc B (FileSize (mem s2) finfo) s2 = Inr (copy, s3)" and "fs_read B f (FileSize (mem s3) finfo) 0 copy s3 = Inr ((), s4)"
    and "file_read B f 64 (header_local G) s4 = Inr (x, t)"
  using assms by (auto simp: kernel_read_def loader_parse_header_def EFIERR_Inr elim!: andthen_InrE)

lemma kernel_read_held:
  fixes s :: "('w, 'z) machine_scheme"
  assumes h: "held B own root {} (region (header_local G) 64) {} s s" and sv: "services_keep B own" and pool: "pool_ok B own"
    and op: "fs_open B G (kernel_text V) s = Inr ((ost, g), v)" "pos (fw v) \<noteq> None" and fok: "file_ok B own pos g data"
    and inf: "file_info_ok B pos g len (length data)" and dl: "64 \<le> length data" "length data < 2 ^ 64"
    and run: "kernel_read B G V s = Inr ((f, finfo, copy), t)"
  shows "f = g" and "pos (fw t) \<noteq> None"
    and "held B own root (region copy (length data) \<union> region (finfo + 8) 8) {} {} t t"
    and "FileSize (mem t) finfo = of_nat (length data)" and "\<forall>i < length data. mem t (copy + of_nat i) = data ! i"
    and "read_ehdr (mem t) (header_local G) = read_ehdr (data_mem data) 0"
proof -
  let ?H = "region (header_local G) 64"
  obtain st1 s1 s2 s3 s4 x where r1: "fs_open B G (kernel_text V) s = Inr ((st1, f), s1)" and r2: "fs_get_file_info B f s1 = Inr (finfo, s2)"
    and r3: "malloc B (FileSize (mem s2) finfo) s2 = Inr (copy, s3)" and r4: "fs_read B f (FileSize (mem s3) finfo) 0 copy s3 = Inr ((), s4)"
    and r5: "file_read B f 64 (header_local G) s4 = Inr (x, t)"
    using run by (rule kernel_read_run)
  show f: "f = g" using r1 op(1) by simp
  have v: "s1 = v" using r1 op(1) by simp
  note fok = fok [folded f] and inf = inf [folded f]
  note o = fs_open_held [OF h sv r1]
  note i = file_info_held [OF o sv pool inf fok op(2) [folded v] r2]
  note m = held_malloc [OF i(1) pool r3]
  have u: "unat (FileSize (mem s2) finfo) = length data" using i(2) dl(2) by (simp add: unat_of_nat64)
  let ?C = "region copy (length data)" and ?I = "region finfo (unat len)"
  note m = m [unfolded u]
  have rr: "region copy (unat (FileSize (mem s3) finfo)) \<subseteq> {} \<union> ?H \<union> ?I \<union> ?C" by (simp add: m(2) u)
  have h3: "held B own root {} ({} \<union> ?H \<union> ?I \<union> ?C) {} s s3" using m(1) by simp
  have p3: "pos (fw s3) \<noteq> None"
    using malloc_still_open [OF fok i(4) r3] .
  note c = held_fs_read [OF h3 fok p3 rr r4, unfolded m(2) u, simplified]
  have hh: "region (header_local G) (unat (64 :: u64)) \<subseteq> ?H \<union> ?I \<union> ?C" by auto
  have h4: "held B own root {} (?H \<union> ?I \<union> ?C) {} s s4" using c(1) by (simp add: Un_assoc)
  note e = held_file_read [OF h4 fok c(3) hh r5, simplified]
  show "pos (fw t) \<noteq> None" using e(3) by simp
  have HI: "?H \<inter> ?I = {}" using i(3) o by (auto simp: held_def)
  have HC: "(?H \<union> ?I) \<inter> ?C = {}" using m(3) i(1) by (auto simp: held_def)
  have I8: "region (finfo + 8) 8 \<subseteq> ?I" using subregion [of 8 8 "unat len" finfo] inf by (simp add: file_info_ok_def)
  have lenH: "length (take 64 data) = 64" using dl(1) by simp
  have outH: "mem t y = mem s4 y" if "y \<notin> ?H" for y unfolding e(2) by (rule store_outside) (use that lenH in simp)
  have outC: "mem s4 y = mem s2 y" if "y \<notin> ?C" for y using that by (simp add: c(2) store_outside)
  show "FileSize (mem t) finfo = of_nat (length data)"
  proof -
    have "mem t y = mem s2 y" if "y \<in> region (finfo + 8) 8" for y
    proof -
      have "y \<notin> ?H" "y \<notin> ?C" using that I8 HI HC by blast+
      then show ?thesis using outH [of y] outC [of y] by simp
    qed
    then have "FileSize (mem t) finfo = FileSize (mem s2) finfo" unfolding FileSize_def by (rule c64.rd_cong)
    then show ?thesis by (simp add: i(2))
  qed
  show "\<forall>i < length data. mem t (copy + of_nat i) = data ! i"
  proof (intro allI impI)
    fix k assume k: "k < length data"
    then have "copy + of_nat k \<notin> ?H" using HC in_region [OF k, of copy] by auto
    then show "mem t (copy + of_nat k) = data ! k" using k dl(2) by (simp add: outH c(2) store_inside)
  qed
  show "read_ehdr (mem t) (header_local G) = read_ehdr (data_mem data) 0"
  proof (rule read_ehdr_cong)
    fix j :: nat assume j: "j < 64"
    have "mem t (header_local G + of_nat j) = take 64 data ! j"
      unfolding e(2) by (rule store_inside) (use j lenH in simp_all)
    then show "mem t (header_local G + of_nat j) = data_mem data (0 + of_nat j)"
      using j dl by (simp add: data_mem_def unat_of_nat64)
  qed
  show "held B own root (?C \<union> region (finfo + 8) 8) {} {} t t"
    by (rule held_rebase [OF e(1)]) (use e(1) I8 in \<open>auto simp: held_def\<close>)
qed

section \<open>Only the last step jumps\<close>

definition no_jump :: "('w, 'z, 'a) run \<Rightarrow> bool" where
  "no_jump m \<longleftrightarrow> (\<forall>s i e p t. m s \<noteq> Inl (Jumped i e p, t))"

named_theorems no_jump_intros "steps that do not end in the kernel"

lemma no_jump_andthen [no_jump_intros]: "no_jump m \<Longrightarrow> (\<And>x. no_jump (f x)) \<Longrightarrow> no_jump (andthen m f)"
  by (auto simp: no_jump_def andthen_def split: sum.splits prod.splits)

lemma no_jump_branch [no_jump_intros]:
  "no_jump m \<Longrightarrow> no_jump k \<Longrightarrow> no_jump (if b then m else k)"
  "(\<And>x y. no_jump (f x y)) \<Longrightarrow> no_jump (case p of (x, y) \<Rightarrow> f x y)"
  "no_jump m \<Longrightarrow> (\<And>x. no_jump (g x)) \<Longrightarrow> no_jump (case q of None \<Rightarrow> m | Some x \<Rightarrow> g x)"
  by (simp_all split: prod.split option.split)

lemma no_jump_basic [no_jump_intros]:
  "no_jump (ret x)" "no_jump (gets g)" "no_jump (modify u)" "no_jump (set_mem v)" "no_jump (fwcall c)"
  "no_jump (or_undefined y)" "no_jump (EFIERR B src line status)" "no_jump (efi_panic B msg)" "no_jump (stop Undefined)"
  by (auto simp: no_jump_def ret_def stop_def gets_def modify_def fwcall_def or_undefined_def EFIERR_def efi_panic_def efi_exit_def andthen_def
      split: prod.splits option.splits if_splits)

lemma no_jump_for_from [no_jump_intros]: "(\<And>k. no_jump (body k)) \<Longrightarrow> no_jump (for_from i n body)"
  by (induction n arbitrary: i) (auto intro!: no_jump_intros)

lemma no_jump_paging [no_jump_intros]:
  "no_jump (uefi_alloc_pages B n)" "no_jump (loader_paging_setup B)" "no_jump (paging_next B e)"
  "no_jump (loader_paging_map B root p v f)" "no_jump (loader_paging_map_addr B root start len f)"
  by (auto simp: uefi_alloc_pages_def loader_paging_setup_def paging_next_def loader_paging_map_def loader_paging_map_addr_def Let_def
      intro!: no_jump_intros)

lemma no_jump_file [no_jump_intros]:
  "no_jump (malloc B n)" "no_jump (free B p)" "no_jump (file_read B f n buf)" "no_jump (fs_read B f n k buf)"
  "no_jump (loader_parse_header B f p)" "no_jump (loader_parse_phdrs B f eh)" "no_jump (fs_open B G path)" "no_jump (fs_get_file_info B f)"
  by (auto simp: malloc_def free_def file_read_def fs_read_def loader_parse_header_def loader_parse_phdrs_def fs_open_def fs_get_file_info_def Let_def
      intro!: no_jump_intros)

lemma no_jump_phdrs [no_jump_intros]: "no_jump (loader_kernel_phdrs B f eh root)"
proof -
  have seg: "no_jump (load_segment B f root ph)" for ph
    by (auto simp: load_segment_def efi_print_def efi_printn_def Let_def intro!: no_jump_intros)
  have l: "no_jump (phdr_loop n B f eh root phdrs ph)" for n phdrs ph
    by (induction n arbitrary: ph) (auto intro!: no_jump_intros seg)
  show ?thesis unfolding loader_kernel_phdrs_def by (intro no_jump_intros l)
qed

lemma no_jump_boot [no_jump_intros]:
  "no_jump (framebuffer_get B info root)" "no_jump (efi_get_image B info)" "no_jump (efi_get_rsdp B info)"
  "no_jump (efi_get_memory_map B G info root)" "no_jump (map_loader B root info)" "no_jump (map_stack B root stack)"
  "no_jump (kernel_info B G status root finfo copy)" "no_jump (kernel_read B G V)" "no_jump (elf_header_check B eh)"
proof -
  have g: "no_jump (gop_loop B hs)" for hs by (induction hs) (simp_all only: gop_loop.simps no_jump_intros)
  have m: "no_jump (mode_loop B gop n i max_w max_h selection)" for gop n i max_w max_h selection
    by (induction n arbitrary: i max_w max_h selection) (auto simp: Let_def intro!: no_jump_intros)
  have i: "no_jump (info_set p f v)" for p f v by (simp add: info_set_def no_jump_intros)
  have s: "no_jump (map_stack B root stack)" for stack by (simp add: map_stack_def no_jump_intros)
  then show "no_jump (map_stack B root stack)" .
  show "no_jump (framebuffer_get B info root)"
    unfolding framebuffer_get_def efi_gop_get_def framebuffer_setup_def Let_def by (intro no_jump_intros g m i)
  show "no_jump (efi_get_image B info)" "no_jump (efi_get_rsdp B info)" "no_jump (map_loader B root info)"
    unfolding efi_get_image_def efi_get_rsdp_def map_loader_def Let_def by (intro no_jump_intros i)+
  show "no_jump (efi_get_memory_map B G info root)"
    unfolding efi_get_memory_map_def memory_map_leave_def Let_def by (intro no_jump_intros i)
  show "no_jump (kernel_info B G status root finfo copy)"
    unfolding kernel_info_def by (intro no_jump_intros i s)
  show "no_jump (kernel_read B G V)" unfolding kernel_read_def by (intro no_jump_intros)
  show "no_jump (elf_header_check B eh)" unfolding elf_header_check_def by (intro no_jump_intros)
qed

lemma andthen_JumpedE:
  assumes "andthen m f s = Inl (Jumped i e p, t)" and "no_jump m"
  obtains x s' where "m s = Inr (x, s')" and "f x s' = Inl (Jumped i e p, t)"
  using assms by (auto simp: no_jump_def andthen_def split: sum.splits prod.splits)

section \<open>From the segments to the jump\<close>

text \<open>The image of the loader: \<open>sz\<close> bytes at \<open>base\<close>, in the lower half.\<close>

definition image_at :: "'w env \<Rightarrow> globals \<Rightarrow> addr \<Rightarrow> u64 \<Rightarrow> bool" where
  "image_at B G base sz \<longleftrightarrow> aligned 12 base \<and> unat base + unat sz + 4096 \<le> 2 ^ 47 \<and>
     (\<forall>w status img w'. HandleProtocol (HND B) w (handle G) LoadedImageProtocol = ((status, img), w') \<longrightarrow>
        (\<forall>u. ImageBase (SYS B) u img = base \<and> ImageSize (SYS B) u img = sz))"

lemma map_loader_held:
  fixes c :: "('w, 'z) machine_scheme"
  assumes h: "held B own root X W I a c" and im: "aligned 12 base" "unat base + unat sz + 4096 \<le> 2 ^ 47"
    and W: "region (info + info_offset Loaded_image) 8 \<subseteq> W"
    and at: "\<And>u. ImageBase (SYS B) u (info_get (mem c) info Loaded_image) = base" "\<And>u. ImageSize (SYS B) u (info_get (mem c) info Loaded_image) = sz"
    and run: "map_loader B root info c = Inr (x, t)"
  shows "held B own root X W (I \<union> region base (unat sz)) a t"
proof -
  let ?n = "(unat sz + 4095) div 4096" and ?b = "unat base div 4096"
  have "4096 * ?n \<le> unat sz + 4095" by (rule times_div_less_eq_dividend)
  then have lim: "unat base + 4096 * ?n \<le> 2 ^ 47" using im(2) by simp
  have sz: "unat sz < 2 ^ 47" using im(2) by simp
  let ?img = "\<lambda>s. info_get (mem s) info Loaded_image" and ?L = "region (info + info_offset Loaded_image) 8"
  let ?body = "\<lambda>b i. loader_paging_map B root (b + push_bit 12 (of_nat i)) (b + push_bit 12 (of_nat i)) (PAGE_PRESENT OR PAGE_WRITE) :: ('w, 'z, unit) run"
  have hL: "held B own root ?L {} {} c c" using h W by (auto simp: held_def)
  have img: "?img s = ?img c" if "held B own root ?L {} {} c s" for s
    by (rule info_get_cong) (rule held_mem [OF that])
  have "for_from 0 ?n (\<lambda>i. andthen (gets (\<lambda>s. ImageBase (SYS B) (fw s) (?img s))) (\<lambda>b. ?body b i)) c = for_from 0 ?n (?body base) c"
  proof (rule for_from_same [where Q = "held B own root ?L {} {} c", OF hL])
    fix i and s :: "('w, 'z) machine_scheme" assume "i < 0 + ?n" and s: "held B own root ?L {} {} c s"
    show "andthen (gets (\<lambda>s. ImageBase (SYS B) (fw s) (?img s))) (\<lambda>b. ?body b i) s = ?body base i s" by (simp add: img [OF s] at)
  next
    fix i assume i: "i < 0 + ?n"
    then have low: "unat (base + push_bit 12 (of_nat i)) < 2 ^ 47" using lim by (subst unat_page_step) simp_all
    show "keeps (held B own root ?L {} {} c) (?body base i)"
      by (rule keepsI) (rule held_subset [OF held_map [OF _ low page_flags(1)]], auto)
  qed
  moreover have "for_from 0 ?n (\<lambda>i. andthen (gets (\<lambda>s. ImageBase (SYS B) (fw s) (?img s))) (\<lambda>b. ?body b i)) c = Inr (x, t)"
    using run unfolding map_loader_def andthen_gets at Let_def round_up_pages [OF sz] .
  ultimately have "for_from 0 ?n (?body base) c = Inr (x, t)" by simp
  from held_map_range [OF h lim page_flags(1) this]
  show ?thesis
  proof (rule held_subset)
    have "region base (unat sz) = {v. unat base \<le> unat v \<and> unat v < unat base + unat sz}"
      using im(2) by (intro region_below) simp
    moreover have "unat v div 4096 < ?b + ?n" if "unat v < unat base + unat sz" for v :: addr
    proof -
      have "unat base = 4096 * ?b" using im(1) by (auto simp: aligned_def)
      moreover have "unat sz \<le> 4096 * ?n" by simp
      ultimately have "unat v < 4096 * (?b + ?n)" using that by (simp add: distrib_left)
      then show ?thesis by (simp add: div_less_iff_less_mult mult.commute)
    qed
    ultimately show "I \<union> region base (unat sz) \<subseteq> I \<union> {u. ?b \<le> unat u div 4096 \<and> unat u div 4096 < ?b + ?n}"
      by (auto simp: div_le_mono)
  qed
qed

lemma tail_held:
  fixes a :: "('w, 'z) machine_scheme"
  assumes h: "held B own root X (late_fields info) I a a" and X: "region info 16 \<subseteq> X" "info_get (mem a) info Handle = handle G"
    and sv: "services_keep B own" and low: "low_memory B" and fits: "map_fits B" and im: "image_at B G base sz"
    and r1: "framebuffer_get B info root a = Inr (x1, b)" and r2: "efi_get_image B info b = Inr (x2, c)"
    and r3: "map_loader B root info c = Inr (x3, d)" and r4: "efi_get_rsdp B info d = Inr (x4, e)"
    and r5: "efi_get_memory_map B G info root e = Inr (x5, t)"
  shows "held B own root X (late_fields info) (I \<union> region base (unat sz)) a t"
proof -
  have hb: "held B own root X (late_fields info) I a b" using framebuffer_held [OF sv low subset_refl] r1 h by (rule keepsD)
  have hc: "held B own root X (late_fields info) I a c" using image_held [OF sv subset_refl] r2 hb by (rule keepsD)
  have hnd: "info_get (mem b) info Handle = handle G"
  proof -
    have "region (info + info_offset Handle) 8 \<subseteq> X" using X(1) region_mono [of 8 16 info] by (simp add: info_offset.simps)
    then show ?thesis unfolding X(2) [symmetric] by (intro info_get_cong held_mem [OF hb]) blast
  qed
  obtain status img w where hp: "HandleProtocol (HND B) (fw b) (handle G) LoadedImageProtocol = ((status, img), w)" by (metis surj_pair)
  have "info_get (mem c) info Loaded_image = img"
    using r2 by (auto simp: efi_get_image_def hnd fwcall_def hp andthen_Inr EFIERR_Inr info_get_set elim!: andthen_InrE)
  then have at: "ImageBase (SYS B) u (info_get (mem c) info Loaded_image) = base" "ImageSize (SYS B) u (info_get (mem c) info Loaded_image) = sz" for u
    using im hp unfolding image_at_def by blast+
  have "aligned 12 base" "unat base + unat sz + 4096 \<le> 2 ^ 47" using im by (simp_all add: image_at_def)
  note hd = map_loader_held [OF hc this late_field at r3, simplified]
  have "held B own root X (late_fields info) (I \<union> region base (unat sz)) a e" using rsdp_held [OF subset_refl] r4 hd by (rule keepsD)
  with memory_map_held [OF sv low fits subset_refl] r5 show ?thesis by (rule keepsD)
qed

text \<open>The kernel lives in the upper half, and not where its stack goes.\<close>

definition placed_high :: "u8 list \<Rightarrow> elf64_ehdr \<Rightarrow> bool" where
  "placed_high data eh \<longleftrightarrow> (\<forall>k < unat (e_phnum eh). loadable data eh k \<longrightarrow>
     (\<forall>i < seg_pages (phdr_in data eh k). high (seg_page (phdr_in data eh k) i) \<and> table_index 39 (seg_page (phdr_in data eh k) i) \<noteq> stack_slot))"

lemma placed_addr:
  assumes "placed_high data eh" and "kernel_ok data eh" and k: "k < unat (e_phnum eh)" "loadable data eh k"
    and i: "i < unat (p_memsz (phdr_in data eh k))"
  shows "high (p_vaddr (phdr_in data eh k) + of_nat i)" and "table_index 39 (p_vaddr (phdr_in data eh k) + of_nat i) \<noteq> stack_slot"
proof -
  let ?ph = "phdr_in data eh k"
  have ok: "seg_ok data ?ph" using assms(2) k by (simp add: kernel_ok_def)
  note sa = seg_addr [OF ok i]
  have "table_index 39 (p_vaddr ?ph + of_nat i) = table_index 39 (seg_page ?ph (i div 4096))" using sa(2) by (simp add: indices_def)
  then show "high (p_vaddr ?ph + of_nat i)" "table_index 39 (p_vaddr ?ph + of_nat i) \<noteq> stack_slot"
    using assms(1) k sa(1) by (auto simp: placed_high_def high_def)
qed

lemma loader_kernel_stages:
  fixes s :: "('w, 'z) machine_scheme"
  assumes "loader_kernel B G V s = Inl (Jumped info entry root, t)"
  obtains s1 f finfo copy s2 status s3 close s4 a x1 b x2 c x3 d x4 e x5 where
    "loader_paging_setup B s = Inr (root, s1)" and "kernel_read B G V s1 = Inr ((f, finfo, copy), s2)"
    and "elf_header_check B (read_ehdr (mem s2) (header_local G)) s2 = Inr (status, s2)"
    and "loader_kernel_phdrs B f (read_ehdr (mem s2) (header_local G)) root s2 = Inr ((), s3)"
    and "fwcall (\<lambda>w. File_Close (VOL B) w f) s3 = Inr (close, s4)"
    and "kernel_info B G close root finfo copy s4 = Inr (info, a)"
    and "framebuffer_get B info root a = Inr (x1, b)" and "efi_get_image B info b = Inr (x2, c)"
    and "map_loader B root info c = Inr (x3, d)" and "efi_get_rsdp B info d = Inr (x4, e)"
    and "efi_get_memory_map B G info root e = Inr (x5, t)"
    and "entry = e_entry (read_ehdr (mem s2) (header_local G))"
proof -
  have ehc: "u = s2" if "elf_header_check B eh s2 = Inr (status, u)" for eh s2 status and u :: "('w, 'z) machine_scheme"
    using that by (auto simp: elf_header_check_def efi_panic_run split: if_splits)
  from assms show thesis
    unfolding loader_kernel_def elf_jump_to_kernel_def
    by ((elim andthen_JumpedE; (intro no_jump_intros)?), clarsimp simp: stop_def EFIERR_Inr split: prod.splits,
        (elim andthen_JumpedE; (intro no_jump_intros)?),
        auto simp: stop_def EFIERR_Inr efi_panic_run split: if_splits dest: ehc intro!: that)
qed

section \<open>What the kernel finds\<close>

text \<open>Everything that is relied on from the firmware between the first page table and the jump, apart from the kernel's file.\<close>

definition boot_firmware_ok :: "'w env \<Rightarrow> ('w \<Rightarrow> addr set) \<Rightarrow> ('w \<Rightarrow> addr \<Rightarrow> nat \<Rightarrow> bool) \<Rightarrow> bool" where
  "boot_firmware_ok B own block \<longleftrightarrow>
     alloc_ok B own \<and> pool_ok B own \<and> blocks_ok B own block \<and> services_keep B own \<and> low_memory B \<and> map_fits B"

text \<open>
  The part of \<^verbatim>\<open>loader_kernel\<close> up to the open kernel, the name under which it is opened, and what the loader relies on from that
  file: from the moment it is open on, its reads give the bytes of \<open>data\<close>. Other files, and what the same name stood for at other times, do not matter.
\<close>

definition kernel_opening :: "'w env \<Rightarrow> globals \<Rightarrow> literals \<Rightarrow> ('w, 'z, efi_status \<times> addr) run" where
  "kernel_opening B G V = andthen (loader_paging_setup B) (\<lambda>_. fs_open B G (kernel_text V))"

definition kernel_name :: "u16 list" where
  "kernel_name = [0x6B, 0x65, 0x72, 0x6E, 0x65, 0x6C]"

text \<open>The loader's image holds that name as a string, in memory that nobody else is given; and the file was opened by it.\<close>

definition kernel_literal :: "('w \<Rightarrow> addr set) \<Rightarrow> literals \<Rightarrow> ('w, 'z) machine_scheme \<Rightarrow> bool" where
  "kernel_literal own V s \<longleftrightarrow> wide_at (mem s) (kernel_text V) kernel_name \<and> region (kernel_text V) 14 \<subseteq> own (fw s)"

definition opened_by_name :: "'w env \<Rightarrow> globals \<Rightarrow> literals \<Rightarrow> ('w, 'z) machine_scheme \<Rightarrow> bool" where
  "opened_by_name B G V s \<longleftrightarrow>
     (\<exists>status f v w dir. kernel_opening B G V s = Inr ((status, f), v) \<and>
        File_Open (VOL B) w dir kernel_name MODE_READ = ((EFI_SUCCESS, f), fw v))"

definition kernel_file :: "'w env \<Rightarrow> ('w \<Rightarrow> addr set) \<Rightarrow> ('w \<Rightarrow> nat option) \<Rightarrow> u64 \<Rightarrow> globals \<Rightarrow> literals \<Rightarrow> u8 list \<Rightarrow>
    ('w, 'z) machine_scheme \<Rightarrow> bool" where
  "kernel_file B own pos len G V data s \<longleftrightarrow>
     (\<exists>status f v. kernel_opening B G V s = Inr ((status, f), v) \<and> pos (fw v) \<noteq> None \<and>
        file_ok B own pos f data \<and> file_info_ok B pos f len (length data))"

lemma fs_open_name:
  assumes "fs_open B G path s = Inr ((status, f), t)" and "wide_at (mem s) path us" and "0 \<notin> set us" and "length us < 2 ^ 64"
  shows "\<exists>w dir. File_Open (VOL B) w dir us MODE_READ = ((EFI_SUCCESS, f), fw t)"
proof -
  have n: "efi_strlen (mem s) path = Some (of_nat (length us))" using assms(2,3) by (rule efi_strlen_wide)
  have u: "map (\<lambda>i. rd16 (mem s) (path + 2 * of_nat i)) [0..<unat (of_nat (length us) :: u64)] = us"
    using wide_units [OF assms(2)] assms(4) by (simp add: unat_of_nat64)
  show ?thesis using assms(1) unfolding fs_open_def
    by (auto simp: fwcall_def EFIERR_Inr n or_undefined_def u efi_panic_run elim!: andthen_InrE split: prod.splits if_splits) blast
qed

lemma kernel_name_kept:
  assumes ao: "alloc_ok B own" and lit: "kernel_literal own V s" and run: "loader_paging_setup B s = Inr (root, t)"
  shows "wide_at (mem t) (kernel_text V) kernel_name"
proof -
  have "mem t x = mem s x" if "x \<in> region (kernel_text V) 14" for x
    using loader_paging_setup_inv(7) [OF ao run] lit that by (auto simp: kernel_literal_def)
  moreover have "region (kernel_text V + of_nat (2 * i)) 2 \<subseteq> region (kernel_text V) 14" if "i < 7" for i :: nat
    using subregion [of "2 * i" 2 14 "kernel_text V"] that by simp
  ultimately have r: "rd16 (mem t) (kernel_text V + 2 * of_nat i) = rd16 (mem s) (kernel_text V + 2 * of_nat i)" if "i < 7" for i
    using that by (intro c16.rd_cong) (auto simp: subset_iff)
  have "length kernel_name = 6" by (simp add: kernel_name_def)
  then show ?thesis using lit r [of 6] r by (simp add: kernel_literal_def wide_at_def)
qed

lemma kernel_opened_by_name:
  assumes ao: "alloc_ok B own" and lit: "kernel_literal own V s" and run: "kernel_opening B G V s = Inr ((status, f), t)"
  shows "opened_by_name B G V s"
proof -
  obtain root u where u: "loader_paging_setup B s = Inr (root, u)" "fs_open B G (kernel_text V) u = Inr ((status, f), t)"
    using run unfolding kernel_opening_def by (rule andthen_InrE)
  have "\<exists>w dir. File_Open (VOL B) w dir kernel_name MODE_READ = ((EFI_SUCCESS, f), fw t)"
    using u(2) kernel_name_kept [OF ao lit u(1)] by (rule fs_open_name) (simp_all add: kernel_name_def)
  then show ?thesis using run by (auto simp: opened_by_name_def)
qed

text \<open>
  The header of a kernel file, and what the loader hands over: the segments, the stack and the information, which the kernel finds through the
  page tables, and the copy of the file. The copy lies in pool memory that the loader maps nowhere; the information holds its physical address.
\<close>

definition file_header :: "u8 list \<Rightarrow> elf64_ehdr" where
  "file_header data = read_ehdr (data_mem data) 0"

definition segments_ready :: "u8 list \<Rightarrow> mem \<Rightarrow> addr \<Rightarrow> bool" where
  "segments_ready data m root \<longleftrightarrow>
     (\<forall>k < unat (e_phnum (file_header data)). loadable data (file_header data) k \<longrightarrow>
        (\<forall>i < unat (p_memsz (phdr_in data (file_header data) k)).
           \<exists>a. translate m root (p_vaddr (phdr_in data (file_header data) k) + of_nat i) = Some a \<and>
               m a = segment_byte data (phdr_in data (file_header data) k) i))"

definition stack_ready :: "mem \<Rightarrow> addr \<Rightarrow> addr \<Rightarrow> bool" where
  "stack_ready m root info \<longleftrightarrow>
     (\<exists>stack. (\<forall>i < unat STACK_SIZE. translate m root (STACK + of_nat i) = Some (stack + of_nat i)) \<and>
        rd64 m (stack + STACK_SIZE - 32) = info)"

definition info_ready :: "globals \<Rightarrow> mem \<Rightarrow> addr \<Rightarrow> addr \<Rightarrow> bool" where
  "info_ready G m root info \<longleftrightarrow>
     (\<forall>v \<in> region info (unat sizeof_info). translate m root v = Some v) \<and>
     info_get m info St = st G \<and> info_get m info Handle = handle G"

definition copy_in_memory :: "u8 list \<Rightarrow> mem \<Rightarrow> addr \<Rightarrow> bool" where
  "copy_in_memory data m info \<longleftrightarrow>
     info_get m info Copy_size = of_nat (length data) \<and> (\<forall>i < length data. m (info_get m info Copy + of_nat i) = data ! i)"

lemma elf_checked: "elf_header_check B (read_ehdr m p) s = Inr r \<Longrightarrow> elf_accepted (read_ehdr m p)"
proof (rule ccontr)
  assume run: "elf_header_check B (read_ehdr m p) s = Inr r" and "\<not> elf_accepted (read_ehdr m p)"
  moreover have "length (e_ident (read_ehdr m p)) = 16" by (simp add: read_ehdr_def)
  ultimately obtain msg where "elf_header_check B (read_ehdr m p) s = efi_panic B msg s" using header_check_rejected by metis
  then show False using run by (simp add: efi_panic_run)
qed

text \<open>The state from which the information is gathered: the segments are loaded, and the copy of the file is in memory.\<close>

lemma kernel_loaded:
  fixes s :: "('w, 'z) machine_scheme"
  assumes fw: "boot_firmware_ok B own block" and kfile: "kernel_file B own pos len G V data s" and dl: "64 \<le> length data"
    and kok: "kernel_ok data (file_header data)" and hl: "region (header_local G) 64 \<subseteq> own (fw s)"
    and r1: "loader_paging_setup B s = Inr (root, s1)" and r2: "kernel_read B G V s1 = Inr ((f, finfo, copy), s2)"
    and r3: "loader_kernel_phdrs B f (read_ehdr (mem s2) (header_local G)) root s2 = Inr ((), s3)"
  shows "read_ehdr (mem s2) (header_local G) = file_header data"
    and "held B own root (own (fw s3) - table_bytes root (mem s3)) {} {} s3 s3"
    and "\<forall>k < unat (e_phnum (file_header data)). loadable data (file_header data) k \<longrightarrow>
      seg_loaded data (phdr_in data (file_header data) k) (own (fw s3)) root (mem s3)"
    and "region copy (length data) \<union> region (finfo + 8) 8 \<subseteq> own (fw s3) - table_bytes root (mem s3)"
    and "FileSize (mem s3) finfo = of_nat (length data)" and "\<forall>i < length data. mem s3 (copy + of_nat i) = data ! i"
proof -
  have laws: "alloc_ok B own" "pool_ok B own" "blocks_ok B own block" "services_keep B own" using fw by (simp_all add: boot_firmware_ok_def)
  obtain ost g v where op: "fs_open B G (kernel_text V) s1 = Inr ((ost, g), v)" "pos (fw v) \<noteq> None"
    and fok: "file_ok B own pos g data" "file_info_ok B pos g len (length data)"
    using kfile by (auto simp: kernel_file_def kernel_opening_def andthen_Inr r1)
  note p = loader_paging_setup_inv [OF laws(1) r1]
  have h1: "held B own root {} (region (header_local G) 64) {} s1 s1" using p(1,4,5,6) hl by (auto simp: held_def)
  have "length data < 2 ^ 64" using kok by (simp add: kernel_ok_def)
  note k = kernel_read_held [OF h1 laws(4,2) op fok dl this r2]
  show e: "read_ehdr (mem s2) (header_local G) = file_header data" using k(6) by (simp add: file_header_def)
  note q = phdrs_held [OF k(3) laws(2,3) fok(1) [folded k(1)] k(2) kok r3 [unfolded e]]
  show "\<forall>k < unat (e_phnum (file_header data)). loadable data (file_header data) k \<longrightarrow>
      seg_loaded data (phdr_in data (file_header data) k) (own (fw s3)) root (mem s3)" by (rule q(3))
  show "region copy (length data) \<union> region (finfo + 8) 8 \<subseteq> own (fw s3) - table_bytes root (mem s3)"
    using q(1) by (simp add: held_def)
  show "held B own root (own (fw s3) - table_bytes root (mem s3)) {} {} s3 s3" using q(1) by (simp add: held_def)
  have "FileSize (mem s3) finfo = FileSize (mem s2) finfo" unfolding FileSize_def by (rule c64.rd_cong) (use q(2) in blast)
  then show "FileSize (mem s3) finfo = of_nat (length data)" using k(4) by simp
  show "\<forall>i < length data. mem s3 (copy + of_nat i) = data ! i"
    using q(2) k(5) in_region [of _ "length data" copy] by simp
qed

text \<open>What was in place stays there.\<close>

lemma segments_kept:
  assumes high: "placed_high data (file_header data)" and kok: "kernel_ok data (file_header data)"
    and l: "\<forall>k < unat (e_phnum (file_header data)). loadable data (file_header data) k \<longrightarrow>
      seg_loaded data (phdr_in data (file_header data) k) U root m"
    and same: "\<And>x. x \<in> U - table_bytes root m \<Longrightarrow> m' x = m x"
    and pe: "\<And>v. high v \<Longrightarrow> table_index 39 v \<noteq> stack_slot \<Longrightarrow> page_entry m' root v = page_entry m root v"
  shows "segments_ready data m' root"
  unfolding segments_ready_def
proof (intro allI impI)
  fix k i assume k: "k < unat (e_phnum (file_header data))" "loadable data (file_header data) k"
    and i: "i < unat (p_memsz (phdr_in data (file_header data) k))"
  let ?v = "p_vaddr (phdr_in data (file_header data) k) + of_nat i"
  have "translate m' root ?v = translate m root ?v" using placed_addr [OF high kok k i] pe by (simp add: translate_def)
  moreover obtain y where "translate m root ?v = Some y" "m y = segment_byte data (phdr_in data (file_header data) k) i"
      "y \<in> U - table_bytes root m"
    using l k i unfolding seg_loaded_def by blast
  ultimately show "\<exists>y. translate m' root ?v = Some y \<and> m' y = segment_byte data (phdr_in data (file_header data) k) i"
    using same by auto
qed

lemma stack_kept:
  assumes tr: "\<forall>i < 33 * 4096. translate m root (STACK + of_nat i) = Some (stack + of_nat i)" and rd: "rd64 m (stack + STACK_SIZE - 32) = info"
    and pe: "\<And>v. high v \<Longrightarrow> page_entry m' root v = page_entry m root v" and same: "\<And>x. x \<in> region stack (33 * 4096) \<Longrightarrow> m' x = m x"
  shows "stack_ready m' root info"
proof -
  have "rd64 m' (stack + STACK_SIZE - 32) = rd64 m (stack + STACK_SIZE - 32)"
    using args_in_stack [of stack] by (intro c64.rd_cong same) blast
  moreover have "translate m' root (STACK + of_nat i) = translate m root (STACK + of_nat i)" if "i < 33 * 4096" for i
    using pe [of "STACK + of_nat i"] stack_index [OF that] by (simp add: translate_def high_def stack_slot_def)
  moreover have "unat STACK_SIZE = 33 * 4096" by (simp add: STACK_SIZE_def)
  ultimately show ?thesis unfolding stack_ready_def using tr rd by auto
qed

lemma kernel_handover:
  fixes s :: "('w, 'z) machine_scheme"
  assumes fw: "boot_firmware_ok B own block" and im: "image_at B G base sz" and lit: "kernel_literal own V s"
    and kfile: "kernel_file B own pos len G V data s"
    and dl: "64 \<le> length data" and kok: "kernel_ok data (file_header data)" and high: "placed_high data (file_header data)"
    and hl: "region (header_local G) 64 \<subseteq> own (fw s)"
    and run: "loader_kernel B G V s = Inl (Jumped info entry root, t)"
  shows "opened_by_name B G V s \<and> entry = e_entry (file_header data) \<and> elf_accepted (file_header data) \<and> segments_ready data (mem t) root \<and>
     stack_ready (mem t) root info \<and> info_ready G (mem t) root info \<and> copy_in_memory data (mem t) info \<and>
     (\<forall>v \<in> region base (unat sz). translate (mem t) root v = Some v)"
proof -
  have laws: "services_keep B own" "low_memory B" "map_fits B" using fw by (simp_all add: boot_firmware_ok_def)
  obtain s1 f finfo copy s2 status s3 close s4 a x1 b x2 c x3 d x4 e x5 where
    r1: "loader_paging_setup B s = Inr (root, s1)" and r2: "kernel_read B G V s1 = Inr ((f, finfo, copy), s2)"
    and chk: "elf_header_check B (read_ehdr (mem s2) (header_local G)) s2 = Inr (status, s2)"
    and r3: "loader_kernel_phdrs B f (read_ehdr (mem s2) (header_local G)) root s2 = Inr ((), s3)"
    and cl: "fwcall (\<lambda>w. File_Close (VOL B) w f) s3 = Inr (close, s4)"
    and r4: "kernel_info B G close root finfo copy s4 = Inr (info, a)"
    and tl: "framebuffer_get B info root a = Inr (x1, b)" "efi_get_image B info b = Inr (x2, c)"
      "map_loader B root info c = Inr (x3, d)" "efi_get_rsdp B info d = Inr (x4, e)"
      "efi_get_memory_map B G info root e = Inr (x5, t)"
    and entry: "entry = e_entry (read_ehdr (mem s2) (header_local G))"
    using run by (rule loader_kernel_stages)
  note k = kernel_loaded [OF fw kfile dl kok hl r1 r2 r3]
  let ?X = "own (fw s3) - table_bytes root (mem s3)"
  have m4: "mem s4 = mem s3" using cl by (auto simp: fwcall_def split: prod.splits)
  have h4: "held B own root ?X {} {} s4 s4"
    using keepsD [OF services_held(9) [OF laws(1)] cl k(2)] by (simp add: held_def)
  obtain stack where
    ha: "held B own root (?X \<union> region stack (33 * 4096) \<union> region info 16 \<union> region (info + 72) 16) (late_fields info) (region info 4096) a a"
    and ma: "\<forall>x \<in> ?X. mem a x = mem s4 x"
    and sa: "\<forall>i < 33 * 4096. translate (mem a) root (STACK + of_nat i) = Some (stack + of_nat i)"
      "rd64 (mem a) (stack + STACK_SIZE - 32) = info"
    and pa: "\<forall>v. high v \<longrightarrow> table_index 39 v \<noteq> stack_slot \<longrightarrow> page_entry (mem a) root v = page_entry (mem s4) root v"
    and ia: "info_get (mem a) info St = st G" "info_get (mem a) info Handle = handle G"
      "info_get (mem a) info Copy = copy" "info_get (mem a) info Copy_size = FileSize (mem s4) finfo"
    using h4 laws(2) _ r4 by (rule kernel_info_held) (use k(4) in simp)
  let ?Y = "?X \<union> region stack (33 * 4096) \<union> region info 16 \<union> region (info + 72) 16"
  have ht: "held B own root ?Y (late_fields info) (region info 4096 \<union> region base (unat sz)) a t"
    using ha _ ia(2) laws im tl by (rule tail_held) blast
  have mt: "mem t x = mem a x" if "x \<in> ?Y" for x using ht that by (rule held_mem)
  have mX: "mem t x = mem s3 x" if "x \<in> ?X" for x using mt ma that by (simp add: m4)
  have pt: "page_entry (mem t) root v = page_entry (mem a) root v" if "high v" for v using ht that by (simp add: held_def)
  have "segments_ready data (mem t) root"
    using high kok k(3) by (rule segments_kept) (use mX pt pa in \<open>auto simp: m4\<close>)
  moreover have "stack_ready (mem t) root info"
    using sa by (rule stack_kept) (use pt mt in auto)
  moreover have "info_ready G (mem t) root info" "copy_in_memory data (mem t) info"
  proof -
    have i: "info_get (mem t) info f = info_get (mem a) info f" if "f \<in> {Handle, St, Copy, Copy_size}" for f
      using early_field [OF that, of info] by (intro info_get_cong mt) blast
    have "region info (unat sizeof_info) \<subseteq> region info 4096" by (rule region_mono) (simp add: sizeof_info_def)
    then have "\<forall>v \<in> region info (unat sizeof_info). translate (mem t) root v = Some v" using ht unfolding held_def by blast
    moreover have "mem t (copy + of_nat j) = data ! j" if "j < length data" for j
      using mX [of "copy + of_nat j"] in_region [OF that, of copy] k(4,6) that by auto
    ultimately show "info_ready G (mem t) root info" "copy_in_memory data (mem t) info"
      using i ia k(5) by (simp_all add: info_ready_def copy_in_memory_def m4)
  qed
  moreover have "elf_accepted (file_header data)" using elf_checked [OF chk] by (simp add: k(1))
  moreover have "\<forall>v \<in> region base (unat sz). translate (mem t) root v = Some v" using ht by (simp add: held_def)
  moreover have "opened_by_name B G V s"
    using fw kfile kernel_opened_by_name [OF _ lit] by (auto simp: kernel_file_def boot_firmware_ok_def)
  ultimately show ?thesis using entry k(1) by simp
qed

end
