(* ===== verification/Sample_Boot.thy ===== *)
theory Sample_Boot
  imports Handover
begin

text \<open>
  A firmware on which the loader gets all the way to the kernel: the sample firmware with its memory in the lower half and a volume
  of named files that can be read and written, where a small but complete kernel is stored under its name. It meets everything that is relied on
  from a firmware, and the run is carried out step by step.
\<close>

section \<open>The file and the firmware\<close>

text \<open>A header, one loadable segment of two pages at \<^verbatim>\<open>0xFFFFFFFF80000000\<close>, and its four bytes of code.\<close>

definition boot_image :: "u8 list" where
  "boot_image =
     [0x7f, 0x45, 0x4c, 0x46, 2, 1, 1, 0, 0, 0, 0, 0, 0, 0, 0, 0,
      2, 0, 62, 0, 1, 0, 0, 0, 0, 0, 0, 0x80, 0xff, 0xff, 0xff, 0xff,
      64, 0, 0, 0, 0, 0, 0, 0, 0, 0, 0, 0, 0, 0, 0, 0,
      0, 0, 0, 0, 64, 0, 56, 0, 1, 0, 0, 0, 0, 0, 0, 0,
      1, 0, 0, 0, 5, 0, 0, 0, 120, 0, 0, 0, 0, 0, 0, 0,
      0, 0, 0, 0x80, 0xff, 0xff, 0xff, 0xff, 0, 0, 0, 0, 0, 0, 0, 0,
      4, 0, 0, 0, 0, 0, 0, 0, 8, 0x10, 0, 0, 0, 0, 0, 0,
      0, 0x10, 0, 0, 0, 0, 0, 0, 0x90, 0xf4, 0xeb, 0xfd]"

text \<open>
  The volume: files by name. Only a file that exists can be opened for reading, reading and the information about a file go by its present content,
  and writing (from the start of a file, as the loader does) replaces what is there.
\<close>

definition boot_content :: "sample_state \<Rightarrow> u8 list" where
  "boot_content w = (case map_of (files w) (opened w) of Some bytes \<Rightarrow> bytes | None \<Rightarrow> [])"

definition boot_vol :: "sample_state volume_services" where
  "boot_vol = sample_vol
     \<lparr>File_Open := (\<lambda>w r p m.
        if m = MODE_READ \<and> map_of (files w) p = None then ((EFI_NOT_FOUND, 0), w)
        else ((EFI_SUCCESS, 0x3600), w\<lparr>opened := p, file_pos := 0\<rparr>)),
      File_Write := (\<lambda>w f bs. ((EFI_SUCCESS, of_nat (length bs)),
        w\<lparr>files := (opened w, bs @ drop (length bs) (boot_content w)) # files w, file_pos := length bs\<rparr>))\<rparr>"

definition boot_info_bytes :: "u8 list \<Rightarrow> u8 list" where
  "boot_info_bytes bytes = replicate 8 0 @ le_bytes 8 (of_nat (length bytes) :: u64) @ replicate 64 0"

text \<open>The user picks the network when something is waiting there, and the local disk otherwise.\<close>

definition boot_env :: "sample_state env" where
  "boot_env = sample_env
     \<lparr>ReadKeyStroke := (\<lambda>w. ((EFI_SUCCESS, if inbox w = [] then 100 else 110), w)),
      AllocatePages := (\<lambda>w n.
        if 16 \<le> next_page w \<and> next_page w + unat n < 2 ^ 35
        then ((EFI_SUCCESS, of_nat (4096 * next_page w)), w\<lparr>next_page := next_page w + unat n\<rparr>)
        else ((EFI_OUT_OF_RESOURCES, 0), w)),
      AllocatePool := (\<lambda>w sz. if 16 \<le> next_page w then AllocatePool sample_env w sz else ((EFI_OUT_OF_RESOURCES, 0), w)),
      File_Read := (\<lambda>w f n.
        let bs = take (unat n) (drop (file_pos w) (boot_content w))
        in ((EFI_SUCCESS, bs), w\<lparr>file_pos := file_pos w + length bs\<rparr>)),
      VOL := boot_vol,
      SYS := sample_sys\<lparr>FirmwareRevision := 0x10000\<rparr>,
      BS := sample_bs
        \<lparr>LocateHandleBuffer := (\<lambda>w p. ((EFI_SUCCESS, if p = None then [] else [0x3800]), w)),
         File_GetInfo := (\<lambda>w f n. if n < 80 then ((EFI_BUFFER_TOO_SMALL, 80, []), w)
           else ((EFI_SUCCESS, 80, boot_info_bytes (boot_content w)), w))\<rparr>\<rparr>"

text \<open>The volume is open on the kernel as long as the name and the content are those of the kernel.\<close>

definition boot_pos :: "sample_state \<Rightarrow> nat option" where
  "boot_pos w = (if opened w = kernel_name \<and> boot_content w = boot_image then Some (file_pos w) else None)"

text \<open>The netboot client can change it: what is written to the open kernel is what the loader finds there afterwards.\<close>

lemma boot_write_changes:
  assumes "boot_pos w = Some p" and "bytes \<noteq> take (length bytes) boot_image"
  shows "boot_pos (snd (File_Write (VOL boot_env) w f bytes)) = None"
proof -
  have "boot_content (w\<lparr>files := (opened w, c) # files w, file_pos := n\<rparr>) = c" for c n by (simp add: boot_content_def)
  moreover have "bytes @ drop (length bytes) c \<noteq> boot_image" for c
    using assms(2) by (metis append_eq_conv_conj)
  ultimately show ?thesis by (simp add: boot_pos_def boot_env_def boot_vol_def)
qed

text \<open>The first sixteen pages hold the loader's image and stack and are never given to anyone else.\<close>

definition boot_own :: "sample_state \<Rightarrow> addr set" where
  "boot_own w = {x. unat x < 4096 * max 16 (next_page w)}"

lemma boot_own_sample: "16 \<le> next_page w \<Longrightarrow> boot_own w = sample_own w"
  by (simp add: boot_own_def sample_own_def)

definition boot_globals :: globals where
  "boot_globals = \<lparr>handle = 0x3700, st = 0x3780, header_local = 0x4000\<rparr>"

text \<open>At power-on the kernel is on the volume, and the loader's image holds its name.\<close>

definition boot_mem :: mem where
  "boot_mem = (\<lambda>_. 0)(0x3c70 := 0x6B, 0x3c72 := 0x65, 0x3c74 := 0x72, 0x3c76 := 0x6E, 0x3c78 := 0x65, 0x3c7a := 0x6C)"

definition boot_start :: sample_state where
  "boot_start = sample_start\<lparr>files := [(kernel_name, boot_image)]\<rparr>"

lemma boot_name: "wide_at boot_mem (kernel_text sample_literals) kernel_name"
  by (simp add: kernel_name_def sample_literals_def wide_at_Cons) (simp add: boot_mem_def wide_at_def rd16_def le_word_def load_bytes_def upt_rec)

lemma boot_own_low: "region (header_local boot_globals) 64 \<subseteq> boot_own w" "region (kernel_text sample_literals) 14 \<subseteq> boot_own w"
proof -
  have "{x :: addr. unat x < 0x10000} \<subseteq> boot_own w" by (auto simp: boot_own_def)
  moreover have "region (header_local boot_globals) 64 \<subseteq> {x. unat x < 0x10000}" by (subst region_below) (auto simp: boot_globals_def)
  moreover have "region (kernel_text sample_literals) 14 \<subseteq> {x. unat x < 0x10000}" by (subst region_below) (auto simp: sample_literals_def)
  ultimately show "region (header_local boot_globals) 64 \<subseteq> boot_own w" "region (kernel_text sample_literals) 14 \<subseteq> boot_own w" by blast+
qed

section \<open>What it promises\<close>

lemma boot_alloc_ok: "alloc_ok boot_env boot_own"
  unfolding alloc_ok_def
proof (intro allI impI)
  fix w n status a w'
  assume ap: "AllocatePages boot_env w n = ((status, a), w')" and "\<not> EFI_ERROR boot_env status"
  then have "AllocatePages sample_env w n = ((status, a), w')" "\<not> EFI_ERROR sample_env status" and "16 \<le> next_page w" "16 \<le> next_page w'"
    by (auto simp: boot_env_def sample_env_def split: if_splits)
  then show "aligned 12 a \<and> unat a + unat n * 4096 \<le> 2 ^ 52 \<and> region a (unat n * 4096) \<inter> boot_own w = {} \<and>
      boot_own w \<union> region a (unat n * 4096) \<subseteq> boot_own w'"
    using sample_alloc_ok by (auto simp: alloc_ok_def boot_own_sample)
qed

lemma boot_pool_ok: "pool_ok boot_env boot_own"
  unfolding pool_ok_def
proof (intro allI impI)
  fix w n status a w'
  assume ap: "AllocatePool boot_env w n = ((status, a), w')" and "\<not> EFI_ERROR boot_env status"
  then have "AllocatePool sample_env w n = ((status, a), w')" "\<not> EFI_ERROR sample_env status" and "16 \<le> next_page w"
    by (auto simp: boot_env_def sample_env_def split: if_splits)
  moreover from this have "16 \<le> next_page w'" by (auto simp: sample_env_def split: if_splits)
  ultimately show "unat a + unat n \<le> 2 ^ 52 \<and> region a (unat n) \<inter> boot_own w = {} \<and> boot_own w \<union> region a (unat n) \<subseteq> boot_own w'"
    using sample_pool_ok by (auto simp: pool_ok_def boot_own_sample)
qed

lemma boot_blocks_ok: "blocks_ok boot_env boot_own (\<lambda>w p n. True)"
  by (auto simp: blocks_ok_def boot_env_def sample_env_def)

lemma boot_services_keep: "services_keep boot_env boot_own"
  by (auto simp: services_keep_def boot_env_def sample_env_def sample_hnd_def sample_bs_def sample_gop_def sample_vol_def boot_vol_def boot_own_def)

lemma boot_low_memory: "low_memory boot_env"
proof -
  have "unat a + unat n * 4096 < 2 ^ 47" if "AllocatePages boot_env w n = ((status, a), w')" "\<not> EFI_ERROR boot_env status" for w n status a w'
  proof -
    have l: "next_page w + unat n < 2 ^ 35" and a: "a = of_nat (4096 * next_page w)"
      using that by (auto simp: boot_env_def sample_env_def split: if_splits)
    then have "unat a = 4096 * next_page w" unfolding a by (intro unat_of_nat64) simp
    then show ?thesis using l by simp
  qed
  then show ?thesis by (simp add: low_memory_def) (simp add: boot_env_def sample_env_def sample_gop_def)
qed

lemma boot_map_fits: "map_fits boot_env"
  by (auto simp: map_fits_def boot_env_def sample_bs_def word_less_nat_alt split: if_splits)

lemma boot_content_simps [simp]:
  "boot_content (w\<lparr>file_pos := n\<rparr>) = boot_content w" "boot_content (w\<lparr>next_page := n\<rparr>) = boot_content w" "boot_content (w\<lparr>screen := x\<rparr>) = boot_content w"
  by (simp_all add: boot_content_def)

lemma boot_pos_simps [simp]: "boot_pos (w\<lparr>next_page := n\<rparr>) = boot_pos w" "boot_pos (w\<lparr>file_pos := n\<rparr>) \<noteq> None \<longleftrightarrow> boot_pos w \<noteq> None"
  by (simp_all add: boot_pos_def)

lemma boot_file_ok: "file_ok boot_env boot_own boot_pos f boot_image"
  by (auto simp: file_ok_def boot_env_def sample_env_def boot_own_def boot_pos_def Let_def split: if_splits)

lemma boot_file_info_ok: "file_info_ok boot_env boot_pos f 80 (length boot_image)"
proof -
  have l: "length boot_image = 124" by (simp add: boot_image_def)
  moreover have "FileSize (data_mem (boot_info_bytes boot_image)) 0 = 124" unfolding boot_info_bytes_def l by code_simp
  moreover have "length (boot_info_bytes bytes) = 80" for bytes by (simp add: boot_info_bytes_def)
  ultimately show ?thesis
    by (auto simp: file_info_ok_def boot_env_def boot_pos_def sample_bs_def word_less_nat_alt split: if_splits)
qed

lemma boot_firmware: "boot_firmware_ok boot_env boot_own (\<lambda>w p n. True)"
  by (simp add: boot_firmware_ok_def boot_alloc_ok boot_pool_ok boot_blocks_ok boot_services_keep boot_low_memory boot_map_fits)

lemma boot_image_at: "image_at boot_env G 0x60000 0x1800"
  by (simp add: image_at_def boot_env_def sample_env_def sample_sys_def aligned_def)

section \<open>The kernel\<close>

lemma boot_header: "file_header boot_image =
   \<lparr>e_ident = take 16 boot_image, e_type = 2, e_machine = 62, e_version = 1, e_entry = 0xFFFFFFFF80000000, e_phoff = 64,
    e_shoff = 0, e_flags = 0, e_ehsize = 64, e_phentsize = 56, e_phnum = 1, e_shentsize = 0, e_shnum = 0, e_shstrndx = 0\<rparr>"
  by (simp add: file_header_def read_ehdr_def rd16_def rd32_def rd64_def load_bytes_def upt_rec data_mem_def boot_image_def le_word_def)

lemma boot_phdr: "phdr_in boot_image (file_header boot_image) 0 =
   \<lparr>p_type = 1, p_flags = 5, p_offset = 120, p_vaddr = 0xFFFFFFFF80000000, p_paddr = 0, p_filesz = 4, p_memsz = 0x1008, p_align = 0x1000\<rparr>"
proof -
  have o: "e_phoff (file_header boot_image) = 64" by (simp add: boot_header)
  show ?thesis
    unfolding phdr_in_def o by (simp add: read_phdr_def rd32_def rd64_def load_bytes_def upt_rec data_mem_def boot_image_def le_word_def)
qed

lemma boot_segment: "loadable boot_image (file_header boot_image) 0" "seg_pages (phdr_in boot_image (file_header boot_image) 0) = 2"
    "i < 2 \<Longrightarrow> table_index 39 (seg_page (phdr_in boot_image (file_header boot_image) 0) i) = 511"
proof -
  show "loadable boot_image (file_header boot_image) 0" by (simp add: loadable_def boot_phdr PT_LOAD_def)
  show "seg_pages (phdr_in boot_image (file_header boot_image) 0) = 2" by (simp add: seg_pages_def boot_phdr)
  show "table_index 39 (seg_page (phdr_in boot_image (file_header boot_image) 0) i) = 511" if "i < 2"
  proof -
    have "i = 0 \<or> i = 1" using that by linarith
    then show ?thesis by (auto simp: seg_page_def boot_phdr table_index_def)
  qed
qed

lemma boot_counts: "unat (e_phnum (file_header boot_image)) = 1" "unat (e_phentsize (file_header boot_image)) = 56"
    "unat (e_phoff (file_header boot_image)) = 64" "length boot_image = 124"
  by (simp_all only: boot_header) (simp_all add: boot_image_def)

lemma boot_kernel_ok: "kernel_ok boot_image (file_header boot_image)"
proof -
  have "seg_ok boot_image (phdr_in boot_image (file_header boot_image) 0)"
    unfolding seg_ok_def boot_segment(2) boot_counts using boot_segment(3) by (simp add: boot_phdr aligned_def)
  then show ?thesis by (simp add: kernel_ok_def boot_counts)
qed

lemma boot_placed: "placed_high boot_image (file_header boot_image)"
  by (simp add: placed_high_def boot_counts boot_segment high_def stack_slot_def)

lemma boot_accepted: "elf_accepted (file_header boot_image)"
proof -
  have "elf_kind_ok (file_header boot_image)" unfolding elf_kind_ok_def boot_header by (simp add: boot_image_def)
  moreover have "e_ident (file_header boot_image) ! 0 = elf_magic ! 0" unfolding boot_header by (simp add: boot_image_def elf_magic_def)
  ultimately show ?thesis unfolding elf_accepted_def by (metis zero_less_numeral)
qed

section \<open>Steps that return\<close>

text \<open>A step returns whenever \<open>n\<close> more pages can be handed out, and uses no more than these.\<close>

definition spends :: "'w env \<Rightarrow> nat \<Rightarrow> ('w, 'z, 'a) run \<Rightarrow> bool" where
  "spends B n m \<longleftrightarrow> (\<forall>s k. pages_left B (n + k) (fw s) \<longrightarrow> (\<exists>x t. m s = Inr (x, t) \<and> pages_left B k (fw t)))"

lemma spendsI: "(\<And>s k. pages_left B (n + k) (fw s) \<Longrightarrow> \<exists>x t. m s = Inr (x, t) \<and> pages_left B k (fw t)) \<Longrightarrow> spends B n m"
  by (simp add: spends_def)

lemma spendsE:
  assumes "spends B n m" and "pages_left B (n + k) (fw s)"
  obtains x t where "m s = Inr (x, t)" and "pages_left B k (fw t)"
  using assms unfolding spends_def by blast

lemma pages_left_add: "pages_left B (n + k) w \<Longrightarrow> pages_left B k w"
  by (induction n) (auto dest: pages_left_Suc)

lemma spends_mono:
  fixes m :: "('w, 'z, 'a) run"
  assumes m: "spends B n m" and nk: "n \<le> k"
  shows "spends B k m"
proof (rule spendsI)
  fix s :: "('w, 'z) machine_scheme" and j assume "pages_left B (k + j) (fw s)"
  then have "pages_left B (n + (k - n + j)) (fw s)" using nk by simp
  with m obtain x t where "m s = Inr (x, t)" "pages_left B (k - n + j) (fw t)" by (rule spendsE)
  then show "\<exists>x t. m s = Inr (x, t) \<and> pages_left B j (fw t)" by (auto dest: pages_left_add)
qed

lemma spends_andthen:
  fixes m :: "('w, 'z, 'a) run"
  assumes m: "spends B n m" and f: "\<And>x. spends B k (f x)"
  shows "spends B (n + k) (andthen m f)"
proof (rule spendsI)
  fix s :: "('w, 'z) machine_scheme" and j assume "pages_left B (n + k + j) (fw s)"
  then have "pages_left B (n + (k + j)) (fw s)" by (simp add: add.assoc)
  with m obtain x t where t: "m s = Inr (x, t)" "pages_left B (k + j) (fw t)" by (rule spendsE)
  from f t(2) obtain y u where "f x t = Inr (y, u)" "pages_left B j (fw u)" by (rule spendsE)
  then show "\<exists>y u. andthen m f s = Inr (y, u) \<and> pages_left B j (fw u)" using t by (auto simp: andthen_Inr)
qed

text \<open>A call of a service that hands out nothing, and what follows for every answer it can give.\<close>

lemma spends_call:
  fixes f :: "'b \<Rightarrow> ('w, 'z, 'a) run"
  assumes c: "\<And>w k. pages_left B k w \<Longrightarrow> pages_left B k (snd (c w))" and f: "\<And>w. spends B n (f (fst (c w)))"
  shows "spends B n (andthen (fwcall c) f)"
proof (rule spendsI)
  fix s :: "('w, 'z) machine_scheme" and k assume l: "pages_left B (n + k) (fw s)"
  let ?t = "s\<lparr>fw := snd (c (fw s))\<rparr>"
  have "fwcall c s = Inr (fst (c (fw s)), ?t)" by (simp add: fwcall_def split: prod.split)
  moreover have "pages_left B (n + k) (fw ?t)" using c [OF l] by simp
  with f obtain x u where "f (fst (c (fw s))) ?t = Inr (x, u)" "pages_left B k (fw u)" by (rule spendsE)
  ultimately show "\<exists>x t. andthen (fwcall c) f s = Inr (x, t) \<and> pages_left B k (fw t)" by (auto simp: andthen_Inr)
qed

lemma spends_gets: "(\<And>s. spends B n (f (g s))) \<Longrightarrow> spends B n (andthen (gets g) f)"
  unfolding spends_def by simp

lemma spends_basic: "spends B 0 (ret x)" "spends B 0 (set_mem u)" "\<not> EFI_ERROR B status \<Longrightarrow> spends B 0 (EFIERR B src line status)"
  by (auto simp: spends_def EFIERR_def)

lemma spends_map_loop: "spends B (3 * n) (for_from 0 n (\<lambda>i. loader_paging_map B root (P i) (V i) f) :: ('w, 'z, unit) run)"
proof (rule spendsI)
  fix s :: "('w, 'z) machine_scheme" and k assume "pages_left B (3 * n + k) (fw s)"
  from map_loop_returns [OF this] show "\<exists>x t. for_from 0 n (\<lambda>i. loader_paging_map B root (P i) (V i) f) s = Inr (x, t) \<and> pages_left B k (fw t)"
    by blast
qed

lemma spends_map: "spends B 3 (loader_paging_map B root p v f)"
  by (rule spendsI) (use map_returns in blast)

section \<open>The run\<close>

lemma boot_pages_left: "pages_left boot_env k w \<longleftrightarrow> k = 0 \<or> 16 \<le> next_page w \<and> next_page w + k < 2 ^ 35"
proof (induction k arbitrary: w)
  case (Suc k)
  have ap: "AllocatePages boot_env w 1 = (if 16 \<le> next_page w \<and> next_page w + 1 < 2 ^ 35
      then ((EFI_SUCCESS, of_nat (4096 * next_page w)), w\<lparr>next_page := next_page w + 1\<rparr>) else ((EFI_OUT_OF_RESOURCES, 0), w))"
    by (simp add: boot_env_def)
  have "EFI_ERROR boot_env = (\<lambda>status. status \<noteq> EFI_SUCCESS)" by (simp add: boot_env_def sample_env_def)
  then show ?case using Suc by (auto simp: pages_left.simps ap)
qed simp

lemma spends_alloc: "0 < n \<Longrightarrow> spends boot_env (unat n) (uefi_alloc_pages boot_env n)"
proof (rule spendsI)
  fix s :: "(sample_state, 'b) machine_scheme" and k assume "0 < n" and "pages_left boot_env (unat n + k) (fw s)"
  then have l: "16 \<le> next_page (fw s)" "next_page (fw s) + (unat n + k) < 2 ^ 35" by (auto simp: boot_pages_left word_less_nat_alt)
  then have "AllocatePages boot_env (fw s) n = ((EFI_SUCCESS, of_nat (4096 * next_page (fw s))), (fw s)\<lparr>next_page := next_page (fw s) + unat n\<rparr>)"
    by (simp add: boot_env_def)
  from uefi_alloc_pages_total [OF this] show "\<exists>x t. uefi_alloc_pages boot_env n s = Inr (x, t) \<and> pages_left boot_env k (fw t)"
    using l by (simp add: boot_pages_left) (simp add: boot_env_def sample_env_def)
qed

lemma boot_fields:
  "EFI_ERROR boot_env = (\<lambda>status. status \<noteq> EFI_SUCCESS)"
  "HandleProtocol (HND boot_env) w h p = ((EFI_SUCCESS, h), w)" "OpenProtocol (HND boot_env) w h p = ((EFI_SUCCESS, h), w)"
  "OpenVolume (VOL boot_env) w i = ((EFI_SUCCESS, 0x3500), w)" 
  "File_Open (VOL boot_env) w r name MODE_READ =
     (if map_of (files w) name = None then ((EFI_NOT_FOUND, 0), w) else ((EFI_SUCCESS, 0x3600), w\<lparr>opened := name, file_pos := 0\<rparr>))"
  "File_Close (VOL boot_env) w f = (EFI_SUCCESS, w)" "FreePool boot_env w f = (EFI_SUCCESS, w)"
  "LocateHandleBuffer (BS boot_env) w q = ((EFI_SUCCESS, if q = None then [] else [0x3800]), w)"
  "SetMode (GOP boot_env) w g mode = (EFI_SUCCESS, w)" "MaxMode (GOP boot_env) w g = 3" "Mode (GOP boot_env) w g = 0x3a00" "Mode_Info (GOP boot_env) w g = 0x3a40"
  "FrameBufferBase (GOP boot_env) w g = 0x80000000" "FrameBufferSize (GOP boot_env) w g = 0x2001"
  "ImageBase (SYS boot_env) w img = 0x60000" "ImageSize (SYS boot_env) w img = 0x1800"
  "GetMemoryMap (BS boot_env) w n = (if n < 48 then ((EFI_BUFFER_TOO_SMALL, 48, 0, 48, []), w) else ((EFI_SUCCESS, 48, 7, 48, replicate 48 0), w))"
  "ExitBootServices (BS boot_env) w i k = (if k = 7 then EFI_SUCCESS else EFI_INVALID_PARAMETER, w)"
  "File_SetPosition boot_env w f j = (EFI_SUCCESS, w\<lparr>file_pos := unat j\<rparr>)"
  "File_GetInfo (BS boot_env) w f n = (if n < 80 then ((EFI_BUFFER_TOO_SMALL, 80, []), w)
     else ((EFI_SUCCESS, 80, boot_info_bytes (boot_content w)), w))"
  by (simp_all add: boot_env_def boot_vol_def sample_env_def sample_hnd_def sample_vol_def sample_bs_def sample_gop_def sample_sys_def)

lemma boot_pool: "0 < k \<Longrightarrow> pages_left boot_env (Suc k) w \<Longrightarrow> unat n < 4096 \<Longrightarrow>
   \<exists>w'. AllocatePool boot_env w n = ((EFI_SUCCESS, of_nat (4096 * next_page w)), w') \<and> pages_left boot_env k w'"
  by (simp add: boot_pages_left) (simp add: boot_env_def sample_env_def)

lemma boot_query: "\<exists>x. QueryMode (GOP boot_env) w g i = ((EFI_SUCCESS, x), w)"
  by (simp add: boot_env_def sample_env_def sample_gop_def)

lemma spends_pool: "spends boot_env 2 (fwcall (\<lambda>w. AllocatePool boot_env w 8))"
proof (rule spendsI)
  fix s :: "(sample_state, 'z) machine_scheme" and k assume "pages_left boot_env (2 + k) (fw s)"
  then have "pages_left boot_env (Suc (Suc k)) (fw s)" by simp
  from boot_pool [OF _ this, of 8] obtain w where "AllocatePool boot_env (fw s) 8 = ((EFI_SUCCESS, of_nat (4096 * next_page (fw s))), w)"
      "pages_left boot_env (Suc k) w" by auto
  then show "\<exists>x t. fwcall (\<lambda>w. AllocatePool boot_env w 8) s = Inr (x, t) \<and> pages_left boot_env k (fw t)"
    by (simp add: fwcall_def pages_left_Suc)
qed

lemma ret_andthen: "andthen (ret x) f = f x" and gets_const: "andthen (gets (\<lambda>s. x)) f = f x"
  by (rule ext, simp)+

lemma boot_mode_loop: "spends boot_env (2 * n) (mode_loop boot_env gop n i max_w max_h selection :: (sample_state, 'z, bool) run)"
proof (induction n arbitrary: i max_w max_h selection)
  case 0
  show ?case by (auto simp: boot_fields intro!: spends_call spends_basic)
next
  case (Suc n)
  have set: "spends boot_env (2 * n) (andthen (fwcall (\<lambda>w. SetMode (GOP boot_env) w gop i)) (\<lambda>_. ret True) :: (sample_state, 'z, bool) run)"
    by (rule spends_mono [of _ 0]) (auto simp: boot_fields intro!: spends_call spends_basic)
  have "spends boot_env (2 + (2 * n)) (mode_loop boot_env gop (Suc n) i max_w max_h selection :: (sample_state, 'z, bool) run)"
    unfolding mode_loop.simps
  proof (rule spends_andthen [OF spends_pool], rule spends_call, goal_cases)
    case (1 x w k)
    then show ?case using boot_query [of w gop i] by auto
  next
    case (2 x w)
    obtain a b where q: "QueryMode (GOP boot_env) w gop i = ((EFI_SUCCESS, a, b), w)" using boot_query [of w gop i] by auto
    show ?case using Suc.IH set by (simp add: q EFIERR_def boot_fields(1) ret_andthen Let_def)
  qed
  then show ?case by simp
qed

lemma boot_gop:
  fixes f :: "efi_status \<times> addr option \<Rightarrow> (sample_state, 'z, 'a) run"
  shows "andthen (efi_gop_get boot_env) f = f (EFI_SUCCESS, Some 0x3800)"
proof (rule ext)
  fix s :: "(sample_state, 'z) machine_scheme"
  have "efi_gop_get boot_env s = Inr ((EFI_SUCCESS, Some 0x3800), s)"
    by (simp add: efi_gop_get_def andthen_Inr fwcall_def boot_fields EFIERR_def)
  then show "andthen (efi_gop_get boot_env) f s = f (EFI_SUCCESS, Some 0x3800) s" by (simp add: andthen_Inr)
qed

lemma boot_map_addr:
  assumes "unat (1 + (drop_bit 12 (start + len) - drop_bit 12 start)) = n"
  shows "spends B (3 * n) (loader_paging_map_addr B root start len f)"
  unfolding loader_paging_map_addr_def Let_def assms by (rule spends_map_loop)

lemma boot_framebuffer: "spends boot_env 21 (framebuffer_get boot_env info root :: (sample_state, 'z, unit) run)"
proof -
  have m: "spends boot_env 6 (framebuffer_setup boot_env 0x3800)"
    unfolding framebuffer_setup_def by (rule spends_gets) (use boot_mode_loop [of 3] in \<open>simp add: boot_fields\<close>)
  have i: "spends boot_env 0 (info_set info f v)" for f v unfolding info_set_def by (rule spends_basic)
  let ?flags = "PAGE_PRESENT OR PAGE_WRITE"
  have a: "spends boot_env 3 (loader_paging_map_addr boot_env root 0x3a00 8 ?flags)" "spends boot_env 3 (loader_paging_map_addr boot_env root 0x3a40 8 ?flags)"
    using boot_map_addr [of "0x3a00" 8 1 boot_env root ?flags] boot_map_addr [of "0x3a40" 8 1 boot_env root ?flags] by simp_all
  have "(framebuffer_get boot_env info root :: (sample_state, 'z, unit) run) =
     andthen (framebuffer_setup boot_env 0x3800) (\<lambda>_.
     andthen (info_set info Gop_mode 0x3a00) (\<lambda>_.
     andthen (loader_paging_map_addr boot_env root 0x3a00 8 ?flags) (\<lambda>_.
     andthen (loader_paging_map_addr boot_env root 0x3a40 8 ?flags) (\<lambda>_.
     for_from 0 3 (\<lambda>i. loader_paging_map boot_env root (0x80000000 + push_bit 12 (of_nat i)) (0x80000000 + push_bit 12 (of_nat i)) ?flags)))))"
    by (simp add: framebuffer_get_def boot_gop or_undefined_def boot_fields Let_def ret_andthen gets_const del: andthen_gets andthen_info_set)
  moreover have "spends boot_env (6 + (0 + (3 + (3 + 3 * 3)))) \<dots>"
    by (intro spends_andthen m i a spends_map_loop)
  ultimately show ?thesis by simp
qed

lemma boot_info: "spends boot_env 136 (kernel_info boot_env G EFI_SUCCESS root finfo copy)"
proof -
  have i: "spends boot_env 0 (info_set info f v)" for info f v unfolding info_set_def by (rule spends_basic)
  have al: "spends boot_env 33 (uefi_alloc_pages boot_env 33)" "spends boot_env 1 (uefi_alloc_pages boot_env (drop_bit 12 sizeof_info + 1))"
    using spends_alloc [of 33] spends_alloc [of 1] by (simp_all add: sizeof_info_def)
  have m: "spends boot_env (3 * 33) (map_stack boot_env root stack)" for stack unfolding map_stack_def by (rule spends_map_loop)
  have p: "spends boot_env 0 (if EFI_ERROR boot_env EFI_SUCCESS then efi_panic boot_env ''unable to allocate page'' else ret ())"
    by (simp add: boot_fields(1) spends_basic)
  have "spends boot_env (33 + (0 + (1 + (3 + (0 + (0 + (0 + (0 + (3 * 33 + (0 + 0)))))))))) (kernel_info boot_env G EFI_SUCCESS root finfo copy)"
    unfolding kernel_info_def by (intro spends_gets spends_andthen al i m p spends_map spends_basic(1,2))
  then show ?thesis by simp
qed

lemma boot_image_info: "spends boot_env 0 (efi_get_image boot_env info :: (sample_state, 'z, efi_status) run)"
proof -
  have "efi_get_image boot_env info s = Inr (EFI_SUCCESS, s\<lparr>mem := wr64 (mem s) (info + info_offset Loaded_image) (info_get (mem s) info Handle)\<rparr>)"
    for s :: "(sample_state, 'z) machine_scheme"
    by (simp add: efi_get_image_def andthen_Inr fwcall_def boot_fields EFIERR_def)
  then show ?thesis by (simp add: spends_def)
qed

lemma boot_map_loader: "spends boot_env 6 (map_loader boot_env root info)"
  unfolding map_loader_def
  by (rule spends_gets) (use spends_map_loop [of boot_env 2] in \<open>simp add: boot_fields Let_def gets_const\<close>)

lemma boot_rsdp: "spends boot_env 0 (efi_get_rsdp boot_env info)"
proof -
  have i: "spends boot_env 0 (info_set info f v)" for f v unfolding info_set_def by (rule spends_basic)
  have "spends boot_env 0 (case q of Some rsdp \<Rightarrow> andthen (info_set info Rsdp rsdp) (\<lambda>_. ret EFI_SUCCESS) | None \<Rightarrow> ret EFI_NOT_FOUND)" for q
    using spends_andthen [OF i spends_basic(1)] by (auto simp: spends_basic split: option.split)
  then show ?thesis unfolding efi_get_rsdp_def by (rule spends_gets)
qed

lemma boot_memory_map:
  fixes s :: "(sample_state, 'z) machine_scheme"
  assumes left: "pages_left boot_env 12 (fw s)"
  shows "\<exists>t. efi_get_memory_map boot_env G info root s = Inr (EFI_SUCCESS, t)"
proof -
  let ?w = "(fw s)\<lparr>next_page := next_page (fw s) + 2\<rparr>" and ?a = "of_nat (4096 * next_page (fw s)) :: addr"
  let ?s1 = "s\<lparr>fw := ?w, mem := wr64 (wr64 (mem s) (info + info_offset Efi_memory_map_key) 0) (info + info_offset Efi_memory_map) ?a\<rparr>"
  have n: "16 \<le> next_page (fw s)" "next_page (fw s) + 12 < 2 ^ 35" using left by (simp_all add: boot_pages_left)
  then have al: "AllocatePages boot_env (fw s) 2 = ((EFI_SUCCESS, ?a), ?w)" by (simp add: boot_env_def)
  have "unat ?a = 4096 * next_page (fw s)" using n by (intro unat_of_nat64) simp
  then have "unat (1 + (drop_bit 12 (?a + 0x2000) - drop_bit 12 ?a)) = 3" using n by (subst map_addr_pages) simp_all
  from boot_map_addr [OF this] have "spends boot_env 9 (loader_paging_map_addr boot_env root ?a 0x2000 (PAGE_WRITE OR PAGE_PRESENT) :: (sample_state, 'z, unit) run)"
    by simp
  moreover have "pages_left boot_env (9 + 1) (fw ?s1)" using n by (simp add: boot_pages_left)
  ultimately obtain u where u: "loader_paging_map_addr boot_env root ?a 0x2000 (PAGE_WRITE OR PAGE_PRESENT) ?s1 = Inr ((), u)"
    by (rule spendsE) simp
  have "\<exists>t. memory_map_leave boot_env G info 48 u = Inr (EFI_SUCCESS, t)"
    by (simp add: memory_map_leave_def andthen_Inr fwcall_def boot_fields info_get_set EFIERR_def)
  then show ?thesis using al u by (simp add: efi_get_memory_map_def andthen_Inr fwcall_def boot_fields)
qed

lemma boot_file_read: "\<exists>k t. file_read boot_env f n buf s = Inr ((EFI_SUCCESS, k), t) \<and> next_page (fw t) = next_page (fw s)"
  by (simp add: file_read_def fwcall_def andthen_Inr boot_env_def Let_def)

lemma boot_malloc:
  assumes "pages_left boot_env (Suc (Suc k)) (fw s)" and "unat n < 4096"
  shows "\<exists>a t. malloc boot_env n s = Inr (a, t) \<and> mem t = mem s \<and> pages_left boot_env (Suc k) (fw t)"
proof -
  obtain w where "AllocatePool boot_env (fw s) n = ((EFI_SUCCESS, of_nat (4096 * next_page (fw s))), w)" "pages_left boot_env (Suc k) w"
    using boot_pool [OF _ assms] by auto
  then show ?thesis by (simp add: malloc_def fwcall_def andthen_Inr EFIERR_def boot_fields)
qed

lemma boot_open:
  assumes "wide_at (mem s) path kernel_name" and "map_of (files (fw s)) kernel_name = Some bytes"
  shows "fs_open boot_env G path s = Inr ((EFI_SUCCESS, 0x3600), s\<lparr>fw := (fw s)\<lparr>opened := kernel_name, file_pos := 0\<rparr>\<rparr>)"
proof -
  have "efi_strlen (mem s) path = Some (of_nat (length kernel_name))"
    using assms(1) by (rule efi_strlen_wide) (simp add: kernel_name_def)
  moreover have "unat (of_nat (length kernel_name) :: u64) = length kernel_name" by (simp add: kernel_name_def)
  ultimately show ?thesis
    using wide_units [OF assms(1)] assms(2) by (simp add: fs_open_def andthen_Inr fwcall_def boot_fields EFIERR_def or_undefined_def)
qed

lemma boot_opened: "map_of (files w) kernel_name = Some boot_image \<Longrightarrow> boot_pos (w\<lparr>opened := kernel_name, file_pos := n\<rparr>) \<noteq> None"
  by (simp add: boot_pos_def boot_content_def)

lemma boot_read:
  fixes s :: "(sample_state, 'z) machine_scheme"
  assumes left: "pages_left boot_env (Suc (Suc (Suc k))) (fw s)" and h: "held boot_env boot_own root {} (region (header_local G) 64) {} s s"
    and lit: "wide_at (mem s) (kernel_text V) kernel_name" and kernel: "map_of (files (fw s)) kernel_name = Some boot_image"
  shows "\<exists>f finfo copy t. kernel_read boot_env G V s = Inr ((f, finfo, copy), t) \<and> pages_left boot_env (Suc k) (fw t)"
proof -
  let ?s1 = "s\<lparr>fw := (fw s)\<lparr>opened := kernel_name, file_pos := 0\<rparr>\<rparr>" and ?f = "0x3600 :: addr"
  have r1: "fs_open boot_env G (kernel_text V) s = Inr ((EFI_SUCCESS, ?f), ?s1)" using lit kernel by (rule boot_open)
  have "pages_left boot_env (Suc (Suc (Suc k))) (fw ?s1)" using left by (simp_all add: boot_pages_left)
  from boot_malloc [OF this, of 80] obtain finfo s2 where m: "malloc boot_env 80 ?s1 = Inr (finfo, s2)" "pages_left boot_env (Suc (Suc k)) (fw s2)" by auto
  define s3 where "s3 = s2\<lparr>mem := store_bytes (mem s2) finfo (boot_info_bytes (boot_content (fw s2)))\<rparr>"
  have r2: "fs_get_file_info boot_env ?f ?s1 = Inr (finfo, s3)"
    using m(1) by (simp add: fs_get_file_info_def andthen_Inr fwcall_def boot_fields s3_def)
  have h1: "held boot_env boot_own root {} (region (header_local G) 64) {} s ?s1" by (rule held_fw [OF h]) (simp_all add: boot_own_def)
  have sz: "FileSize (mem s3) finfo = 124"
    using file_info_held(2) [OF h1 boot_services_keep boot_pool_ok boot_file_info_ok boot_file_ok _ r2] boot_opened [OF kernel] by (simp add: boot_counts)
  have l3: "pages_left boot_env (Suc (Suc k)) (fw s3)" using m(2) by (simp add: s3_def)
  from boot_malloc [OF l3, of 124] obtain copy s4 where c: "malloc boot_env 124 s3 = Inr (copy, s4)" "mem s4 = mem s3" "pages_left boot_env (Suc k) (fw s4)" by auto
  obtain x s5 where r: "file_read boot_env ?f 124 copy (s4\<lparr>fw := (fw s4)\<lparr>file_pos := 0\<rparr>\<rparr>) = Inr ((EFI_SUCCESS, x), s5)" "next_page (fw s5) = next_page (fw s4)"
    using boot_file_read [of ?f 124 copy "s4\<lparr>fw := (fw s4)\<lparr>file_pos := 0\<rparr>\<rparr>"] by auto
  have r4: "fs_read boot_env ?f 124 0 copy s4 = Inr ((), s5\<lparr>fw := (fw s5)\<lparr>file_pos := 0\<rparr>\<rparr>)"
    using r(1) by (simp add: fs_read_def andthen_Inr fwcall_def boot_fields EFIERR_def)
  obtain n t where r5: "file_read boot_env ?f 64 (header_local G) (s5\<lparr>fw := (fw s5)\<lparr>file_pos := 0\<rparr>\<rparr>) = Inr ((EFI_SUCCESS, n), t)"
      "next_page (fw t) = next_page (fw s5)"
    using boot_file_read [of ?f 64 "header_local G" "s5\<lparr>fw := (fw s5)\<lparr>file_pos := 0\<rparr>\<rparr>"] by auto
  have "kernel_read boot_env G V s = Inr ((?f, finfo, copy), t)"
    by (simp add: kernel_read_def andthen_Inr r1 r2 sz c r4 loader_parse_header_def r5 EFIERR_def boot_fields)
  moreover have "pages_left boot_env (Suc k) (fw t)" using c(3) r(2) r5(2) by (simp add: boot_pages_left)
  ultimately show ?thesis by blast
qed

lemma boot_load_segment:
  assumes left: "pages_left boot_env (8 + Suc k) (fw s)"
  shows "\<exists>t. load_segment boot_env f root (phdr_in boot_image (file_header boot_image) 0) s = Inr ((), t) \<and> pages_left boot_env (Suc k) (fw t)"
proof -
  let ?ph = "phdr_in boot_image (file_header boot_image) 0"
  have n: "unat ((p_memsz ?ph + 0xFFF) div 0x1000) = 2" "(p_memsz ?ph + 0xFFF) div 0x1000 = 2" by (simp_all add: boot_phdr)
  define w1 where "w1 = (fw s)\<lparr>next_page := next_page (fw s) + 2\<rparr>"
  have l: "16 \<le> next_page (fw s)" "next_page (fw s) + (8 + Suc k) < 2 ^ 35" using left by (simp_all add: boot_pages_left)
  then have al: "AllocatePages boot_env (fw s) ((p_memsz ?ph + 0xFFF) div 0x1000) = ((EFI_SUCCESS, of_nat (4096 * next_page (fw s))), w1)"
    unfolding n(2) w1_def by (simp add: boot_env_def)
  obtain status bs w3 where rd: "File_Read boot_env (snd (File_SetPosition boot_env w1 f (p_offset ?ph))) f (p_filesz ?ph) = ((status, bs), w3)"
    by (metis prod.collapse)
  then have "next_page w3 = next_page (fw s) + 2" by (auto simp: boot_env_def sample_env_def Let_def w1_def)
  then have "pages_left boot_env (3 * unat ((p_memsz ?ph + 0xFFF) div 0x1000) + Suc k) w3"
    unfolding n(1) using l by (simp add: boot_pages_left)
  from load_segment_returns [OF al _ rd this] show ?thesis by (simp add: boot_fields(1))
qed

lemma boot_phdrs:
  fixes s :: "(sample_state, 'z) machine_scheme"
  assumes inv: "paging_inv boot_env boot_own root s" and pos: "boot_pos (fw s) \<noteq> None" and left: "pages_left boot_env (9 + Suc k) (fw s)"
  shows "\<exists>t. loader_kernel_phdrs boot_env f (file_header boot_image) root s = Inr ((), t) \<and> pages_left boot_env (Suc k) (fw t)"
proof -
  let ?h = "file_header boot_image"
  have p56: "ucast (e_phnum ?h) * ucast (e_phentsize ?h) = (56 :: u64)" by (simp add: boot_header)
  have "pages_left boot_env (Suc (8 + Suc k)) ((fw s)\<lparr>file_pos := unat (e_phoff ?h)\<rparr>)" using left by (simp_all add: boot_pages_left)
  from boot_pool [OF _ this, of 56] obtain phdrs w where
    ap: "AllocatePool boot_env ((fw s)\<lparr>file_pos := unat (e_phoff ?h)\<rparr>) 56 = ((EFI_SUCCESS, phdrs), w)" "pages_left boot_env (8 + Suc k) w" by auto
  obtain n s1 where fr: "file_read boot_env f 56 phdrs (s\<lparr>fw := w\<rparr>) = Inr ((EFI_SUCCESS, n), s1)" "next_page (fw s1) = next_page w"
    using boot_file_read [of f 56 phdrs "s\<lparr>fw := w\<rparr>"] by auto
  have p: "loader_parse_phdrs boot_env f ?h s = Inr ((EFI_SUCCESS, phdrs), s1)"
    using ap(1) fr(1) by (simp add: loader_parse_phdrs_def Let_def p56 andthen_Inr fwcall_def boot_fields EFIERR_def)
  have l1: "pages_left boot_env (8 + Suc k) (fw s1)" using ap(2) fr(2) by (simp add: boot_pages_left)
  note start = parse_phdrs_inv [OF inv boot_pool_ok boot_file_ok pos boot_kernel_ok p]
  have "round boot_env f ?h root phdrs 0 s1 = load_segment boot_env f root (phdr_in boot_image ?h 0) s1"
    unfolding round_def andthen_gets loop_inv_phdr [OF conjunct1 [OF start] boot_kernel_ok, unfolded boot_counts, OF zero_less_one, folded boot_counts]
    using boot_segment(1) by (simp add: loadable_def)
  then obtain t where t: "round boot_env f ?h root phdrs 0 s1 = Inr ((), t)" "pages_left boot_env (Suc k) (fw t)"
    using boot_load_segment [OF l1] by metis
  then have "phdr_loop (Suc 1) boot_env f ?h root phdrs (phdrs + of_nat (0 * unat (e_phentsize ?h))) s1 = Inr ((), t)"
    using start boot_counts by (subst phdr_loop_rounds) (simp_all add: andthen_def)
  then show ?thesis
    using p t(2) by (auto simp: loader_kernel_phdrs_def andthen_Inr boot_counts free_def fwcall_def andthen_def EFIERR_def boot_fields
        simp del: phdr_loop.simps)
qed

lemma boot_setup_files: "loader_paging_setup boot_env s = Inr (root, t) \<Longrightarrow> files (fw t) = files (fw s)"
  by (auto simp: loader_paging_setup_def uefi_alloc_pages_def fwcall_def EFIERR_Inr boot_env_def elim!: andthen_InrE split: if_splits)

text \<open>What the loader opens is the kernel, as long as it is on the volume.\<close>

lemma boot_kernel_file:
  assumes left: "pages_left boot_env 1 (fw s)" and lit: "kernel_literal boot_own V s" and kernel: "map_of (files (fw s)) kernel_name = Some boot_image"
  shows "kernel_file boot_env boot_own boot_pos 80 G V boot_image s"
proof -
  have "pages_left boot_env (unat (1 :: u64) + 0) (fw s)" using left by simp
  with spends_alloc [of 1] obtain root u where "uefi_alloc_pages boot_env 1 s = Inr (root, u)" by (rule spendsE) simp
  then obtain s1 where r1: "loader_paging_setup boot_env s = Inr (root, s1)" by (simp add: loader_paging_setup_def andthen_Inr)
  have k1: "map_of (files (fw s1)) kernel_name = Some boot_image" using boot_setup_files [OF r1] kernel by simp
  from boot_open [OF kernel_name_kept [OF boot_alloc_ok lit r1] k1, of G] show ?thesis
    using boot_opened [OF k1] boot_file_ok boot_file_info_ok by (auto simp: kernel_file_def kernel_opening_def andthen_Inr r1)
qed

text \<open>The loader gets from the start of \<^verbatim>\<open>loader_kernel\<close> into the kernel.\<close>

lemma boot_run:
  fixes s :: "(sample_state, 'z) machine_scheme"
  assumes left: "pages_left boot_env 1000 (fw s)" and hl: "region (header_local G) 64 \<subseteq> boot_own (fw s)"
    and lit: "kernel_literal boot_own V s" and kernel: "map_of (files (fw s)) kernel_name = Some boot_image"
  shows "\<exists>info root t. loader_kernel boot_env G V s = Inl (Jumped info 0xFFFFFFFF80000000 root, t)"
proof -
  have "pages_left boot_env (unat (1 :: u64) + 999) (fw s)" using left by simp
  with spends_alloc [of 1] obtain root u where r0: "uefi_alloc_pages boot_env 1 s = Inr (root, u)" "pages_left boot_env 999 (fw u)"
    by (rule spendsE) simp
  define s1 where "s1 = u\<lparr>mem := wr64 (mem u) (root + 8 * 510) (root OR PAGE_WRITE OR PAGE_PRESENT)\<rparr>"
  have r1: "loader_paging_setup boot_env s = Inr (root, s1)" by (simp add: loader_paging_setup_def andthen_Inr r0 s1_def)
  note p = loader_paging_setup_inv [OF boot_alloc_ok r1]
  have h1: "held boot_env boot_own root {} (region (header_local G) 64) {} s1 s1" using p(1,4,5,6) hl by (auto simp: held_def)
  have lit1: "wide_at (mem s1) (kernel_text V) kernel_name" using boot_alloc_ok lit r1 by (rule kernel_name_kept)
  have k1: "map_of (files (fw s1)) kernel_name = Some boot_image" using boot_setup_files [OF r1] kernel by simp
  have "pages_left boot_env (Suc (Suc (Suc 996))) (fw s1)" using r0(2) by (simp add: s1_def)
  from boot_read [OF this h1 lit1 k1] obtain f finfo copy s2 where r2: "kernel_read boot_env G V s1 = Inr ((f, finfo, copy), s2)"
    and l2: "pages_left boot_env 997 (fw s2)" by auto
  have dl: "64 \<le> length boot_image" "length boot_image < 2 ^ 64" by (simp_all add: boot_counts)
  note k = kernel_read_held [where pos = boot_pos, OF h1 boot_services_keep boot_pool_ok boot_open [OF lit1 k1] _ boot_file_ok boot_file_info_ok dl r2]
  have p2: "boot_pos (fw s2) \<noteq> None" using k(2) boot_opened [OF k1] by simp
  have eh: "read_ehdr (mem s2) (header_local G) = file_header boot_image" using k(6) boot_opened [OF k1] by (simp add: file_header_def)
  have chk: "elf_header_check boot_env (file_header boot_image) s2 = Inr (EFI_SUCCESS, s2)"
  proof -
    have "length (e_ident (file_header boot_image)) = 16" by (simp add: file_header_def read_ehdr_def)
    then show ?thesis using boot_accepted by (simp add: header_check_accepted)
  qed
  have inv: "paging_inv boot_env boot_own root s2" using k(3) boot_opened [OF k1] by (simp add: held_def)
  have "pages_left boot_env (9 + Suc 987) (fw s2)" using l2 by simp
  from boot_phdrs [OF inv p2 this] obtain s3 where r3: "loader_kernel_phdrs boot_env f (file_header boot_image) root s2 = Inr ((), s3)"
    and l3: "pages_left boot_env 988 (fw s3)" by auto
  have cl: "fwcall (\<lambda>w. File_Close (VOL boot_env) w f) s3 = Inr (EFI_SUCCESS, s3)" by (simp add: fwcall_def boot_fields)
  from spendsE [OF boot_info, of 852 s3 G root finfo copy] l3 obtain info a where
    r4: "kernel_info boot_env G EFI_SUCCESS root finfo copy s3 = Inr (info, a)" "pages_left boot_env 852 (fw a)" by auto
  from spendsE [OF boot_framebuffer, of 831 a info root] r4(2) obtain b where
    r5: "framebuffer_get boot_env info root a = Inr ((), b)" "pages_left boot_env 831 (fw b)" by auto
  from spendsE [OF boot_image_info, of 831 b info] r5(2) obtain x c where
    r6: "efi_get_image boot_env info b = Inr (x, c)" "pages_left boot_env 831 (fw c)" by auto
  from spendsE [OF boot_map_loader, of 825 c root info] r6(2) obtain d where
    r7: "map_loader boot_env root info c = Inr ((), d)" "pages_left boot_env 825 (fw d)" by auto
  from spendsE [OF boot_rsdp, of 825 d info] r7(2) obtain y e where
    r8: "efi_get_rsdp boot_env info d = Inr (y, e)" "pages_left boot_env 825 (fw e)" by auto
  have "pages_left boot_env 12 (fw e)" using r8(2) by (simp add: boot_pages_left)
  from boot_memory_map [OF this] obtain t where r9: "efi_get_memory_map boot_env G info root e = Inr (EFI_SUCCESS, t)" by blast
  have "e_entry (file_header boot_image) = 0xFFFFFFFF80000000" by (simp add: boot_header)
  then have "loader_kernel boot_env G V s = Inl (Jumped info 0xFFFFFFFF80000000 root, t)"
    by (simp add: loader_kernel_def andthen_Inr r1 r2 eh chk EFIERR_def boot_fields(1) r3 cl r4(1) r5(1) r6(1) r7(1) r8(1) r9 elf_jump_to_kernel_def stop_def)
  then show ?thesis by blast
qed

end
