(* ===== verification/Start.thy ===== *)
theory Start
  imports Sample_Boot
begin

text \<open>
  The whole run from \<^verbatim>\<open>efi_main\<close> to the kernel: no part of the loader but \<^verbatim>\<open>elf_jump_to_kernel\<close> enters the kernel, so what
  \<open>Handover\<close> shows of \<^verbatim>\<open>loader_kernel\<close> holds of every run that ends there, with or without the netboot client before it.
\<close>

section \<open>The parts that never enter the kernel\<close>

lemma no_jump_halts [no_jump_intros]:
  "no_jump (stop Hung)" "no_jump narrow_panic" "no_jump (efi_exit B status)" "no_jump (on_mem g)" "no_jump (reset_system B r)"
  by (auto simp: no_jump_def stop_def narrow_panic_def efi_exit_def on_mem_def reset_system_def split: prod.splits option.splits if_splits)

lemma no_jump_for_each [no_jump_intros]: "(\<And>x. no_jump (body x)) \<Longrightarrow> no_jump (for_each body xs)"
  by (induction xs) (auto intro!: no_jump_intros)

lemma no_jump_repeat_run [no_jump_intros]: "no_jump body \<Longrightarrow> no_jump (repeat_run Hung body again)"
  unfolding no_jump_def repeat_run_def by (auto split: option.splits dest!: do_while_found)

lemma no_jump_let [no_jump_intros]: "(\<And>x. no_jump (f x)) \<Longrightarrow> no_jump (Let a f)"
  by simp

lemma no_jump_print [no_jump_intros]: "no_jump (efi_printf B fmt args)"
  by (auto simp: no_jump_def efi_printf_def fwcall_def ret_def andthen_def split: prod.splits option.splits sum.splits)

lemma no_jump_device_path [no_jump_intros]:
  "no_jump (uefi_devpath_get_string B p)" "no_jump (print_wide B p)" "no_jump (uefi_devpath_from_path B H d n)"
  "no_jump (uefi_handle_get_string B V h)" "no_jump (uefi_read_keystroke B)"
proof -
  have sz: "no_jump (uefi_devpath_size H d)" for d :: addr
    by (auto simp: uefi_devpath_size_def split: option.splits sum.splits intro!: no_jump_intros)
  show str: "no_jump (uefi_devpath_get_string B p)" for p unfolding uefi_devpath_get_string_def by (intro no_jump_intros)
  show "no_jump (print_wide B p)" unfolding print_wide_def by (intro no_jump_intros)
  show "no_jump (uefi_devpath_from_path B H d n)"
    unfolding uefi_devpath_from_path_def uefi_devpath_set_node_length_def uefi_devpath_set_end_def uefi_devpath_append_def
      uefi_devpath_from_file_handle_def by (intro no_jump_intros sz)
  show "no_jump (uefi_handle_get_string B V h)" unfolding uefi_handle_get_string_def by (intro no_jump_intros str)
  show "no_jump (uefi_read_keystroke B)" unfolding uefi_read_keystroke_def keystroke_round_def by (intro no_jump_intros)
qed

lemma no_jump_devices [no_jump_intros]: "no_jump (uefi_io_reconnect B)" "no_jump (uefi_driver_start B H V img path)"
  unfolding uefi_io_reconnect_def reconnect_handle_def uefi_io_parse_handles_def parse_handle_def parse_protocol_def parse_user_def add_type_def
    uefi_driver_start_def
  by (intro no_jump_intros)+

lemma no_jump_buffers [no_jump_intros]:
  "no_jump (net_bufpool_return B d)" "no_jump (net_bufpool_init B)" "no_jump (net_bufpool_get n)"
  unfolding net_bufpool_init_def net_bufpool_return_def net_bufpool_get_def by (intro no_jump_intros)+

lemma no_jump_send [no_jump_intros]:
  "no_jump (net_icmp6_send B L mac d n a)" "no_jump (net_udp6_send B L mac d n a dest_port source_port)" "no_jump (netboot_cmd_send B L cmd d n)"
  unfolding netboot_cmd_send_def net_icmp6_send_def net_udp6_send_def net_eth_send_def Let_def by (intro no_jump_intros)+

lemma no_jump_netboot [no_jump_intros]: "no_jump (netboot_cmd_receive B L msg)"
  unfolding netboot_cmd_receive_def netboot_transfer_def netboot_fragment_def netboot_file_done_def netboot_command_def netboot_fwsetup_def
    netboot_send_init_def stop_polling_def update_netboot_def
  by (intro no_jump_intros)

lemma no_jump_receive [no_jump_intros]: "no_jump (net_eth_receive B L packet n)"
  unfolding net_eth_receive_def net_eth_dispatch_def net_udp6_receive_def net_icmp6_receive_def by (intro no_jump_intros)

lemma no_jump_interface [no_jump_intros]: "no_jump (net_get_protocol B V)" "no_jump (net_ip6_init B L e mac)"
proof -
  have t: "no_jump (nic_try B h path)" for h path
    unfolding nic_try_def nic_start_def nic_link_def nic_failed_def by (intro no_jump_intros)
  have "no_jump (nic_loop B paths previous i hs)" for paths previous i hs
  proof (induction hs arbitrary: previous i)
    case (Cons hp hs)
    then show ?case by (cases hp) (simp only: nic_loop.simps same_device_def no_jump_intros t)
  qed (simp only: nic_loop.simps no_jump_intros)
  moreover have "no_jump (nic_paths B V hs)" for hs by (induction hs) (simp_all only: nic_paths.simps no_jump_intros)
  ultimately show "no_jump (net_get_protocol B V)" unfolding net_get_protocol_def by (intro no_jump_intros)
  show "no_jump (net_ip6_init B L e mac)" unfolding net_ip6_init_def net_add_mcast_filter_def by (intro no_jump_intros)
qed

lemma no_jump_net [no_jump_intros]: "no_jump (net_kernel_load B L V)"
  unfolding net_kernel_load_def net_open_def net_close_def poll_round_def net_poll_def poll_advertise_def poll_reclaim_def poll_receive_def
    net_advertise_def net_timer_set_def net_timer_expired_def
  by (intro no_jump_intros)

lemma no_jump_start [no_jump_intros]: "no_jump (uefi_init B)" "no_jump (boot_choice B)"
  unfolding uefi_init_def loader_paging_wp_disable_def boot_choice_def by (intro no_jump_intros)+

section \<open>Every way into the kernel\<close>

lemma andthen_no_jump_Jumped:
  assumes "andthen m f s = Inl (Jumped i e p, t)" and "\<And>x. no_jump (f x)"
  shows "m s = Inl (Jumped i e p, t)"
  using assms by (auto simp: no_jump_def andthen_def split: sum.splits prod.splits)

text \<open>
  The run of \<^verbatim>\<open>efi_main\<close> up to \<^verbatim>\<open>loader_kernel\<close>, the netboot client included; the result tells whether \<^verbatim>\<open>loader_kernel\<close> is called next.
\<close>

definition until_kernel :: "'w env \<Rightarrow> globals \<Rightarrow> net_layout \<Rightarrow> devpath_header \<Rightarrow> literals \<Rightarrow> ('w, 'z, bool) nb_run" where
  "until_kernel B G L H V =
     andthen (uefi_init B) (\<lambda>_.
     andthen (if 1 < drop_bit 16 (FirmwareRevision (SYS B))
              then andthen (uefi_driver_start B H V (handle G) (btrfs_text V)) (\<lambda>_. ret ()) else ret ()) (\<lambda>_.
     andthen (uefi_io_reconnect B) (\<lambda>_.
     andthen (efi_printf B boot_menu []) (\<lambda>_.
     andthen (boot_choice B) (\<lambda>c.
     andthen (fwcall (\<lambda>w. ClearScreen (BS B) w)) (\<lambda>_.
     andthen (if c = 110
              then andthen (net_kernel_load B L V) (\<lambda>_. andthen (fwcall (\<lambda>w. ClearScreen (BS B) w)) (\<lambda>_. ret ()))
              else ret ()) (\<lambda>_.
     ret (c = 110 \<or> c = 100))))))))"

lemma efi_main_split:
  "(efi_main B G L H V :: ('w, 'z, efi_status) nb_run) = andthen (until_kernel B G L H V) (\<lambda>go. andthen (if go then loader_kernel B G V else ret ()) (\<lambda>_. ret EFI_SUCCESS))"
proof -
  have "andthen (if c = 110 then andthen (net_kernel_load B L V) (\<lambda>_. andthen (fwcall (\<lambda>w. ClearScreen (BS B) w)) (\<lambda>_. loader_kernel B G V))
        else if c = 100 then loader_kernel B G V else ret ()) (\<lambda>_. ret EFI_SUCCESS) =
      (andthen (if c = 110 then andthen (net_kernel_load B L V) (\<lambda>_. andthen (fwcall (\<lambda>w. ClearScreen (BS B) w)) (\<lambda>_. ret ())) else ret ()) (\<lambda>_.
      andthen (ret (c = 110 \<or> c = 100)) (\<lambda>go. andthen (if go then loader_kernel B G V else ret ()) (\<lambda>_. ret EFI_SUCCESS))) :: ('w, 'z, efi_status) nb_run)" for c :: u8
    by (simp add: andthen_assoc ret_andthen)
  then show ?thesis unfolding efi_main_def until_kernel_def by (simp only: andthen_assoc)
qed

lemma no_jump_until_kernel: "no_jump (until_kernel B G L H V)"
  unfolding until_kernel_def by (intro no_jump_intros)

lemma efi_main_Jumped:
  assumes "efi_main B G L H V s = Inl (Jumped i e p, t)"
  obtains u where "until_kernel B G L H V s = Inr (True, u)" and "loader_kernel B G V u = Inl (Jumped i e p, t)"
proof -
  obtain go u where u: "until_kernel B G L H V s = Inr (go, u)"
      and k: "andthen (if go then loader_kernel B G V else ret ()) (\<lambda>_. ret EFI_SUCCESS) u = Inl (Jumped i e p, t)"
    using assms no_jump_until_kernel unfolding efi_main_split by (rule andthen_JumpedE)
  have "(if go then loader_kernel B G V else ret ()) u = Inl (Jumped i e p, t)"
    using k by (rule andthen_no_jump_Jumped) (rule no_jump_basic)
  with u that show ?thesis by (cases go) (auto simp: ret_def)
qed

section \<open>A run from power-on to the kernel\<close>

text \<open>On the firmware of \<open>Sample_Boot\<close>, whose user picks the local disk.\<close>

lemma boot_calls:
  "\<not> EFI_ERROR boot_env EFI_SUCCESS" "SetWatchdogTimer (BS boot_env) w = (EFI_SUCCESS, w)"
  "ClearScreen (BS boot_env) = (\<lambda>w. (EFI_SUCCESS, w\<lparr>screen := []\<rparr>))" "WaitForKey (BS boot_env) w = (EFI_SUCCESS, w)"
  "ReadKeyStroke boot_env w = ((EFI_SUCCESS, if inbox w = [] then 100 else 110), w)" "FirmwareRevision (SYS boot_env) = 0x10000"
  by (simp_all add: boot_env_def sample_env_def sample_bs_def)

lemma boot_key:
  fixes s :: "(sample_state, 'z) machine_scheme"
  shows "boot_choice boot_env s = Inr (if inbox (fw s) = [] then 100 else 110, s)"
proof -
  let ?k = "(if inbox (fw s) = [] then 100 else 110)"
  have "keystroke_round boot_env s = Inr (?k, s)"
    by (simp add: keystroke_round_def andthen_Inr fwcall_def boot_calls EFIERR_def)
  then have "repeat_run Hung (keystroke_round boot_env) (\<lambda>key. key = 0) s = Inr (?k, s)"
    by (subst repeat_run_last [of _ _ 0]) (simp_all add: is_last_def)
  then have "uefi_read_keystroke boot_env s = Inr (ucast (?k :: u16), s)" by (simp add: uefi_read_keystroke_def andthen_Inr)
  then show ?thesis unfolding boot_choice_def
    by (cases "inbox (fw s) = []") (subst repeat_run_last [of _ _ 0]; simp add: is_last_def)+
qed

lemma boot_menu_printed:
  fixes s :: "(sample_state, 'z) machine_scheme"
  shows "\<exists>k x. efi_printf boot_env boot_menu [] s = Inr (k, s\<lparr>fw := (fw s)\<lparr>screen := x\<rparr>\<rparr>)"
proof -
  have "\<exists>x. say (callback boot_env) [boot_menu] (fw s) = (fw s)\<lparr>screen := x\<rparr>"
    by (rule say_inv) (auto simp: boot_env_def sample_env_def intro: exI [of _ "screen (fw s)"])
  moreover have "efi_printf boot_env boot_menu [] s = Inr (int (length boot_menu), s\<lparr>fw := say (callback boot_env) [boot_menu] (fw s)\<rparr>)"
    by (rule efi_printf_plain) (simp_all add: boot_menu_def)
  ultimately show ?thesis by metis
qed

text \<open>The loader up to the choice of the user.\<close>

lemma boot_until_choice:
  fixes s :: "(sample_state, 'z) netboot_machine_scheme"
  obtains s2 where "mem s2 = mem s" and "fw s2 = (fw s)\<lparr>screen := []\<rparr>" and
    "until_kernel boot_env G L H V s =
       andthen (if inbox (fw s) = [] then ret () else andthen (net_kernel_load boot_env L V) (\<lambda>_. andthen (fwcall (\<lambda>w. ClearScreen (BS boot_env) w)) (\<lambda>_. ret ())))
         (\<lambda>_. ret True) s2"
proof -
  obtain s1 where init: "uefi_init boot_env s = Inr ((), s1)" and s1: "mem s1 = mem s" "fw s1 = (fw s)\<lparr>screen := []\<rparr>"
    by (simp add: uefi_init_def loader_paging_wp_disable_def fwcall_def andthen_Inr EFIERR_def boot_calls)
  have io: "uefi_io_reconnect boot_env s1 = Inr ((), s1)"
    by (simp add: uefi_io_reconnect_def andthen_Inr fwcall_def boot_fields EFIERR_def)
  obtain k x where menu: "efi_printf boot_env boot_menu [] s1 = Inr (k, s1\<lparr>fw := (fw s)\<lparr>screen := x\<rparr>\<rparr>)"
    using boot_menu_printed [of s1] s1(2) by auto
  show ?thesis
    by (rule that [of "s1\<lparr>fw := (fw s)\<lparr>screen := []\<rparr>\<rparr>"])
      (simp_all add: s1 until_kernel_def andthen_Inr init io menu boot_key boot_calls fwcall_def ret_andthen)
qed

lemma boot_from_power_on:
  fixes s :: "(sample_state, 'z) netboot_machine_scheme"
  assumes "next_page (fw s) = 16" and "kernel_literal boot_own V s" and "map_of (files (fw s)) kernel_name = Some boot_image"
    and "inbox (fw s) = []" and "region (header_local G) 64 \<subseteq> boot_own (fw s)"
  shows "\<exists>info root u t. efi_main boot_env G L H V s = Inl (Jumped info 0xFFFFFFFF80000000 root, t) \<and> until_kernel boot_env G L H V s = Inr (True, u) \<and>
     kernel_literal boot_own V u \<and> kernel_file boot_env boot_own boot_pos 80 G V boot_image u \<and> region (header_local G) 64 \<subseteq> boot_own (fw u)"
proof -
  obtain u where u: "mem u = mem s" "fw u = (fw s)\<lparr>screen := []\<rparr>" and r: "until_kernel boot_env G L H V s = Inr (True, u)"
    using boot_until_choice [of s G L H V] assms(4) by (simp add: ret_andthen) blast
  have own: "boot_own (fw u) = boot_own (fw s)" by (simp add: u boot_own_def)
  have lit: "kernel_literal boot_own V u" using assms(2) own by (simp add: kernel_literal_def u(1))
  have kernel: "map_of (files (fw u)) kernel_name = Some boot_image" using assms(3) by (simp add: u)
  have hl: "region (header_local G) 64 \<subseteq> boot_own (fw u)" using assms(5) by (simp add: own)
  have l: "pages_left boot_env 1000 (fw u)" "pages_left boot_env 1 (fw u)" by (simp_all add: boot_pages_left u assms(1))
  obtain info root t where "loader_kernel boot_env G V u = Inl (Jumped info 0xFFFFFFFF80000000 root, t)"
    using boot_run [OF l(1) hl lit kernel] by blast
  then have "efi_main boot_env G L H V s = Inl (Jumped info 0xFFFFFFFF80000000 root, t)"
    by (simp add: efi_main_split andthen_Inr r) (simp add: andthen_def)
  then show ?thesis using r lit hl boot_kernel_file [OF l(2) lit kernel] by blast
qed

end
