(* ===== verification/Layout.thy ===== *)
theory Layout
  imports Loader "HOL-Library.Sublist"
begin

text \<open>
  The layout of the C structures of the repository's headers. The operations of the other theories access the members of a structure at
  numeric offsets; here the structures are written down as the headers declare them, the offsets are computed by the rules of the
  x86-64 ABI, and the two are shown to agree; what an operation leaves in memory can then be stated member by member.
\<close>

section \<open>Types and their layout\<close>

text \<open>
  Unsigned integers, pointers and enumerations of a number of bytes (an enumeration has four), arrays of bytes, and structures, packed or not.
\<close>

datatype ctype = UInt nat | Octets nat | Struct bool fields
  and fields = Done | Field string ctype fields

primrec alignof :: "ctype \<Rightarrow> nat" and fields_align :: "fields \<Rightarrow> nat" where
  "alignof (UInt n) = n"
| "alignof (Octets n) = 1"
| "alignof (Struct packed fs) = (if packed then 1 else fields_align fs)"
| "fields_align Done = 1"
| "fields_align (Field name t fs) = max (alignof t) (fields_align fs)"

definition round_up :: "nat \<Rightarrow> nat \<Rightarrow> nat" where
  "round_up a n = (n + a - 1) div a * a"

definition start_of :: "bool \<Rightarrow> ctype \<Rightarrow> nat \<Rightarrow> nat" where
  "start_of packed t off = (if packed then off else round_up (alignof t) off)"

primrec sizeof :: "ctype \<Rightarrow> nat" and fields_end :: "fields \<Rightarrow> bool \<Rightarrow> nat \<Rightarrow> nat" where
  "sizeof (UInt n) = n"
| "sizeof (Octets n) = n"
| "sizeof (Struct packed fs) = (if packed then fields_end fs True 0 else round_up (fields_align fs) (fields_end fs False 0))"
| "fields_end Done packed off = off"
| "fields_end (Field name t fs) packed off = fields_end fs packed (start_of packed t off + sizeof t)"

fun field_at :: "fields \<Rightarrow> bool \<Rightarrow> nat \<Rightarrow> string \<Rightarrow> (nat \<times> ctype) option" where
  "field_at Done packed off name = None"
| "field_at (Field f t fs) packed off name =
     (if f = name then Some (start_of packed t off, t) else field_at fs packed (start_of packed t off + sizeof t) name)"

text \<open>The offset and the type of a member of a member, as in \<^verbatim>\<open>p->ip6.src\<close>.\<close>

fun locate :: "ctype \<Rightarrow> string list \<Rightarrow> (nat \<times> ctype) option" where
  "locate t [] = Some (0, t)"
| "locate (Struct packed fs) (name # names) =
     (case field_at fs packed 0 name of
        None \<Rightarrow> None
      | Some (off, t) \<Rightarrow> (case locate t names of None \<Rightarrow> None | Some (off', t') \<Rightarrow> Some (off + off', t')))"
| "locate t (name # names) = None"

definition offsetof :: "ctype \<Rightarrow> string list \<Rightarrow> nat" where
  "offsetof t names = (case locate t names of None \<Rightarrow> 0 | Some (off, t') \<Rightarrow> off)"

text \<open>The bytes of a member of the structure at an address.\<close>

definition member :: "mem \<Rightarrow> addr \<Rightarrow> ctype \<Rightarrow> string list \<Rightarrow> u8 list" where
  "member m a t names = (case locate t names of None \<Rightarrow> [] | Some (off, t') \<Rightarrow> load_bytes m (a + of_nat off) (sizeof t'))"

section \<open>What holds of every layout\<close>

lemma round_up_le: "0 < a \<Longrightarrow> n \<le> round_up a n"
proof -
  assume a: "0 < a"
  have "(n + a - 1) mod a \<le> a - 1" using a by (simp add: less_Suc_eq_le [symmetric])
  then show ?thesis unfolding round_up_def using a div_mult_mod_eq [of "n + a - 1" a] by linarith
qed

lemma round_up_dvd: "a dvd round_up a n"
  by (simp add: round_up_def)

text \<open>Structures without integers of no bytes, as all structures of the program are.\<close>

primrec sized :: "ctype \<Rightarrow> bool" and fields_sized :: "fields \<Rightarrow> bool" where
  "sized (UInt n) = (0 < n)"
| "sized (Octets n) = True"
| "sized (Struct packed fs) = fields_sized fs"
| "fields_sized Done = True"
| "fields_sized (Field name t fs) = (sized t \<and> fields_sized fs)"

lemma align_pos: "sized t \<Longrightarrow> 0 < alignof t" "fields_sized fs \<Longrightarrow> 0 < fields_align fs"
  by (induction t and fs) auto

lemma start_of_le: "sized t \<Longrightarrow> off \<le> start_of packed t off"
  by (simp add: start_of_def round_up_le align_pos)

lemma fields_end_le: "fields_sized fs \<Longrightarrow> off \<le> fields_end fs packed off"
proof (induction fs arbitrary: off rule: fields.induct [of "\<lambda>t. True"])
  case (Field name t fs)
  then have "off \<le> start_of packed t off + sizeof t" using start_of_le [of t off packed] by simp
  also have "\<dots> \<le> fields_end fs packed (start_of packed t off + sizeof t)" using Field by simp
  finally show ?case by simp
qed simp_all

lemma field_at_inside:
  "fields_sized fs \<Longrightarrow> field_at fs packed off name = Some (k, t) \<Longrightarrow> off \<le> k \<and> k + sizeof t \<le> fields_end fs packed off \<and> sized t"
proof (induction fs packed off name rule: field_at.induct)
  case (2 f u fs packed off name)
  have le: "off \<le> start_of packed u off" using 2(2) by (simp add: start_of_le)
  show ?case
  proof (cases "f = name")
    case True
    then show ?thesis using 2(2,3) le fields_end_le [of fs "start_of packed u off + sizeof u" packed] by auto
  next
    case False
    then show ?thesis using 2 le by auto
  qed
qed simp

lemma field_at_disjoint:
  "fields_sized fs \<Longrightarrow> field_at fs packed off f = Some (k, t) \<Longrightarrow> field_at fs packed off g = Some (k', t') \<Longrightarrow> f \<noteq> g \<Longrightarrow>
     k + sizeof t \<le> k' \<or> k' + sizeof t' \<le> k"
proof (induction fs packed off f rule: field_at.induct)
  case (2 f0 u fs packed off f)
  let ?next = "start_of packed u off + sizeof u"
  have beyond: "?next \<le> j" if "field_at fs packed ?next name = Some (j, v)" for name j v
    using field_at_inside [OF _ that] 2(2) by simp
  show ?case
  proof (cases "f0 = f \<or> f0 = g")
    case True
    then show ?thesis
    proof
      assume f: "f0 = f"
      then show ?thesis using beyond [of g k' t'] 2(3,4,5) by auto
    next
      assume g: "f0 = g"
      then show ?thesis using beyond [of f k t] 2(3,4,5) by auto
    qed
  next
    case False
    then show ?thesis using 2 by auto
  qed
qed simp

lemma locate_inside: "sized T \<Longrightarrow> locate T names = Some (k, t) \<Longrightarrow> k + sizeof t \<le> sizeof T \<and> sized t"
proof (induction T names arbitrary: k rule: locate.induct)
  case (2 packed fs name names)
  from 2(3) obtain off u off' where f: "field_at fs packed 0 name = Some (off, u)" and u: "locate u names = Some (off', t)" "k = off + off'"
    by (auto split: option.splits)
  have fs: "fields_sized fs" using 2(2) by simp
  have i: "off + sizeof u \<le> fields_end fs packed 0" "sized u" using field_at_inside [OF fs f] by simp_all
  have "off' + sizeof t \<le> sizeof u \<and> sized t" using 2(1) [OF f refl i(2) u(1)] .
  moreover have "fields_end fs packed 0 \<le> sizeof (Struct packed fs)" using round_up_le [OF align_pos(2) [OF fs]] by simp
  ultimately show ?case using i u(2) by linarith
qed auto

lemma locate_disjoint:
  "sized T \<Longrightarrow> locate T names = Some (k, t) \<Longrightarrow> locate T names' = Some (k', t') \<Longrightarrow> \<not> prefix names names' \<Longrightarrow> \<not> prefix names' names \<Longrightarrow>
     k + sizeof t \<le> k' \<or> k' + sizeof t' \<le> k"
proof (induction T names arbitrary: k names' k' rule: locate.induct)
  case (2 packed fs name names)
  obtain name' rest' where names': "names' = name' # rest'" using 2(6) by (cases names') auto
  from 2(3) obtain off u j where f: "field_at fs packed 0 name = Some (off, u)" and u: "locate u names = Some (j, t)" "k = off + j"
    by (auto split: option.splits)
  from 2(4) obtain off' u' j' where f': "field_at fs packed 0 name' = Some (off', u')" and u': "locate u' rest' = Some (j', t')" "k' = off' + j'"
    unfolding names' by (auto split: option.splits)
  have fs: "fields_sized fs" using 2(2) by simp
  have sz: "sized u" "sized u'" using field_at_inside [OF fs f] field_at_inside [OF fs f'] by simp_all
  show ?case
  proof (cases "name = name'")
    case True
    then have same: "off' = off" "u' = u" using f f' by simp_all
    have "\<not> prefix names rest'" "\<not> prefix rest' names" using 2(5,6) True names' by simp_all
    from 2(1) [OF f refl sz(1) u(1) u'(1) [unfolded same] this] show ?thesis using u(2) u'(2) same by auto
  next
    case False
    with field_at_disjoint [OF fs f f'] show ?thesis
      using locate_inside [OF sz(1) u(1)] locate_inside [OF sz(2) u'(1)] u(2) u'(2) by auto
  qed
qed simp_all

lemma regions_in_struct:
  assumes "k + n \<le> k'" and "k' + n' \<le> 2 ^ 64"
  shows "region (a + of_nat k) n \<inter> region (a + of_nat k') n' = {}"
proof (rule equals0I)
  fix x assume "x \<in> region (a + of_nat k) n \<inter> region (a + of_nat k') n'"
  then obtain i j where i: "i < n" "x = a + of_nat k + of_nat i" and j: "j < n'" "x = a + of_nat k' + of_nat j"
    by (metis IntD1 IntD2 regionE)
  then have "(of_nat (k + i) :: addr) = of_nat (k' + j)" by (simp add: add.assoc)
  moreover have "k + i < 2 ^ 64" "k' + j < 2 ^ 64" using assms i(1) j(1) by linarith+
  ultimately have "k + i = k' + j" by (metis unat_of_nat64)
  then show False using assms(1) i(1) by linarith
qed

text \<open>Writing a member changes that member and no other one.\<close>

lemma member_store:
  assumes "sized T" and "sizeof T \<le> 2 ^ 64" and "locate T names = Some (k, t)" and "length bs = sizeof t"
  shows "member (store_bytes m (a + of_nat k) bs) a T names = bs"
    and "\<not> prefix names names' \<Longrightarrow> \<not> prefix names' names \<Longrightarrow> member (store_bytes m (a + of_nat k) bs) a T names' = member m a T names'"
proof -
  note in_T = locate_inside [OF assms(1,3)]
  then show "member (store_bytes m (a + of_nat k) bs) a T names = bs"
    using assms(2,4) by (simp add: member_def assms(3) load_store_same)
  assume p: "\<not> prefix names names'" "\<not> prefix names' names"
  show "member (store_bytes m (a + of_nat k) bs) a T names' = member m a T names'"
  proof (cases "locate T names'")
    case (Some kt)
    obtain k' t' where k': "locate T names' = Some (k', t')" using Some by (cases kt) simp
    have "region (a + of_nat k') (sizeof t') \<inter> region (a + of_nat k) (sizeof t) = {}"
      using locate_disjoint [OF assms(1,3) k' p] locate_inside [OF assms(1) k'] in_T assms(2)
        regions_in_struct [of k "sizeof t" k' "sizeof t'" a] regions_in_struct [of k' "sizeof t'" k "sizeof t" a] by auto
    then show ?thesis by (simp add: member_def k' load_store_disj assms(4))
  qed (simp add: member_def)
qed

section \<open>The structures of the headers\<close>

fun fields_of :: "(string \<times> ctype) list \<Rightarrow> fields" where
  "fields_of [] = Done"
| "fields_of ((name, t) # fs) = Field name t (fields_of fs)"

abbreviation packed_struct :: "(string \<times> ctype) list \<Rightarrow> ctype" where
  "packed_struct fs \<equiv> Struct True (fields_of fs)"

abbreviation plain_struct :: "(string \<times> ctype) list \<Rightarrow> ctype" where
  "plain_struct fs \<equiv> Struct False (fields_of fs)"

text \<open>\<^verbatim>\<open>elf64.h\<close>\<close>

definition elf64_addr_t :: ctype where "elf64_addr_t = UInt 8"
definition elf64_off_t :: ctype where "elf64_off_t = UInt 8"
definition elf64_half_t :: ctype where "elf64_half_t = UInt 2"
definition elf64_word_t :: ctype where "elf64_word_t = UInt 4"
definition elf64_xword_t :: ctype where "elf64_xword_t = UInt 8"

lemmas elf64_types = elf64_addr_t_def elf64_off_t_def elf64_half_t_def elf64_word_t_def elf64_xword_t_def

definition elf64_ehdr_t :: ctype where
  "elf64_ehdr_t = packed_struct
     [(''e_ident'', Octets 16), (''e_type'', elf64_half_t), (''e_machine'', elf64_half_t), (''e_version'', elf64_word_t),
      (''e_entry'', elf64_addr_t), (''e_phoff'', elf64_off_t), (''e_shoff'', elf64_off_t), (''e_flags'', elf64_word_t),
      (''e_ehsize'', elf64_half_t), (''e_phentsize'', elf64_half_t), (''e_phnum'', elf64_half_t), (''e_shentsize'', elf64_half_t),
      (''e_shnum'', elf64_half_t), (''e_shstrndx'', elf64_half_t)]"

definition elf64_phdr_t :: ctype where
  "elf64_phdr_t = packed_struct
     [(''p_type'', elf64_word_t), (''p_flags'', elf64_word_t), (''p_offset'', elf64_off_t), (''p_vaddr'', elf64_addr_t),
      (''p_paddr'', elf64_addr_t), (''p_filesz'', elf64_xword_t), (''p_memsz'', elf64_xword_t), (''p_align'', elf64_xword_t)]"

text \<open>\<^verbatim>\<open>boot/info.h\<close>\<close>

definition info_t :: ctype where
  "info_t = plain_struct
     [(''handle'', UInt 8), (''st'', UInt 8), (''image'', UInt 8), (''efi_memory_map'', UInt 8), (''efi_memory_map_entries'', UInt 8),
      (''efi_memory_map_key'', UInt 8), (''efi_memory_map_descriptor_size'', UInt 8), (''rsdp'', UInt 8), (''gop_mode'', UInt 8),
      (''copy'', UInt 8), (''copy_size'', UInt 8)]"

text \<open>\<^verbatim>\<open>netboot/eth.h\<close>, \<^verbatim>\<open>netboot/ip6.h\<close>, \<^verbatim>\<open>netboot/udp6.h\<close> and \<^verbatim>\<open>netboot/icmp6.h\<close>\<close>

definition ethhdr :: ctype where
  "ethhdr = plain_struct [(''h_dest'', Octets 6), (''h_source'', Octets 6), (''h_protocol'', UInt 2)]"

definition in6_addr :: ctype where
  "in6_addr = packed_struct [(''s6_addr'', Octets 16)]"

definition ip6_header_t :: ctype where
  "ip6_header_t = packed_struct
     [(''ver_tc_flow'', UInt 4), (''length'', UInt 2), (''next_header'', UInt 1), (''hop_limit'', UInt 1), (''src'', in6_addr), (''dst'', in6_addr)]"

definition ip6_packet_t :: ctype where
  "ip6_packet_t = packed_struct [(''eth'', ethhdr), (''ip6'', ip6_header_t), (''data'', Octets 0)]"

definition udp_header_t :: ctype where
  "udp_header_t = packed_struct [(''src_port'', UInt 2), (''dest_port'', UInt 2), (''length'', UInt 2), (''checksum'', UInt 2)]"

definition udp_packet_t :: ctype where
  "udp_packet_t = plain_struct [(''eth'', Octets 14), (''ip6'', ip6_header_t), (''udp'', udp_header_t), (''data'', Octets 0)]"

definition icmp6_header :: ctype where
  "icmp6_header = packed_struct [(''type'', UInt 1), (''code'', UInt 1), (''checksum'', UInt 2)]"

definition icmp6_ndp :: ctype where
  "icmp6_ndp = packed_struct
     [(''type'', UInt 1), (''code'', UInt 1), (''checksum'', UInt 2), (''flags'', UInt 4), (''target'', Octets 16), (''options'', Octets 0)]"

text \<open>The local \<^verbatim>\<open>reply\<close> of \<^verbatim>\<open>net_icmp6_receive\<close>\<close>

definition ndp_reply :: ctype where
  "ndp_reply = plain_struct [(''header'', icmp6_ndp), (''options'', Octets 8)]"

text \<open>\<^verbatim>\<open>netboot/netboot.h\<close>\<close>

definition vy_netboot_message_t :: ctype where
  "vy_netboot_message_t = plain_struct [(''cmd'', UInt 4), (''message_length'', UInt 8), (''data'', Octets 0)]"

definition vy_netboot_file_info_t :: ctype where
  "vy_netboot_file_info_t = plain_struct
     [(''file_size'', UInt 8), (''data_per_packet'', UInt 8), (''packets'', UInt 8), (''path_len'', UInt 8), (''path'', Octets 0)]"

definition vy_netboot_file_fragment_t :: ctype where
  "vy_netboot_file_fragment_t = plain_struct [(''fragment_id'', UInt 8), (''data_len'', UInt 8), (''data'', Octets 0)]"

definition vy_netboot_ack_t :: ctype where
  "vy_netboot_ack_t = plain_struct [(''type'', UInt 4), (''file_fragment'', UInt 8)]"

lemmas struct_defs = elf64_types elf64_ehdr_t_def elf64_phdr_t_def info_t_def ethhdr_def in6_addr_def ip6_header_t_def ip6_packet_t_def
  udp_header_t_def udp_packet_t_def icmp6_header_def icmp6_ndp_def ndp_reply_def vy_netboot_message_t_def vy_netboot_file_info_t_def
  vy_netboot_file_fragment_t_def vy_netboot_ack_t_def

lemmas layout_simps = start_of_def round_up_def offsetof_def

section \<open>Properties\<close>

text \<open>The member of \<^verbatim>\<open>info_t\<close> a field of the model stands for.\<close>

fun info_member :: "info_field \<Rightarrow> string" where
  "info_member Handle = ''handle''"
| "info_member St = ''st''"
| "info_member Loaded_image = ''image''"
| "info_member Efi_memory_map = ''efi_memory_map''"
| "info_member Efi_memory_map_entries = ''efi_memory_map_entries''"
| "info_member Efi_memory_map_key = ''efi_memory_map_key''"
| "info_member Efi_memory_map_descriptor_size = ''efi_memory_map_descriptor_size''"
| "info_member Rsdp = ''rsdp''"
| "info_member Gop_mode = ''gop_mode''"
| "info_member Copy = ''copy''"
| "info_member Copy_size = ''copy_size''"

lemma info_offset_member: "info_offset f = of_nat (offsetof info_t [info_member f])"
  by (cases f) (simp_all add: struct_defs layout_simps info_offset.simps)

lemma ehdr_members:
  "read_ehdr m a =
     (let h = \<lambda>f. member m a elf64_ehdr_t [f] in
      \<lparr>e_ident = h ''e_ident'', e_type = le_word (h ''e_type''), e_machine = le_word (h ''e_machine''), e_version = le_word (h ''e_version''), e_entry =
      le_word (h ''e_entry''), e_phoff = le_word (h ''e_phoff''), e_shoff = le_word (h ''e_shoff''), e_flags = le_word (h
      ''e_flags''), e_ehsize = le_word (h ''e_ehsize''), e_phentsize = le_word (h ''e_phentsize''), e_phnum = le_word (h
      ''e_phnum''), e_shentsize = le_word (h ''e_shentsize''), e_shnum = le_word (h ''e_shnum''), e_shstrndx = le_word (h
      ''e_shstrndx'')\<rparr>)"
  by (simp add: read_ehdr_def member_def struct_defs layout_simps rd16_def rd32_def rd64_def)

lemma phdr_members:
  "read_phdr m a =
     (let h = \<lambda>f. member m a elf64_phdr_t [f] in
      \<lparr>p_type = le_word (h ''p_type''), p_flags = le_word (h ''p_flags''), p_offset = le_word (h ''p_offset''), p_vaddr =
      le_word (h ''p_vaddr''), p_paddr = le_word (h ''p_paddr''), p_filesz = le_word (h ''p_filesz''), p_memsz = le_word (h
      ''p_memsz''), p_align = le_word (h ''p_align'')\<rparr>)"
  by (simp add: read_phdr_def member_def struct_defs layout_simps rd16_def rd32_def rd64_def)

lemma ack_members:
  "member (ack_init L typ m) (ack_local L) vy_netboot_ack_t [''type''] = le_bytes 4 typ"
  "member (ack_init L typ m) (ack_local L) vy_netboot_ack_t [''file_fragment''] = replicate 8 0"
proof -
  let ?T = vy_netboot_ack_t and ?a = "ack_local L"
  have T: "sized ?T" "sizeof ?T \<le> 2 ^ 64" and l: "locate ?T [''type''] = Some (0, UInt 4)" "locate ?T [''file_fragment''] = Some (8, UInt 8)"
    by (simp_all add: struct_defs layout_simps)
  have m: "ack_init L typ m = store_bytes (store_bytes m (?a + of_nat 0) (le_bytes 4 typ)) (?a + of_nat 8) (le_bytes 8 (0 :: u64))"
    by (simp add: ack_init_def wr32_def wr64_def)
  have "le_bytes 8 (0 :: u64) = replicate 8 0" by (simp add: le_bytes_numeral numeral_eq_Suc)
  then show "member (ack_init L typ m) ?a ?T [''file_fragment''] = replicate 8 0"
    unfolding m using member_store(1) [OF T l(2), of "le_bytes 8 (0 :: u64)"] by simp
  show "member (ack_init L typ m) ?a ?T [''type''] = le_bytes 4 typ"
    unfolding m using member_store(2) [OF T l(2), of "le_bytes 8 (0 :: u64)" "[''type'']"] member_store(1) [OF T l(1), of "le_bytes 4 typ"] by simp
qed

text \<open>
  The encodings the other theories use for the messages that describe a file and bring a part of it, for the frame of a datagram and for the
  answer to a solicitation are the structures of the headers.
\<close>

lemma description_members:
  assumes "load_bytes m info (33 + length path) = file_description fsize per_packet packets path"
  shows "member m info vy_netboot_file_info_t [''file_size''] = le_bytes 8 (of_nat fsize :: u64)"
    "member m info vy_netboot_file_info_t [''data_per_packet''] = le_bytes 8 (of_nat per_packet :: u64)"
    "member m info vy_netboot_file_info_t [''packets''] = le_bytes 8 (of_nat packets :: u64)"
    "member m info vy_netboot_file_info_t [''path_len''] = le_bytes 8 (of_nat (length path) :: u64)"
    "load_bytes m (info + of_nat (offsetof vy_netboot_file_info_t [''path''])) (length path + 1) = map of_char path @ [0]"
  using loaded_part [OF assms, of 0 8] loaded_part [OF assms, of 8 8] loaded_part [OF assms, of 16 8] loaded_part [OF assms, of 24 8]
    loaded_part [OF assms, of 32 "length path + 1"]
  by (simp_all add: member_def struct_defs layout_simps file_description_def)

lemma fragment_members:
  assumes "length pad = 4" and "load_bytes m msg (32 + length (snd f)) = fragment_message pad f"
  defines "fragment \<equiv> msg + of_nat (offsetof vy_netboot_message_t [''data''])"
  shows "member m msg vy_netboot_message_t [''cmd''] = le_bytes 4 CMD_FILE_FRAGMENT"
    "member m fragment vy_netboot_file_fragment_t [''fragment_id''] = le_bytes 8 (of_nat (fst f) :: u64)"
    "member m fragment vy_netboot_file_fragment_t [''data_len''] = le_bytes 8 (of_nat (length (snd f)) :: u64)"
    "load_bytes m (fragment + of_nat (offsetof vy_netboot_file_fragment_t [''data''])) (length (snd f)) = snd f"
  using loaded_part [OF assms(2), of 0 4] loaded_part [OF assms(2), of 16 8] loaded_part [OF assms(2), of 24 8]
    loaded_part [OF assms(2), of 32 "length (snd f)"] assms(1)
  by (simp_all add: member_def struct_defs layout_simps fragment_def fragment_message_def netboot_message_def add.assoc)

lemma udp_packet_members:
  assumes "load_bytes m p (62 + length dat) = frame_to L m0 dst d typ (udp_segment source_port dest_port chk dat)" and "length d = 6"
  shows "member m p udp_packet_t [''udp'', ''src_port''] = be_bytes16 source_port"
    "member m p udp_packet_t [''udp'', ''dest_port''] = be_bytes16 dest_port"
    "member m p udp_packet_t [''udp'', ''length''] = be_bytes16 (of_nat (8 + length dat))"
    "member m p udp_packet_t [''udp'', ''checksum''] = le_bytes 2 chk"
    "load_bytes m (p + of_nat (offsetof udp_packet_t [''data''])) (length dat) = dat"
proof -
  have "locate udp_packet_t [''udp'', ''src_port''] = Some (54, UInt 2)" "locate udp_packet_t [''udp'', ''dest_port''] = Some (56, UInt 2)"
    "locate udp_packet_t [''udp'', ''length''] = Some (58, UInt 2)" "locate udp_packet_t [''udp'', ''checksum''] = Some (60, UInt 2)"
    "offsetof udp_packet_t [''data''] = 62"
    by code_simp+
  then show "member m p udp_packet_t [''udp'', ''src_port''] = be_bytes16 source_port"
    "member m p udp_packet_t [''udp'', ''dest_port''] = be_bytes16 dest_port"
    "member m p udp_packet_t [''udp'', ''length''] = be_bytes16 (of_nat (8 + length dat))"
    "member m p udp_packet_t [''udp'', ''checksum''] = le_bytes 2 chk"
    "load_bytes m (p + of_nat (offsetof udp_packet_t [''data''])) (length dat) = dat"
    using loaded_part [OF assms(1), of 54 2] loaded_part [OF assms(1), of 56 2] loaded_part [OF assms(1), of 58 2] loaded_part [OF assms(1), of 60 2]
      loaded_part [OF assms(1), of 62 "length dat"] assms(2)
    by (simp_all add: member_def frame_to_def ip6_frame_def udp_segment_def)
qed

text \<open>A message is read as \<^verbatim>\<open>icmp6_header\<close> until its type is known, and then as \<^verbatim>\<open>icmp6_ndp\<close>.\<close>

lemma icmp6_prefix: "name \<in> {''type'', ''code'', ''checksum''} \<Longrightarrow> member m a icmp6_header [name] = member m a icmp6_ndp [name]"
  by (auto simp: member_def struct_defs layout_simps)

lemma reply_members:
  fixes m :: mem
  assumes "apart [(reply_local L, 32), (ip6_ll_addr L, 16), (ll_mac_addr L, 6)]"
  defines "m' \<equiv> neighbor_reply L m"
  shows "member m' (reply_local L) ndp_reply [''header'', ''type''] = [136]" "member m' (reply_local L) ndp_reply [''header'', ''flags''] = [0x60, 0, 0, 0]"
    "member m' (reply_local L) ndp_reply [''header'', ''target''] = load_bytes m (ip6_ll_addr L) 16"
    "member m' (reply_local L) ndp_reply [''options''] = [2, 1] @ load_bytes m (ll_mac_addr L) 6" "sizeof ndp_reply = 32"
proof -
  have F: "load_bytes m' (reply_local L) 32 = reply_bytes (load_bytes m (ip6_ll_addr L) 16) (load_bytes m (ll_mac_addr L) 6)"
    unfolding m'_def neighbor_reply_bytes [OF assms(1)]
    by (rule load_store_same) (simp_all add: reply_bytes_def)
  have "locate ndp_reply [''header'', ''type''] = Some (0, UInt 1)" "locate ndp_reply [''header'', ''flags''] = Some (4, UInt 4)"
    "locate ndp_reply [''header'', ''target''] = Some (8, Octets 16)" "locate ndp_reply [''options''] = Some (24, Octets 8)"
    by code_simp+
  then show "member m' (reply_local L) ndp_reply [''header'', ''type''] = [136]" "member m' (reply_local L) ndp_reply [''header'', ''flags''] = [0x60, 0, 0, 0]"
    "member m' (reply_local L) ndp_reply [''header'', ''target''] = load_bytes m (ip6_ll_addr L) 16"
    "member m' (reply_local L) ndp_reply [''options''] = [2, 1] @ load_bytes m (ll_mac_addr L) 6"
    using loaded_part [OF F, of 0 1] loaded_part [OF F, of 4 4] loaded_part [OF F, of 8 16] loaded_part [OF F, of 24 8]
    by (simp_all add: member_def reply_bytes_def)
  show "sizeof ndp_reply = 32" by code_simp
qed

text \<open>
  Four bytes of padding follow the command in the header of a netboot message.
\<close>

lemma message_offset: "NETBOOT_MSG_LEN n = of_nat (offsetof vy_netboot_message_t [''data'']) + n"
  by (simp add: NETBOOT_MSG_LEN_def struct_defs layout_simps)

text \<open>
  C13: What \<^verbatim>\<open>net_ip6_packet_setup\<close> leaves, member by member of \<^verbatim>\<open>ip6_packet_t\<close>: each
  member of the two headers holds what the sender means it to hold.
\<close>

theorem net_ip6_packet_members:
  assumes "setup_sep L mac p dst" and "net_ip6_packet_setup L mac m p dst len typ = (status, m')" and "mac_for L m dst = Some d"
  shows "member m' p ip6_packet_t [''eth'', ''h_dest''] = d \<and>
     member m' p ip6_packet_t [''eth'', ''h_source''] = load_bytes m (ll_mac_addr L) 6 \<and>
     member m' p ip6_packet_t [''eth'', ''h_protocol''] = [0x86, 0xDD] \<and>
     member m' p ip6_packet_t [''ip6'', ''ver_tc_flow''] = [0x60, 0, 0, 0] \<and>
     member m' p ip6_packet_t [''ip6'', ''length''] = be_bytes16 (ucast len) \<and>
     member m' p ip6_packet_t [''ip6'', ''next_header''] = [typ] \<and>
     member m' p ip6_packet_t [''ip6'', ''hop_limit''] = [255] \<and>
     member m' p ip6_packet_t [''ip6'', ''src'', ''s6_addr''] = load_bytes m (ip6_ll_addr L) 16 \<and>
     member m' p ip6_packet_t [''ip6'', ''dst'', ''s6_addr''] = load_bytes m dst 16"
proof -
  have F: "load_bytes m' p 54 = ip6_frame d (load_bytes m (ll_mac_addr L) 6) typ (ucast len) (load_bytes m (ip6_ll_addr L) 16) (load_bytes m dst 16)"
    using net_ip6_packet_setup_header [OF assms(1,2)] assms(3) by simp
  have d: "length d = 6" using assms(3) by (auto simp: mac_for_def split: if_splits)
  note part = loaded_part [OF F]
  have "locate ip6_packet_t [''eth'', ''h_dest''] = Some (0, Octets 6)" "locate ip6_packet_t [''eth'', ''h_source''] = Some (6, Octets 6)"
    "locate ip6_packet_t [''eth'', ''h_protocol''] = Some (12, UInt 2)" "locate ip6_packet_t [''ip6'', ''ver_tc_flow''] = Some (14, UInt 4)"
    "locate ip6_packet_t [''ip6'', ''length''] = Some (18, UInt 2)" "locate ip6_packet_t [''ip6'', ''next_header''] = Some (20, UInt 1)"
    "locate ip6_packet_t [''ip6'', ''hop_limit''] = Some (21, UInt 1)" "locate ip6_packet_t [''ip6'', ''src'', ''s6_addr''] = Some (22, Octets 16)"
    "locate ip6_packet_t [''ip6'', ''dst'', ''s6_addr''] = Some (38, Octets 16)"
    by code_simp+
  then show ?thesis
    using part [of 0 6] part [of 6 6] part [of 12 2] part [of 14 4] part [of 18 2] part [of 20 1] part [of 21 1] part [of 22 16] part [of 38 16] d
    by (simp add: member_def ip6_frame_def be_bytes16_def)
qed

theorem net_ip6_packet_members_witness:
  "member (snd (net_ip6_packet_setup sample_layout 0x2000 sample_net_mem 0x5008 0x1080 24 17)) 0x5008 ip6_packet_t [''eth'', ''h_dest''] =
     [0x33, 0x33, 0, 0, 0, 1] \<and>
   member (snd (net_ip6_packet_setup sample_layout 0x2000 sample_net_mem 0x5008 0x1080 24 17)) 0x5008 ip6_packet_t [''ip6'', ''length''] = [0, 24]"
  using net_ip6_packet_members [OF sample_setup_sep prod.collapse [symmetric] sample_mac_for, of 24 17] by (simp add: be_bytes16_def)

end
