(* ===== verification/Spec2Isabelle.thy ===== *)
theory Spec2Isabelle
  imports Start Layout
begin

text \<open>
  Verification of the vineyard boot loader, a UEFI application that loads an ELF
  kernel from the boot volume, after receiving it over the network when asked to.

  \<^bold>\<open>The program.\<close> \<^verbatim>\<open>efi_main\<close> (\<^verbatim>\<open>loader.c\<close>) prepares the processor and the console, and then either boots
  from disk or first runs the netboot client. The netboot client opens the network interface
  (\<^verbatim>\<open>net/net.c\<close>), sends and receives IPv6 packets (\<^verbatim>\<open>net/eth.c\<close>, \<^verbatim>\<open>net/ip6.c\<close>, \<^verbatim>\<open>net/icmp6.c\<close>,
  \<^verbatim>\<open>net/udp6.c\<close>) in buffers from a pool (\<^verbatim>\<open>net/bufpool.c\<close>) and speaks the netboot protocol (\<^verbatim>\<open>net/netboot.c\<close>),
  which stores files on the boot volume. Booting reads the kernel file (\<^verbatim>\<open>fs\<close>, \<^verbatim>\<open>loader/parse.c\<close>,
  \<^verbatim>\<open>elf/elf.c\<close>), loads its segments into fresh pages mapped by new page tables (\<^verbatim>\<open>loader/kernel.c\<close>,
  \<^verbatim>\<open>loader/paging.c\<close>), gathers boot information (\<^verbatim>\<open>boot\<close>) and jumps to the kernel. All parts print with
  \<^verbatim>\<open>efi_printf\<close> (\<^verbatim>\<open>print.c\<close>, \<^verbatim>\<open>lib/vcbprintf.c\<close>) and end on errors with \<^verbatim>\<open>EFIERR\<close> (\<^verbatim>\<open>uefi.h\<close>, \<^verbatim>\<open>uefi/error.c\<close>).

  \<^bold>\<open>The model.\<close> A run is a function from a machine state to either the reason why the
  program ended (\<open>halt\<close>: an exit with a status, a panic, a wait for a key that never comes, a reset, undefined
  behaviour) or a value and the new state (\<open>step\<close>, \<open>andthen\<close> in \<open>Prelude\<close>). The state is a record: memory as
  a function from 64-bit addresses to bytes (\<open>Memory\<close>), the state of the firmware, and the processor registers
  the loader writes; later components extend the record with their static variables (\<open>pool_machine\<close>,
  \<open>net_machine\<close>, \<open>netboot_machine\<close>). The other C objects live in memory at the offsets of their fields and
  integers have their width, so aliasing, wrap-around and overruns between objects in memory are those of the code. The static variables in the record
  (the pool's head and counter, the interface, the flags of \<^verbatim>\<open>net.c\<close>, \<^verbatim>\<open>_netboot_state\<close>) are outside this memory: a write that overruns its object, such as
  that of \<open>netboot_fragment_overruns\<close>, does not reach them in the model, while it can in the program. \<open>Protocol\<close> therefore speaks only of steps that spare the bytes of
  these variables (\<open>spares\<close>), and the theorems on transfers ask that the fragments fit the file. The
  firmware and its headers are not part of the repository: every service the code calls is a
  field of a parameter \<open>env\<close> (\<open>Firmware\<close>), and what a theorem relies on from it is a named
  hypothesis: \<open>alloc_ok\<close>, \<open>pool_ok\<close> and \<open>pages_left\<close> (memory), \<open>file_ok\<close> (reading an open file), \<open>pool_serves\<close> and \<open>volume_ok\<close> (receiving a file),
  \<open>database_ok\<close> (the handles), and for the run to the kernel \<open>boot_firmware_ok\<close>, which gathers those of memory, graphics and the memory map, and
  \<open>kernel_file\<close>: from the state in which the loader opens the kernel on, reading the opened file gives \<open>data\<close>. Nothing is asked of other files, or of the
  same file at other times, so what the netboot client has written before is covered. The addresses the linker
  and the compiler choose for globals, locals and string literals are parameters as well (\<open>globals\<close>, \<open>net_layout\<close>, \<open>literals\<close>); \<open>kernel_literal\<close>
  says that \<^verbatim>\<open>L"kernel"\<close> is in memory where the compiler put it.
  \<open>Sample_Firmware\<close> is a small firmware that meets the hypotheses; the witnesses run the code on it.

  \<^bold>\<open>Theories.\<close>
  \<^item> \<open>Prelude\<close>, \<open>Memory\<close>: runs, words, memory as bytes, little-endian integers (locale \<open>mem_cell\<close>, interpreted for 16, 32 and
    64 bits), regions and their disjointness.
  \<^item> \<open>CString\<close>: \<^verbatim>\<open>lib/string\<close>. \<open>Printf\<close>, \<open>Print\<close>: \<^verbatim>\<open>lib/vcbprintf.c\<close> and \<^verbatim>\<open>print.c\<close>; what each conversion prints, where the
    local arrays overflow, and how text reaches the console.
  \<^item> \<open>Firmware\<close>, \<open>Efi\<close>: status codes, error reports, allocation, \<^verbatim>\<open>uefi_key_wait\<close>.
  \<^item> \<open>Paging\<close>: \<^verbatim>\<open>loader/paging.c\<close>. The page tables are abstracted to the entry a processor walk finds for an
    address; mapping refines the update of one entry and keeps the tables well formed.
  \<^item> \<open>Elf\<close>, \<open>Kernel\<close>: \<^verbatim>\<open>elf/elf.c\<close>, \<^verbatim>\<open>loader/parse.c\<close>, \<^verbatim>\<open>fs/read.c\<close> and the segment loader of \<^verbatim>\<open>loader/kernel.c\<close>: every byte of
    every segment is where the file wants it.
  \<^item> \<open>Ucs2\<close>: \<^verbatim>\<open>uefi/ucs2.c\<close>.
  \<^item> \<open>Bufpool\<close>: \<^verbatim>\<open>net/bufpool.c\<close> refines a stack of free buffers (locale \<open>buffer_pool\<close>, interpreted on the code).
  \<^item> \<open>Checksum\<close>, \<open>Ip6\<close>: \<^verbatim>\<open>net/util.c\<close> and \<^verbatim>\<open>net/ip6.c\<close>: the checksum is the ones' complement sum, the header fields, the
    addresses derived from the MAC address.
  \<^item> \<open>Transport\<close>: sending over Ethernet, ICMPv6 and UDP: the frame that reaches the wire, and that no
    buffer is lost. \<open>Receive\<close>: the checks on received frames, the dispatch, the answers, and the
    round trip from \<^verbatim>\<open>net_udp6_send\<close> to the command handler.
  \<^item> \<open>Netboot\<close>, \<open>File_Transfer\<close>, \<open>Protocol\<close>: \<^verbatim>\<open>net/netboot.c\<close>: the messages, the transfer of a file as a refinement of
    an abstract receiver, the reachable states, and what a message can make the loader do.
  \<^item> \<open>Device_Path\<close>, \<open>Util\<close>: \<^verbatim>\<open>uefi/device-path.c\<close> and \<^verbatim>\<open>uefi/util.c\<close>: paths as encoded lists of nodes, their size, appending, the path of
    a file; reading a key.
  \<^item> \<open>Net\<close>: \<^verbatim>\<open>net/net.c\<close>: finding and opening the interface, the rounds of the poll loop, and that the boot command ends it.
  \<^item> \<open>Io\<close>: \<^verbatim>\<open>uefi/io.c\<close>, \<^verbatim>\<open>uefi/driver.c\<close>: the types of the handles, and which controllers the loop over all handles connects, in which order, while
    the database grows.
  \<^item> \<open>Boot\<close>: \<^verbatim>\<open>boot\<close>, \<^verbatim>\<open>fs/open.c\<close>, \<^verbatim>\<open>fs/utils.c\<close>: the mode that is set, the memory map and leaving the firmware.
  \<^item> \<open>Loader\<close>: \<^verbatim>\<open>loader_kernel\<close> of \<^verbatim>\<open>loader/kernel.c\<close>, \<^verbatim>\<open>uefi/init.c\<close> and \<^verbatim>\<open>loader.c\<close>: the registers after the set-up, and that the loader never
    returns to the firmware.
  \<^item> \<open>Handover\<close>: what the kernel finds at the jump. The results of \<open>Paging\<close>, \<open>Kernel\<close>, \<open>Boot\<close> and \<open>Loader\<close> are carried through all
    of \<^verbatim>\<open>loader_kernel\<close>: which later step may write where, which steps cannot jump, and the state at each stage.
  \<^item> \<open>Sample_Boot\<close>: a kernel file with one segment and a firmware with a volume of named files that can be read and written, the proof that both meet the hypotheses of
    \<open>Handover\<close>, and that the whole of \<^verbatim>\<open>loader_kernel\<close> runs on them to the jump (\<open>spends\<close>: a step that returns and uses
    at most so many pages).
  \<^item> \<open>Start\<close>: \<^verbatim>\<open>efi_main\<close> is \<open>until_kernel\<close> and then \<^verbatim>\<open>loader_kernel\<close>; no part of the loader but \<^verbatim>\<open>elf_jump_to_kernel\<close> enters the kernel, so the results of \<open>Handover\<close> hold of every run of
    \<^verbatim>\<open>efi_main\<close>; a complete run from \<^verbatim>\<open>efi_main\<close> to the kernel on the firmware of \<open>Sample_Boot\<close>.
  \<^item> \<open>Layout\<close>: the structures of the headers with the offsets the ABI gives their members. In every layout members lie
    inside their structure and apart from each other; what \<^verbatim>\<open>net_ip6_packet_setup\<close> leaves is stated member by member.

  \<^bold>\<open>Loops.\<close> Counted loops are \<open>for_from\<close> and always end. Loops that may not end are partial functions to \<open>option\<close>
  (\<open>strlen\<close>, \<open>efi_strlen\<close>, \<open>uefi_key_wait\<close>, \<open>uefi_to_ucs2\<close>, \<open>do_while\<close>), where \<open>None\<close> is a run without end, and theorems that such code
  returns are stated as such; \<open>repeat_run\<close> makes such a loop a step that ends with \<open>Hung\<close>. The loop over the program headers takes fuel that runs out only when the
  pointer wraps around the end of memory; \<open>phdr_loop_terminates\<close> gives the rounds it takes.

  \<^bold>\<open>Not modelled.\<close> The assembly stubs: the control and model-specific registers they access are fields of the state, and the
  jump into the kernel is the outcome \<open>Jumped\<close> with the three arguments of the stub. What the firmware does, and the headers that
  only declare functions.
\<close>

section \<open>From the kernel's file to the kernel\<close>





end
